(* ===== verification/Lighter_Prelude.thy ===== *)
theory Lighter_Prelude
  imports Main "HOL-Library.Word" "HOL-Library.Multiset"
begin

text \<open>
  The shared vocabulary of the development: Rust's machine integers as words, the outcome of a
  Rust call (a value, an error value, or a panic, which the release profile turns into an abort of
  the whole process), the integer operations of \<^verbatim>\<open>core::num\<close> that the code uses, and little-endian
  encoding, with the lemmas that every component shares. The release profile of \<^verbatim>\<open>Cargo.toml\<close> keeps
  the default \<open>overflow-checks = false\<close>, so the plain operators \<open>+\<close>, \<open>-\<close> and \<open>*\<close> of the source wrap,
  exactly as word arithmetic does; division and remainder by zero panic in every profile and are
  written out as such.
\<close>

unbundle bit_operations_syntax

named_theorems wire_simps "encoding and decoding of the wire formats"
named_theorems word_nat "moving word arithmetic to nat"

type_synonym u8 = "8 word"
type_synonym u16 = "16 word"
type_synonym u32 = "32 word"
type_synonym u64 = "64 word"
type_synonym usize = "64 word"
type_synonym bytes = "u8 list"

section \<open>Outcomes of a Rust call\<close>

text \<open>\<open>Panic\<close> stands for a panic and for \<^verbatim>\<open>std::process::abort\<close>: neither returns to the caller.\<close>

datatype ('e, 'a) result = Ok 'a | Err 'e | Panic

primrec result_bind :: "('e, 'a) result \<Rightarrow> ('a \<Rightarrow> ('e, 'b) result) \<Rightarrow> ('e, 'b) result" where
  "result_bind (Ok x) f = f x"
| "result_bind (Err e) f = Err e"
| "result_bind Panic f = Panic"

text \<open>\<^verbatim>\<open>Result::ok\<close>, \<^verbatim>\<open>is_ok_and\<close> and \<^verbatim>\<open>unwrap_or\<close> where the call cannot panic.\<close>

primrec result_ok :: "('e, 'a) result \<Rightarrow> 'a option" where
  "result_ok (Ok x) = Some x"
| "result_ok (Err e) = None"
| "result_ok Panic = None"

definition is_ok_and :: "('e, 'a) result \<Rightarrow> ('a \<Rightarrow> bool) \<Rightarrow> bool" where
  "is_ok_and r P = (case r of Ok x \<Rightarrow> P x | _ \<Rightarrow> False)"

lemma is_ok_and_simps [simp]:
  "is_ok_and (Ok x) P = P x"
  "is_ok_and (Err e) P = False"
  "is_ok_and Panic P = False"
  by (simp_all add: is_ok_and_def)

lemma result_bind_Ok_iff [simp]:
  "result_bind r f = Ok y \<longleftrightarrow> (\<exists>x. r = Ok x \<and> f x = Ok y)"
  by (cases r) auto

lemma result_bind_Err_iff:
  "result_bind r f = Err e \<longleftrightarrow> r = Err e \<or> (\<exists>x. r = Ok x \<and> f x = Err e)"
  by (cases r) auto

lemma result_bind_Panic_iff:
  "result_bind r f = Panic \<longleftrightarrow> r = Panic \<or> (\<exists>x. r = Ok x \<and> f x = Panic)"
  by (cases r) auto

text \<open>A call that may also never return: \<open>None\<close>.\<close>

type_synonym ('e, 'a) run = "('e, 'a) result option"

definition run_bind :: "('e, 'a) run \<Rightarrow> ('a \<Rightarrow> ('e, 'b) run) \<Rightarrow> ('e, 'b) run" where
  "run_bind r f = Option.bind r (\<lambda>x. case x of Ok y \<Rightarrow> f y | Err e \<Rightarrow> Some (Err e) | Panic \<Rightarrow> Some Panic)"

lemma run_bind_simps [simp]:
  "run_bind None f = None" "run_bind (Some (Ok x)) f = f x"
  "run_bind (Some (Err e)) f = Some (Err e)" "run_bind (Some Panic) f = Some Panic"
  by (simp_all add: run_bind_def)

lemma run_bind_Ok_iff [simp]:
  "run_bind r f = Some (Ok y) \<longleftrightarrow> (\<exists>x. r = Some (Ok x) \<and> f x = Some (Ok y))"
  by (cases r) (auto simp: run_bind_def split: result.splits)

text \<open>What a call that returns a value promises of it.\<close>

definition yields :: "('a \<Rightarrow> bool) \<Rightarrow> ('e, 'a) run \<Rightarrow> bool" where
  "yields P r \<longleftrightarrow> (\<forall>x. r = Some (Ok x) \<longrightarrow> P x)"

lemma yields_ok: "yields P (Some (Ok x)) = P x"
  by (simp add: yields_def)

lemma yields_if: "yields P a \<Longrightarrow> yields P b \<Longrightarrow> yields P (if c then a else b)"
  by simp

lemma yields_if_cond: "(c \<Longrightarrow> yields P a) \<Longrightarrow> (\<not> c \<Longrightarrow> yields P b) \<Longrightarrow> yields P (if c then a else b)"
  by simp

lemma run_bind_Panic_iff:
  "run_bind r f = Some Panic \<longleftrightarrow> r = Some Panic \<or> (\<exists>x. r = Some (Ok x) \<and> f x = Some Panic)"
  by (cases r) (auto simp: run_bind_def split: result.splits)

lemma run_bind_mono [partial_function_mono]:
  assumes "mono_option B" "\<And>y. mono_option (\<lambda>f. C y f)"
  shows "mono_option (\<lambda>f. run_bind (B f) (\<lambda>y. C y f))"
proof -
  have "mono_option (\<lambda>f. case x of Ok y \<Rightarrow> C y f | Err e \<Rightarrow> Some (Err e) | Panic \<Rightarrow> Some Panic)" for x
    by (cases x) (simp_all add: assms(2) option.const_mono)
  then show ?thesis
    unfolding run_bind_def by (rule bind_mono [OF assms(1)])
qed

lemma result_ok_Some [simp]: "result_ok r = Some x \<longleftrightarrow> r = Ok x"
  by (cases r) auto

section \<open>Integer operations\<close>

definition checked_add :: "'a::len word \<Rightarrow> 'a word \<Rightarrow> 'a word option" where
  "checked_add a b = (if unat a + unat b < 2 ^ LENGTH('a) then Some (a + b) else None)"

definition saturating_sub :: "'a::len word \<Rightarrow> 'a word \<Rightarrow> 'a word" where
  "saturating_sub a b = (if b \<le> a then a - b else 0)"

definition saturating_add :: "'a::len word \<Rightarrow> 'a word \<Rightarrow> 'a word" where
  "saturating_add a b = (if unat a + unat b < 2 ^ LENGTH('a) then a + b else - 1)"

definition is_multiple_of :: "'a::len word \<Rightarrow> 'a word \<Rightarrow> bool" where
  "is_multiple_of a b = (if b = 0 then a = 0 else a mod b = 0)"

definition is_power_of_two :: "'a::len word \<Rightarrow> bool" where
  "is_power_of_two x \<longleftrightarrow> x \<noteq> 0 \<and> x AND (x - 1) = 0"

lemma unat_add_no_wrap [word_nat]:
  fixes a b :: "'a::len word"
  assumes "unat a + unat b < 2 ^ LENGTH('a)"
  shows "unat (a + b) = unat a + unat b"
  using assms by (simp add: unat_word_ariths)

lemma unat_sub_le [word_nat]:
  fixes a b :: "'a::len word"
  shows "b \<le> a \<Longrightarrow> unat (a - b) = unat a - unat b"
  by (simp add: unat_sub)

lemma checked_add_Some:
  fixes a b :: "'a::len word"
  shows "checked_add a b = Some c \<longleftrightarrow> unat a + unat b < 2 ^ LENGTH('a) \<and> c = a + b"
  by (auto simp: checked_add_def)

lemma checked_add_None:
  fixes a b :: "'a::len word"
  shows "checked_add a b = None \<longleftrightarrow> 2 ^ LENGTH('a) \<le> unat a + unat b"
  by (auto simp: checked_add_def not_less)

lemma unat_saturating_sub [word_nat]: "unat (saturating_sub a b) = unat a - unat b"
  by (auto simp: saturating_sub_def unat_sub word_le_nat_alt)

lemma unat_saturating_add [word_nat]:
  fixes a b :: "'a::len word"
  shows "unat (saturating_add a b) = min (unat a + unat b) (2 ^ LENGTH('a) - 1)"
proof -
  have "unat (- 1 :: 'a word) = 2 ^ LENGTH('a) - 1"
    by (simp add: unsigned_minus_1_eq_mask mask_eq_exp_minus_1)
  then show ?thesis
    by (auto simp: saturating_add_def unat_add_no_wrap)
qed

lemma unat_lt2p: "unat (x :: 'a::len word) < 2 ^ LENGTH('a)"
  by (rule unsigned_less)

lemma unat_lt_8: "unat (x :: u8) < 256"
  using unat_lt2p [of x] by simp

lemma unat_lt_16: "unat (x :: u16) < 65536"
  using unat_lt2p [of x] by simp

lemma unat_lt_32: "unat (x :: u32) < 4294967296"
  using unat_lt2p [of x] by simp

lemma unat_lt_64: "unat (x :: u64) < 18446744073709551616"
  using unat_lt2p [of x] by simp

lemma unat_ucast_16_64 [simp]: "unat (ucast (x :: u16) :: u64) = unat x"
  using unat_lt_16 [of x] by (simp add: unsigned_ucast_eq take_bit_eq_mod)

lemma unat_ucast_16_32 [simp]: "unat (ucast (x :: u16) :: u32) = unat x"
  using unat_lt_16 [of x] by (simp add: unsigned_ucast_eq take_bit_eq_mod)

lemma unat_ucast_32_64 [simp]: "unat (ucast (x :: u32) :: u64) = unat x"
  using unat_lt_32 [of x] by (simp add: unsigned_ucast_eq take_bit_eq_mod)

section \<open>Little-endian bytes\<close>

fun le_nat :: "bytes \<Rightarrow> nat" where
  "le_nat [] = 0"
| "le_nat (b # bs) = unat b + 256 * le_nat bs"

fun nat_le :: "nat \<Rightarrow> nat \<Rightarrow> bytes" where
  "nat_le 0 v = []"
| "nat_le (Suc n) v = of_nat (v mod 256) # nat_le n (v div 256)"

definition from_le_bytes :: "bytes \<Rightarrow> 'a::len word" where
  "from_le_bytes bs = of_nat (le_nat bs)"

definition to_le_bytes :: "'a::len word \<Rightarrow> bytes" where
  "to_le_bytes x = nat_le (LENGTH('a) div 8) (unat x)"

lemma length_nat_le [simp]: "length (nat_le n v) = n"
  by (induction n arbitrary: v) auto

lemma le_nat_nat_le: "le_nat (nat_le n v) = v mod 256 ^ n"
proof (induction n arbitrary: v)
  case 0
  then show ?case by simp
next
  case (Suc n)
  have "unat (of_nat (v mod 256) :: u8) = v mod 256"
    by (simp add: unat_of_nat)
  then show ?case
    by (simp add: Suc mod_mult2_eq)
qed

lemma le_nat_bound: "le_nat bs < 256 ^ length bs"
proof (induction bs)
  case Nil
  then show ?case by simp
next
  case (Cons b bs)
  have "unat b < 256"
    by (rule unat_lt_8)
  with Cons show ?case by simp
qed

lemma nat_le_le_nat: "nat_le (length bs) (le_nat bs) = bs"
proof (induction bs)
  case Nil
  then show ?case by simp
next
  case (Cons b bs)
  have "unat b < 256"
    by (rule unat_lt_8)
  with Cons show ?case by simp
qed

lemma length_to_le_bytes [simp]: "length (to_le_bytes (x :: 'a::len word)) = LENGTH('a) div 8"
  by (simp add: to_le_bytes_def)

lemma from_to_le_16 [simp, wire_simps]: "from_le_bytes (to_le_bytes (x :: u16)) = x"
  using unat_lt_16 [of x] by (simp add: from_le_bytes_def to_le_bytes_def le_nat_nat_le)

lemma from_to_le_32 [simp, wire_simps]: "from_le_bytes (to_le_bytes (x :: u32)) = x"
  using unat_lt_32 [of x] by (simp add: from_le_bytes_def to_le_bytes_def le_nat_nat_le)

lemma from_to_le_64 [simp, wire_simps]: "from_le_bytes (to_le_bytes (x :: u64)) = x"
  using unat_lt_64 [of x] by (simp add: from_le_bytes_def to_le_bytes_def le_nat_nat_le)

lemma to_from_le_bytes:
  assumes "length bs = LENGTH('a::len) div 8" and "256 ^ length bs = (2::nat) ^ LENGTH('a)"
  shows "to_le_bytes (from_le_bytes bs :: 'a word) = bs"
proof -
  have "unat (from_le_bytes bs :: 'a word) = le_nat bs"
    using le_nat_bound [of bs] assms(2)
    by (simp add: from_le_bytes_def unat_of_nat)
  then show ?thesis
    using assms(1) nat_le_le_nat [of bs] by (simp add: to_le_bytes_def)
qed

section \<open>Slices\<close>

text \<open>\<^verbatim>\<open>&v[off..off + n]\<close>, where the range is known to be inside the slice.\<close>

definition slice_at :: "nat \<Rightarrow> nat \<Rightarrow> 'a list \<Rightarrow> 'a list" where
  "slice_at off n xs = take n (drop off xs)"

text \<open>\<^verbatim>\<open>iter().position(P)\<close>: the first index whose element satisfies \<open>P\<close>.\<close>

fun find_index :: "('a \<Rightarrow> bool) \<Rightarrow> 'a list \<Rightarrow> nat option" where
  "find_index P [] = None"
| "find_index P (x # xs) = (if P x then Some 0 else map_option Suc (find_index P xs))"

lemma find_index_Some:
  "find_index P xs = Some i \<Longrightarrow> i < length xs \<and> P (xs ! i)"
  by (induction xs arbitrary: i) (auto split: if_splits)

lemma find_index_None [simp]: "find_index P xs = None \<longleftrightarrow> (\<forall>x \<in> set xs. \<not> P x)"
  by (induction xs) auto

lemma find_index_cong:
  "map P xs = map Q ys \<Longrightarrow> find_index P xs = find_index Q ys"
  by (induction xs arbitrary: ys) auto

lemma length_slice_at [simp]: "off + n \<le> length xs \<Longrightarrow> length (slice_at off n xs) = n"
  by (simp add: slice_at_def)

lemma slice_at_append1 [wire_simps]:
  "off + n \<le> length xs \<Longrightarrow> slice_at off n (xs @ ys) = slice_at off n xs"
  by (simp add: slice_at_def)

lemma slice_at_append2 [wire_simps]:
  "length xs \<le> off \<Longrightarrow> slice_at off n (xs @ ys) = slice_at (off - length xs) n ys"
  by (simp add: slice_at_def)

lemma slice_at_0_self [wire_simps]: "n = length xs \<Longrightarrow> slice_at 0 n xs = xs"
  by (simp add: slice_at_def)

section \<open>Lists whose elements own addresses\<close>

lemma one_in_filter:
  assumes "length (filter P xs) \<le> 1" "i < length xs" "j < length xs" "P (xs ! i)" "P (xs ! j)"
  shows "i = j"
proof (rule ccontr)
  assume "i \<noteq> j"
  then have "card {i, j} \<le> card {k. k < length xs \<and> P (xs ! k)}"
    using assms by (intro card_mono) auto
  with \<open>i \<noteq> j\<close> assms(1) show False by (simp add: length_filter_conv_card)
qed

lemma filter_length_cong:
  "map P xs = map Q ys \<Longrightarrow> length (filter P xs) = length (filter Q ys)"
  by (induction xs arbitrary: ys) auto

lemma sort_key_filter_length:
  "length (filter P (sort_key f xs)) = length (filter P xs)"
  by (metis mset_filter mset_sort size_mset)

end
