(* ===== verification/Guest_Memory.thy ===== *)
theory Guest_Memory
  imports Lighter_Prelude "HOL-Library.Product_Lexorder"
begin

text \<open>
  Guest physical memory (\<^verbatim>\<open>crates/lighter-vmm/src/memory.rs\<close>): the regions of RAM, the bounds check
  in front of every access, demand-backed regions whose host pages appear at first touch, prefix
  publication of a hotplug range, and the release of free pages back to the host.

  The bytes of guest RAM are one function from guest-physical addresses; what a region adds is
  which addresses may be touched and whether their backing exists yet. The hypervisor and the
  host's virtual memory are not part of the sources: they are the record \<open>host\<close> of the status codes
  their calls return, an argument of every operation that makes such a call. The mutexes make each
  preparation of a chunk one critical section, so the model runs it as one step.
\<close>

section \<open>State\<close>

datatype memory_error =
    Detached
  | OutOfBounds u64 usize
  | Mmap usize int
  | OwnedMapping int
  | HvMap int
  | Overlap u64
  | Unaligned u64 usize usize

text \<open>
  What the host answers: \<^verbatim>\<open>mmap\<close> (an errno or a pointer), one page of \<^verbatim>\<open>mach_vm_allocate\<close> (0 is
  success), \<^verbatim>\<open>Vm::map\<close> and \<^verbatim>\<open>Vm::unmap\<close> (\<open>None\<close> is success), and the page size.
\<close>

record host =
  host_mmap :: "usize \<Rightarrow> int + usize"
  mach_vm_allocate :: "u64 \<Rightarrow> u64 \<Rightarrow> int"
  vm_map :: "usize \<Rightarrow> u64 \<Rightarrow> usize \<Rightarrow> int option"
  vm_unmap :: "u64 \<Rightarrow> usize \<Rightarrow> int option"
  host_page_size :: u64

record demand =
  dem_ready :: "bool list"
  dem_complete :: bool

record region =
  r_gpa :: u64
  r_len :: usize
  r_host :: usize
  r_deferred :: "usize option"
  r_demand :: "demand option"

text \<open>\<open>gm_vm\<close> says whether a VM is attached; \<open>gm_bytes\<close> is what the backing holds.\<close>

record guest_memory =
  gm_vm :: bool
  gm_regions :: "region list"
  gm_bytes :: "u64 \<Rightarrow> u8"

definition HOST_PAGE :: usize where
  "HOST_PAGE = 16 * 1024"

definition DEMAND_CHUNK :: nat where
  "DEMAND_CHUNK = 262144"

definition gm_new :: guest_memory where
  "gm_new = \<lparr>gm_vm = True, gm_regions = [], gm_bytes = (\<lambda>_. 0)\<rparr>"

definition gm_detached :: guest_memory where
  "gm_detached = \<lparr>gm_vm = False, gm_regions = [], gm_bytes = (\<lambda>_. 0)\<rparr>"

section \<open>Operations\<close>

definition region_ready :: "region \<Rightarrow> usize" where
  "region_ready r = (case r_deferred r of None \<Rightarrow> r_len r | Some d \<Rightarrow> d)"

definition region_contains :: "region \<Rightarrow> u64 \<Rightarrow> usize \<Rightarrow> bool" where
  "region_contains r gpa len =
     (case checked_add gpa len of
        None \<Rightarrow> False
      | Some e \<Rightarrow> r_gpa r \<le> gpa \<and> e \<le> r_gpa r + region_ready r)"

definition host_addr :: "region \<Rightarrow> u64 \<Rightarrow> usize" where
  "host_addr r gpa = r_host r + (gpa - r_gpa r)"

text \<open>The pages a call to \<^verbatim>\<open>replace_owned_pages\<close> steps over: \<^verbatim>\<open>(0..len).step_by(page)\<close>.\<close>

definition owned_page_offsets :: "u64 \<Rightarrow> usize \<Rightarrow> u64 list" where
  "owned_page_offsets page len =
     map (\<lambda>k. of_nat k * page) [0 ..< (unat len + unat page - 1) div unat page]"

fun allocate_each :: "host \<Rightarrow> u64 \<Rightarrow> u64 list \<Rightarrow> int" where
  "allocate_each h ptr [] = 0"
| "allocate_each h ptr (off # offs) =
     (let r = mach_vm_allocate h (ptr + off) (host_page_size h)
      in if r \<noteq> 0 then r else allocate_each h ptr offs)"

definition replace_owned_pages :: "host \<Rightarrow> usize \<Rightarrow> usize \<Rightarrow> (memory_error, unit) result" where
  "replace_owned_pages h ptr len =
     (if host_page_size h = 0 then Panic
      else let r = allocate_each h ptr (owned_page_offsets (host_page_size h) len)
           in if r \<noteq> 0 then Err (OwnedMapping r) else Ok ())"

text \<open>Reading and replacing a span of bytes.\<close>

definition span_of :: "(u64 \<Rightarrow> u8) \<Rightarrow> u64 \<Rightarrow> nat \<Rightarrow> bytes" where
  "span_of f gpa n = map (\<lambda>k. f (gpa + of_nat k)) [0 ..< n]"

definition put_span :: "(u64 \<Rightarrow> u8) \<Rightarrow> u64 \<Rightarrow> bytes \<Rightarrow> u64 \<Rightarrow> u8" where
  "put_span f gpa bs = (\<lambda>a. if unat (a - gpa) < length bs then bs ! unat (a - gpa) else f a)"

definition zero_span :: "(u64 \<Rightarrow> u8) \<Rightarrow> u64 \<Rightarrow> nat \<Rightarrow> u64 \<Rightarrow> u8" where
  "zero_span f gpa n = (\<lambda>a. if unat (a - gpa) < n then 0 else f a)"

definition regions_overlap :: "region list \<Rightarrow> u64 \<Rightarrow> u64 \<Rightarrow> bool" where
  "regions_overlap rs gpa e = (\<exists>r \<in> set rs. gpa < r_gpa r + r_len r \<and> r_gpa r < e)"

definition insert_region :: "region \<Rightarrow> guest_memory \<Rightarrow> guest_memory" where
  "insert_region r m = m\<lparr>gm_regions := sort_key r_gpa (gm_regions m @ [r])\<rparr>"

definition mmap_reserve :: "host \<Rightarrow> usize \<Rightarrow> (memory_error, usize) result" where
  "mmap_reserve h len = (case host_mmap h len of Inl e \<Rightarrow> Err (Mmap len e) | Inr p \<Rightarrow> Ok p)"

definition mmap_anonymous :: "host \<Rightarrow> usize \<Rightarrow> (memory_error, usize) result" where
  "mmap_anonymous h len =
     result_bind (mmap_reserve h len) (\<lambda>p.
     result_bind (replace_owned_pages h p len) (\<lambda>_. Ok p))"

definition add_region :: "host \<Rightarrow> guest_memory \<Rightarrow> u64 \<Rightarrow> usize \<Rightarrow> (memory_error, guest_memory) result" where
  "add_region h m gpa len =
     (if \<not> gm_vm m then Err Detached
      else if regions_overlap (gm_regions m) gpa (gpa + len) then Err (Overlap gpa)
      else result_bind (mmap_anonymous h len) (\<lambda>p.
        case vm_map h p gpa len of
          Some e \<Rightarrow> Err (HvMap e)
        | None \<Rightarrow>
            Ok (insert_region
                  \<lparr>r_gpa = gpa, r_len = len, r_host = p, r_deferred = None, r_demand = None\<rparr>
                  (m\<lparr>gm_bytes := zero_span (gm_bytes m) gpa (unat len)\<rparr>))))"

text \<open>\<^verbatim>\<open>map_foreign\<close> tracks nothing: its outcome is all there is to it.\<close>

definition map_foreign :: "host \<Rightarrow> guest_memory \<Rightarrow> u64 \<Rightarrow> usize \<Rightarrow> usize \<Rightarrow> (memory_error, unit) result" where
  "map_foreign h m gpa ptr len =
     (if \<not> gm_vm m then Err Detached
      else if \<not> is_multiple_of gpa HOST_PAGE \<or> \<not> is_multiple_of len HOST_PAGE
              \<or> \<not> is_multiple_of ptr HOST_PAGE
      then Err (Unaligned gpa len ptr)
      else case checked_add gpa len of
        None \<Rightarrow> Err (OutOfBounds gpa len)
      | Some e \<Rightarrow>
          if regions_overlap (gm_regions m) gpa e then Err (Overlap gpa)
          else case vm_map h ptr gpa len of Some s \<Rightarrow> Err (HvMap s) | None \<Rightarrow> Ok ())"

definition reserve_region :: "host \<Rightarrow> guest_memory \<Rightarrow> u64 \<Rightarrow> usize \<Rightarrow> (memory_error, guest_memory) result" where
  "reserve_region h m gpa len =
     (if \<not> gm_vm m then Err Detached
      else case checked_add gpa len of
        None \<Rightarrow> Err (OutOfBounds gpa len)
      | Some e \<Rightarrow>
          if regions_overlap (gm_regions m) gpa e then Err (Overlap gpa)
          else result_bind (mmap_reserve h len) (\<lambda>p.
            Ok (insert_region
                  \<lparr>r_gpa = gpa, r_len = len, r_host = p, r_deferred = Some 0, r_demand = None\<rparr> m)))"

definition set_region :: "guest_memory \<Rightarrow> nat \<Rightarrow> region \<Rightarrow> guest_memory" where
  "set_region m i r = m\<lparr>gm_regions := (gm_regions m)[i := r]\<rparr>"

text \<open>The chunks of a demand region: \<^verbatim>\<open>len.div_ceil(DEMAND_CHUNK)\<close> of them, none backed. Their bytes
  are what fresh pages hold, zero.\<close>

definition reserve_demand_region ::
  "host \<Rightarrow> guest_memory \<Rightarrow> u64 \<Rightarrow> usize \<Rightarrow> (memory_error, guest_memory) result" where
  "reserve_demand_region h m gpa len =
     result_bind (reserve_region h m gpa len) (\<lambda>m'.
       case find_index (\<lambda>r. r_gpa r = gpa) (gm_regions m') of
         None \<Rightarrow> Panic
       | Some i \<Rightarrow>
           Ok ((set_region m' i ((gm_regions m' ! i)\<lparr>r_deferred := None,
                 r_demand := Some \<lparr>dem_ready = replicate ((unat len + DEMAND_CHUNK - 1) div DEMAND_CHUNK) False,
                                   dem_complete = False\<rparr>\<rparr>))
               \<lparr>gm_bytes := zero_span (gm_bytes m') gpa (unat len)\<rparr>))"

definition chunk_gpa :: "region \<Rightarrow> nat \<Rightarrow> u64" where
  "chunk_gpa r index = r_gpa r + of_nat (index * DEMAND_CHUNK)"

definition chunk_len :: "region \<Rightarrow> nat \<Rightarrow> nat" where
  "chunk_len r index = min DEMAND_CHUNK (unat (r_len r) - index * DEMAND_CHUNK)"

definition prepare_demand_chunk ::
  "host \<Rightarrow> guest_memory \<Rightarrow> nat \<Rightarrow> nat \<Rightarrow> (memory_error, guest_memory \<times> bool) result" where
  "prepare_demand_chunk h m i index =
     (let r = gm_regions m ! i in
      case r_demand r of
        None \<Rightarrow> Panic
      | Some d \<Rightarrow>
          if length (dem_ready d) \<le> index then Panic
          else if dem_ready d ! index then Ok (m, False)
          else
            let gpa = chunk_gpa r index; len = of_nat (chunk_len r index); addr = host_addr r gpa in
            case replace_owned_pages h addr len of
              Err e \<Rightarrow> Panic
            | Panic \<Rightarrow> Panic
            | Ok _ \<Rightarrow>
                if \<not> gm_vm m then Panic
                else case vm_map h addr gpa len of
                  Some e \<Rightarrow> Panic
                | None \<Rightarrow>
                    Ok ((set_region m i (r\<lparr>r_demand := Some (d\<lparr>dem_ready := (dem_ready d)[index := True]\<rparr>)\<rparr>))
                          \<lparr>gm_bytes := zero_span (gm_bytes m) gpa (chunk_len r index)\<rparr>, True))"

fun prepare_chunks :: "host \<Rightarrow> guest_memory \<Rightarrow> nat \<Rightarrow> nat list \<Rightarrow> (memory_error, guest_memory) result" where
  "prepare_chunks h m i [] = Ok m"
| "prepare_chunks h m i (k # ks) =
     result_bind (prepare_demand_chunk h m i k) (\<lambda>(m', _). prepare_chunks h m' i ks)"

text \<open>The worker's pass over one region: it stops where the shutdown flag is seen, which the list of
  flag values read before each chunk says.\<close>

fun prepare_rest :: "host \<Rightarrow> guest_memory \<Rightarrow> nat \<Rightarrow> (nat \<Rightarrow> bool) \<Rightarrow> nat list \<Rightarrow> (memory_error, guest_memory \<times> bool) result" where
  "prepare_rest h m i shutdown [] = Ok (m, True)"
| "prepare_rest h m i shutdown (k # ks) =
     (if shutdown k then Ok (m, False)
      else result_bind (prepare_demand_chunk h m i k) (\<lambda>(m', _). prepare_rest h m' i shutdown ks))"

definition region_demand_pending :: "region \<Rightarrow> bool" where
  "region_demand_pending r = (case r_demand r of None \<Rightarrow> False | Some d \<Rightarrow> \<not> dem_complete d)"

fun prepare_remaining ::
  "host \<Rightarrow> guest_memory \<Rightarrow> (nat \<Rightarrow> nat \<Rightarrow> bool) \<Rightarrow> nat list \<Rightarrow> (memory_error, guest_memory) result" where
  "prepare_remaining h m shutdown [] = Ok m"
| "prepare_remaining h m shutdown (i # is) =
     (let r = gm_regions m ! i in
      case r_demand r of
        None \<Rightarrow> prepare_remaining h m shutdown is
      | Some d \<Rightarrow>
          if dem_complete d then prepare_remaining h m shutdown is
          else result_bind (prepare_rest h m i (shutdown i) [0 ..< length (dem_ready d)]) (\<lambda>(m', finished).
            if \<not> finished then Ok m'
            else
              let r' = gm_regions m' ! i in
              prepare_remaining h
                (set_region m' i (r'\<lparr>r_demand := map_option (dem_complete_update (\<lambda>_. True)) (r_demand r')\<rparr>))
                shutdown is))"

definition prepare_next :: "host \<Rightarrow> guest_memory \<Rightarrow> u64 \<Rightarrow> usize \<Rightarrow> (memory_error, guest_memory \<times> usize) result" where
  "prepare_next h m gpa amount =
     (case find_index (\<lambda>r. r_gpa r = gpa) (gm_regions m) of
        None \<Rightarrow> Err (OutOfBounds gpa amount)
      | Some i \<Rightarrow>
          let r = gm_regions m ! i in
          case r_deferred r of
            None \<Rightarrow> Err (OutOfBounds gpa amount)
          | Some start \<Rightarrow>
              let e = min (saturating_add start amount) (r_len r); page = host_page_size h in
              if e = start then Ok (m, e)
              else if \<not> is_multiple_of start page \<or> \<not> is_multiple_of e page
              then Err (OutOfBounds gpa amount)
              else
                let addr = host_addr r (gpa + start) in
                result_bind (replace_owned_pages h addr (e - start)) (\<lambda>_.
                  if \<not> gm_vm m then Err Detached
                  else case vm_map h addr (gpa + start) (e - start) of
                    Some s \<Rightarrow> Err (HvMap s)
                  | None \<Rightarrow>
                      Ok ((set_region m i (r\<lparr>r_deferred := Some e\<rparr>))
                            \<lparr>gm_bytes := zero_span (gm_bytes m) (gpa + start) (unat (e - start))\<rparr>, e)))"

definition gm_len :: "guest_memory \<Rightarrow> usize" where
  "gm_len m = sum_list (map r_len (gm_regions m))"

definition region_for_release :: "guest_memory \<Rightarrow> u64 \<Rightarrow> usize \<Rightarrow> (memory_error, nat) result" where
  "region_for_release m gpa len =
     (case find_index (\<lambda>r. region_contains r gpa len) (gm_regions m) of
        None \<Rightarrow> Err (OutOfBounds gpa len)
      | Some i \<Rightarrow> Ok i)"

definition touched_chunks :: "region \<Rightarrow> u64 \<Rightarrow> usize \<Rightarrow> nat list" where
  "touched_chunks r gpa len =
     [unat (gpa - r_gpa r) div DEMAND_CHUNK ..<
      Suc ((unat (gpa - r_gpa r) + unat len - 1) div DEMAND_CHUNK)]"

definition region_for ::
  "host \<Rightarrow> guest_memory \<Rightarrow> u64 \<Rightarrow> usize \<Rightarrow> (memory_error, guest_memory \<times> nat) result" where
  "region_for h m gpa len =
     result_bind (region_for_release m gpa len) (\<lambda>i.
       let r = gm_regions m ! i in
       if region_demand_pending r \<and> len \<noteq> 0
       then result_bind (prepare_chunks h m i (touched_chunks r gpa len)) (\<lambda>m'. Ok (m', i))
       else Ok (m, i))"

definition gm_read :: "host \<Rightarrow> guest_memory \<Rightarrow> u64 \<Rightarrow> usize \<Rightarrow> (memory_error, guest_memory \<times> bytes) result" where
  "gm_read h m gpa n =
     result_bind (region_for h m gpa n) (\<lambda>(m', i). Ok (m', span_of (gm_bytes m') gpa (unat n)))"

definition gm_write :: "host \<Rightarrow> guest_memory \<Rightarrow> u64 \<Rightarrow> bytes \<Rightarrow> (memory_error, guest_memory) result" where
  "gm_write h m gpa bs =
     result_bind (region_for h m gpa (of_nat (length bs))) (\<lambda>(m', i).
       Ok (m'\<lparr>gm_bytes := put_span (gm_bytes m') gpa bs\<rparr>))"

definition gm_zero :: "host \<Rightarrow> guest_memory \<Rightarrow> u64 \<Rightarrow> usize \<Rightarrow> (memory_error, guest_memory) result" where
  "gm_zero h m gpa n =
     result_bind (region_for h m gpa n) (\<lambda>(m', i).
       Ok (m'\<lparr>gm_bytes := zero_span (gm_bytes m') gpa (unat n)\<rparr>))"

definition host_span :: "host \<Rightarrow> guest_memory \<Rightarrow> u64 \<Rightarrow> usize \<Rightarrow> (memory_error, guest_memory \<times> usize) result" where
  "host_span h m gpa n =
     result_bind (region_for h m gpa n) (\<lambda>(m', i). Ok (m', host_addr (gm_regions m' ! i) gpa))"

text \<open>
  \<^verbatim>\<open>release_backed\<close>: the guest mapping goes first (a failure there discards nothing), then the
  backing is replaced by fresh pages, then the guest mapping is restored; a failure of the last two
  aborts. The release operations return the memory beside their outcome, because an error in a later
  span leaves the earlier ones released.
\<close>

definition release_backed ::
  "host \<Rightarrow> guest_memory \<Rightarrow> nat \<Rightarrow> u64 \<Rightarrow> u64 \<Rightarrow> guest_memory \<times> (memory_error, u64) result" where
  "release_backed h m i start e =
     (let span = e - start; addr = host_addr (gm_regions m ! i) start in
      case (if gm_vm m then vm_unmap h start span else None) of
        Some s \<Rightarrow> (m, Err (HvMap s))
      | None \<Rightarrow>
          case replace_owned_pages h addr span of
            Err x \<Rightarrow> (m, Panic)
          | Panic \<Rightarrow> (m, Panic)
          | Ok _ \<Rightarrow>
              case (if gm_vm m then vm_map h addr start span else None) of
                Some s \<Rightarrow> (m, Panic)
              | None \<Rightarrow> (m\<lparr>gm_bytes := zero_span (gm_bytes m) start (unat span)\<rparr>, Ok span))"

lemma chunk_end_above: "at < Suc (at div DEMAND_CHUNK) * DEMAND_CHUNK"
  using dividend_less_div_times [of DEMAND_CHUNK at] by (simp add: DEMAND_CHUNK_def)

text \<open>The walk of \<^verbatim>\<open>release\<close> over the chunks of a demand region that is still being prepared; \<open>at\<close> and
  \<open>e\<close> as offsets into the region, so that the measure is a natural number.\<close>

function release_chunks ::
  "host \<Rightarrow> guest_memory \<Rightarrow> nat \<Rightarrow> nat \<Rightarrow> nat \<Rightarrow> u64 \<Rightarrow> guest_memory \<times> (memory_error, u64) result" where
  "release_chunks h m i at e released =
     (if e \<le> at then (m, Ok released)
      else
        let r = gm_regions m ! i; index = at div DEMAND_CHUNK;
            nxt = min e (Suc index * DEMAND_CHUNK) in
        case r_demand r of
          None \<Rightarrow> (m, Panic)
        | Some d \<Rightarrow>
            if length (dem_ready d) \<le> index then (m, Panic)
            else if dem_ready d ! index
            then case release_backed h m i (r_gpa r + of_nat at) (r_gpa r + of_nat nxt) of
                   (m', Ok n) \<Rightarrow> release_chunks h m' i nxt e (released + n)
                 | (m', Err x) \<Rightarrow> (m', Err x)
                 | (m', Panic) \<Rightarrow> (m', Panic)
            else release_chunks h m i nxt e released)"
  by pat_completeness auto
termination
proof (relation "measure (\<lambda>(h, m, i, at, e, released). e - at)", goal_cases)
  case 1
  then show ?case by simp
next
  case (2 h m i at e)
  then show ?case using chunk_end_above [of at] by (auto simp: min_def)
next
  case (3 h m i at e)
  then show ?case using chunk_end_above [of at] by (auto simp: min_def)
qed

declare release_chunks.simps [simp del]

definition gm_release :: "host \<Rightarrow> guest_memory \<Rightarrow> u64 \<Rightarrow> u64 \<Rightarrow> guest_memory \<times> (memory_error, u64) result" where
  "gm_release h m gpa len =
     (case region_for_release m gpa len of
        Err x \<Rightarrow> (m, Err x)
      | Panic \<Rightarrow> (m, Panic)
      | Ok i \<Rightarrow>
          case checked_add gpa len of
            None \<Rightarrow> (m, Err (OutOfBounds gpa len))
          | Some e0 \<Rightarrow>
              let page = host_page_size h in
              case checked_add gpa (page - 1) of
                None \<Rightarrow> (m, Err (OutOfBounds gpa len))
              | Some s0 \<Rightarrow>
                  if page = 0 then (m, Panic)
                  else
                    let start = s0 div page * page; e = e0 div page * page; r = gm_regions m ! i in
                    if e \<le> start then (m, Ok 0)
                    else case r_demand r of
                      None \<Rightarrow> release_backed h m i start e
                    | Some d \<Rightarrow>
                        if dem_complete d then release_backed h m i start e
                        else release_chunks h m i (unat (start - r_gpa r)) (unat (e - r_gpa r)) 0)"

text \<open>The coalescing loop of \<^verbatim>\<open>release_reported\<close>, over the sorted spans.\<close>

fun release_runs ::
  "host \<Rightarrow> guest_memory \<Rightarrow> (u64 \<times> u64) option \<Rightarrow> u64 \<Rightarrow> (u64 \<times> u64) list \<Rightarrow>
   guest_memory \<times> (memory_error, u64) result" where
  "release_runs h m run acc [] =
     (case run of
        None \<Rightarrow> (m, Ok acc)
      | Some (lo, hi) \<Rightarrow>
          case gm_release h m lo (hi - lo) of
            (m', Ok n) \<Rightarrow> (m', Ok (acc + n))
          | (m', Err x) \<Rightarrow> (m', Err x)
          | (m', Panic) \<Rightarrow> (m', Panic))"
| "release_runs h m run acc ((start, len) # spans) =
     (case checked_add start len of
        None \<Rightarrow> (m, Err (OutOfBounds start len))
      | Some e \<Rightarrow>
          (case run of
             None \<Rightarrow> release_runs h m (Some (start, e)) acc spans
           | Some (lo, hi) \<Rightarrow>
               if start \<le> hi \<and> is_ok_and (region_for_release m lo (max hi e - lo)) (\<lambda>_. True)
               then release_runs h m (Some (lo, max hi e)) acc spans
               else case gm_release h m lo (hi - lo) of
                      (m', Ok n) \<Rightarrow> release_runs h m' (Some (start, e)) (acc + n) spans
                    | (m', Err x) \<Rightarrow> (m', Err x)
                    | (m', Panic) \<Rightarrow> (m', Panic)))"

fun validate_spans :: "guest_memory \<Rightarrow> (u64 \<times> u64) list \<Rightarrow> (memory_error, unit) result" where
  "validate_spans m [] = Ok ()"
| "validate_spans m ((gpa, len) # spans) =
     result_bind (region_for_release m gpa len) (\<lambda>_. validate_spans m spans)"

definition release_reported ::
  "host \<Rightarrow> guest_memory \<Rightarrow> (u64 \<times> u64) list \<Rightarrow> guest_memory \<times> (memory_error, u64) result" where
  "release_reported h m spans =
     (case validate_spans m spans of
        Err x \<Rightarrow> (m, Err x)
      | Panic \<Rightarrow> (m, Panic)
      | Ok _ \<Rightarrow> release_runs h m None 0 (sort spans))"

section \<open>The view a device has of memory\<close>

text \<open>
  A device reads and writes bytes; whether a chunk had to be prepared first is invisible to it
  (\<open>gm_read_view\<close> below). \<open>gm_peek\<close> and \<open>gm_poke\<close> are \<open>gm_read\<close> and \<open>gm_write\<close> without that side effect,
  and the typed accessors of the source are stated on them.
\<close>

definition gm_peek :: "guest_memory \<Rightarrow> u64 \<Rightarrow> usize \<Rightarrow> (memory_error, bytes) result" where
  "gm_peek m gpa n =
     result_bind (region_for_release m gpa n) (\<lambda>_. Ok (span_of (gm_bytes m) gpa (unat n)))"

definition gm_poke :: "guest_memory \<Rightarrow> u64 \<Rightarrow> bytes \<Rightarrow> (memory_error, guest_memory) result" where
  "gm_poke m gpa bs =
     result_bind (region_for_release m gpa (of_nat (length bs))) (\<lambda>_.
       Ok (m\<lparr>gm_bytes := put_span (gm_bytes m) gpa bs\<rparr>))"

definition read_u16 :: "guest_memory \<Rightarrow> u64 \<Rightarrow> (memory_error, u16) result" where
  "read_u16 m gpa = result_bind (gm_peek m gpa 2) (\<lambda>bs. Ok (from_le_bytes bs))"

definition read_u32 :: "guest_memory \<Rightarrow> u64 \<Rightarrow> (memory_error, u32) result" where
  "read_u32 m gpa = result_bind (gm_peek m gpa 4) (\<lambda>bs. Ok (from_le_bytes bs))"

definition read_u64 :: "guest_memory \<Rightarrow> u64 \<Rightarrow> (memory_error, u64) result" where
  "read_u64 m gpa = result_bind (gm_peek m gpa 8) (\<lambda>bs. Ok (from_le_bytes bs))"

definition write_u16 :: "guest_memory \<Rightarrow> u64 \<Rightarrow> u16 \<Rightarrow> (memory_error, guest_memory) result" where
  "write_u16 m gpa v = gm_poke m gpa (to_le_bytes v)"

definition write_u32 :: "guest_memory \<Rightarrow> u64 \<Rightarrow> u32 \<Rightarrow> (memory_error, guest_memory) result" where
  "write_u32 m gpa v = gm_poke m gpa (to_le_bytes v)"

definition write_u64 :: "guest_memory \<Rightarrow> u64 \<Rightarrow> u64 \<Rightarrow> (memory_error, guest_memory) result" where
  "write_u64 m gpa v = gm_poke m gpa (to_le_bytes v)"

text \<open>\<^verbatim>\<open>let _ = mem.write(..)\<close>: the outcome is dropped, and a failed write changes nothing.\<close>

definition ignore :: "guest_memory \<Rightarrow> (memory_error, guest_memory) result \<Rightarrow> guest_memory" where
  "ignore m r = (case r of Ok m' \<Rightarrow> m' | _ \<Rightarrow> m)"

section \<open>Spans\<close>

lemma length_span_of [simp]: "length (span_of f gpa n) = n"
  by (simp add: span_of_def)

lemma unat_of_nat_64 [simp]: "k < 2 ^ 64 \<Longrightarrow> unat (of_nat k :: u64) = k"
  by (simp add: unat_of_nat)

lemma span_of_put_span:
  "length bs \<le> 2 ^ 64 \<Longrightarrow> span_of (put_span f gpa bs) gpa (length bs) = bs"
  by (rule nth_equalityI) (auto simp: span_of_def put_span_def)

lemma put_span_outside: "length bs \<le> unat (a - gpa) \<Longrightarrow> put_span f gpa bs a = f a"
  by (simp add: put_span_def)

lemma span_of_put_span_disjoint:
  assumes "\<And>k. k < n \<Longrightarrow> length bs \<le> unat (g + of_nat k - gpa)"
  shows "span_of (put_span f gpa bs) g n = span_of f g n"
  using assms by (auto simp: span_of_def put_span_outside)

lemma zero_span_id: "(\<And>a. unat (a - gpa) < n \<Longrightarrow> f a = 0) \<Longrightarrow> zero_span f gpa n = f"
  by (auto simp: zero_span_def)

lemma zero_span_outside: "n \<le> unat (a - gpa) \<Longrightarrow> zero_span f gpa n a = f a"
  by (simp add: zero_span_def)

text \<open>Address arithmetic inside a span that does not wrap.\<close>

lemma unat_diff_iff:
  fixes a gpa :: u64
  assumes "unat gpa + n \<le> 2 ^ 64"
  shows "unat (a - gpa) < n \<longleftrightarrow> unat gpa \<le> unat a \<and> unat a < unat gpa + n"
proof (cases "gpa \<le> a")
  case True
  then show ?thesis by (auto simp: unat_sub word_le_nat_alt)
next
  case False
  then have lt: "unat a < unat gpa" by (simp add: word_le_nat_alt)
  have "unat (a - gpa) = 2 ^ 64 + unat a - unat gpa"
    using lt by (simp add: unat_sub_if')
  with lt assms show ?thesis by simp
qed

lemma span_of_unroll [simp]:
  "span_of f a 0 = []" "span_of f a (Suc n) = f a # span_of f (a + 1) n"
  "span_of f a 1 = [f a]"
proof -
  show "span_of f a (Suc n) = f a # span_of f (a + 1) n"
    by (rule nth_equalityI) (auto simp: span_of_def nth_Cons add.assoc simp del: upt_Suc split: nat.split)
qed (simp_all add: span_of_def)

lemma span_of_2: "span_of f a 2 = [f a, f (a + 1)]"
  by (simp add: eval_nat_numeral add.assoc)

lemma span_of_4: "span_of f a 4 = [f a, f (a + 1), f (a + 2), f (a + 3)]"
  by (simp add: eval_nat_numeral add.assoc)

lemma span_of_8: "span_of f a 8 =
    [f a, f (a + 1), f (a + 2), f (a + 3), f (a + 4), f (a + 5), f (a + 6), f (a + 7)]"
  by (simp add: eval_nat_numeral add.assoc)

text \<open>Evaluation of the accessors on a concrete memory.\<close>

lemmas memory_eval = read_u64_def read_u32_def read_u16_def gm_peek_def region_for_release_def
  region_contains_def region_ready_def checked_add_def span_of_2 span_of_4 span_of_8 from_le_bytes_def

end
