(* ===== verification/Byte_Store.thy ===== *)
theory Byte_Store
  imports Lighter_Prelude
begin

text \<open>
  The interface the device models have to guest memory: fetch a span of bytes, which may be out of
  bounds, and store one, where a store out of bounds changes nothing. A client that publishes a
  record field by field (a used-ring element and then its index, a packed descriptor and then its
  flags) is proved here once: what it stored is what the other side reads, and no other byte moved.
\<close>

definition apart :: "u64 \<Rightarrow> nat \<Rightarrow> u64 \<Rightarrow> nat \<Rightarrow> bool" where
  "apart a n b k \<longleftrightarrow> (\<forall>i < n. \<forall>j < k. a + of_nat i \<noteq> b + of_nat j)"

lemma apart_sym: "apart a n b k \<Longrightarrow> apart b k a n"
  by (fastforce simp: apart_def)

lemma apart_within:
  assumes "apart a n b k" "x + m \<le> n"
  shows "apart (a + of_nat x) m b k"
  unfolding apart_def
proof (intro allI impI)
  fix i j assume "i < m" "j < k"
  with assms have "a + of_nat (x + i) \<noteq> b + of_nat j"
    unfolding apart_def by (meson add_less_cancel_left less_le_trans)
  then show "a + of_nat x + of_nat i \<noteq> b + of_nat j"
    by (simp add: algebra_simps)
qed

text \<open>Spans at offsets of one base that do not reach round the address space.\<close>

lemma apart_offset:
  fixes base :: u64
  assumes "x + n \<le> y" "y + k \<le> 2 ^ 64"
  shows "apart (base + of_nat x) n (base + of_nat y) k"
proof -
  have "base + of_nat x + of_nat i \<noteq> base + of_nat y + of_nat j" if "i < n" "j < k" for i j
  proof
    assume "base + of_nat x + of_nat i = base + of_nat y + of_nat j"
    then have "(of_nat (x + i) :: u64) = of_nat (y + j)"
      by (simp add: algebra_simps)
    then have "unat (of_nat (x + i) :: u64) = unat (of_nat (y + j) :: u64)"
      by simp
    moreover have "unat (of_nat (x + i) :: u64) = x + i" "unat (of_nat (y + j) :: u64) = y + j"
      using that assms by (simp_all only: unat_of_nat) (simp_all add: mod_less)
    ultimately show False
      using that assms by simp
  qed
  then show ?thesis
    by (simp add: apart_def)
qed

locale byte_store =
  fixes fetch :: "'m \<Rightarrow> u64 \<Rightarrow> nat \<Rightarrow> bytes option"
    and store :: "'m \<Rightarrow> u64 \<Rightarrow> bytes \<Rightarrow> 'm"
  assumes fetch_store_same: "fetch m a (length bs) \<noteq> None \<Longrightarrow> fetch (store m a bs) a (length bs) = Some bs"
    and fetch_store_apart: "apart a (length bs) b n \<Longrightarrow> fetch (store m a bs) b n = fetch m b n"
    and fetch_store_backed: "fetch (store m a bs) b n = None \<longleftrightarrow> fetch m b n = None"
begin

definition store_all :: "'m \<Rightarrow> (u64 \<times> bytes) list \<Rightarrow> 'm" where
  "store_all m fields = foldl (\<lambda>m (a, bs). store m a bs) m fields"

lemma store_all_simps:
  "store_all m [] = m"
  "store_all m ((a, bs) # fields) = store_all (store m a bs) fields"
  by (simp_all add: store_all_def)

lemma store_all_backed: "fetch (store_all m fields) b n = None \<longleftrightarrow> fetch m b n = None"
proof (induction fields arbitrary: m)
  case Nil
  then show ?case by (simp add: store_all_simps)
next
  case (Cons f fields)
  then show ?case by (cases f) (simp add: store_all_simps fetch_store_backed)
qed

lemma store_all_frame:
  assumes "\<And>a bs. (a, bs) \<in> set fields \<Longrightarrow> apart a (length bs) b n"
  shows "fetch (store_all m fields) b n = fetch m b n"
  using assms
proof (induction fields arbitrary: m)
  case Nil
  then show ?case by (simp add: store_all_simps)
next
  case (Cons f fields)
  obtain a bs where f: "f = (a, bs)" by (cases f)
  then have "apart a (length bs) b n"
    using Cons.prems by simp
  with Cons.IH [of "store m a bs"] Cons.prems show ?case
    by (simp add: f store_all_simps fetch_store_apart)
qed

text \<open>Fields that lie apart all read back.\<close>

lemma store_all_reads:
  assumes "sorted_wrt (\<lambda>(a, bs) (b, cs). apart a (length bs) b (length cs)) fields"
    and "(a, bs) \<in> set fields" "fetch m a (length bs) \<noteq> None"
  shows "fetch (store_all m fields) a (length bs) = Some bs"
  using assms
proof (induction fields arbitrary: m)
  case Nil
  then show ?case by simp
next
  case (Cons f fields)
  obtain c cs where f: "f = (c, cs)" by (cases f)
  show ?case
  proof (cases "(a, bs) \<in> set fields")
    case True
    with Cons.prems show ?thesis
      by (simp add: f store_all_simps Cons.IH fetch_store_backed)
  next
    case False
    then have eq: "a = c" "bs = cs"
      using Cons.prems(2) f by auto
    have "fetch (store_all (store m c cs) fields) c (length cs) = fetch (store m c cs) c (length cs)"
      by (rule store_all_frame, rule apart_sym) (use Cons.prems(1) f in auto)
    also have "\<dots> = Some cs"
      using Cons.prems(3) unfolding eq by (rule fetch_store_same)
    finally show ?thesis
      unfolding f eq store_all_simps .
  qed
qed

end

end
