(* ===== verification/Guest_Memory_View.thy ===== *)
theory Guest_Memory_View
  imports Guest_Memory Byte_Store
begin

text \<open>
  What the accessors of \<^verbatim>\<open>memory.rs\<close> guarantee: the invariant of the region list, that adding a region
  and preparing a chunk keep it, that preparation is invisible to whoever reads and writes bytes,
  and that no access leaves the RAM of one region.
\<close>

section \<open>Well-formed memory\<close>

definition in_region :: "region \<Rightarrow> u64 \<Rightarrow> bool" where
  "in_region r a \<longleftrightarrow> unat (a - r_gpa r) < unat (r_len r)"

definition wf_region :: "region \<Rightarrow> bool" where
  "wf_region r \<longleftrightarrow>
     unat (r_gpa r) + unat (r_len r) < 2 ^ 64 \<and> r_len r \<noteq> 0 \<and>
     (\<forall>d. r_deferred r = Some d \<longrightarrow> d \<le> r_len r) \<and>
     (\<forall>d. r_demand r = Some d \<longrightarrow> r_deferred r = None \<and>
        length (dem_ready d) = (unat (r_len r) + DEMAND_CHUNK - 1) div DEMAND_CHUNK \<and>
        (dem_complete d \<longrightarrow> list_all id (dem_ready d)))"

definition unbacked :: "region \<Rightarrow> u64 \<Rightarrow> bool" where
  "unbacked r a \<longleftrightarrow> in_region r a \<and>
     (\<exists>d. r_demand r = Some d \<and> \<not> dem_ready d ! (unat (a - r_gpa r) div DEMAND_CHUNK))"

definition regions_disjoint :: "region list \<Rightarrow> bool" where
  "regions_disjoint rs \<longleftrightarrow> (\<forall>a. length (filter (\<lambda>r. in_region r a) rs) \<le> 1)"

definition wf_memory :: "guest_memory \<Rightarrow> bool" where
  "wf_memory m \<longleftrightarrow>
     (\<forall>r \<in> set (gm_regions m). wf_region r) \<and>
     sorted (map r_gpa (gm_regions m)) \<and>
     regions_disjoint (gm_regions m) \<and>
     (\<forall>r \<in> set (gm_regions m). \<forall>a. unbacked r a \<longrightarrow> gm_bytes m a = 0)"

text \<open>What bounds checks can see of a region.\<close>

definition geometry :: "region \<Rightarrow> u64 \<times> usize \<times> usize \<times> usize option" where
  "geometry r = (r_gpa r, r_len r, r_host r, r_deferred r)"

lemma regions_disjointD:
  assumes "regions_disjoint rs" "i < length rs" "j < length rs"
    and "in_region (rs ! i) a" "in_region (rs ! j) a"
  shows "i = j"
  using one_in_filter [of "\<lambda>r. in_region r a" rs i j] assms by (simp add: regions_disjoint_def)

lemma region_contains_geometry:
  "geometry r = geometry s \<Longrightarrow> region_contains r = region_contains s"
  by (simp add: geometry_def region_contains_def region_ready_def fun_eq_iff cong: option.case_cong)

lemma map_contains_geometry:
  "map geometry rs = map geometry ss \<Longrightarrow>
   map (\<lambda>r. region_contains r gpa len) rs = map (\<lambda>r. region_contains r gpa len) ss"
proof (induction rs arbitrary: ss)
  case Nil
  then show ?case by simp
next
  case (Cons r rs)
  from Cons.prems obtain s ss' where ss: "ss = s # ss'" "geometry r = geometry s"
      "map geometry rs = map geometry ss'"
    by auto
  show ?case
    using Cons.IH [OF ss(3)] region_contains_geometry [OF ss(2)] by (simp only: ss(1) list.map)
qed

lemma region_for_release_geometry:
  assumes "map geometry (gm_regions m) = map geometry (gm_regions m')"
  shows "region_for_release m = region_for_release m'"
  using find_index_cong [OF map_contains_geometry [OF assms]]
  by (simp add: region_for_release_def fun_eq_iff)

lemma map_geometry_nth:
  assumes "map geometry rs = map geometry ss" "i < length rs"
  shows "geometry (ss ! i) = geometry (rs ! i)"
  using assms by (metis length_map nth_map)

lemma in_region_geometry:
  "geometry r = geometry s \<Longrightarrow> in_region r = in_region s"
  by (auto simp: geometry_def in_region_def fun_eq_iff)

lemma regions_disjoint_geometry:
  assumes "map geometry rs = map geometry ss" "regions_disjoint rs"
  shows "regions_disjoint ss"
proof -
  have "length (filter (\<lambda>r. in_region r a) ss) = length (filter (\<lambda>r. in_region r a) rs)" for a
    using assms(1)
  proof (induction rs arbitrary: ss)
    case Nil
    then show ?case by simp
  next
    case (Cons r rs)
    then obtain s ss' where ss: "ss = s # ss'" "geometry r = geometry s" "map geometry rs = map geometry ss'"
      by auto
    then show ?case
      using Cons.IH [of ss'] in_region_geometry [of r s] by simp
  qed
  then show ?thesis
    using assms(2) by (simp add: regions_disjoint_def)
qed

text \<open>Containment is containment of addresses.\<close>

lemma region_contains_bounds:
  assumes "wf_region r" "region_contains r gpa len"
  shows "unat (r_gpa r) \<le> unat gpa" and "unat gpa + unat len \<le> unat (r_gpa r) + unat (r_len r)"
    and "unat gpa + unat len < 2 ^ 64"
proof -
  have rdy: "unat (region_ready r) \<le> unat (r_len r)"
    using assms(1) by (auto simp: region_ready_def wf_region_def word_le_nat_alt split: option.split)
  then have noov: "unat (r_gpa r) + unat (region_ready r) < 2 ^ LENGTH(64)"
    using assms(1) by (simp add: wf_region_def)
  from assms(2) have sum: "unat gpa + unat len < 2 ^ LENGTH(64)" and ge: "r_gpa r \<le> gpa"
      and le: "gpa + len \<le> r_gpa r + region_ready r"
    by (auto simp: region_contains_def checked_add_Some split: option.splits)
  show "unat (r_gpa r) \<le> unat gpa"
    using ge by (simp add: word_le_nat_alt)
  show "unat gpa + unat len < 2 ^ 64"
    using sum by simp
  show "unat gpa + unat len \<le> unat (r_gpa r) + unat (r_len r)"
    using le rdy unat_add_no_wrap [OF sum] unat_add_no_wrap [OF noov] by (simp add: word_le_nat_alt)
qed

lemma region_contains_in:
  assumes "wf_region r" "region_contains r gpa len" "k < unat len"
  shows "in_region r (gpa + of_nat k)" and "unat (gpa + of_nat k) = unat gpa + k"
proof -
  note b = region_contains_bounds [OF assms(1,2)]
  have k: "unat (of_nat k :: u64) = k"
    using assms(3) b(3) by simp
  have "unat gpa + unat (of_nat k :: u64) < 2 ^ LENGTH(64)"
    using k b(3) assms(3) by simp
  from unat_add_no_wrap [OF this] k show a: "unat (gpa + of_nat k) = unat gpa + k"
    by simp
  have "unat (r_gpa r) + unat (r_len r) \<le> 2 ^ 64"
    using assms(1) by (simp add: wf_region_def)
  from unat_diff_iff [OF this] show "in_region r (gpa + of_nat k)"
    using a b assms(3) by (simp add: in_region_def)
qed

lemma chunk_covers:
  assumes "wf_region r"
    and "unat (a - chunk_gpa r index) < chunk_len r index"
    and "index < (unat (r_len r) + DEMAND_CHUNK - 1) div DEMAND_CHUNK"
  shows "in_region r a" and "unat (a - r_gpa r) div DEMAND_CHUNK = index"
proof -
  let ?o = "index * DEMAND_CHUNK"
  have o: "?o < unat (r_len r)"
    using assms(3) by (simp add: DEMAND_CHUNK_def) 
  have ov: "unat (r_gpa r) + unat (r_len r) < 2 ^ 64"
    using assms(1) by (simp add: wf_region_def)
  have uo: "unat (of_nat ?o :: u64) = ?o"
    using o ov by (intro unat_of_nat_64) linarith
  have "unat (r_gpa r) + unat (of_nat ?o :: u64) < 2 ^ LENGTH(64)"
    unfolding uo using o ov by simp
  from unat_add_no_wrap [OF this] have cg: "unat (chunk_gpa r index) = unat (r_gpa r) + ?o"
    unfolding uo chunk_gpa_def .
  have cl: "chunk_len r index \<le> unat (r_len r) - ?o" "chunk_len r index \<le> DEMAND_CHUNK"
    by (simp_all add: chunk_len_def)
  have "unat (chunk_gpa r index) + chunk_len r index \<le> 2 ^ 64"
    using cg cl ov o by linarith
  from unat_diff_iff [OF this] assms(2) cg
  have a: "unat (r_gpa r) + ?o \<le> unat a" "unat a < unat (r_gpa r) + ?o + chunk_len r index"
    by simp_all
  have d: "unat (a - r_gpa r) = unat a - unat (r_gpa r)"
    using a by (simp add: unat_sub word_le_nat_alt)
  show "in_region r a"
    using a cl o by (simp add: in_region_def d)
  show "unat (a - r_gpa r) div DEMAND_CHUNK = index"
    using a cl by (intro div_nat_eqI) (simp_all add: d algebra_simps)
qed


section \<open>Preparation is invisible\<close>

lemma prepare_demand_chunk_view:
  assumes wf: "wf_memory m" and i: "i < length (gm_regions m)"
    and ok: "prepare_demand_chunk h m i index = Ok (m', fresh)"
  shows "gm_bytes m' = gm_bytes m"
    and "map geometry (gm_regions m') = map geometry (gm_regions m)"
    and "wf_memory m'"
    and "gm_vm m' = gm_vm m"
    and "\<And>r' a. r' \<in> set (gm_regions m') \<Longrightarrow> unbacked r' a \<Longrightarrow> \<exists>r \<in> set (gm_regions m). unbacked r a"
proof -
  let ?r = "gm_regions m ! i"
  have r: "?r \<in> set (gm_regions m)" and wfr: "wf_region ?r"
    using wf i by (auto simp: wf_memory_def)
  from ok obtain d where d: "r_demand ?r = Some d" and idx: "index < length (dem_ready d)"
    by (auto simp: prepare_demand_chunk_def Let_def split: option.splits if_splits)
  let ?d = "d\<lparr>dem_ready := (dem_ready d)[index := True]\<rparr>"
  let ?r' = "?r\<lparr>r_demand := Some ?d\<rparr>"
  have len: "length (dem_ready d) = (unat (r_len ?r) + DEMAND_CHUNK - 1) div DEMAND_CHUNK"
    using wfr d by (auto simp: wf_region_def)
  have zero: "zero_span (gm_bytes m) (chunk_gpa ?r index) (chunk_len ?r index) = gm_bytes m"
    if "\<not> dem_ready d ! index"
  proof (rule zero_span_id)
    fix a assume a: "unat (a - chunk_gpa ?r index) < chunk_len ?r index"
    have "unbacked ?r a"
      using chunk_covers [OF wfr a] idx len d that by (auto simp: unbacked_def)
    with wf r show "gm_bytes m a = 0"
      by (auto simp: wf_memory_def)
  qed
  have cases: "m' = m \<or> (\<not> dem_ready d ! index \<and> m' = set_region m i ?r')"
    using ok d idx zero
    by (auto simp: prepare_demand_chunk_def Let_def set_region_def split: if_splits result.splits option.splits)
  have geo: "geometry ?r' = geometry ?r"
    by (simp add: geometry_def)
  show bytes: "gm_bytes m' = gm_bytes m"
    using cases by (auto simp: set_region_def)
  show vm: "gm_vm m' = gm_vm m"
    using cases by (auto simp: set_region_def)
  have geoeq: "map geometry ((gm_regions m)[i := ?r']) = map geometry (gm_regions m)"
    using geo by (simp add: map_update list_update_same_conv i)
  show geos: "map geometry (gm_regions m') = map geometry (gm_regions m)"
    using cases geoeq by (auto simp: set_region_def)
  have unb: "unbacked ?r' a \<Longrightarrow> unbacked ?r a" for a
    using d idx by (auto simp: unbacked_def in_region_def nth_list_update split: if_splits)
  show unb': "\<exists>r \<in> set (gm_regions m). unbacked r a"
    if "r' \<in> set (gm_regions m')" "unbacked r' a" for r' a
  proof -
    have "r' = ?r' \<or> r' \<in> set (gm_regions m)"
      using that(1) cases set_update_subset_insert [of "gm_regions m" i ?r'] by (auto simp: set_region_def)
    with that(2) unb r show ?thesis by blast
  qed
  have wfr': "wf_region ?r'"
    using wfr d idx by (auto simp: wf_region_def list_all_length nth_list_update split: if_splits)
  have "sorted (map r_gpa (gm_regions m'))"
  proof -
    have "map r_gpa (gm_regions m') = map (fst \<circ> geometry) (gm_regions m')"
      by (simp add: geometry_def)
    also have "\<dots> = map (fst \<circ> geometry) (gm_regions m)"
      by (simp only: map_map [symmetric] geos)
    finally show ?thesis
      using wf by (simp add: wf_memory_def geometry_def comp_def)
  qed
  moreover have "\<forall>r \<in> set (gm_regions m'). wf_region r"
    using cases wf wfr' set_update_subset_insert [of "gm_regions m" i ?r']
    by (auto simp: set_region_def wf_memory_def)
  moreover have "regions_disjoint (gm_regions m')"
    using regions_disjoint_geometry [OF geos [symmetric]] wf by (auto simp: wf_memory_def)
  moreover have "\<forall>r' \<in> set (gm_regions m'). \<forall>a. unbacked r' a \<longrightarrow> gm_bytes m' a = 0"
    using unb' bytes wf by (fastforce simp: wf_memory_def)
  ultimately show "wf_memory m'"
    by (auto simp: wf_memory_def)
qed

lemma prepare_chunks_view:
  assumes "wf_memory m" "i < length (gm_regions m)" "prepare_chunks h m i ks = Ok m'"
  shows "gm_bytes m' = gm_bytes m \<and> map geometry (gm_regions m') = map geometry (gm_regions m) \<and>
    wf_memory m' \<and> gm_vm m' = gm_vm m"
  using assms
proof (induction ks arbitrary: m)
  case Nil
  then show ?case by simp
next
  case (Cons k ks)
  then obtain m1 fresh where p: "prepare_demand_chunk h m i k = Ok (m1, fresh)"
      and rest: "prepare_chunks h m1 i ks = Ok m'"
    by auto
  note v = prepare_demand_chunk_view [OF Cons.prems(1,2) p]
  have "i < length (gm_regions m1)"
    using v(2) Cons.prems(2) by (metis length_map)
  from Cons.IH [OF v(3) this rest] v show ?case by simp
qed

lemma region_for_release_bound:
  "region_for_release m gpa len = Ok i \<Longrightarrow> i < length (gm_regions m) \<and> region_contains (gm_regions m ! i) gpa len"
  by (auto simp: region_for_release_def split: option.splits dest: find_index_Some)

lemma region_for_release_never_panics [simp]: "region_for_release m gpa len \<noteq> Panic"
  by (auto simp: region_for_release_def split: option.splits)

lemma region_for_view:
  assumes "wf_memory m" "region_for h m gpa len = Ok (m', i)"
  shows "region_for_release m gpa len = Ok i" and "gm_bytes m' = gm_bytes m"
    and "map geometry (gm_regions m') = map geometry (gm_regions m)" and "wf_memory m'"
proof -
  from assms(2) show rel: "region_for_release m gpa len = Ok i"
    by (auto simp: region_for_def Let_def split: if_splits)
  then have "i < length (gm_regions m)"
    using region_for_release_bound by blast
  with assms rel prepare_chunks_view
  show "gm_bytes m' = gm_bytes m" "map geometry (gm_regions m') = map geometry (gm_regions m)" "wf_memory m'"
    by (auto simp: region_for_def Let_def split: if_splits)
qed

text \<open>The chunks an access touches are backed once \<open>region_for\<close> has returned.\<close>

lemma prepare_demand_chunk_ready:
  assumes "prepare_demand_chunk h m i index = Ok (m', fresh)" "i < length (gm_regions m)"
    and d: "r_demand (gm_regions m ! i) = Some d"
  shows "\<exists>d'. r_demand (gm_regions m' ! i) = Some d' \<and> dem_ready d' = (dem_ready d)[index := True] \<and>
           index < length (dem_ready d)"
  using assms list_update_same_conv [of index "dem_ready d" True]
  by (auto simp: prepare_demand_chunk_def Let_def set_region_def
      split: if_splits result.splits option.splits)

lemma prepare_chunks_ready:
  assumes "wf_memory m" "i < length (gm_regions m)" "prepare_chunks h m i ks = Ok m'"
    and "r_demand (gm_regions m ! i) = Some d"
  shows "\<exists>d'. r_demand (gm_regions m' ! i) = Some d' \<and> length (dem_ready d') = length (dem_ready d) \<and>
    (\<forall>k < length (dem_ready d). k \<in> set ks \<or> dem_ready d ! k \<longrightarrow> dem_ready d' ! k)"
  using assms
proof (induction ks arbitrary: m d)
  case Nil
  then show ?case by auto
next
  case (Cons k ks)
  then obtain m1 fresh where p: "prepare_demand_chunk h m i k = Ok (m1, fresh)"
      and rest: "prepare_chunks h m1 i ks = Ok m'"
    by auto
  note v = prepare_demand_chunk_view [OF Cons.prems(1,2) p]
  obtain d1 where d1: "r_demand (gm_regions m1 ! i) = Some d1"
      "dem_ready d1 = (dem_ready d)[k := True]" "k < length (dem_ready d)"
    using prepare_demand_chunk_ready [OF p Cons.prems(2,4)] by blast
  have i1: "i < length (gm_regions m1)"
    using v(2) Cons.prems(2) by (metis length_map)
  from Cons.IH [OF v(3) i1 rest d1(1)] d1 show ?case
    by (auto simp: nth_list_update)
qed

lemma region_for_backed:
  assumes wf: "wf_memory m" and ok: "region_for h m gpa len = Ok (m', i)" and k: "k < unat len"
  shows "\<not> unbacked (gm_regions m' ! i) (gpa + of_nat k)"
proof (cases "r_demand (gm_regions m ! i)")
  case None
  with ok show ?thesis
    by (auto simp: region_for_def Let_def region_demand_pending_def unbacked_def split: if_splits)
next
  case (Some d)
  let ?r = "gm_regions m ! i"
  note view = region_for_view [OF wf ok]
  have i: "i < length (gm_regions m)" and c: "region_contains ?r gpa len"
    using region_for_release_bound [OF view(1)] by auto
  have wfr: "wf_region ?r"
    using wf i by (auto simp: wf_memory_def)
  have geo: "geometry (gm_regions m' ! i) = geometry ?r"
    using map_geometry_nth [OF view(3) [symmetric] i] .
  then have gpa': "r_gpa (gm_regions m' ! i) = r_gpa ?r"
    by (simp add: geometry_def)
  let ?c = "unat (gpa + of_nat k - r_gpa ?r) div DEMAND_CHUNK"
  have inr: "in_region ?r (gpa + of_nat k)" and a: "unat (gpa + of_nat k) = unat gpa + k"
    using region_contains_in [OF wfr c k] by auto
  have ge: "unat (r_gpa ?r) \<le> unat gpa"
    using c by (auto simp: region_contains_def word_le_nat_alt split: option.splits)
  then have off: "unat (gpa + of_nat k - r_gpa ?r) = unat (gpa - r_gpa ?r) + k"
    using a by (simp add: unat_sub word_le_nat_alt)
  have cl: "?c < length (dem_ready d)"
    using inr wfr Some by (auto simp: in_region_def wf_region_def DEMAND_CHUNK_def)
  show ?thesis
  proof (cases "dem_complete d")
    case True
    then have "list_all id (dem_ready d)"
      using wfr Some by (auto simp: wf_region_def)
    moreover have "gm_regions m' ! i = ?r"
      using ok True Some view(1) by (auto simp: region_for_def Let_def region_demand_pending_def)
    ultimately show ?thesis
      using cl Some by (auto simp: unbacked_def list_all_length)
  next
    case False
    then have p: "prepare_chunks h m i (touched_chunks ?r gpa len) = Ok m'"
      using ok Some view(1) k by (auto simp: region_for_def Let_def region_demand_pending_def split: if_splits)
    have "?c \<le> (unat (gpa - r_gpa ?r) + unat len - 1) div DEMAND_CHUNK"
      unfolding off using k by (intro div_le_mono) simp
    moreover have "unat (gpa - r_gpa ?r) div DEMAND_CHUNK \<le> ?c"
      unfolding off by (intro div_le_mono) simp
    ultimately have "?c \<in> set (touched_chunks ?r gpa len)"
      by (simp only: touched_chunks_def set_upt atLeastLessThan_iff less_Suc_eq_le)
    then show ?thesis
      using prepare_chunks_ready [OF wf i p Some] cl by (auto simp: unbacked_def gpa')
  qed
qed


lemma put_span_wf:
  assumes wf: "wf_memory m" and i: "i < length (gm_regions m)"
    and len: "length bs < 2 ^ 64"
    and inr: "\<And>k. k < length bs \<Longrightarrow> in_region (gm_regions m ! i) (gpa + of_nat k)"
    and bk: "\<And>k. k < length bs \<Longrightarrow> \<not> unbacked (gm_regions m ! i) (gpa + of_nat k)"
  shows "wf_memory (m\<lparr>gm_bytes := put_span (gm_bytes m) gpa bs\<rparr>)"
proof -
  have "put_span (gm_bytes m) gpa bs a = 0"
    if r: "r \<in> set (gm_regions m)" and u: "unbacked r a" for r a
  proof (cases "unat (a - gpa) < length bs")
    case True
    then have a: "a = gpa + of_nat (unat (a - gpa))"
      by simp
    obtain j where j: "j < length (gm_regions m)" "r = gm_regions m ! j"
      using r by (metis in_set_conv_nth)
    have "in_region (gm_regions m ! i) a" "in_region (gm_regions m ! j) a"
      using inr [OF True] u j a by (auto simp: unbacked_def)
    then have "i = j"
      using regions_disjointD [OF _ i j(1)] wf by (auto simp: wf_memory_def)
    with bk [OF True] u j a show ?thesis
      by auto
  next
    case False
    with wf r u show ?thesis
      by (auto simp: put_span_def wf_memory_def)
  qed
  with wf show ?thesis
    by (auto simp: wf_memory_def)
qed

lemma gm_write_run:
  assumes "wf_memory m" "gm_write h m gpa bs = Ok m'"
  obtains m1 i where "region_for h m gpa (of_nat (length bs)) = Ok (m1, i)"
    "m' = m1\<lparr>gm_bytes := put_span (gm_bytes m) gpa bs\<rparr>"
  using assms region_for_view(2) by (fastforce simp: gm_write_def)

lemma gm_write_wf:
  assumes wf: "wf_memory m" and ok: "gm_write h m gpa bs = Ok m'" and len: "length bs < 2 ^ 64"
  shows "wf_memory m'" and "map geometry (gm_regions m') = map geometry (gm_regions m)"
    and "gm_bytes m' = put_span (gm_bytes m) gpa bs"
proof -
  obtain m1 i where rf: "region_for h m gpa (of_nat (length bs)) = Ok (m1, i)"
      and m': "m' = m1\<lparr>gm_bytes := put_span (gm_bytes m) gpa bs\<rparr>"
    using gm_write_run [OF wf ok] .
  note view = region_for_view [OF wf rf]
  have n: "unat (of_nat (length bs) :: usize) = length bs"
    using len by simp
  have i: "i < length (gm_regions m)" and c: "region_contains (gm_regions m ! i) gpa (of_nat (length bs))"
    using region_for_release_bound [OF view(1)] by auto
  have i1: "i < length (gm_regions m1)"
    using view(3) i by (metis length_map)
  have geo: "in_region (gm_regions m1 ! i) = in_region (gm_regions m ! i)"
    by (rule in_region_geometry) (rule map_geometry_nth [OF view(3) [symmetric] i])
  have "wf_memory (m1\<lparr>gm_bytes := put_span (gm_bytes m1) gpa bs\<rparr>)"
  proof (rule put_span_wf [OF view(4) i1 len])
    fix k assume "k < length bs"
    then have k: "k < unat (of_nat (length bs) :: usize)"
      by (simp only: n)
    show "in_region (gm_regions m1 ! i) (gpa + of_nat k)"
      using region_contains_in(1) [OF _ c k] wf i by (auto simp: geo wf_memory_def)
    show "\<not> unbacked (gm_regions m1 ! i) (gpa + of_nat k)"
      by (rule region_for_backed [OF wf rf k])
  qed
  then show "wf_memory m'"
    by (simp add: m' view(2))
  show "map geometry (gm_regions m') = map geometry (gm_regions m)"
    and "gm_bytes m' = put_span (gm_bytes m) gpa bs"
    using view(3) by (simp_all add: m')
qed

lemma gm_read_wf:
  assumes wf: "wf_memory m" and ok: "gm_read h m gpa n = Ok (m', bs)"
  shows "wf_memory m'" and "gm_bytes m' = gm_bytes m"
    and "map geometry (gm_regions m') = map geometry (gm_regions m)"
    and "gm_peek m gpa n = Ok bs"
proof -
  from ok obtain i where rf: "region_for h m gpa n = Ok (m', i)"
      and bs: "bs = span_of (gm_bytes m') gpa (unat n)"
    by (auto simp: gm_read_def)
  note view = region_for_view [OF wf rf]
  show "wf_memory m'" "gm_bytes m' = gm_bytes m"
    and "map geometry (gm_regions m') = map geometry (gm_regions m)"
    using view by auto
  show "gm_peek m gpa n = Ok bs"
    using view by (simp add: gm_peek_def bs)
qed

lemma gm_peek_cong:
  "map geometry (gm_regions m') = map geometry (gm_regions m) \<Longrightarrow> gm_bytes m' = gm_bytes m \<Longrightarrow>
   gm_peek m' = gm_peek m"
  using region_for_release_geometry [of m' m] by (intro ext) (simp only: gm_peek_def)

section \<open>Adding regions\<close>

lemma in_region_iff:
  "wf_region r \<Longrightarrow> in_region r a \<longleftrightarrow> unat (r_gpa r) \<le> unat a \<and> unat a < unat (r_gpa r) + unat (r_len r)"
  unfolding in_region_def by (rule unat_diff_iff) (simp add: wf_region_def)

lemma no_overlap_disjoint:
  assumes wf: "\<forall>r \<in> set rs. wf_region r" and r: "wf_region r"
    and no: "\<not> regions_overlap rs (r_gpa r) (r_gpa r + r_len r)"
    and s: "s \<in> set rs" and a: "in_region s a"
  shows "\<not> in_region r a"
proof -
  have e: "unat (q_gpa + q_len) = unat q_gpa + unat q_len" if "unat q_gpa + unat q_len < 2 ^ 64" for q_gpa q_len :: u64
    using that by (intro unat_add_no_wrap) simp
  have "\<not> (r_gpa r < r_gpa s + r_len s \<and> r_gpa s < r_gpa r + r_len r)"
    using no s by (auto simp: regions_overlap_def)
  then show ?thesis
    using wf r s a by (auto simp: in_region_iff word_less_nat_alt e wf_region_def)
qed

lemma insert_region_wf:
  assumes wf: "wf_memory m" and r: "wf_region r"
    and no: "\<not> regions_overlap (gm_regions m) (r_gpa r) (r_gpa r + r_len r)"
    and z: "\<And>a. gm_bytes m' a = gm_bytes m a \<or> gm_bytes m' a = 0"
    and u: "\<And>a. unbacked r a \<Longrightarrow> gm_bytes m' a = 0"
    and regs: "gm_regions m' = gm_regions m"
  shows "wf_memory (insert_region r m')"
proof -
  have "length (filter (\<lambda>s. in_region s a) (gm_regions m @ [r])) \<le> 1" for a
  proof (cases "in_region r a")
    case True
    then have "filter (\<lambda>s. in_region s a) (gm_regions m) = []"
      using no_overlap_disjoint [OF _ r no] wf by (auto simp: filter_empty_conv wf_memory_def)
    then show ?thesis by simp
  next
    case False
    then show ?thesis
      using wf by (simp add: wf_memory_def regions_disjoint_def)
  qed
  then have "regions_disjoint (gm_regions (insert_region r m'))"
    by (simp add: regions_disjoint_def insert_region_def regs sort_key_filter_length)
  moreover have "gm_bytes m' a = 0" if "s \<in> set (gm_regions m)" "unbacked s a" for s a
    using z [of a] wf that by (auto simp: wf_memory_def)
  ultimately show ?thesis
    using wf r u by (auto simp: wf_memory_def insert_region_def regs)
qed


section \<open>Guest memory as a byte store\<close>

definition gm_fetch :: "guest_memory \<Rightarrow> u64 \<Rightarrow> nat \<Rightarrow> bytes option" where
  "gm_fetch m a n = (if n < 2 ^ 64 then result_ok (gm_peek m a (of_nat n)) else None)"

definition gm_store :: "guest_memory \<Rightarrow> u64 \<Rightarrow> bytes \<Rightarrow> guest_memory" where
  "gm_store m a bs = (if length bs < 2 ^ 64 then ignore m (gm_poke m a bs) else m)"

lemma gm_store_regions [simp]: "gm_regions (gm_store m a bs) = gm_regions m"
  by (auto simp: gm_store_def ignore_def gm_poke_def split: result.splits)

lemma gm_store_bytes:
  "gm_bytes (gm_store m a bs) =
     (if gm_fetch m a (length bs) = None then gm_bytes m else put_span (gm_bytes m) a bs)"
  by (auto simp: gm_store_def gm_fetch_def ignore_def gm_poke_def gm_peek_def split: result.splits)

lemma gm_fetch_alt:
  "gm_fetch m a n =
     (if n < 2 ^ 64 \<and> (\<exists>i. region_for_release m a (of_nat n) = Ok i) then Some (span_of (gm_bytes m) a n) else None)"
  by (cases "region_for_release m a (of_nat n)") (auto simp: gm_fetch_def gm_peek_def)

lemma gm_store_region_for [simp]: "region_for_release (gm_store m a bs) = region_for_release m"
  by (rule region_for_release_geometry) simp

lemma put_span_apart:
  assumes "apart a (length bs) b n" "length bs < 2 ^ 64"
  shows "span_of (put_span f a bs) b n = span_of f b n"
proof (rule span_of_put_span_disjoint)
  fix k assume k: "k < n"
  show "length bs \<le> unat (b + of_nat k - a)"
  proof (rule ccontr)
    assume "\<not> length bs \<le> unat (b + of_nat k - a)"
    then have "unat (b + of_nat k - a) < length bs" by simp
    with assms(1) k have "a + of_nat (unat (b + of_nat k - a)) \<noteq> b + of_nat k"
      unfolding apart_def by blast
    then show False by simp
  qed
qed

interpretation gm: byte_store gm_fetch gm_store
proof
  fix m a bs b n
  show "gm_fetch m a (length bs) \<noteq> None \<Longrightarrow> gm_fetch (gm_store m a bs) a (length bs) = Some bs"
    by (auto simp: gm_fetch_alt gm_store_bytes span_of_put_span split: if_splits)
  show "apart a (length bs) b n \<Longrightarrow> gm_fetch (gm_store m a bs) b n = gm_fetch m b n"
    using put_span_apart [of a bs b n "gm_bytes m"]
    by (cases "length bs < 2 ^ 64") (auto simp: gm_fetch_alt gm_store_bytes gm_fetch_def split: if_splits)
  show "gm_fetch (gm_store m a bs) b n = None \<longleftrightarrow> gm_fetch m b n = None"
    by (simp add: gm_fetch_alt)
qed

text \<open>The typed accessors over the interface.\<close>

lemma read_u16_fetch: "result_ok (read_u16 m a) = map_option from_le_bytes (gm_fetch m a 2)"
  by (cases "gm_peek m a 2") (simp_all add: read_u16_def gm_fetch_def)

lemma read_u32_fetch: "result_ok (read_u32 m a) = map_option from_le_bytes (gm_fetch m a 4)"
  by (cases "gm_peek m a 4") (simp_all add: read_u32_def gm_fetch_def)

lemma read_u64_fetch: "result_ok (read_u64 m a) = map_option from_le_bytes (gm_fetch m a 8)"
  by (cases "gm_peek m a 8") (simp_all add: read_u64_def gm_fetch_def)

lemma write_u16_store: "ignore m (write_u16 m a v) = gm_store m a (to_le_bytes v)"
  by (simp add: gm_store_def write_u16_def)

lemma write_u32_store: "ignore m (write_u32 m a v) = gm_store m a (to_le_bytes v)"
  by (simp add: gm_store_def write_u32_def)

lemma gm_store_wf_geometry: "map geometry (gm_regions (gm_store m a bs)) = map geometry (gm_regions m)"
  by simp

end
