(* ===== verification/Guest_Memory_Growth.thy ===== *)
theory Guest_Memory_Growth
  imports Guest_Memory_View
begin

text \<open>
  How guest memory grows: \<^verbatim>\<open>add_region\<close>, \<^verbatim>\<open>reserve_region\<close> and \<^verbatim>\<open>reserve_demand_region\<close> keep the region
  list well formed, and \<^verbatim>\<open>prepare_next\<close> publishes more of a deferred range without disturbing what
  is already published.
\<close>

section \<open>Replacing one region by another over the same addresses\<close>

lemma set_region_wf:
  assumes wf: "wf_memory m" and i: "i < length (gm_regions m)" and r: "wf_region r"
    and same: "r_gpa r = r_gpa (gm_regions m ! i)" "r_len r = r_len (gm_regions m ! i)"
    and z: "\<And>a. f a = gm_bytes m a \<or> f a = 0" and u: "\<And>a. unbacked r a \<Longrightarrow> f a = 0"
  shows "wf_memory ((set_region m i r)\<lparr>gm_bytes := f\<rparr>)"
proof -
  let ?rs = "(gm_regions m)[i := r]"
  have inr: "in_region r = in_region (gm_regions m ! i)"
    using same by (simp add: in_region_def fun_eq_iff)
  have "map (\<lambda>s. in_region s a) ?rs = map (\<lambda>s. in_region s a) (gm_regions m)" for a
    by (simp add: map_update inr list_update_same_conv i)
  then have "length (filter (\<lambda>s. in_region s a) ?rs) = length (filter (\<lambda>s. in_region s a) (gm_regions m))" for a
    by (rule filter_length_cong)
  then have "regions_disjoint ?rs"
    using wf by (simp add: wf_memory_def regions_disjoint_def)
  moreover have "map r_gpa ?rs = map r_gpa (gm_regions m)"
    by (simp add: map_update same list_update_same_conv i)
  moreover have "set ?rs \<subseteq> insert r (set (gm_regions m))"
    by (rule set_update_subset_insert)
  moreover have "f a = 0" if "s \<in> set (gm_regions m)" "unbacked s a" for s a
    using z [of a] wf that by (auto simp: wf_memory_def)
  ultimately show ?thesis
    using wf r u by (auto simp: wf_memory_def set_region_def)
qed

section \<open>Publishing more of a deferred range\<close>

text \<open>The state \<^verbatim>\<open>prepare_next\<close> leaves when it publishes \<open>[start, e)\<close> of region \<open>i\<close>.\<close>

definition published :: "guest_memory \<Rightarrow> nat \<Rightarrow> usize \<Rightarrow> usize \<Rightarrow> guest_memory" where
  "published m i start e = (set_region m i ((gm_regions m ! i)\<lparr>r_deferred := Some e\<rparr>))
     \<lparr>gm_bytes := zero_span (gm_bytes m) (r_gpa (gm_regions m ! i) + start) (unat (e - start))\<rparr>"

lemma saturating_add_ge: "a \<le> saturating_add a b"
  using unat_saturating_add [of a b] unat_lt2p [of a]
  by (simp only: word_le_nat_alt)

lemma prepare_next_run:
  assumes ok: "prepare_next h m gpa amount = Ok (m', e)"
  shows "\<exists>i start. i < length (gm_regions m) \<and> r_gpa (gm_regions m ! i) = gpa \<and>
      r_deferred (gm_regions m ! i) = Some start \<and>
      e = min (saturating_add start amount) (r_len (gm_regions m ! i)) \<and>
      (m' = published m i start e \<or> m' = m \<and> e = start)"
proof -
  obtain i where i: "find_index (\<lambda>r. r_gpa r = gpa) (gm_regions m) = Some i"
    using ok by (cases "find_index (\<lambda>r. r_gpa r = gpa) (gm_regions m)") (auto simp: prepare_next_def)
  let ?r = "gm_regions m ! i"
  have ib: "i < length (gm_regions m)" "r_gpa ?r = gpa"
    using find_index_Some [OF i] by auto
  obtain start where s: "r_deferred ?r = Some start"
    using ok i by (cases "r_deferred ?r") (auto simp: prepare_next_def Let_def)
  have "e = min (saturating_add start amount) (r_len ?r) \<and>
      (m' = published m i start e \<or> m' = m \<and> e = start)"
    using ok by (simp add: prepare_next_def i s Let_def ib published_def split: if_splits option.splits)
      (auto split: result.splits if_splits option.splits)
  with ib s show ?thesis by blast
qed

lemma region_contains_ready:
  assumes "wf_region r" "region_contains r g l"
  shows "unat g + unat l \<le> unat (r_gpa r) + unat (region_ready r)"
proof -
  have "unat (region_ready r) \<le> unat (r_len r)"
    using assms(1) by (auto simp: region_ready_def wf_region_def word_le_nat_alt split: option.split)
  then have "unat (r_gpa r) + unat (region_ready r) < 2 ^ LENGTH(64)"
    using assms(1) by (simp add: wf_region_def)
  from unat_add_no_wrap [OF this] show ?thesis
    using assms(2) by (auto simp: region_contains_def checked_add_Some unat_add_no_wrap word_le_nat_alt split: option.splits)
qed

lemma published_bounds:
  assumes wf: "wf_memory m" and i: "i < length (gm_regions m)"
    and e: "start \<le> e" "e \<le> r_len (gm_regions m ! i)"
  shows "unat (a - (r_gpa (gm_regions m ! i) + start)) < unat (e - start) \<longleftrightarrow>
    unat (r_gpa (gm_regions m ! i)) + unat start \<le> unat a \<and> unat a < unat (r_gpa (gm_regions m ! i)) + unat e"
proof -
  let ?r = "gm_regions m ! i"
  have ov: "unat (r_gpa ?r) + unat (r_len ?r) < 2 ^ 64"
    using wf i by (auto simp: wf_memory_def wf_region_def)
  have ue: "unat start \<le> unat e" "unat e \<le> unat (r_len ?r)" "unat (e - start) = unat e - unat start"
    using e by (simp_all add: word_le_nat_alt unat_sub)
  have "unat (r_gpa ?r) + unat start < 2 ^ LENGTH(64)" using ov ue by simp
  from unat_add_no_wrap [OF this]
  have us: "unat (r_gpa ?r + start) = unat (r_gpa ?r) + unat start" .
  have "unat (r_gpa ?r + start) + unat (e - start) \<le> 2 ^ 64" using us ue ov by simp
  from unat_diff_iff [OF this] show ?thesis using us ue by auto
qed

lemma published_wf:
  assumes wf: "wf_memory m" and i: "i < length (gm_regions m)"
    and d: "r_deferred (gm_regions m ! i) = Some start"
    and e: "start \<le> e" "e \<le> r_len (gm_regions m ! i)"
  shows "wf_memory (published m i start e)"
proof -
  have "wf_region (gm_regions m ! i)" using wf i by (auto simp: wf_memory_def)
  then show ?thesis
    unfolding published_def using d e
    by (intro set_region_wf [OF wf i]) (auto simp: wf_region_def zero_span_def unbacked_def)
qed

lemma published_grows:
  assumes "wf_region r" "r_deferred r = Some start" "start \<le> e" "e \<le> r_len r" "region_contains r g l"
  shows "region_contains (r\<lparr>r_deferred := Some e\<rparr>) g l"
proof -
  have b: "r_gpa r \<le> g" "unat g + unat l < 2 ^ LENGTH(64)"
    using assms(5) by (auto simp: region_contains_def checked_add_Some split: option.splits)
  have "unat (r_gpa r) + unat e < 2 ^ LENGTH(64)"
    using assms(1,4) by (simp add: wf_region_def word_le_nat_alt)
  note ue = unat_add_no_wrap [OF this]
  have "unat g + unat l \<le> unat (r_gpa r) + unat e"
    using region_contains_ready [OF assms(1,5)] assms(2,3) by (simp add: region_ready_def word_le_nat_alt)
  then have "g + l \<le> r_gpa r + e"
    by (simp add: word_le_nat_alt ue unat_add_no_wrap [OF b(2)])
  with b show ?thesis
    by (simp add: region_contains_def region_ready_def checked_add_Some [THEN iffD2])
qed

text \<open>A published span lies below the new prefix, so neither its bounds nor its bytes change.\<close>

lemma published_keeps_bytes:
  assumes wf: "wf_memory m" and i: "i < length (gm_regions m)"
    and d: "r_deferred (gm_regions m ! i) = Some start"
    and e: "start \<le> e" "e \<le> r_len (gm_regions m ! i)"
    and j: "region_for_release m g l = Ok j" and k: "k < unat l"
  shows "gm_bytes (published m i start e) (g + of_nat k) = gm_bytes m (g + of_nat k)"
proof (rule ccontr)
  let ?r = "gm_regions m ! i" and ?a = "g + of_nat k"
  have jlt: "j < length (gm_regions m)" and c: "region_contains (gm_regions m ! j) g l"
    using region_for_release_bound [OF j] by auto
  have wfr: "wf_region ?r" "wf_region (gm_regions m ! j)" using wf i jlt by (auto simp: wf_memory_def)
  note inj = region_contains_in [OF wfr(2) c k]
  assume "gm_bytes (published m i start e) ?a \<noteq> gm_bytes m ?a"
  then have "unat (?a - (r_gpa ?r + start)) < unat (e - start)"
    by (auto simp: published_def zero_span_def split: if_splits)
  then have a: "unat (r_gpa ?r) + unat start \<le> unat ?a" "unat ?a < unat (r_gpa ?r) + unat e"
    using published_bounds [OF wf i e] by auto
  then have "in_region ?r ?a"
    using in_region_iff [OF wfr(1)] e by (simp add: word_le_nat_alt)
  then have "i = j"
    using regions_disjointD [OF _ i jlt _ inj(1)] wf by (auto simp: wf_memory_def)
  with region_contains_ready [OF wfr(2) c] d inj(2) a k show False
    by (simp add: region_ready_def)
qed

lemma published_peek:
  assumes wf: "wf_memory m" and i: "i < length (gm_regions m)"
    and d: "r_deferred (gm_regions m ! i) = Some start"
    and e: "start \<le> e" "e \<le> r_len (gm_regions m ! i)"
    and pk: "gm_peek m g l = Ok bs"
  shows "gm_peek (published m i start e) g l = Ok bs"
proof -
  let ?m = "published m i start e"
  obtain j where j: "region_for_release m g l = Ok j" and bs: "bs = span_of (gm_bytes m) g (unat l)"
    using pk by (auto simp: gm_peek_def)
  have jlt: "j < length (gm_regions m)" and c: "region_contains (gm_regions m ! j) g l"
    using region_for_release_bound [OF j] by auto
  have wfi: "wf_region (gm_regions m ! i)" using wf i by (auto simp: wf_memory_def)
  have "region_contains (gm_regions ?m ! j) g l"
    using c published_grows [OF wfi d e] i by (cases "i = j") (auto simp: published_def set_region_def)
  moreover have "j < length (gm_regions ?m)"
    using jlt by (simp add: published_def set_region_def)
  ultimately have "\<exists>k. region_for_release ?m g l = Ok k"
    by (auto simp: region_for_release_def find_index_None split: option.splits)
  moreover have "span_of (gm_bytes ?m) g (unat l) = span_of (gm_bytes m) g (unat l)"
    using published_keeps_bytes [OF wf i d e j] by (simp add: span_of_def)
  ultimately show ?thesis
    by (auto simp: gm_peek_def bs)
qed


section \<open>Adding a region disturbs no other\<close>

lemma peek_mono:
  assumes pk: "gm_peek m g l = Ok bs"
    and reg: "\<And>r. r \<in> set (gm_regions m) \<Longrightarrow> region_contains r g l \<Longrightarrow>
      \<exists>r' \<in> set (gm_regions m'). region_contains r' g l"
    and same: "\<And>r k. r \<in> set (gm_regions m) \<Longrightarrow> region_contains r g l \<Longrightarrow> k < unat l \<Longrightarrow>
      gm_bytes m' (g + of_nat k) = gm_bytes m (g + of_nat k)"
  shows "gm_peek m' g l = Ok bs"
proof -
  obtain j where j: "region_for_release m g l = Ok j" and bs: "bs = span_of (gm_bytes m) g (unat l)"
    using pk by (auto simp: gm_peek_def)
  then have r: "gm_regions m ! j \<in> set (gm_regions m)" "region_contains (gm_regions m ! j) g l"
    using region_for_release_bound [OF j] by auto
  have "\<exists>k. region_for_release m' g l = Ok k"
    using reg [OF r] by (auto simp: region_for_release_def split: option.splits)
  moreover have "span_of (gm_bytes m') g (unat l) = span_of (gm_bytes m) g (unat l)"
    using same [OF r] by (simp add: span_of_def)
  ultimately show ?thesis
    by (auto simp: gm_peek_def bs)
qed

lemma outside_new_region:
  assumes wf: "wf_memory m" and r: "wf_region r"
    and no: "\<not> regions_overlap (gm_regions m) (r_gpa r) (r_gpa r + r_len r)"
    and s: "s \<in> set (gm_regions m)" "region_contains s g l" "k < unat l"
  shows "zero_span (gm_bytes m) (r_gpa r) (unat (r_len r)) (g + of_nat k) = gm_bytes m (g + of_nat k)"
proof -
  have "in_region s (g + of_nat k)"
    using region_contains_in(1) [OF _ s(2,3)] wf s(1) by (auto simp: wf_memory_def)
  then have "\<not> in_region r (g + of_nat k)"
    using no_overlap_disjoint [OF _ r no s(1)] wf by (auto simp: wf_memory_def)
  then show ?thesis
    by (simp add: zero_span_def in_region_def)
qed

text \<open>The one region that starts at an address, in a well-formed list.\<close>

lemma starts_unique:
  assumes wf: "wf_memory m" and r: "r \<in> set (gm_regions m)"
    and i: "find_index (\<lambda>s. r_gpa s = r_gpa r) (gm_regions m) = Some i"
  shows "i < length (gm_regions m)" and "gm_regions m ! i = r"
proof -
  from find_index_Some [OF i] show ib: "i < length (gm_regions m)" by simp
  have gi: "r_gpa (gm_regions m ! i) = r_gpa r" using find_index_Some [OF i] by simp
  obtain j where j: "j < length (gm_regions m)" "gm_regions m ! j = r"
    using r by (metis in_set_conv_nth)
  have "in_region s (r_gpa s)" if "s \<in> set (gm_regions m)" for s
    using wf that by (auto simp: in_region_def wf_memory_def wf_region_def unat_gt_0)
  then have "in_region (gm_regions m ! i) (r_gpa r)" "in_region (gm_regions m ! j) (r_gpa r)"
    using ib j gi nth_mem by metis+
  then have "i = j"
    using regions_disjointD [OF _ ib j(1)] wf by (auto simp: wf_memory_def)
  with j show "gm_regions m ! i = r" by simp
qed

definition fresh_region :: "u64 \<Rightarrow> usize \<Rightarrow> usize \<Rightarrow> usize option \<Rightarrow> region" where
  "fresh_region gpa len p d = \<lparr>r_gpa = gpa, r_len = len, r_host = p, r_deferred = d, r_demand = None\<rparr>"

lemma fresh_region_fields [simp]:
  "r_gpa (fresh_region gpa len p d) = gpa" "r_len (fresh_region gpa len p d) = len"
  "r_deferred (fresh_region gpa len p d) = d" "r_demand (fresh_region gpa len p d) = None"
  by (simp_all add: fresh_region_def)

lemma fresh_region_wf:
  "unat gpa + unat len < 2 ^ 64 \<Longrightarrow> len \<noteq> 0 \<Longrightarrow> d \<in> {None, Some 0} \<Longrightarrow> wf_region (fresh_region gpa len p d)"
  by (auto simp: wf_region_def fresh_region_def)

lemma insert_region_set [simp]: "set (gm_regions (insert_region r m)) = insert r (set (gm_regions m))"
  by (simp add: insert_region_def)

lemma insert_region_bytes [simp]: "gm_bytes (insert_region r m) = gm_bytes m"
  by (simp add: insert_region_def)

lemma add_region_run:
  assumes "add_region h m gpa len = Ok m'"
  shows "\<not> regions_overlap (gm_regions m) gpa (gpa + len) \<and>
    (\<exists>p. m' = insert_region (fresh_region gpa len p None) (m\<lparr>gm_bytes := zero_span (gm_bytes m) gpa (unat len)\<rparr>))"
  using assms by (auto simp: add_region_def fresh_region_def split: if_splits result.splits option.splits)

lemma reserve_region_run:
  assumes "reserve_region h m gpa len = Ok m'"
  shows "\<not> regions_overlap (gm_regions m) gpa (gpa + len) \<and> unat gpa + unat len < 2 ^ 64 \<and>
    (\<exists>p. m' = insert_region (fresh_region gpa len p (Some 0)) m)"
  using assms by (auto simp: reserve_region_def fresh_region_def checked_add_Some
      split: if_splits result.splits option.splits)

lemma add_region_keeps:
  assumes wf: "wf_memory m" and ok: "add_region h m gpa len = Ok m'"
    and len: "len \<noteq> 0" "unat gpa + unat len < 2 ^ 64"
  shows "wf_memory m'" and "gm_peek m g l = Ok bs \<Longrightarrow> gm_peek m' g l = Ok bs"
proof -
  obtain p where no: "\<not> regions_overlap (gm_regions m) gpa (gpa + len)"
      and m': "m' = insert_region (fresh_region gpa len p None) (m\<lparr>gm_bytes := zero_span (gm_bytes m) gpa (unat len)\<rparr>)"
    using add_region_run [OF ok] by blast
  let ?r = "fresh_region gpa len p None"
  have r: "wf_region ?r" "r_gpa ?r = gpa" "r_len ?r = len"
    using fresh_region_wf len by (auto simp: fresh_region_def)
  show "wf_memory m'"
    unfolding m' by (rule insert_region_wf [OF wf r(1)])
      (use no in \<open>auto simp: r zero_span_def unbacked_def fresh_region_def\<close>)
  show "gm_peek m' g l = Ok bs" if "gm_peek m g l = Ok bs"
    using outside_new_region [OF wf r(1)] no by (intro peek_mono [OF that]) (auto simp: m' r)
qed

lemma reserve_region_keeps:
  assumes wf: "wf_memory m" and ok: "reserve_region h m gpa len = Ok m'" and len: "len \<noteq> 0"
  shows "wf_memory m'" and "gm_peek m g l = Ok bs \<Longrightarrow> gm_peek m' g l = Ok bs"
proof -
  obtain p where no: "\<not> regions_overlap (gm_regions m) gpa (gpa + len)" "unat gpa + unat len < 2 ^ 64"
      and m': "m' = insert_region (fresh_region gpa len p (Some 0)) m"
    using reserve_region_run [OF ok] by blast
  let ?r = "fresh_region gpa len p (Some 0)"
  have r: "wf_region ?r" "r_gpa ?r = gpa" "r_len ?r = len"
    using fresh_region_wf len no by (auto simp: fresh_region_def)
  show "wf_memory m'"
    unfolding m' by (rule insert_region_wf [OF wf r(1)])
      (use no in \<open>auto simp: r zero_span_def unbacked_def fresh_region_def\<close>)
  show "gm_peek m' g l = Ok bs" if "gm_peek m g l = Ok bs"
    by (rule peek_mono [OF that]) (auto simp: m')
qed

lemma reserve_demand_region_run:
  assumes wf: "wf_memory m" and ok: "reserve_demand_region h m gpa len = Ok m'" and len: "len \<noteq> 0"
  shows "\<exists>m1 p i. reserve_region h m gpa len = Ok m1 \<and> i < length (gm_regions m1) \<and>
    gm_regions m1 ! i = fresh_region gpa len p (Some 0) \<and>
    m' = (set_region m1 i ((fresh_region gpa len p None)\<lparr>r_demand := Some \<lparr>dem_ready =
            replicate ((unat len + DEMAND_CHUNK - 1) div DEMAND_CHUNK) False, dem_complete = False\<rparr>\<rparr>))
         \<lparr>gm_bytes := zero_span (gm_bytes m) gpa (unat len)\<rparr>"
proof -
  obtain m1 where m1: "reserve_region h m gpa len = Ok m1"
    using ok by (cases "reserve_region h m gpa len") (auto simp: reserve_demand_region_def)
  then obtain p where p: "m1 = insert_region (fresh_region gpa len p (Some 0)) m"
    using reserve_region_run by blast
  let ?r = "fresh_region gpa len p (Some 0)"
  have r: "?r \<in> set (gm_regions m1)" "r_gpa ?r = gpa" by (simp_all add: p fresh_region_def)
  obtain i where i: "find_index (\<lambda>s. r_gpa s = gpa) (gm_regions m1) = Some i"
    using r by (cases "find_index (\<lambda>s. r_gpa s = gpa) (gm_regions m1)") auto
  note u = starts_unique [OF reserve_region_keeps(1) [OF wf m1 len] r(1), unfolded r(2), OF i]
  with ok m1 i show ?thesis
    by (auto simp: reserve_demand_region_def fresh_region_def p)
qed

lemma reserve_demand_region_keeps:
  assumes wf: "wf_memory m" and ok: "reserve_demand_region h m gpa len = Ok m'" and len: "len \<noteq> 0"
  shows "wf_memory m'" and "gm_peek m g l = Ok bs \<Longrightarrow> gm_peek m' g l = Ok bs"
proof -
  let ?d = "\<lparr>dem_ready = replicate ((unat len + DEMAND_CHUNK - 1) div DEMAND_CHUNK) False, dem_complete = False\<rparr>"
  obtain m1 p i where m1: "reserve_region h m gpa len = Ok m1" and i: "i < length (gm_regions m1)"
      and ri: "gm_regions m1 ! i = fresh_region gpa len p (Some 0)"
      and m': "m' = (set_region m1 i ((fresh_region gpa len p None)\<lparr>r_demand := Some ?d\<rparr>))
         \<lparr>gm_bytes := zero_span (gm_bytes m) gpa (unat len)\<rparr>"
    using reserve_demand_region_run [OF wf ok len] by blast
  obtain q where no: "\<not> regions_overlap (gm_regions m) gpa (gpa + len)" "unat gpa + unat len < 2 ^ 64"
      and q: "m1 = insert_region (fresh_region gpa len q (Some 0)) m"
    using reserve_region_run [OF m1] by blast
  let ?r = "(fresh_region gpa len p None)\<lparr>r_demand := Some ?d\<rparr>"
  have r: "wf_region ?r" "r_gpa ?r = gpa" "r_len ?r = len" "r_deferred ?r = None"
    using fresh_region_wf [OF no(2) len, of None p] by (auto simp: fresh_region_def wf_region_def)
  have b: "gm_bytes m1 = gm_bytes m" by (simp add: q)
  show "wf_memory m'"
    unfolding m' by (rule set_region_wf [OF reserve_region_keeps(1) [OF wf m1 len] i r(1)])
      (auto simp: ri r b zero_span_def unbacked_def in_region_def fresh_region_def)
  show "gm_peek m' g l = Ok bs" if pk: "gm_peek m g l = Ok bs"
  proof (rule peek_mono [OF pk])
    fix s assume s: "s \<in> set (gm_regions m)" "region_contains s g l"
    show "gm_bytes m' (g + of_nat k) = gm_bytes m (g + of_nat k)" if "k < unat l" for k
      using outside_new_region [OF wf r(1) _ s that] no by (simp add: m' r)
    obtain j where j: "j < length (gm_regions m1)" "gm_regions m1 ! j = s"
      using s(1) by (metis insertI2 insert_region_set in_set_conv_nth q)
    have grow: "region_contains ?r g l" if "region_contains (fresh_region gpa len p (Some 0)) g l"
      using published_grows [of "fresh_region gpa len p (Some 0)" 0 len g l, OF fresh_region_wf] no len that
      by (auto simp: fresh_region_def region_contains_def region_ready_def split: option.splits)
    have "region_contains (gm_regions m' ! j) g l"
      using s(2) j i ri grow by (cases "i = j") (auto simp: m' set_region_def)
    moreover have "j < length (gm_regions m')" using j by (simp add: m' set_region_def)
    ultimately show "\<exists>r' \<in> set (gm_regions m'). region_contains r' g l" by auto
  qed
qed

text \<open>C19: Adding RAM keeps the memory well formed. Whether \<^verbatim>\<open>add_region\<close>, \<^verbatim>\<open>reserve_region\<close> or
  \<^verbatim>\<open>reserve_demand_region\<close> adds a non-empty range that does not wrap, a successful call leaves a
  sorted list of pairwise disjoint regions whose unbacked chunks read as zero, and every span that
  could be read before reads the same bytes afterwards.\<close>

theorem adding_ram_keeps_memory:
  assumes "wf_memory m" "len \<noteq> 0" "unat gpa + unat len < 2 ^ 64"
    and "add_region h m gpa len = Ok m' \<or> reserve_region h m gpa len = Ok m' \<or>
         reserve_demand_region h m gpa len = Ok m'"
  shows "wf_memory m' \<and> (\<forall>g l bs. gm_peek m g l = Ok bs \<longrightarrow> gm_peek m' g l = Ok bs)"
  using assms add_region_keeps reserve_region_keeps reserve_demand_region_keeps by metis

text \<open>Publishing more of a hotplug range. A successful \<^verbatim>\<open>prepare_next\<close> keeps the memory well
  formed, changes nothing that was already readable, makes the whole prefix up to the end it returns
  readable, never publishes past the end of the range, and never unpublishes.\<close>

lemma prepare_next_extends:
  assumes "wf_memory m" "prepare_next h m gpa amount = Ok (m', e)"
  shows "wf_memory m' \<and> (\<forall>g l bs. gm_peek m g l = Ok bs \<longrightarrow> gm_peek m' g l = Ok bs) \<and>
    (\<exists>bs. gm_peek m' gpa e = Ok bs) \<and>
    (\<exists>i start. i < length (gm_regions m) \<and> r_gpa (gm_regions m ! i) = gpa \<and>
       r_deferred (gm_regions m ! i) = Some start \<and> r_deferred (gm_regions m' ! i) = Some e \<and>
       start \<le> e \<and> e \<le> r_len (gm_regions m ! i))"
proof -
  obtain i start where i: "i < length (gm_regions m)" "r_gpa (gm_regions m ! i) = gpa"
      and s: "r_deferred (gm_regions m ! i) = Some start"
      and e: "e = min (saturating_add start amount) (r_len (gm_regions m ! i))"
      and m': "m' = published m i start e \<or> m' = m \<and> e = start"
    using prepare_next_run [OF assms(2)] by blast
  have wfr: "wf_region (gm_regions m ! i)" using assms(1) i by (auto simp: wf_memory_def)
  then have "start \<le> e" "e \<le> r_len (gm_regions m ! i)"
    using s saturating_add_ge [of start amount] by (auto simp: e wf_region_def)
  note se = this published_wf [OF assms(1) i(1) s this] published_peek [OF assms(1) i(1) s this]
  have d': "r_deferred (gm_regions m' ! i) = Some e" "i < length (gm_regions m')" "r_gpa (gm_regions m' ! i) = gpa"
    using m' i s by (auto simp: published_def set_region_def)
  have "unat gpa + unat e < 2 ^ LENGTH(64)"
    using wfr i se(2) by (simp add: wf_region_def word_le_nat_alt)
  then have "region_contains (gm_regions m' ! i) gpa e"
    using d' by (simp add: region_contains_def region_ready_def checked_add_Some [THEN iffD2])
  then have "\<exists>bs. gm_peek m' gpa e = Ok bs"
    using d'(2) nth_mem by (fastforce simp: gm_peek_def region_for_release_def split: option.splits)
  with se d' i s m' assms(1) show ?thesis by blast
qed


section \<open>The properties at work\<close>

text \<open>A host whose calls succeed, with 16 KiB pages.\<close>

definition demo_host :: host where
  "demo_host = \<lparr>host_mmap = (\<lambda>_. Inr 1048576), mach_vm_allocate = (\<lambda>_ _. 0),
     vm_map = (\<lambda>_ _ _. None), vm_unmap = (\<lambda>_ _. None), host_page_size = 16384\<rparr>"

lemma demo_host_allocates [simp]: "replace_owned_pages demo_host p l = Ok ()"
proof -
  have "allocate_each demo_host p xs = 0" for xs
    by (induction xs) (simp_all add: demo_host_def)
  then show ?thesis
    by (simp add: replace_owned_pages_def) (simp add: demo_host_def)
qed

lemma gm_new_wf: "wf_memory gm_new"
  by (simp add: wf_memory_def gm_new_def regions_disjoint_def)

definition demo_reserved :: guest_memory where
  "demo_reserved = insert_region (fresh_region 65536 32768 1048576 (Some 0)) gm_new"

lemma demo_reserve: "reserve_region demo_host gm_new 65536 32768 = Ok demo_reserved"
  by (simp add: reserve_region_def gm_new_def demo_reserved_def checked_add_def regions_overlap_def
      mmap_reserve_def demo_host_def fresh_region_def)

text \<open>A machine with 32 KiB of RAM, to which a hotplug range is added.\<close>

definition demo_ram :: guest_memory where
  "demo_ram = insert_region (fresh_region 65536 32768 1048576 None) gm_new"

lemma demo_add: "add_region demo_host gm_new 65536 32768 = Ok demo_ram"
proof -
  have "mmap_reserve demo_host 32768 = Ok 1048576" "mmap_anonymous demo_host 32768 = Ok 1048576"
    by (simp_all add: mmap_anonymous_def mmap_reserve_def) (simp_all add: demo_host_def)
  moreover have "vm_map demo_host = (\<lambda>_ _ _. None)" by (simp add: demo_host_def)
  moreover have "zero_span (\<lambda>_. 0) 65536 32768 = (\<lambda>_. 0)" by (simp add: zero_span_def fun_eq_iff)
  ultimately show ?thesis
    by (simp add: add_region_def gm_new_def demo_ram_def checked_add_def regions_overlap_def fresh_region_def)
qed

lemma demo_ram_peek: "gm_peek demo_ram 65536 2 = Ok [0, 0]"
  by (simp add: gm_peek_def region_for_release_def demo_ram_def insert_region_def gm_new_def fresh_region_def
      region_contains_def region_ready_def checked_add_def span_of_def upt_rec)

theorem adding_ram_keeps_memory_witness:
  "\<exists>m'. reserve_region demo_host demo_ram 131072 32768 = Ok m' \<and> wf_memory m' \<and> gm_peek m' 65536 2 = Ok [0, 0]"
proof -
  obtain m' where m': "reserve_region demo_host demo_ram 131072 32768 = Ok m'"
    by (simp add: reserve_region_def gm_new_def demo_ram_def checked_add_def regions_overlap_def insert_region_def
        mmap_reserve_def demo_host_def fresh_region_def)
  have wf: "wf_memory demo_ram" using add_region_keeps(1) [OF gm_new_wf demo_add] by simp
  show ?thesis
    using adding_ram_keeps_memory [OF wf, of 32768 131072 demo_host m'] m' demo_ram_peek by simp
qed

lemma demo_reserved_regions: "gm_regions demo_reserved = [fresh_region 65536 32768 1048576 (Some 0)]"
  by (simp add: demo_reserved_def insert_region_def gm_new_def)

lemma demo_publish: "\<exists>m'. prepare_next demo_host demo_reserved 65536 16384 = Ok (m', 16384)"
proof -
  have "host_page_size demo_host = 16384" "vm_map demo_host = (\<lambda>_ _ _. None)" "gm_vm demo_reserved"
    by (simp_all add: demo_host_def demo_reserved_def insert_region_def gm_new_def)
  then show ?thesis
    by (simp add: prepare_next_def demo_reserved_regions saturating_add_def is_multiple_of_def Let_def)
qed

lemma demo_reserved_wf: "wf_memory demo_reserved"
  using reserve_region_keeps(1) [OF gm_new_wf demo_reserve] by simp

lemma prepare_next_extends_witness:
  "\<exists>m'. prepare_next demo_host demo_reserved 65536 16384 = Ok (m', 16384) \<and> wf_memory m' \<and>
    (\<exists>bs. gm_peek m' 65536 16384 = Ok bs)"
  using demo_publish prepare_next_extends [OF demo_reserved_wf] by blast

end
