(* ===== verification/Guest_Release.thy ===== *)
theory Guest_Release
  imports Guest_Memory_Growth
begin

text \<open>
  Giving pages back to the host (\<^verbatim>\<open>release\<close>, \<^verbatim>\<open>release_backed\<close>, \<^verbatim>\<open>release_reported\<close> of \<^verbatim>\<open>memory.rs\<close>):
  only whole host pages inside the spans the guest reported are discarded, whatever the order of
  the spans, the coalescing of adjacent ones and the state of a demand region.
\<close>

section \<open>Releasing pages\<close>

text \<open>\<open>m'\<close> is \<open>m\<close> with some bytes of \<open>S\<close> discarded: nothing else moved.\<close>

definition discards :: "guest_memory \<Rightarrow> guest_memory \<Rightarrow> (u64 \<Rightarrow> bool) \<Rightarrow> bool" where
  "discards m m' S \<longleftrightarrow> gm_regions m' = gm_regions m \<and> gm_vm m' = gm_vm m \<and>
     (\<forall>a. gm_bytes m' a = gm_bytes m a \<or> (S a \<and> gm_bytes m' a = 0))"

definition in_span :: "u64 \<Rightarrow> nat \<Rightarrow> u64 \<Rightarrow> bool" where
  "in_span gpa n a \<longleftrightarrow> unat gpa \<le> unat a \<and> unat a < unat gpa + n"

text \<open>The whole host pages inside a span.\<close>

definition whole_pages :: "nat \<Rightarrow> u64 \<Rightarrow> nat \<Rightarrow> u64 \<Rightarrow> bool" where
  "whole_pages page gpa n a \<longleftrightarrow>
     (unat gpa + page - 1) div page * page \<le> unat a \<and> unat a < (unat gpa + n) div page * page"

lemma discards_refl [simp]: "discards m m S"
  by (simp add: discards_def)

lemma discards_mono: "discards m m' S \<Longrightarrow> (\<And>a. S a \<Longrightarrow> T a) \<Longrightarrow> discards m m' T"
  by (auto simp: discards_def)

lemma discards_trans: "discards m m1 S \<Longrightarrow> discards m1 m2 S \<Longrightarrow> discards m m2 S"
  unfolding discards_def by metis

lemma discards_zero: "discards m m' S \<Longrightarrow> gm_bytes m a = 0 \<Longrightarrow> gm_bytes m' a = 0"
  by (force simp: discards_def)

lemma discards_wf: "discards m m' S \<Longrightarrow> wf_memory m \<Longrightarrow> wf_memory m'"
  unfolding wf_memory_def discards_def by metis

lemma discards_region_for: "discards m m' S \<Longrightarrow> region_for_release m' = region_for_release m"
  by (rule region_for_release_geometry) (simp add: discards_def)

lemma page_round_up: "0 < page \<Longrightarrow> x \<le> (x + page - 1) div page * (page :: nat)"
  using div_mult_mod_eq [of "x + page - 1" page] mod_less_divisor [of page "x + page - 1"]
  by linarith

lemma whole_pages_in_span:
  assumes "0 < page" "whole_pages page gpa n a"
  shows "in_span gpa n a"
proof -
  have "(unat gpa + n) div page * page \<le> unat gpa + n"
    by (rule div_times_less_eq_dividend)
  with page_round_up [OF assms(1), of "unat gpa"] assms(2) show ?thesis
    by (simp only: whole_pages_def in_span_def) linarith
qed

lemma whole_pages_mono:
  assumes "whole_pages page gpa n a" "unat lo \<le> unat gpa" "unat gpa + n \<le> unat lo + k"
  shows "whole_pages page lo k a"
proof -
  have "(unat lo + page - 1) div page * page \<le> (unat gpa + page - 1) div page * page"
    using assms(2) by (intro mult_le_mono1 div_le_mono diff_le_mono) simp
  moreover have "(unat gpa + n) div page * page \<le> (unat lo + k) div page * page"
    using assms(3) by (intro mult_le_mono1 div_le_mono)
  ultimately show ?thesis
    using assms(1) unfolding whole_pages_def by linarith
qed

text \<open>An outcome that, when it is \<open>Ok\<close>, has zeroed \<open>[lo, hi)\<close>, and has touched nothing else either way.\<close>

definition releases :: "nat \<Rightarrow> nat \<Rightarrow> guest_memory \<Rightarrow> guest_memory \<times> (memory_error, u64) result \<Rightarrow> bool" where
  "releases lo hi m res \<longleftrightarrow>
     discards m (fst res) (\<lambda>a. lo \<le> unat a \<and> unat a < hi) \<and>
     (\<forall>n a. snd res = Ok n \<longrightarrow> lo \<le> unat a \<longrightarrow> unat a < hi \<longrightarrow> gm_bytes (fst res) a = 0)"

lemma releases_step:
  assumes "discards m m1 (\<lambda>a. lo \<le> unat a \<and> unat a < mid)"
    and "\<And>a. lo \<le> unat a \<Longrightarrow> unat a < mid \<Longrightarrow> gm_bytes m1 a = 0"
    and "releases mid hi m1 res" "lo \<le> mid" "mid \<le> hi"
  shows "releases lo hi m res"
proof -
  have d: "discards m1 (fst res) (\<lambda>a. mid \<le> unat a \<and> unat a < hi)"
    using assms(3) by (simp add: releases_def)
  have "discards m (fst res) (\<lambda>a. lo \<le> unat a \<and> unat a < hi)"
    by (rule discards_trans [OF discards_mono [OF assms(1)] discards_mono [OF d]]) (use assms(4,5) in auto)
  moreover have "gm_bytes (fst res) a = 0" if "snd res = Ok n" "lo \<le> unat a" "unat a < hi" for n a
    using that assms(2,3) discards_zero [OF d, of a] by (cases "unat a < mid") (auto simp: releases_def)
  ultimately show ?thesis
    by (simp add: releases_def)
qed

lemma releases_stuck: "discards m m' (\<lambda>a. lo \<le> unat a \<and> unat a < mid) \<Longrightarrow> mid \<le> hi \<Longrightarrow> \<forall>n. out \<noteq> Ok n \<Longrightarrow>
   releases lo hi m (m', out)"
  by (auto simp: releases_def elim: discards_mono)

lemma release_backed_releases:
  assumes "start \<le> e"
  shows "releases (unat start) (unat e) m (release_backed h m i start e)"
proof -
  have len: "unat (e - start) = unat e - unat start" and le: "unat start \<le> unat e"
    using assms by (simp_all add: unat_sub word_le_nat_alt)
  have "unat start + unat (e - start) \<le> 2 ^ 64"
    using len le unat_lt_64 [of e] by simp
  note iff = unat_diff_iff [OF this]
  have "discards m (m\<lparr>gm_bytes := zero_span (gm_bytes m) start (unat (e - start))\<rparr>)
      (\<lambda>a. unat start \<le> unat a \<and> unat a < unat e)"
    using iff le by (auto simp: discards_def zero_span_def len)
  then show ?thesis
    using iff le by (auto simp: releases_def release_backed_def Let_def zero_span_def len
        split: option.splits result.splits)
qed

lemma release_backed_amount: "release_backed h m i start e = (m', Ok n) \<Longrightarrow> n = e - start"
  by (auto simp: release_backed_def Let_def split: option.splits result.splits)

lemma unat_region_offset:
  assumes "wf_region r" "k \<le> unat (r_len r)"
  shows "unat (r_gpa r + of_nat k) = unat (r_gpa r) + k"
proof -
  have k: "unat (of_nat k :: u64) = k"
    using assms by (intro unat_of_nat_64) (simp add: wf_region_def)
  have "unat (r_gpa r) + unat (of_nat k :: u64) < 2 ^ LENGTH(64)"
    unfolding k using assms by (simp add: wf_region_def)
  from unat_add_no_wrap [OF this] show ?thesis
    by (simp only: k)
qed

text \<open>One turn of the chunk walk, by what it meets.\<close>

definition chunk_next :: "nat \<Rightarrow> nat \<Rightarrow> nat" where
  "chunk_next at e = min e (Suc (at div DEMAND_CHUNK) * DEMAND_CHUNK)"

lemma chunk_next_bounds: "at < e \<Longrightarrow> at < chunk_next at e \<and> chunk_next at e \<le> e"
  using chunk_end_above [of at] by (simp add: chunk_next_def)

lemma chunk_next_same_chunk:
  assumes "at \<le> k" "k < chunk_next at e"
  shows "k div DEMAND_CHUNK = at div DEMAND_CHUNK"
proof (rule div_nat_eqI)
  show "DEMAND_CHUNK * (at div DEMAND_CHUNK) \<le> k"
    using assms(1) times_div_less_eq_dividend [of DEMAND_CHUNK at] by linarith
  show "k < DEMAND_CHUNK * Suc (at div DEMAND_CHUNK)"
    using assms(2) by (simp add: chunk_next_def algebra_simps)
qed

lemma release_chunks_turn:
  assumes "release_chunks h m i at e released = (m', out)" "r = gm_regions m ! i"
  obtains (finished) "e \<le> at" "m' = m" "out = Ok released"
  | (panic) "m' = m" "out = Panic"
  | (ready) m1 n d where "at < e" "r_demand r = Some d" "dem_ready d ! (at div DEMAND_CHUNK)"
      "release_backed h m i (r_gpa r + of_nat at) (r_gpa r + of_nat (chunk_next at e)) = (m1, Ok n)"
      "release_chunks h m1 i (chunk_next at e) e (released + n) = (m', out)"
  | (failed) x where "at < e"
      "release_backed h m i (r_gpa r + of_nat at) (r_gpa r + of_nat (chunk_next at e)) = (m', x)"
      "out = x" "\<forall>n. out \<noteq> Ok n"
  | (skip) d where "at < e" "r_demand r = Some d" "\<not> dem_ready d ! (at div DEMAND_CHUNK)"
      "release_chunks h m i (chunk_next at e) e released = (m', out)"
  using that assms(2) assms(1) [unfolded release_chunks.simps [of h m i at e released]]
  by (auto simp: Let_def chunk_next_def not_le split: if_splits option.splits prod.splits result.splits)

lemma release_chunks_releases:
  assumes "wf_memory m" "i < length (gm_regions m)" "at \<le> e" "e \<le> unat (r_len r)"
    and "r = gm_regions m ! i"
  shows "releases (unat (r_gpa r) + at) (unat (r_gpa r) + e) m (release_chunks h m i at e released)"
  using assms
proof (induction "e - at" arbitrary: at m released rule: less_induct)
  case less
  note wf = less.prems(1) and i = less.prems(2) and e = less.prems(4) and r = less.prems(5)
  have wfr: "wf_region r" and rin: "r \<in> set (gm_regions m)"
    using wf i r by (auto simp: wf_memory_def)
  let ?nxt = "chunk_next at e" and ?b = "unat (r_gpa r)"
  obtain m' out where run: "release_chunks h m i at e released = (m', out)"
    by (meson surj_pair)
  have backed: "releases (?b + at) (?b + ?nxt) m
      (release_backed h m i (r_gpa r + of_nat at) (r_gpa r + of_nat ?nxt))" if "at < e"
    using release_backed_releases [of "r_gpa r + of_nat at" "r_gpa r + of_nat ?nxt" m h i]
      chunk_next_bounds [OF that] e by (simp add: word_le_nat_alt unat_region_offset [OF wfr])
  from run r show ?case
  proof (cases rule: release_chunks_turn)
    case (ready m1 n d)
    have d1: "discards m m1 (\<lambda>a. ?b + at \<le> unat a \<and> unat a < ?b + ?nxt)"
      and z1: "\<And>a. ?b + at \<le> unat a \<Longrightarrow> unat a < ?b + ?nxt \<Longrightarrow> gm_bytes m1 a = 0"
      using backed [OF ready(1)] ready(4) by (auto simp: releases_def)
    have "releases (?b + ?nxt) (?b + e) m1 (release_chunks h m1 i ?nxt e (released + n))"
      using chunk_next_bounds [OF ready(1)] d1 ready(1) i r
      by (intro less.hyps [OF _ discards_wf [OF d1 wf] _ _ e]) (auto simp: discards_def)
    with run ready(5) releases_step [OF d1 z1] chunk_next_bounds [OF ready(1)] show ?thesis by simp
  next
    case (failed x)
    then have "discards m m' (\<lambda>a. ?b + at \<le> unat a \<and> unat a < ?b + ?nxt)"
      using backed [OF failed(1)] by (simp add: releases_def)
    with failed releases_stuck chunk_next_bounds [OF failed(1)] run show ?thesis by fastforce
  next
    case (skip d)
    note nxt = chunk_next_bounds [OF skip(1)]
    have zero: "gm_bytes m a = 0" if "?b + at \<le> unat a" "unat a < ?b + ?nxt" for a
    proof -
      have o: "unat (a - r_gpa r) = unat a - ?b"
        using that by (simp add: unat_sub word_le_nat_alt)
      have "unat (a - r_gpa r) div DEMAND_CHUNK = at div DEMAND_CHUNK"
        using that o by (intro chunk_next_same_chunk [of at _ e]) auto
      then have "unbacked r a"
        using skip that nxt e o by (auto simp: unbacked_def in_region_def)
      then show ?thesis
        using wf rin by (auto simp: wf_memory_def)
    qed
    have "releases (?b + ?nxt) (?b + e) m (release_chunks h m i ?nxt e released)"
      using nxt skip(1) i r by (intro less.hyps [OF _ wf _ _ e]) auto
    with run skip(4) releases_step [OF discards_refl zero] nxt show ?thesis by simp
  qed (use run in \<open>auto simp: releases_def\<close>)
qed


text \<open>The outcome of a release, stated over the span asked for and the host's page size.\<close>

definition releases_pages :: "(u64 \<Rightarrow> bool) \<Rightarrow> (u64 \<Rightarrow> bool) \<Rightarrow> guest_memory \<Rightarrow>
    guest_memory \<times> (memory_error, u64) result \<Rightarrow> bool" where
  "releases_pages may must m res \<longleftrightarrow>
     discards m (fst res) may \<and> (\<forall>n a. snd res = Ok n \<longrightarrow> must a \<longrightarrow> gm_bytes (fst res) a = 0)"

lemma unat_page_floor:
  fixes x page :: u64
  shows "unat (x div page * page) = unat x div unat page * unat page"
proof -
  have "unat x div unat page * unat page < 2 ^ LENGTH(64)"
    using div_times_less_eq_dividend [of "unat x" "unat page"] unat_lt2p [of x] by (rule le_less_trans)
  then have "unat (x div page) * unat page < 2 ^ LENGTH(64)"
    by (simp only: unat_div)
  then show ?thesis
    by (simp only: unat_mult_lem [THEN iffD1] unat_div)
qed

lemma gm_release_cases:
  fixes page gpa len :: u64
  assumes page: "host_page_size h = page" "page \<noteq> 0"
  obtains (nothing) "fst (gm_release h m gpa len) = m"
      "\<And>n a. snd (gm_release h m gpa len) = Ok n \<Longrightarrow> \<not> whole_pages (unat page) gpa (unat len) a"
  | (pages) i s e where "region_for_release m gpa len = Ok i"
      "unat s = (unat gpa + unat page - 1) div unat page * unat page"
      "unat e = (unat gpa + unat len) div unat page * unat page" "s < e"
      "gm_release h m gpa len = release_backed h m i s e \<or>
       gm_release h m gpa len = release_chunks h m i (unat (s - r_gpa (gm_regions m ! i))) (unat (e - r_gpa (gm_regions m ! i))) 0"
proof (cases "region_for_release m gpa len")
  case (Ok i)
  have c: "region_contains (gm_regions m ! i) gpa len"
    using region_for_release_bound [OF Ok] by auto
  then obtain e0 where e0: "checked_add gpa len = Some e0"
    by (auto simp: region_contains_def split: option.splits)
  show thesis
  proof (cases "checked_add gpa (page - 1)")
    case None
    then show thesis
      using Ok e0 page by - (rule nothing, auto simp: gm_release_def Let_def)
  next
    case (Some s0)
    let ?s = "s0 div page * page" and ?e = "e0 div page * page"
    have p: "0 < unat page" using page by (simp add: unat_gt_0)
    have "unat s0 = unat gpa + unat page - 1"
      using Some p by (auto simp: checked_add_Some unat_add_no_wrap unat_minus_one [OF page(2)])
    then have s: "unat ?s = (unat gpa + unat page - 1) div unat page * unat page"
      by (simp only: unat_page_floor)
    have "unat e0 = unat gpa + unat len"
      using e0 by (auto simp: checked_add_Some unat_add_no_wrap)
    then have e: "unat ?e = (unat gpa + unat len) div unat page * unat page"
      by (simp only: unat_page_floor)
    show thesis
    proof (cases "?e \<le> ?s")
      case True
      have res: "gm_release h m gpa len = (m, Ok 0)"
        using Ok Some e0 page True by (simp add: gm_release_def Let_def)
      have none: "\<not> whole_pages (unat page) gpa (unat len) a" for a
        using True unfolding whole_pages_def word_le_nat_alt s e by linarith
      show thesis
        by (rule nothing) (simp_all add: res none)
    next
      case False
      have "gm_release h m gpa len = release_backed h m i ?s ?e \<or>
        gm_release h m gpa len = release_chunks h m i (unat (?s - r_gpa (gm_regions m ! i)))
          (unat (?e - r_gpa (gm_regions m ! i))) 0"
        using Ok Some e0 page False by (auto simp: gm_release_def Let_def split: option.splits)
      with False show thesis
        by (intro pages [OF Ok s e]) (simp_all only: not_le)
    qed
  qed
qed (rule nothing; simp add: gm_release_def)+

lemma gm_release_releases:
  assumes wf: "wf_memory m" and page: "host_page_size h \<noteq> 0"
  shows "releases_pages (in_span gpa (unat len))
    (whole_pages (unat (host_page_size h)) gpa (unat len)) m (gm_release h m gpa len)"
proof (cases rule: gm_release_cases [OF refl page, where m = m and gpa = gpa and len = len, case_names nothing pages])
  case nothing
  then show ?thesis by (simp add: releases_pages_def)
next
  case (pages i s e)
  let ?r = "gm_regions m ! i" and ?p = "unat (host_page_size h)"
  have p: "0 < ?p" using page by (simp add: unat_gt_0)
  have i: "i < length (gm_regions m)" and c: "region_contains ?r gpa len"
    using region_for_release_bound [OF pages(1)] by auto
  have wfr: "wf_region ?r" using wf i by (auto simp: wf_memory_def)
  note b = region_contains_bounds [OF wfr c]
  have lo: "unat (r_gpa ?r) \<le> unat s"
    unfolding pages(2) by (rule order_trans [OF b(1) page_round_up [OF p]])
  have hi: "unat e \<le> unat (r_gpa ?r) + unat (r_len ?r)"
    unfolding pages(3) by (rule order_trans [OF div_times_less_eq_dividend b(2)])
  have "unat (s - r_gpa ?r) = unat s - unat (r_gpa ?r)" "unat (e - r_gpa ?r) = unat e - unat (r_gpa ?r)"
    using lo pages(4) by (simp_all add: unat_sub word_le_nat_alt word_less_nat_alt)
  then have "releases (unat s) (unat e) m
      (release_chunks h m i (unat (s - r_gpa ?r)) (unat (e - r_gpa ?r)) 0)"
    using release_chunks_releases [OF wf i, of "unat (s - r_gpa ?r)" "unat (e - r_gpa ?r)" ?r h 0]
      lo hi pages(4) by (simp add: word_less_nat_alt)
  then have "releases (unat s) (unat e) m (gm_release h m gpa len)"
    using pages(4,5) release_backed_releases [of s e m h i] by auto
  then show ?thesis
    using whole_pages_in_span [OF p, of gpa "unat len"]
    by (auto simp: releases_pages_def releases_def pages(2,3) whole_pages_def elim!: discards_mono)
qed

text \<open>The loop of \<^verbatim>\<open>release_reported\<close>: a pending run is a union of reported spans.\<close>

definition run_span :: "(u64 \<times> u64) option \<Rightarrow> u64 \<Rightarrow> bool" where
  "run_span run a = (case run of None \<Rightarrow> False | Some (lo, hi) \<Rightarrow> in_span lo (unat hi - unat lo) a)"

definition run_pages :: "nat \<Rightarrow> (u64 \<times> u64) option \<Rightarrow> u64 \<Rightarrow> bool" where
  "run_pages page run a = (case run of None \<Rightarrow> False | Some (lo, hi) \<Rightarrow> whole_pages page lo (unat hi - unat lo) a)"

definition run_ok :: "(u64 \<times> u64) option \<Rightarrow> (u64 \<times> u64) list \<Rightarrow> bool" where
  "run_ok run spans = (case run of None \<Rightarrow> True | Some (lo, hi) \<Rightarrow> lo \<le> hi \<and> (\<forall>s \<in> set spans. lo \<le> fst s))"

lemma releases_pages_mono:
  assumes "releases_pages may must m res" "\<And>a. may a \<Longrightarrow> may' a" "\<And>a. must' a \<Longrightarrow> must a"
  shows "releases_pages may' must' m res"
  using assms by (auto simp: releases_pages_def elim!: discards_mono)

lemma releases_pages_trans:
  assumes "releases_pages may1 must1 m (m1, Ok n)" "releases_pages may2 must2 m1 res"
  shows "releases_pages (\<lambda>a. may1 a \<or> may2 a) (\<lambda>a. must1 a \<or> must2 a) m res"
proof -
  have d: "discards m1 (fst res) may2"
    using assms(2) by (simp add: releases_pages_def)
  have "discards m m1 (\<lambda>a. may1 a \<or> may2 a)" "discards m1 (fst res) (\<lambda>a. may1 a \<or> may2 a)"
    using assms by (auto simp: releases_pages_def elim!: discards_mono)
  then have "discards m (fst res) (\<lambda>a. may1 a \<or> may2 a)"
    by (rule discards_trans)
  then show ?thesis
    using assms discards_zero [OF d] by (auto simp: releases_pages_def)
qed

lemma run_merge:
  assumes "lo \<le> hi" "lo \<le> start" "start \<le> hi" "unat e = unat start + unat len"
  shows "run_span (Some (lo, max hi e)) a \<longleftrightarrow> run_span (Some (lo, hi)) a \<or> in_span start (unat len) a"
    and "run_pages page (Some (lo, hi)) a \<or> whole_pages page start (unat len) a \<Longrightarrow> run_pages page (Some (lo, max hi e)) a"
proof -
  have u: "unat lo \<le> unat hi" "unat lo \<le> unat start" "unat start \<le> unat hi"
      "unat (max hi e) = max (unat hi) (unat e)"
    using assms by (auto simp: word_le_nat_alt max_def)
  then show "run_span (Some (lo, max hi e)) a \<longleftrightarrow> run_span (Some (lo, hi)) a \<or> in_span start (unat len) a"
    using assms(4) by (auto simp: run_span_def in_span_def)
  show "run_pages page (Some (lo, hi)) a \<or> whole_pages page start (unat len) a \<Longrightarrow> run_pages page (Some (lo, max hi e)) a"
    using u assms(4) whole_pages_mono [of page _ _ a lo "unat (max hi e) - unat lo"]
    by (auto simp: run_pages_def)
qed

lemma release_run_releases:
  assumes "wf_memory m" "host_page_size h \<noteq> 0" "lo \<le> hi"
  shows "releases_pages (run_span (Some (lo, hi))) (run_pages (unat (host_page_size h)) (Some (lo, hi))) m
    (gm_release h m lo (hi - lo))"
  using gm_release_releases [OF assms(1,2), of lo "hi - lo"] assms(3)
  by (simp add: run_span_def [abs_def] run_pages_def [abs_def] unat_sub)


definition reported_span :: "(u64 \<times> u64) list \<Rightarrow> u64 \<Rightarrow> bool" where
  "reported_span spans a \<longleftrightarrow> (\<exists>(g, l) \<in> set spans. in_span g (unat l) a)"

definition reported_pages :: "nat \<Rightarrow> (u64 \<times> u64) list \<Rightarrow> u64 \<Rightarrow> bool" where
  "reported_pages page spans a \<longleftrightarrow> (\<exists>(g, l) \<in> set spans. whole_pages page g (unat l) a)"

lemma reported_simps [simp]:
  "reported_span [] a = False" "reported_pages page [] a = False"
  "reported_span ((g, l) # spans) a \<longleftrightarrow> in_span g (unat l) a \<or> reported_span spans a"
  "reported_pages page ((g, l) # spans) a \<longleftrightarrow> whole_pages page g (unat l) a \<or> reported_pages page spans a"
  by (auto simp: reported_span_def reported_pages_def)

lemma releases_pages_fail:
  "releases_pages may must m (m', out) \<Longrightarrow> (\<And>a. may a \<Longrightarrow> may' a) \<Longrightarrow> \<forall>n. out \<noteq> Ok n \<Longrightarrow> releases_pages may' must' m (m', out)"
  by (auto simp: releases_pages_def elim!: discards_mono)

lemma run_span_some: "unat e = unat start + unat len \<Longrightarrow>
    run_span (Some (start, e)) = in_span start (unat len) \<and>
    run_pages page (Some (start, e)) = whole_pages page start (unat len)"
  by (auto simp: run_span_def [abs_def] run_pages_def [abs_def])

text \<open>One turn of the loop on a span that does not overflow.\<close>

lemma release_runs_turn:
  assumes "checked_add start len = Some e" "run_ok run ((start, len) # spans)"
  obtains (fresh) "run = None"
      "release_runs h m run acc ((start, len) # spans) = release_runs h m (Some (start, e)) acc spans"
  | (merge) lo hi where "run = Some (lo, hi)" "lo \<le> hi" "lo \<le> start" "start \<le> hi"
      "release_runs h m run acc ((start, len) # spans) = release_runs h m (Some (lo, max hi e)) acc spans"
  | (flush) lo hi m1 n where "run = Some (lo, hi)" "lo \<le> hi" "gm_release h m lo (hi - lo) = (m1, Ok n)"
      "release_runs h m run acc ((start, len) # spans) = release_runs h m1 (Some (start, e)) (acc + n) spans"
  | (stop) lo hi m1 out where "run = Some (lo, hi)" "lo \<le> hi" "gm_release h m lo (hi - lo) = (m1, out)"
      "\<forall>n. out \<noteq> Ok n" "release_runs h m run acc ((start, len) # spans) = (m1, out)"
proof (cases run)
  case None
  then show thesis using assms by (intro fresh) simp_all
next
  case (Some lh)
  obtain lo hi where lh: "run = Some (lo, hi)" using Some by (cases lh) auto
  then have lohi: "lo \<le> hi" "lo \<le> start"
    using assms(2) by (simp_all add: run_ok_def)
  obtain m1 out where rel: "gm_release h m lo (hi - lo) = (m1, out)"
    by (meson surj_pair)
  show thesis
  proof (cases "start \<le> hi \<and> is_ok_and (region_for_release m lo (max hi e - lo)) (\<lambda>_. True)")
    case True
    then show thesis
      using assms lohi by (intro merge [OF lh]) (simp_all add: lh)
  next
    case False
    then have eq: "release_runs h m run acc ((start, len) # spans) =
        (case out of Ok n \<Rightarrow> release_runs h m1 (Some (start, e)) (acc + n) spans
         | Err x \<Rightarrow> (m1, Err x) | Panic \<Rightarrow> (m1, Panic))"
      by (auto simp: assms(1) lh rel)
    show thesis
    proof (cases out)
      case (Ok n)
      with eq rel show thesis by (intro flush [OF lh lohi(1)]) simp_all
    qed (use eq rel stop [OF lh lohi(1)] in auto)
  qed
qed

lemma release_runs_releases:
  assumes "wf_memory m" "host_page_size h \<noteq> 0" "run_ok run spans" "sorted (map fst spans)"
  shows "releases_pages (\<lambda>a. run_span run a \<or> reported_span spans a)
    (\<lambda>a. run_pages (unat (host_page_size h)) run a \<or> reported_pages (unat (host_page_size h)) spans a) m
    (release_runs h m run acc spans)"
  using assms
proof (induction spans arbitrary: m run acc)
  case Nil
  show ?case
  proof (cases run)
    case None
    then show ?thesis by (simp add: releases_pages_def run_pages_def)
  next
    case (Some lh)
    obtain lo hi where lh: "lh = (lo, hi)" by (cases lh)
    have "lo \<le> hi"
      using Nil.prems(3) Some lh by (simp add: run_ok_def)
    from release_run_releases [OF Nil.prems(1,2) this] show ?thesis
      by (cases "gm_release h m lo (hi - lo)")
        (auto simp: Some lh releases_pages_def split: result.splits)
  qed
next
  case (Cons sl spans)
  obtain start len where sl: "sl = (start, len)" by (cases sl)
  note wf = Cons.prems(1) and page = Cons.prems(2) and run = Cons.prems(3) [unfolded sl]
  show ?case
  proof (cases "checked_add start len")
    case None
    then show ?thesis by (simp add: sl releases_pages_def)
  next
    case (Some e)
    then have e: "unat e = unat start + unat len"
      by (auto simp: checked_add_Some unat_add_no_wrap)
    have "start \<le> e"
      using e by (simp add: word_le_nat_alt)
    then have "run_ok (Some (start, e)) spans" and srt: "sorted (map fst spans)"
      using Cons.prems(4) sl by (auto simp: run_ok_def)
    note new = Cons.IH [OF _ page this, simplified run_span_some [OF e]]
    from Some run show ?thesis
    proof (cases rule: release_runs_turn [where h = h and m = m and acc = acc])
      case fresh
      then show ?thesis
        using new [OF wf, of acc] by (simp add: sl run_span_def run_pages_def)
    next
      case (merge lo hi)
      have "run_ok (Some (lo, max hi e)) spans"
        using run merge by (auto simp: run_ok_def le_max_iff_disj)
      note IH = Cons.IH [OF wf page this srt, of acc]
      show ?thesis
        unfolding sl merge(5)
        by (rule releases_pages_mono [OF IH]) (use run_merge [OF merge(2-4) e] in \<open>auto simp: merge(1)\<close>)
    next
      case (flush lo hi m1 n)
      note r1 = release_run_releases [OF wf page flush(2), unfolded flush(3)]
      have "wf_memory m1"
        using r1 wf discards_wf by (auto simp: releases_pages_def)
      note both = releases_pages_trans [OF r1 new [OF this, of "acc + n"]]
      show ?thesis
        unfolding sl flush(4) by (rule releases_pages_mono [OF both]) (auto simp: flush(1))
    next
      case (stop lo hi m1 out)
      note r1 = release_run_releases [OF wf page stop(2), unfolded stop(3)]
      show ?thesis
        unfolding sl stop(5) by (rule releases_pages_fail [OF r1 _ stop(4)]) (simp add: stop(1))
    qed
  qed
qed


section \<open>Properties\<close>

lemma validate_spans_ok:
  "(\<exists>u. validate_spans m spans = Ok u) \<longleftrightarrow> (\<forall>(g, l) \<in> set spans. \<exists>i. region_for_release m g l = Ok i)"
proof (induction spans)
  case (Cons s spans)
  obtain g l where "s = (g, l)" by (cases s)
  with Cons show ?case
    by (cases "region_for_release m g l") auto
qed simp

lemma validate_spans_never_panics [simp]: "validate_spans m spans \<noteq> Panic"
proof (induction spans)
  case (Cons s spans)
  then show ?case
    by (cases "region_for_release m (fst s) (snd s)"; cases s) auto
qed simp

lemma reported_sort [simp]:
  "reported_span (sort spans) = reported_span spans" "reported_pages page (sort spans) = reported_pages page spans"
  by (auto simp: reported_span_def reported_pages_def fun_eq_iff)

lemma sorted_fst: "sorted xs \<Longrightarrow> sorted (map fst (xs :: (u64 \<times> u64) list))"
  by (induction xs) (auto simp: less_eq_prod_def)

text \<open>C40: Releasing what the guest reported free. Whatever the spans (overlapping, unsorted, adjacent
  across regions, partly covering a page), and whether or not the host fails half way:
  \<^verbatim>\<open>release_reported\<close> moves no region and changes no byte outside the reported spans, a byte it changes
  becomes zero, and the memory stays well formed. If it succeeds, every whole host page of every
  reported span reads as zero. If any span is out of bounds, nothing is released.\<close>

theorem release_reported_exact:
  assumes "wf_memory m" "host_page_size h \<noteq> 0"
  shows "wf_memory (fst (release_reported h m spans)) \<and>
    discards m (fst (release_reported h m spans)) (reported_span spans) \<and>
    (\<forall>n a. snd (release_reported h m spans) = Ok n \<longrightarrow> reported_pages (unat (host_page_size h)) spans a \<longrightarrow>
       gm_bytes (fst (release_reported h m spans)) a = 0) \<and>
    ((\<exists>(g, l) \<in> set spans. \<forall>i. region_for_release m g l \<noteq> Ok i) \<longrightarrow>
       (\<exists>e. release_reported h m spans = (m, Err e)))"
proof (cases "validate_spans m spans")
  case (Ok u)
  have "releases_pages (reported_span spans) (reported_pages (unat (host_page_size h)) spans) m
      (release_reported h m spans)"
    using release_runs_releases [OF assms, of None "sort spans" 0] sorted_fst [of "sort spans"]
    by (simp add: release_reported_def Ok run_ok_def run_span_def [abs_def] run_pages_def [abs_def])
  moreover have "\<forall>(g, l) \<in> set spans. \<exists>i. region_for_release m g l = Ok i"
    using validate_spans_ok Ok by blast
  ultimately show ?thesis
    using discards_wf assms(1) by (fastforce simp: releases_pages_def)
next
  case (Err e)
  then show ?thesis using assms by (auto simp: release_reported_def)
qed simp

definition demo_filled :: guest_memory where
  "demo_filled = \<lparr>gm_vm = True, gm_regions = [fresh_region 65536 32768 1048576 None], gm_bytes = (\<lambda>_. 7)\<rparr>"

lemma demo_filled_wf: "wf_memory demo_filled"
  by (simp add: wf_memory_def demo_filled_def wf_region_def regions_disjoint_def unbacked_def)

theorem release_reported_exact_witness:
  "gm_bytes (fst (release_reported demo_host demo_filled [(65536, 20000)])) 65536 = 0 \<and>
   gm_bytes (fst (release_reported demo_host demo_filled [(65536, 20000)])) 85536 = 7"
proof -
  let ?res = "release_reported demo_host demo_filled [(65536, 20000)]"
  have page: "host_page_size demo_host = 16384" "vm_unmap demo_host = (\<lambda>_ _. None)" "vm_map demo_host = (\<lambda>_ _ _. None)"
    by (simp_all add: demo_host_def)
  have ok: "snd ?res = Ok 16384"
    by (simp add: release_reported_def demo_filled_def page gm_release_def release_backed_def
        region_for_release_def region_contains_def region_ready_def checked_add_def)
  have "reported_pages 16384 [(65536, 20000)] 65536" "\<not> reported_span [(65536, 20000)] 85536"
    by (simp_all add: whole_pages_def in_span_def)
  with ok page release_reported_exact [OF demo_filled_wf, of demo_host "[(65536, 20000)]"]
  show ?thesis by (auto simp: discards_def demo_filled_def)
qed

end
