(* ===== verification/Guest_Memory_Access.thy ===== *)
theory Guest_Memory_Access
  imports Guest_Memory_Growth
begin

text \<open>
  What \<^verbatim>\<open>read\<close> and \<^verbatim>\<open>write\<close> of \<^verbatim>\<open>memory.rs\<close> promise to a device, demand regions included.
\<close>

section \<open>Reading and writing\<close>

lemma region_for_errors: "region_for h m gpa len = Err e \<Longrightarrow> e = OutOfBounds gpa len \<and> region_for_release m gpa len = Err e"
proof -
  have "prepare_demand_chunk h m i k \<noteq> Err x" for m i k x
    by (auto simp: prepare_demand_chunk_def Let_def split: option.splits if_splits result.splits)
  then have c: "prepare_chunks h m i ks \<noteq> Err x" for m i ks x
  proof (induction ks arbitrary: m)
    case (Cons k ks)
    then show ?case by (cases "prepare_demand_chunk h m i k") auto
  qed simp
  assume "region_for h m gpa len = Err e"
  with c show ?thesis
    by (cases "region_for_release m gpa len")
      (auto simp: region_for_def Let_def region_for_release_def result_bind_Err_iff split: if_splits option.splits)
qed

lemma region_for_panics:
  "region_for h m gpa len = Panic \<Longrightarrow> \<exists>r \<in> set (gm_regions m). region_demand_pending r \<and> region_contains r gpa len"
  using region_for_release_bound [of m gpa len]
  by (cases "region_for_release m gpa len") (auto simp: region_for_def Let_def split: if_splits)

text \<open>A read is a view. When \<^verbatim>\<open>read\<close> succeeds it returns exactly the bytes at that address, all of
  them inside one region, and whatever chunks it had to prepare first cannot be seen by any other
  read; when it fails it fails with the span it was given, and only because no region holds the span.
  It aborts only if the span is in a demand region still being prepared.\<close>

lemma gm_read_view:
  assumes "wf_memory m"
  shows "case gm_read h m gpa n of
      Ok (m', bs) \<Rightarrow> wf_memory m' \<and> gm_peek m' = gm_peek m \<and> gm_peek m gpa n = Ok bs \<and> length bs = unat n \<and>
        (\<exists>r \<in> set (gm_regions m). \<forall>k < unat n. in_region r (gpa + of_nat k) \<and> bs ! k = gm_bytes m (gpa + of_nat k))
    | Err e \<Rightarrow> e = OutOfBounds gpa n \<and> (\<forall>r \<in> set (gm_regions m). \<not> region_contains r gpa n)
    | Panic \<Rightarrow> \<exists>r \<in> set (gm_regions m). region_demand_pending r \<and> region_contains r gpa n"
proof (cases "gm_read h m gpa n")
  case (Ok x)
  obtain m' bs where x: "x = (m', bs)" by (cases x)
  note r = gm_read_wf [OF assms Ok [unfolded x]]
  obtain i where i: "region_for_release m gpa n = Ok i" and bs: "bs = span_of (gm_bytes m) gpa (unat n)"
    using r(4) by (auto simp: gm_peek_def)
  have "wf_region (gm_regions m ! i)" "region_contains (gm_regions m ! i) gpa n" "gm_regions m ! i \<in> set (gm_regions m)"
    using region_for_release_bound [OF i] assms by (auto simp: wf_memory_def)
  with region_contains_in(1) have "\<exists>r \<in> set (gm_regions m). \<forall>k < unat n. in_region r (gpa + of_nat k)"
    by blast
  then show ?thesis
    using r gm_peek_cong [OF r(3,2)] by (auto simp: Ok x bs span_of_def)
next
  case (Err e)
  then have "region_for h m gpa n = Err e"
    by (cases "region_for h m gpa n") (auto simp: gm_read_def)
  from region_for_errors [OF this] show ?thesis
    by (auto simp: Err region_for_release_def split: option.splits)
next
  case Panic
  then have "region_for h m gpa n = Panic"
    by (cases "region_for h m gpa n") (auto simp: gm_read_def)
  then show ?thesis
    using region_for_panics by (simp add: Panic)
qed


lemma demo_hotplug_write:
  "\<exists>m'. gm_write demo_host (published demo_reserved 0 0 32768) 65600 [1, 2, 3] = Ok m'"
  by (simp add: gm_write_def region_for_def region_for_release_def region_contains_def region_ready_def
      checked_add_def published_def set_region_def demo_reserved_regions region_demand_pending_def)

lemma demo_published_wf: "wf_memory (published demo_reserved 0 0 32768)"
  by (rule published_wf [OF demo_reserved_wf]) (simp_all add: demo_reserved_regions)

lemma gm_read_view_witness:
  "\<exists>m' bs. gm_read demo_host (published demo_reserved 0 0 32768) 65600 3 = Ok (m', bs) \<and> length bs = 3"
proof -
  let ?m = "published demo_reserved 0 0 32768"
  have "\<exists>x. gm_read demo_host ?m 65600 3 = Ok x"
    by (simp add: gm_read_def region_for_def region_for_release_def region_contains_def region_ready_def
      checked_add_def published_def set_region_def demo_reserved_regions region_demand_pending_def)
  then show ?thesis
    using gm_read_view [OF demo_published_wf, where h = demo_host and gpa = 65600 and n = 3] by (auto split: result.splits)
qed


end
