(* ===== verification/Virtqueue.thy ===== *)
theory Virtqueue
  imports Guest_Memory_View
begin

text \<open>
  Virtqueues (\<^verbatim>\<open>crates/lighter-vmm/src/virtio/queue.rs\<close>), split and packed: the queue's own state,
  taking a chain, returning it, the two notification directions, and the walk of a descriptor chain.
  Every operation takes the guest memory as it is at that call, so a property that quantifies over
  the memories of successive calls covers a guest that rewrites its rings between them. Fences order
  the accesses of one operation, which a single step of the model does anyway; they have no
  definition of their own. A remainder by a queue size of zero panics.
\<close>

section \<open>Descriptors\<close>

definition DESC_SIZE :: u64 where "DESC_SIZE = 16"

definition VIRTQ_DESC_F_NEXT :: u16 where "VIRTQ_DESC_F_NEXT = 1"
definition VIRTQ_DESC_F_WRITE :: u16 where "VIRTQ_DESC_F_WRITE = 2"
definition VIRTQ_DESC_F_INDIRECT :: u16 where "VIRTQ_DESC_F_INDIRECT = 4"
definition VIRTQ_DESC_F_AVAIL :: u16 where "VIRTQ_DESC_F_AVAIL = 0x80"
definition VIRTQ_DESC_F_USED :: u16 where "VIRTQ_DESC_F_USED = 0x8000"

definition EVENT_ENABLE :: u16 where "EVENT_ENABLE = 0"
definition EVENT_DISABLE :: u16 where "EVENT_DISABLE = 1"
definition EVENT_DESC :: u16 where "EVENT_DESC = 2"

definition MAX_QUEUE_SIZE :: u16 where "MAX_QUEUE_SIZE = 256"

lemmas desc_flag_defs = VIRTQ_DESC_F_NEXT_def VIRTQ_DESC_F_WRITE_def VIRTQ_DESC_F_INDIRECT_def
  VIRTQ_DESC_F_AVAIL_def VIRTQ_DESC_F_USED_def

record descriptor =
  d_addr :: u64
  d_len :: u32
  d_flags :: u16
  d_next :: u16

definition is_write_only :: "descriptor \<Rightarrow> bool" where
  "is_write_only d \<longleftrightarrow> d_flags d AND VIRTQ_DESC_F_WRITE \<noteq> 0"

definition has_next :: "descriptor \<Rightarrow> bool" where
  "has_next d \<longleftrightarrow> d_flags d AND VIRTQ_DESC_F_NEXT \<noteq> 0"

definition is_indirect :: "descriptor \<Rightarrow> bool" where
  "is_indirect d \<longleftrightarrow> d_flags d AND VIRTQ_DESC_F_INDIRECT \<noteq> 0"

record packed_desc =
  p_addr :: u64
  p_len :: u32
  p_id :: u16
  p_flags :: u16

section \<open>The walk of a chain\<close>

datatype walk =
    Split "u16 option" bool "u16 option" u64 u16
  | Packed u16 u16 u16
  | PackedIndirect u16

record chain =
  table :: u64
  table_len :: u16
  head :: u16
  walked :: u32
  walk_of :: walk

definition chain_new :: "u64 \<Rightarrow> u16 \<Rightarrow> u16 \<Rightarrow> chain" where
  "chain_new tbl len hn =
     \<lparr>table = tbl, table_len = len, head = hn, walked = 0,
      walk_of = Split (Some hn) False None 0 0\<rparr>"

definition chain_packed :: "u64 \<Rightarrow> u16 \<Rightarrow> u16 \<Rightarrow> u16 \<Rightarrow> u16 \<Rightarrow> chain" where
  "chain_packed tbl len start slots buf_id =
     \<lparr>table = tbl, table_len = len, head = buf_id, walked = 0, walk_of = Packed start slots 0\<rparr>"

definition read_descriptor :: "guest_memory \<Rightarrow> u64 \<Rightarrow> u16 \<Rightarrow> descriptor option" where
  "read_descriptor mem tbl index =
     (let a = tbl + ucast index * DESC_SIZE in
      case result_ok (read_u64 mem a) of None \<Rightarrow> None | Some addr \<Rightarrow>
      (case result_ok (read_u32 mem (a + 8)) of None \<Rightarrow> None | Some len \<Rightarrow>
      (case result_ok (read_u16 mem (a + 12)) of None \<Rightarrow> None | Some flags \<Rightarrow>
      (case result_ok (read_u16 mem (a + 14)) of None \<Rightarrow> None | Some nxt \<Rightarrow>
         Some \<lparr>d_addr = addr, d_len = len, d_flags = flags, d_next = nxt\<rparr>))))"

definition read_packed :: "guest_memory \<Rightarrow> u64 \<Rightarrow> u16 \<Rightarrow> packed_desc option" where
  "read_packed mem tbl index =
     (let a = tbl + ucast index * DESC_SIZE in
      case result_ok (read_u64 mem a) of None \<Rightarrow> None | Some addr \<Rightarrow>
      (case result_ok (read_u32 mem (a + 8)) of None \<Rightarrow> None | Some len \<Rightarrow>
      (case result_ok (read_u16 mem (a + 12)) of None \<Rightarrow> None | Some buf_id \<Rightarrow>
      (case result_ok (read_u16 mem (a + 14)) of None \<Rightarrow> None | Some flags \<Rightarrow>
         Some \<lparr>p_addr = addr, p_len = len, p_id = buf_id, p_flags = flags\<rparr>))))"

text \<open>\<^verbatim>\<open>(len / 16).min(MAX_QUEUE_SIZE * 2) as u16\<close>: how many descriptors an indirect table may have.\<close>

definition indirect_len :: "u32 \<Rightarrow> u16" where
  "indirect_len len = ucast (min (len div 16) (ucast MAX_QUEUE_SIZE * 2))"

definition walk_bound :: u32 where
  "walk_bound = ucast MAX_QUEUE_SIZE * 2"

function next_split :: "guest_memory \<Rightarrow> chain \<Rightarrow> chain \<times> descriptor option" where
  "next_split mem c =
     (if walk_bound < walked c then (c, None)
      else case walk_of c of
        Split nxt indirect outer_next outer_table outer_len \<Rightarrow>
          (case nxt of
             None \<Rightarrow> (c, None)
           | Some index \<Rightarrow>
               if table_len c \<le> index then (c, None)
               else case read_descriptor mem (table c) index of
                 None \<Rightarrow> (c, None)
               | Some desc \<Rightarrow>
                   let c1 = c\<lparr>walked := walked c + 1\<rparr> in
                   if is_indirect desc \<and> \<not> indirect
                   then next_split mem
                     (c1\<lparr>walk_of := Split (Some 0) True (if has_next desc then Some (d_next desc) else None)
                                     (table c) (table_len c),
                         table := d_addr desc, table_len := indirect_len (d_len desc)\<rparr>)
                   else if has_next desc
                   then (c1\<lparr>walk_of := Split (Some (d_next desc)) indirect outer_next outer_table outer_len\<rparr>, Some desc)
                   else if indirect
                   then (c1\<lparr>table := outer_table, table_len := outer_len,
                            walk_of := Split outer_next False None 0 0\<rparr>, Some desc)
                   else (c1\<lparr>walk_of := Split None indirect outer_next outer_table outer_len\<rparr>, Some desc))
      | Packed _ _ _ \<Rightarrow> (c, None)
      | PackedIndirect _ \<Rightarrow> (c, None))"
  by pat_completeness auto
termination
  by (relation "measure (\<lambda>(mem, c). case walk_of c of Split _ indirect _ _ _ \<Rightarrow> (if indirect then 0 else 1) | _ \<Rightarrow> 0)")
    auto

declare next_split.simps [simp del]

definition packed_result :: "packed_desc \<Rightarrow> descriptor" where
  "packed_result raw =
     \<lparr>d_addr = p_addr raw, d_len = p_len raw,
      d_flags = p_flags raw AND (VIRTQ_DESC_F_NEXT OR VIRTQ_DESC_F_WRITE), d_next = 0\<rparr>"

function next_packed :: "guest_memory \<Rightarrow> chain \<Rightarrow> chain \<times> descriptor option" where
  "next_packed mem c =
     (case walk_of c of
        Packed start slots taken \<Rightarrow>
          if slots \<le> taken then (c, None)
          else (case read_packed mem (table c) ((start + taken) mod max (table_len c) 1) of
             None \<Rightarrow> (c, None)
           | Some raw \<Rightarrow>
               let c1 = c\<lparr>walked := walked c + 1\<rparr> in
               if p_flags raw AND VIRTQ_DESC_F_INDIRECT \<noteq> 0
               then next_packed mem
                 (c1\<lparr>table := p_addr raw, table_len := indirect_len (p_len raw), walk_of := PackedIndirect 0\<rparr>)
               else (c1\<lparr>walk_of := Packed start slots (taken + 1)\<rparr>, Some (packed_result raw)))
      | PackedIndirect taken \<Rightarrow>
          if table_len c \<le> taken then (c, None)
          else (case read_packed mem (table c) taken of
             None \<Rightarrow> (c, None)
           | Some raw \<Rightarrow>
               (c\<lparr>walked := walked c + 1, walk_of := PackedIndirect (taken + 1)\<rparr>, Some (packed_result raw)))
      | Split _ _ _ _ _ \<Rightarrow> (c, None))"
  by pat_completeness auto
termination
  by (relation "measure (\<lambda>(mem, c). case walk_of c of Packed _ _ _ \<Rightarrow> 1 | _ \<Rightarrow> 0)") auto

declare next_packed.simps [simp del]

text \<open>\<^verbatim>\<open>Iterator::next\<close>.\<close>

definition chain_next :: "guest_memory \<Rightarrow> chain \<Rightarrow> chain \<times> descriptor option" where
  "chain_next mem c =
     (if walk_bound < walked c then (c, None)
      else case walk_of c of
        Split _ _ _ _ _ \<Rightarrow> next_split mem c
      | Packed _ _ _ \<Rightarrow> next_packed mem c
      | PackedIndirect _ \<Rightarrow> next_packed mem c)"

section \<open>The queue\<close>

record virtqueue =
  max_size :: u16
  qsize :: u16
  desc_addr :: u64
  avail_addr :: u64
  used_addr :: u64
  ready :: bool
  next_avail :: u16
  next_used :: u16
  packed :: bool
  avail_wrap :: bool
  used_wrap :: bool
  event_idx :: bool
  suppressed :: bool
  published_event :: "u16 option"
  signalled_used :: u16
  used_total :: u16
  signalled_total :: u16
  chain_len :: "u16 list"
  outstanding_heads :: "bool list"

definition vq_new :: "u16 \<Rightarrow> virtqueue" where
  "vq_new mx =
     \<lparr>max_size = mx, qsize = mx, desc_addr = 0, avail_addr = 0, used_addr = 0, ready = False,
      next_avail = 0, next_used = 0, packed = False, avail_wrap = True, used_wrap = True,
      event_idx = False, suppressed = False, published_event = None, signalled_used = 0,
      used_total = 0, signalled_total = 0, chain_len = [], outstanding_heads = []\<rparr>"

definition set_size :: "virtqueue \<Rightarrow> u16 \<Rightarrow> virtqueue" where
  "set_size q sz = q\<lparr>qsize := min sz (max_size q)\<rparr>"

definition set_event_idx :: "virtqueue \<Rightarrow> bool \<Rightarrow> virtqueue" where
  "set_event_idx q on = q\<lparr>event_idx := on\<rparr>"

definition set_packed :: "virtqueue \<Rightarrow> bool \<Rightarrow> virtqueue" where
  "set_packed q on = q\<lparr>packed := on\<rparr>"

definition desc_at :: "virtqueue \<Rightarrow> u16 \<Rightarrow> u64" where
  "desc_at q index = desc_addr q + ucast index * DESC_SIZE"

definition used_event_addr :: "virtqueue \<Rightarrow> u64" where
  "used_event_addr q = avail_addr q + 4 + ucast (qsize q) * 2"

definition avail_event_addr :: "virtqueue \<Rightarrow> u64" where
  "avail_event_addr q = used_addr q + 4 + ucast (qsize q) * 8"

definition is_geometry_valid :: "virtqueue \<Rightarrow> bool" where
  "is_geometry_valid q \<longleftrightarrow>
     0 < qsize q \<and> qsize q \<le> max_size q \<and> is_power_of_two (qsize q) \<and>
     desc_addr q \<noteq> 0 \<and> avail_addr q \<noteq> 0 \<and> used_addr q \<noteq> 0"

definition set_ready :: "virtqueue \<Rightarrow> bool \<Rightarrow> virtqueue \<times> bool" where
  "set_ready q r =
     (if r \<and> \<not> is_geometry_valid q then (q, False) else (q\<lparr>ready := r\<rparr>, True))"

definition vq_reset :: "virtqueue \<Rightarrow> virtqueue" where
  "vq_reset q = vq_new (max_size q)"

definition avail_idx :: "virtqueue \<Rightarrow> guest_memory \<Rightarrow> u16 option" where
  "avail_idx q mem = result_ok (read_u16 mem (avail_addr q + 2))"

text \<open>Available: the availability bit matches our lap and the used bit does not.\<close>

definition is_available :: "virtqueue \<Rightarrow> u16 \<Rightarrow> bool" where
  "is_available q flags =
     (let avail = flags AND VIRTQ_DESC_F_AVAIL \<noteq> 0; used = flags AND VIRTQ_DESC_F_USED \<noteq> 0 in
      avail = avail_wrap q \<and> used \<noteq> avail)"

definition has_work :: "virtqueue \<Rightarrow> guest_memory \<Rightarrow> bool" where
  "has_work q mem =
     (if packed q
      then ready q \<and> is_ok_and (read_u16 mem (desc_at q (next_avail q) + 14)) (is_available q)
      else ready q \<and> (case avail_idx q mem of None \<Rightarrow> False | Some idx \<Rightarrow> idx \<noteq> next_avail q))"

definition more_available :: "virtqueue \<Rightarrow> guest_memory \<Rightarrow> bool" where
  "more_available q mem =
     (if \<not> ready q then False
      else if packed q
      then (case result_ok (read_u16 mem (desc_at q (next_avail q) + 14)) of
              None \<Rightarrow> False | Some flags \<Rightarrow> is_available q flags)
      else (case avail_idx q mem of None \<Rightarrow> False | Some idx \<Rightarrow> idx \<noteq> next_avail q))"

definition advance_avail :: "virtqueue \<Rightarrow> u16 \<Rightarrow> (memory_error, virtqueue) result" where
  "advance_avail q slots =
     (let nxt = (ucast (next_avail q) :: u32) + ucast slots;
          q1 = (if ucast (qsize q) \<le> nxt then q\<lparr>avail_wrap := \<not> avail_wrap q\<rparr> else q) in
      if qsize q = 0 then Panic else Ok (q1\<lparr>next_avail := ucast (nxt mod ucast (qsize q))\<rparr>))"

definition mark_taken :: "virtqueue \<Rightarrow> u16 \<Rightarrow> virtqueue" where
  "mark_taken q hn =
     (let o0 = (if length (outstanding_heads q) \<noteq> unat (qsize q)
                then replicate (unat (qsize q)) False else outstanding_heads q) in
      q\<lparr>outstanding_heads := (if unat hn < length o0 then o0[unat hn := True] else o0)\<rparr>)"

text \<open>The measuring loop of \<^verbatim>\<open>pop_packed\<close>: how many slots a packed chain takes, and its buffer id.\<close>

function packed_extent :: "guest_memory \<Rightarrow> virtqueue \<Rightarrow> u16 \<Rightarrow> u16 \<Rightarrow> u16 \<Rightarrow> u16 \<Rightarrow> u16 \<times> u16" where
  "packed_extent mem q start slots flags buf_id =
     (if flags AND VIRTQ_DESC_F_NEXT = 0 then (slots, buf_id)
      else if qsize q \<le> slots then (slots, buf_id)
      else
        let a = desc_at q ((start + slots) mod qsize q) in
        case (result_ok (read_u16 mem (a + 12)), result_ok (read_u16 mem (a + 14))) of
          (Some i, Some f) \<Rightarrow> packed_extent mem q start (slots + 1) f i
        | _ \<Rightarrow> (slots, buf_id))"
  by pat_completeness auto
termination
proof (relation "measure (\<lambda>(mem, q, start, slots, flags, buf_id). unat (qsize q) - unat slots)", goal_cases)
  case 1
  then show ?case by simp
next
  case (2 mem q start slots)
  then have "unat slots < unat (qsize q)" by (simp add: word_less_nat_alt not_le)
  moreover then have "unat (slots + 1) = Suc (unat slots)"
    using unat_lt_16 [of "qsize q"] by (subst unat_add_no_wrap) simp_all
  ultimately show ?case by simp
qed

declare packed_extent.simps [simp del]

definition pop_packed :: "virtqueue \<Rightarrow> guest_memory \<Rightarrow> (memory_error, virtqueue \<times> chain option) result" where
  "pop_packed q mem =
     (let start = next_avail q; head_at = desc_at q start in
      case result_ok (read_u16 mem (head_at + 14)) of None \<Rightarrow> Ok (q, None) | Some head_flags \<Rightarrow>
      if \<not> is_available q head_flags then Ok (q, None)
      else
      (case result_ok (read_u64 mem head_at) of None \<Rightarrow> Ok (q, None) | Some addr \<Rightarrow>
      (case result_ok (read_u32 mem (head_at + 8)) of None \<Rightarrow> Ok (q, None) | Some len \<Rightarrow>
      (case result_ok (read_u16 mem (head_at + 12)) of None \<Rightarrow> Ok (q, None) | Some first_id \<Rightarrow>
        let (slots, buf_id) =
              (if head_flags AND VIRTQ_DESC_F_INDIRECT \<noteq> 0 then (1, first_id)
               else packed_extent mem q start 1 head_flags first_id) in
        if qsize q \<le> buf_id
        then result_bind (advance_avail q slots) (\<lambda>q'. Ok (q', None))
        else result_bind (advance_avail q slots) (\<lambda>q1.
          let q2 = mark_taken q1 buf_id;
              cl = (if length (chain_len q2) \<noteq> unat (qsize q2) then replicate (unat (qsize q2)) 1 else chain_len q2);
              q3 = q2\<lparr>chain_len := (if unat buf_id < length cl then cl[unat buf_id := slots] else cl)\<rparr> in
          Ok (q3, Some (chain_packed (desc_addr q3) (qsize q3) start slots buf_id)))))))"

definition pop :: "virtqueue \<Rightarrow> guest_memory \<Rightarrow> (memory_error, virtqueue \<times> chain option) result" where
  "pop q mem =
     (if \<not> ready q then Ok (q, None)
      else if packed q then pop_packed q mem
      else
      (case avail_idx q mem of None \<Rightarrow> Ok (q, None) | Some idx \<Rightarrow>
       if idx = next_avail q then Ok (q, None)
       else if qsize q = 0 then Panic
       else
         let slot = ucast (next_avail q mod qsize q) in
         (case result_ok (read_u16 mem (avail_addr q + 4 + slot * 2)) of None \<Rightarrow> Ok (q, None) | Some hn \<Rightarrow>
          let q1 = q\<lparr>next_avail := next_avail q + 1\<rparr> in
          if qsize q \<le> hn then Ok (q1, None)
          else
            let q2 = mark_taken q1 hn in
            Ok (q2, Some (chain_new (desc_addr q2) (qsize q2) hn)))))"

definition push_used_packed :: "virtqueue \<Rightarrow> guest_memory \<Rightarrow> u16 \<Rightarrow> u32 \<Rightarrow> (memory_error, virtqueue \<times> guest_memory) result" where
  "push_used_packed q mem buf_id len =
     (let slots = max (if unat buf_id < length (chain_len q) then chain_len q ! unat buf_id else 1) 1;
          at = desc_at q (next_used q);
          m1 = ignore mem (write_u16 mem (at + 12) buf_id);
          m2 = ignore m1 (write_u32 m1 (at + 8) len);
          flags = (if used_wrap q then VIRTQ_DESC_F_AVAIL OR VIRTQ_DESC_F_USED else 0);
          m3 = ignore m2 (write_u16 m2 (at + 14) flags);
          nxt = (ucast (next_used q) :: u32) + ucast slots;
          q1 = (if ucast (qsize q) \<le> nxt then q\<lparr>used_wrap := \<not> used_wrap q\<rparr> else q) in
      if qsize q = 0 then Panic
      else Ok (q1\<lparr>next_used := ucast (nxt mod ucast (qsize q)), used_total := used_total q + slots\<rparr>, m3))"

definition push_used :: "virtqueue \<Rightarrow> guest_memory \<Rightarrow> u16 \<Rightarrow> u32 \<Rightarrow> (memory_error, virtqueue \<times> guest_memory) result" where
  "push_used q mem hn len =
     (if length (outstanding_heads q) \<le> unat hn then Ok (q, mem)
      else if \<not> outstanding_heads q ! unat hn then Ok (q, mem)
      else
        let q1 = q\<lparr>outstanding_heads := (outstanding_heads q)[unat hn := False]\<rparr> in
        if packed q1 then push_used_packed q1 mem hn len
        else if qsize q1 = 0 then Panic
        else
          let slot = ucast (next_used q1 mod qsize q1);
              element = used_addr q1 + 4 + slot * 8;
              m1 = ignore mem (write_u32 mem element (ucast hn));
              m2 = ignore m1 (write_u32 m1 (element + 4) len);
              q2 = q1\<lparr>next_used := next_used q1 + 1\<rparr>;
              m3 = ignore m2 (write_u16 m2 (used_addr q2 + 2) (next_used q2)) in
          Ok (q2, m3))"

definition outstanding :: "virtqueue \<Rightarrow> guest_memory \<Rightarrow> u16" where
  "outstanding q mem =
     (if packed q then (if has_work q mem then 1 else 0)
      else case avail_idx q mem of None \<Rightarrow> 0 | Some idx \<Rightarrow> idx - next_avail q)"

definition need_event :: "u16 \<Rightarrow> u16 \<Rightarrow> u16 \<Rightarrow> bool" where
  "need_event wanted now last_told \<longleftrightarrow> now - wanted - 1 < now - last_told"

definition publish_avail_event :: "virtqueue \<Rightarrow> guest_memory \<Rightarrow> virtqueue \<times> guest_memory" where
  "publish_avail_event q mem =
     (let want = (if suppressed q then next_avail q + 0x8000 else next_avail q) in
      if published_event q = Some want then (q, mem)
      else (q\<lparr>published_event := Some want\<rparr>, ignore mem (write_u16 mem (avail_event_addr q) want)))"

definition suppress_notifications :: "virtqueue \<Rightarrow> guest_memory \<Rightarrow> bool \<Rightarrow> virtqueue \<times> guest_memory" where
  "suppress_notifications q mem suppress =
     (if used_addr q = 0 then (q, mem)
      else
        let q1 = q\<lparr>suppressed := suppress\<rparr> in
        if packed q1
        then (q1, ignore mem (write_u16 mem (used_addr q1 + 2) (if suppress then EVENT_DISABLE else EVENT_ENABLE)))
        else if event_idx q1 then publish_avail_event q1 mem
        else (q1, ignore mem (write_u16 mem (used_addr q1) (if suppress then 1 else 0))))"

definition arm_notifications :: "virtqueue \<Rightarrow> guest_memory \<Rightarrow> virtqueue \<times> guest_memory" where
  "arm_notifications q mem =
     (if used_addr q = 0 then (q, mem)
      else if packed q \<or> \<not> event_idx q then (q, mem)
      else publish_avail_event q mem)"

definition needs_interrupt_packed :: "virtqueue \<Rightarrow> guest_memory \<Rightarrow> (memory_error, virtqueue \<times> bool) result" where
  "needs_interrupt_packed q mem =
     (let old = signalled_total q; new = used_total q; q1 = q\<lparr>signalled_total := new\<rparr> in
      case result_ok (read_u16 mem (avail_addr q + 2)) of None \<Rightarrow> Ok (q1, True) | Some flags \<Rightarrow>
      (case result_ok (read_u16 mem (avail_addr q)) of None \<Rightarrow> Ok (q1, True) | Some off_wrap \<Rightarrow>
       if flags = EVENT_DISABLE then Ok (q1, False)
       else if flags \<noteq> EVENT_DESC then Ok (q1, True)
       else if qsize q = 0 then Panic
       else
         let wrap = (drop_bit 15 off_wrap \<noteq> 0);
             pos = off_wrap AND NOT (push_bit 15 1);
             behind0 = (next_used q - pos) mod qsize q;
             behind = (if behind0 = 0 \<and> wrap \<noteq> used_wrap q then qsize q else behind0) in
         Ok (q1, need_event (new - behind) new old)))"

definition needs_interrupt :: "virtqueue \<Rightarrow> guest_memory \<Rightarrow> (memory_error, virtqueue \<times> bool) result" where
  "needs_interrupt q mem =
     (if packed q then needs_interrupt_packed q mem
      else if \<not> event_idx q
      then Ok (q, (case result_ok (read_u16 mem (avail_addr q)) of
                     Some flags \<Rightarrow> flags AND 1 = 0 | None \<Rightarrow> True))
      else
        (case result_ok (read_u16 mem (used_event_addr q)) of
           None \<Rightarrow> Ok (q, True)
         | Some wanted \<Rightarrow>
             Ok (q\<lparr>signalled_used := next_used q\<rparr>, need_event wanted (next_used q) (signalled_used q))))"

end
