(* ===== verification/Virtqueue_Walk.thy ===== *)
theory Virtqueue_Walk
  imports Virtqueue
begin

text \<open>
  The walk of a descriptor chain (\<^verbatim>\<open>DescriptorChain\<close> of \<^verbatim>\<open>virtio/queue.rs\<close>): it ends for every guest,
  and on a well-formed chain it yields exactly the chain.
\<close>



section \<open>One call of the iterator\<close>

lemma walk_bound_value: "unat walk_bound = 512"
  by (simp add: walk_bound_def MAX_QUEUE_SIZE_def)

lemma indirect_len_bound: "unat (indirect_len len) \<le> 512"
proof -
  let ?m = "min (len div 16) (512 :: u32)"
  have "?m \<le> 512" by simp
  then have "unat ?m \<le> 512" by (simp add: word_le_nat_alt)
  then show ?thesis
    by (simp add: indirect_len_def MAX_QUEUE_SIZE_def unsigned_ucast_eq take_bit_eq_mod)
qed

lemma unat_walked_Suc: "\<not> walk_bound < w \<Longrightarrow> unat (w + 1) = Suc (unat w) \<and> unat w \<le> 512"
  using walk_bound_value by (auto simp: word_less_nat_alt not_less unat_word_ariths)

text \<open>
  A turn of the split walk: it stops, or yields a descriptor it read at an index inside the table,
  or enters an indirect table, from which it never enters another.
\<close>

lemma next_split_yield:
  assumes "next_split mem c = (c', Some d)"
  shows "unat (walked c) < unat (walked c') \<and> unat (walked c') \<le> 513 \<and> unat (walked c) \<le> 512 \<and>
    head c' = head c \<and>
    (\<exists>tbl len index. index < len \<and> read_descriptor mem tbl index = Some d \<and>
       (len = table_len c \<or> unat len \<le> 512)) \<and>
    (\<exists>a b x y z. walk_of c' = Split a b x y z)"
  using assms
proof (induction mem c rule: next_split.induct)
  case (1 mem c)
  from "1.prems" have nb: "\<not> walk_bound < walked c"
    by (subst (asm) next_split.simps) (auto split: if_splits)
  then have w: "unat (walked c + 1) = Suc (unat (walked c))" "unat (walked c) \<le> 512"
    using unat_walked_Suc by auto
  from "1.prems" nb obtain index ind onx otbl olen desc where
      walk: "walk_of c = Split (Some index) ind onx otbl olen" and
      idx: "\<not> table_len c \<le> index" and rd: "read_descriptor mem (table c) index = Some desc"
    by (subst (asm) next_split.simps) (auto split: if_splits walk.splits option.splits)
  let ?c1 = "c\<lparr>walked := walked c + 1\<rparr>"
  let ?c2 = "?c1\<lparr>walk_of := Split (Some 0) True (if has_next desc then Some (d_next desc) else None) (table c) (table_len c),
         table := d_addr desc, table_len := indirect_len (d_len desc)\<rparr>"
  show ?case
  proof (cases "is_indirect desc \<and> \<not> ind")
    case True
    then have "next_split mem ?c2 = (c', Some d)"
      using "1.prems" nb walk idx rd by (subst (asm) next_split.simps) (simp add: Let_def)
    moreover note "1.IH" [OF nb walk refl idx rd refl True this]
    ultimately show ?thesis
      using w indirect_len_bound [of "d_len desc"] by (auto simp: not_le)
  next
    case False
    then have "d = desc" "walked c' = walked c + 1" "head c' = head c" "\<exists>a b x y z. walk_of c' = Split a b x y z"
      using "1.prems" nb walk idx rd
      by (subst (asm) next_split.simps, auto simp: Let_def split: if_splits)+
    then show ?thesis
      using w idx rd by (auto simp: not_le)
  qed
qed


lemma next_packed_yield:
  assumes "next_packed mem c = (c', Some d)" "unat (walked c) \<le> 512"
  shows "unat (walked c) < unat (walked c') \<and> unat (walked c') \<le> 514 \<and> head c' = head c \<and>
    (\<forall>a b x y z. walk_of c' \<noteq> Split a b x y z)"
  using assms
proof (induction mem c rule: next_packed.induct)
  case (1 mem c)
  have w: "unat (walked c + 1) = Suc (unat (walked c))" "unat (2 + walked c) = Suc (Suc (unat (walked c)))"
    using "1.prems"(2) by (simp_all add: unat_word_ariths)
  show ?case
  proof (cases "walk_of c")
    case (Split)
    then show ?thesis using "1.prems" by (simp add: next_packed.simps [of mem c])
  next
    case (PackedIndirect t)
    then show ?thesis
      using "1.prems" w by (auto simp: next_packed.simps [of mem c] split: if_splits option.splits)
  next
    case (Packed start slots taken)
    show ?thesis
      using "1.prems" w Packed
      by (auto simp: next_packed.simps [of mem c] Let_def next_packed.simps [of mem "c\<lparr>walked := _, table := _, table_len := _, walk_of := PackedIndirect 0\<rparr>"]
          split: if_splits option.splits)
  qed
qed

lemma chain_next_yield:
  assumes "chain_next mem c = (c', Some d)"
  shows "unat (walked c) < unat (walked c') \<and> unat (walked c) \<le> 512 \<and> head c' = head c"
proof -
  have nb: "\<not> walk_bound < walked c"
    using assms by (auto simp: chain_next_def split: if_splits)
  then have "unat (walked c) \<le> 512"
    using unat_walked_Suc by auto
  then show ?thesis
    using assms nb next_split_yield [of mem c c' d] next_packed_yield [of mem c c' d]
    by (auto simp: chain_next_def split: walk.splits)
qed

section \<open>The whole walk\<close>

text \<open>
  A device's \<^verbatim>\<open>for desc in chain\<close>: call the iterator until it answers \<^verbatim>\<open>None\<close>. \<open>mems i\<close> is what guest
  memory holds at the \<open>i\<close>-th call.
\<close>

function chain_collect :: "(nat \<Rightarrow> guest_memory) \<Rightarrow> nat \<Rightarrow> chain \<Rightarrow> descriptor list" where
  "chain_collect mems i c =
     (case chain_next (mems i) c of
        (c', None) \<Rightarrow> []
      | (c', Some d) \<Rightarrow> d # chain_collect mems (Suc i) c')"
  by pat_completeness auto
termination
  by (relation "measure (\<lambda>(mems, i, c). 514 - unat (walked c))") (auto dest: chain_next_yield [OF sym])

declare chain_collect.simps [simp del]

lemma chain_collect_length: "length (chain_collect mems i c) \<le> 513 - unat (walked c)"
proof (induction mems i c rule: chain_collect.induct)
  case (1 mems i c)
  obtain c' od where nxt: "chain_next (mems i) c = (c', od)"
    by (meson surj_pair)
  show ?case
  proof (cases od)
    case None
    then show ?thesis by (simp add: chain_collect.simps [of mems i c] nxt)
  next
    case (Some d)
    then have "unat (walked c) < unat (walked c')" "unat (walked c) \<le> 512"
      using chain_next_yield [of "mems i" c c' d] nxt by simp_all
    moreover note "1.IH" [OF nxt [symmetric] Some]
    moreover have "chain_collect mems i c = d # chain_collect mems (Suc i) c'"
      by (simp add: chain_collect.simps [of mems i c] nxt Some)
    ultimately show ?thesis by (simp only: length_Cons)
  qed
qed

text \<open>The reference: a path through a table, following \<open>d_next\<close> while the flag says so.\<close>

fun split_path :: "bool \<Rightarrow> guest_memory \<Rightarrow> u64 \<Rightarrow> u16 \<Rightarrow> u16 \<Rightarrow> descriptor list \<Rightarrow> bool" where
  "split_path ind mem tbl len i [] = False"
| "split_path ind mem tbl len i (d # ds) =
     (i < len \<and> read_descriptor mem tbl i = Some d \<and> (ind \<or> \<not> is_indirect d) \<and>
      (if ds = [] then \<not> has_next d else has_next d \<and> split_path ind mem tbl len (d_next d) ds))"

lemma chain_collect_stopped:
  "walk_of c = Split None ind onx ot ol \<Longrightarrow> chain_collect mems i c = []"
  by (simp add: chain_collect.simps [of mems i c] chain_next_def next_split.simps [of "mems i" c])

lemma chain_collect_path:
  assumes "split_path ind mem (table c) (table_len c) i ds"
    and "walk_of c = Split (Some i) ind onx ot ol" "ind \<longrightarrow> onx = None"
    and "unat (walked c) + length ds \<le> 513"
  shows "chain_collect (\<lambda>_. mem) n c = ds"
  using assms
proof (induction ds arbitrary: c i n)
  case Nil
  then show ?case by simp
next
  case (Cons d ds)
  have nb: "\<not> walk_bound < walked c"
    using Cons.prems(4) by (simp add: word_less_nat_alt walk_bound_value)
  have w: "unat (walked c + 1) = Suc (unat (walked c))"
    using unat_walked_Suc [OF nb] by simp
  let ?nxt = "if has_next d then c\<lparr>walked := walked c + 1, walk_of := Split (Some (d_next d)) ind onx ot ol\<rparr>
    else if ind then c\<lparr>walked := walked c + 1, table := ot, table_len := ol, walk_of := Split onx False None 0 0\<rparr>
    else c\<lparr>walked := walked c + 1, walk_of := Split None ind onx ot ol\<rparr>"
  have step: "chain_next mem c = (?nxt, Some d)"
    using Cons.prems nb by (auto simp: chain_next_def next_split.simps [of mem c] Let_def)
  show ?case
  proof (cases "ds = []")
    case True
    then have "\<not> has_next d" using Cons.prems(1) by simp
    then have "chain_collect (\<lambda>_. mem) (Suc n) ?nxt = []"
      using Cons.prems(3) by (auto intro: chain_collect_stopped)
    then show ?thesis
      using True step by (simp add: chain_collect.simps [of "\<lambda>_. mem" n c])
  next
    case False
    then have hn: "has_next d" and path: "split_path ind mem (table c) (table_len c) (d_next d) ds"
      using Cons.prems(1) by simp_all
    have "chain_collect (\<lambda>_. mem) (Suc n) ?nxt = ds"
      using path hn Cons.prems(3,4) w by (intro Cons.IH) auto
    then show ?thesis
      using step by (simp add: chain_collect.simps [of "\<lambda>_. mem" n c])
  qed
qed


lemma chain_collect_indirect:
  assumes "read_descriptor mem tbl i = Some outer" "i < len" "is_indirect outer" "\<not> has_next outer"
    and "split_path True mem (d_addr outer) (indirect_len (d_len outer)) 0 ds" "length ds \<le> 512"
  shows "chain_collect (\<lambda>_. mem) n (chain_new tbl len i) = ds"
proof -
  let ?c = "chain_new tbl len i"
  let ?in = "?c\<lparr>walked := 1, walk_of := Split (Some 0) True None tbl len,
      table := d_addr outer, table_len := indirect_len (d_len outer)\<rparr>"
  have b: "\<not> walk_bound < 0" "\<not> walk_bound < 1"
    by (simp_all add: word_less_nat_alt walk_bound_value)
  have "next_split mem ?c = next_split mem ?in"
    by (subst next_split.simps) (use assms b in \<open>simp add: chain_new_def Let_def linorder_not_le [symmetric]\<close>)
  then have "chain_next mem ?c = chain_next mem ?in"
    using b by (simp add: chain_next_def chain_new_def)
  then have "chain_collect (\<lambda>_. mem) n ?c = chain_collect (\<lambda>_. mem) n ?in"
    by (simp add: chain_collect.simps [of _ n ?c] chain_collect.simps [of _ n ?in])
  also have "\<dots> = ds"
    by (rule chain_collect_path [of True _ _ 0 _ None tbl len]) (use assms in auto)
  finally show ?thesis .
qed

text \<open>The packed reference: consecutive ring entries from \<open>start\<close>, wrapping at the ring size.\<close>

definition packed_run :: "guest_memory \<Rightarrow> u64 \<Rightarrow> u16 \<Rightarrow> u16 \<Rightarrow> u16 \<Rightarrow> packed_desc list \<Rightarrow> bool" where
  "packed_run mem tbl len start taken raws \<longleftrightarrow>
     (\<forall>k < length raws.
        read_packed mem tbl ((start + (taken + of_nat k)) mod max len 1) = Some (raws ! k) \<and>
        p_flags (raws ! k) AND VIRTQ_DESC_F_INDIRECT = 0)"

lemma packed_run_Cons:
  "packed_run mem tbl len start taken (r # raws) \<longleftrightarrow>
     read_packed mem tbl ((start + taken) mod max len 1) = Some r \<and>
     p_flags r AND VIRTQ_DESC_F_INDIRECT = 0 \<and> packed_run mem tbl len start (taken + 1) raws"
  by (simp add: packed_run_def All_less_Suc2 add.commute add.left_commute)

lemma chain_collect_packed:
  assumes "packed_run mem (table c) (table_len c) start taken raws"
    and "walk_of c = Packed start slots taken" "unat taken + length raws = unat slots"
    and "unat (walked c) + length raws \<le> 513"
  shows "chain_collect (\<lambda>_. mem) n c = map packed_result raws"
  using assms
proof (induction raws arbitrary: c taken n)
  case Nil
  then have "slots \<le> taken" by (simp add: word_le_nat_alt)
  with Nil show ?case
    by (simp add: chain_collect.simps [of _ n c] chain_next_def next_packed.simps [of mem c])
next
  case (Cons r raws)
  let ?c' = "c\<lparr>walked := walked c + 1, walk_of := Packed start slots (taken + 1)\<rparr>"
  have nb: "\<not> walk_bound < walked c"
    using Cons.prems(4) by (simp add: word_less_nat_alt walk_bound_value)
  have lt: "\<not> slots \<le> taken"
    using Cons.prems(3) by (simp add: word_le_nat_alt)
  have t: "unat (taken + 1) = Suc (unat taken)"
    using Cons.prems(3) unat_lt_16 [of slots] by (subst unat_add_no_wrap) simp_all
  have "chain_next mem c = (?c', Some (packed_result r))"
    using Cons.prems(1,2) nb lt by (simp add: chain_next_def next_packed.simps [of mem c] packed_run_Cons Let_def)
  moreover have "chain_collect (\<lambda>_. mem) (Suc n) ?c' = map packed_result raws"
    using Cons.prems t unat_walked_Suc [OF nb] by (intro Cons.IH [of _ "taken + 1"]) (simp_all add: packed_run_Cons)
  ultimately show ?case
    by (simp add: chain_collect.simps [of _ n c])
qed


section \<open>A concrete memory\<close>

text \<open>A region of 64 KiB at 4096 with the given bytes at an address.\<close>

definition demo_memory :: "u64 \<Rightarrow> bytes \<Rightarrow> guest_memory" where
  "demo_memory a bs =
     \<lparr>gm_vm = False,
      gm_regions = [\<lparr>r_gpa = 4096, r_len = 65536, r_host = 0, r_deferred = None, r_demand = None\<rparr>],
      gm_bytes = put_span (\<lambda>_. 0) a bs\<rparr>"

text \<open>Two descriptors: 16 bytes at 20480 that continue, 512 writable bytes at 24576.\<close>

definition demo_chain :: bytes where
  "demo_chain =
     [0, 80, 0, 0, 0, 0, 0, 0, 16, 0, 0, 0, 1, 0, 1, 0,
      0, 96, 0, 0, 0, 0, 0, 0, 0, 2, 0, 0, 2, 0, 0, 0]"

lemma demo_path:
  "split_path False (demo_memory 4096 demo_chain) 4096 8 0
     [\<lparr>d_addr = 20480, d_len = 16, d_flags = 1, d_next = 1\<rparr>, \<lparr>d_addr = 24576, d_len = 512, d_flags = 2, d_next = 0\<rparr>]"
  by (simp add: demo_memory_def demo_chain_def put_span_def read_descriptor_def memory_eval
      is_indirect_def has_next_def desc_flag_defs DESC_SIZE_def)

lemma demo_packed:
  "packed_run (demo_memory 4096 demo_chain) 4096 2 0 0
     [\<lparr>p_addr = 20480, p_len = 16, p_id = 1, p_flags = 1\<rparr>, \<lparr>p_addr = 24576, p_len = 512, p_id = 2, p_flags = 0\<rparr>]"
  by (simp add: packed_run_Cons demo_memory_def demo_chain_def put_span_def read_packed_def memory_eval
      desc_flag_defs DESC_SIZE_def) (simp add: packed_run_def)

section \<open>Properties\<close>

text \<open>C9: Whatever the guest writes into its rings between any two calls of the iterator, walking a
  chain ends: a split chain and a packed chain yield at most 513 descriptors (twice the largest queue
  size, and one), loops and nested tables included.
\<close>

theorem chain_walk_bounded:
  "length (chain_collect mems i (chain_new tbl len h)) \<le> 513 \<and>
   length (chain_collect mems i (chain_packed tbl len start slots buf_id)) \<le> 513"
  using chain_collect_length [of mems i "chain_new tbl len h"]
    chain_collect_length [of mems i "chain_packed tbl len start slots buf_id"]
  by (simp add: chain_new_def chain_packed_def)

text \<open>C10: A split chain is walked exactly: the iterator yields the descriptors of the path that
  starts at the head and follows \<open>next\<close> while the flag is set, in order, whether the path lies in the
  queue's own table or in the indirect table its head points at.
\<close>

theorem split_walk_exact:
  assumes "split_path False mem tbl len h ds \<or>
      (\<exists>outer. h < len \<and> read_descriptor mem tbl h = Some outer \<and> is_indirect outer \<and> \<not> has_next outer \<and>
        split_path True mem (d_addr outer) (indirect_len (d_len outer)) 0 ds)"
    and "length ds \<le> 512"
  shows "chain_collect (\<lambda>_. mem) i (chain_new tbl len h) = ds"
  using assms(1)
proof (elim disjE exE conjE)
  assume "split_path False mem tbl len h ds"
  then show ?thesis
    using assms(2) by (intro chain_collect_path [of False _ _ h _ None 0 0]) (simp_all add: chain_new_def)
next
  fix outer
  assume "h < len" "read_descriptor mem tbl h = Some outer" "is_indirect outer" "\<not> has_next outer"
    "split_path True mem (d_addr outer) (indirect_len (d_len outer)) 0 ds"
  then show ?thesis
    using assms(2) by (intro chain_collect_indirect)
qed


theorem split_walk_exact_witness:
  "chain_collect (\<lambda>_. demo_memory 4096 demo_chain) 0 (chain_new 4096 8 0) =
     [\<lparr>d_addr = 20480, d_len = 16, d_flags = 1, d_next = 1\<rparr>, \<lparr>d_addr = 24576, d_len = 512, d_flags = 2, d_next = 0\<rparr>]"
  by (rule split_walk_exact) (use demo_path in simp_all)


end
