(* ===== verification/Virtqueue_Rings.thy ===== *)
theory Virtqueue_Rings
  imports Virtqueue_Walk
begin

text \<open>
  What the rings of \<^verbatim>\<open>virtio/queue.rs\<close> promise: chains come out in the order the driver published
  them, none is returned more often than it was taken, a completion is where the driver looks for
  it, and both notification directions are suppressed only when the other side asked for it.
\<close>

section \<open>Free-running indices\<close>

lemma need_event_distance: "need_event w n l \<longleftrightarrow> unat (w - l) < unat (n - l)"
proof -
  define a d where "a = n - l" and "d = w - l"
  have "n - w - 1 = a - d - 1" by (simp add: a_def d_def)
  moreover have "a - d - 1 < a \<longleftrightarrow> unat d < unat a"
  proof -
    have 1: "unat (a - d - 1) = (if unat d < unat a then unat a - unat d - 1 else unat a + 65536 - unat d - 1)"
      using unat_lt_16 [of d] by (auto simp: unat_sub_if' not_less word_less_nat_alt split: if_splits)
    show ?thesis
      using 1 unat_lt_16 [of d] unat_lt_16 [of a] by (simp add: word_less_nat_alt) arith
  qed
  ultimately show ?thesis by (simp add: need_event_def a_def d_def)
qed

lemma wrapping_offset: "unat (w - l) < n \<longleftrightarrow> (\<exists>k < n. w = l + of_nat k)" if "n \<le> 65536" for w l :: u16
proof
  assume "unat (w - l) < n"
  then show "\<exists>k < n. w = l + of_nat k"
    by (intro exI [of _ "unat (w - l)"]) simp
next
  assume "\<exists>k < n. w = l + of_nat k"
  then obtain k where "k < n" "w = l + of_nat k" by blast
  with that show "unat (w - l) < n" by (simp add: unat_of_nat take_bit_nat_eq_self)
qed

text \<open>The notification test both sides use. \<^verbatim>\<open>need_event(wanted, now, last)\<close> holds exactly when
  \<open>wanted\<close> is one of the indices passed since the last notification, \<open>last\<close> itself included and \<open>now\<close>
  not, wherever in the 16-bit index space the two lie: wrapping past zero makes no difference.\<close>

lemma need_event_window:
  "need_event wanted now last_told \<longleftrightarrow> (\<exists>k < unat (now - last_told). wanted = last_told + of_nat k)"
  using wrapping_offset [of "unat (now - last_told)" wanted last_told] unat_lt_16 [of "now - last_told"]
  by (simp add: need_event_distance)

section \<open>Taking chains in order\<close>

text \<open>What the driver has published and the device has not taken: the entries of the available ring
  from \<^verbatim>\<open>next_avail\<close> up to the driver's index, oldest first.\<close>

definition ring_entry :: "virtqueue \<Rightarrow> guest_memory \<Rightarrow> u16 \<Rightarrow> u16 option" where
  "ring_entry q mem i = result_ok (read_u16 mem (avail_addr q + 4 + ucast (i mod qsize q) * 2))"

definition pending :: "virtqueue \<Rightarrow> guest_memory \<Rightarrow> u16 option list" where
  "pending q mem = (case avail_idx q mem of None \<Rightarrow> []
     | Some idx \<Rightarrow> map (\<lambda>k. ring_entry q mem (next_avail q + of_nat k)) [0 ..< unat (idx - next_avail q)])"

lemma pending_unroll:
  assumes "avail_idx q mem = Some idx" "idx \<noteq> next_avail q"
  shows "pending q mem = ring_entry q mem (next_avail q) # pending (q\<lparr>next_avail := next_avail q + 1\<rparr>) mem"
proof -
  let ?n = "unat (idx - next_avail q)"
  have "idx - next_avail q \<noteq> 0" using assms(2) by simp
  then have n: "0 < ?n" by (simp add: unat_gt_0)
  have "unat ((idx - next_avail q) - 1) = ?n - 1"
    using n by (subst unat_sub) (simp_all add: word_le_nat_alt)
  moreover have "idx - (next_avail q + 1) = (idx - next_avail q) - 1"
    by simp
  ultimately have "unat (idx - (next_avail q + 1)) = ?n - 1"
    by (simp only:)
  moreover have "[0 ..< ?n] = 0 # map Suc [0 ..< ?n - 1]"
    using n by (simp add: map_Suc_upt upt_conv_Cons)
  ultimately show ?thesis
    using assms(1) by (simp add: pending_def avail_idx_def ring_entry_def algebra_simps)
qed

lemma pending_cong:
  "avail_addr q' = avail_addr q \<Longrightarrow> qsize q' = qsize q \<Longrightarrow> next_avail q' = next_avail q \<Longrightarrow> pending q' mem = pending q mem"
  by (simp add: pending_def avail_idx_def ring_entry_def cong: option.case_cong)

lemma mark_taken_fields [simp]:
  "avail_addr (mark_taken q h) = avail_addr q" "qsize (mark_taken q h) = qsize q"
  "next_avail (mark_taken q h) = next_avail q" "desc_addr (mark_taken q h) = desc_addr q"
  "ready (mark_taken q h) = ready q" "packed (mark_taken q h) = packed q"
  "chain_len (mark_taken q h) = chain_len q" "next_used (mark_taken q h) = next_used q"
  "used_addr (mark_taken q h) = used_addr q" "used_wrap (mark_taken q h) = used_wrap q"
  "avail_wrap (mark_taken q h) = avail_wrap q" "max_size (mark_taken q h) = max_size q"
  by (simp_all add: mark_taken_def Let_def)

lemma mark_taken_marks:
  assumes "h < qsize q"
  shows "unat h < length (outstanding_heads (mark_taken q h)) \<and> outstanding_heads (mark_taken q h) ! unat h"
  using assms by (simp add: mark_taken_def Let_def word_less_nat_alt)

text \<open>C12: A split queue is a first-in first-out queue of the heads the driver published. On a ready
  queue of nonzero size, \<^verbatim>\<open>pop\<close> returns nothing and changes nothing when nothing is pending, or when
  the ring entry cannot be read; otherwise it consumes exactly the oldest entry, skipping it if it
  names no descriptor, and returns the chain that starts at it with the head recorded as
  outstanding.  \<^verbatim>\<open>outstanding\<close> is the number of entries pending.\<close>

theorem pop_split_fifo:
  assumes "ready q" "\<not> packed q" "qsize q \<noteq> 0"
  shows "(case pending q mem of
      [] \<Rightarrow> pop q mem = Ok (q, None)
    | None # _ \<Rightarrow> pop q mem = Ok (q, None)
    | Some hn # rest \<Rightarrow> \<exists>q'. pending q' mem = rest \<and>
        (if hn < qsize q
         then pop q mem = Ok (q', Some (chain_new (desc_addr q) (qsize q) hn)) \<and>
              unat hn < length (outstanding_heads q') \<and> outstanding_heads q' ! unat hn
         else pop q mem = Ok (q', None))) \<and>
    unat (outstanding q mem) = length (pending q mem)"
proof (cases "avail_idx q mem")
  case None
  then show ?thesis using assms by (simp add: pending_def pop_def outstanding_def)
next
  case (Some idx)
  have len: "unat (outstanding q mem) = length (pending q mem)"
    using assms by (simp add: outstanding_def pending_def Some)
  show ?thesis
  proof (cases "idx = next_avail q")
    case True
    then show ?thesis using assms len by (simp add: pending_def pop_def Some)
  next
    case False
    let ?q1 = "q\<lparr>next_avail := next_avail q + 1\<rparr>"
    note u = pending_unroll [OF Some False]
    have m: "pending (mark_taken ?q1 h) mem = pending ?q1 mem" for h
      by (rule pending_cong) simp_all
    show ?thesis
    proof (cases "ring_entry q mem (next_avail q)")
      case None
      then show ?thesis
        using assms len Some False u by (simp add: pop_def ring_entry_def Let_def)
    next
      case e: (Some h)
      have p: "pop q mem = (if qsize q \<le> h then Ok (?q1, None)
          else Ok (mark_taken ?q1 h, Some (chain_new (desc_addr q) (qsize q) h)))"
        using e assms Some False by (simp add: pop_def ring_entry_def Let_def)
      show ?thesis
      proof (cases "h < qsize q")
        case True
        then show ?thesis
          using p u e len m mark_taken_marks [of h ?q1] by (auto simp: not_le [symmetric])
      next
        case False
        then show ?thesis
          using p u e len by auto
      qed
    qed
  qed
qed


section \<open>Returning a chain once\<close>

definition owed :: "virtqueue \<Rightarrow> u16 \<Rightarrow> bool" where
  "owed q h \<longleftrightarrow> unat h < length (outstanding_heads q) \<and> outstanding_heads q ! unat h"

datatype ring_event = Taken u16 | Returned u16

text \<open>
  The lives of a queue. The events are listed newest first; between any two steps the guest may have
  written whatever it likes to its memory, reprogrammed the size, the addresses or the features, and
  reset the queue. A completion the queue refuses leaves it as it was, and is no event.
\<close>

inductive queue_life :: "virtqueue \<Rightarrow> ring_event list \<Rightarrow> bool" where
  born: "queue_life (vq_new mx) []"
| took: "queue_life q tr \<Longrightarrow> pop q mem = Ok (q', Some c) \<Longrightarrow> queue_life q' (Taken (head c) # tr)"
| idle: "queue_life q tr \<Longrightarrow> pop q mem = Ok (q', None) \<Longrightarrow> queue_life q' tr"
| gave: "queue_life q tr \<Longrightarrow> push_used q mem hn len = Ok (q', mem') \<Longrightarrow> q' \<noteq> q \<Longrightarrow> queue_life q' (Returned hn # tr)"
| refused: "queue_life q tr \<Longrightarrow> push_used q mem hn len = Ok (q, mem') \<Longrightarrow> queue_life q tr"
| told: "queue_life q tr \<Longrightarrow> needs_interrupt q mem = Ok (q', b) \<Longrightarrow> queue_life q' tr"
| armed: "queue_life q tr \<Longrightarrow> queue_life (fst (arm_notifications q mem)) tr"
| hushed: "queue_life q tr \<Longrightarrow> queue_life (fst (suppress_notifications q mem on)) tr"
| sized: "queue_life q tr \<Longrightarrow> queue_life (set_size q n) tr"
| placed: "queue_life q tr \<Longrightarrow> queue_life (q\<lparr>desc_addr := a, avail_addr := b, used_addr := c\<rparr>) tr"
| featured: "queue_life q tr \<Longrightarrow> queue_life (set_packed (set_event_idx q e) p) tr"
| readied: "queue_life q tr \<Longrightarrow> queue_life (fst (set_ready q on)) tr"
| cleared: "queue_life q tr \<Longrightarrow> queue_life (vq_reset q) tr"

lemma owed_cong: "outstanding_heads q' = outstanding_heads q \<Longrightarrow> owed q' = owed q"
  by (simp add: owed_def fun_eq_iff)

lemma mark_taken_owed: "owed (mark_taken q h) x \<Longrightarrow> x = h \<or> owed q x"
  by (auto simp: owed_def mark_taken_def Let_def nth_list_update word_unat_eq_iff split: if_splits)

lemma advance_avail_owed: "advance_avail q n = Ok q' \<Longrightarrow> owed q' = owed q"
  by (auto simp: advance_avail_def Let_def intro!: owed_cong split: if_splits)

definition takes :: "virtqueue \<Rightarrow> virtqueue \<times> chain option \<Rightarrow> bool" where
  "takes q qr \<longleftrightarrow> (\<forall>x. owed (fst qr) x \<longrightarrow> owed q x \<or> (\<exists>c. snd qr = Some c \<and> x = head c))"

lemma takes_same [simp]: "takes q (q, r)"
  by (simp add: takes_def)

lemma pop_packed_cases:
  assumes ok: "pop_packed q mem = Ok res"
  obtains (nothing) "res = (q, None)"
  | (skipped) n q1 where "advance_avail q n = Ok q1" "res = (q1, None)"
  | (taken) n q1 cl c where "advance_avail q n = Ok q1" "res = ((mark_taken q1 (head c))\<lparr>chain_len := cl\<rparr>, Some c)"
proof -
  let ?a = "desc_at q (next_avail q)"
  show thesis
  proof (cases "result_ok (read_u16 mem (?a + 14))")
    case (Some f)
    show thesis
    proof (cases "\<not> is_available q f \<or> result_ok (read_u64 mem ?a) = None \<or> result_ok (read_u32 mem (?a + 8)) = None \<or>
        result_ok (read_u16 mem (?a + 12)) = None")
      case True
      then have "res = (q, None)"
        using ok Some by (auto simp: pop_packed_def Let_def split: option.splits)
      then show thesis by (rule nothing)
    next
      case False
      then obtain a l i where r: "result_ok (read_u64 mem ?a) = Some a" "result_ok (read_u32 mem (?a + 8)) = Some l"
          "result_ok (read_u16 mem (?a + 12)) = Some i" "is_available q f"
        by (metis not_None_eq)
      obtain slots b where sb: "(if f AND VIRTQ_DESC_F_INDIRECT \<noteq> 0 then (1, i)
               else packed_extent mem q (next_avail q) 1 f i) = (slots, b)"
        by fastforce
      obtain q1 where q1: "advance_avail q slots = Ok q1"
        using ok Some r sb by (cases "advance_avail q slots") (auto simp: pop_packed_def Let_def split: if_splits)
      have "res = (q1, None) \<or> (\<exists>cl c. res = ((mark_taken q1 b)\<lparr>chain_len := cl\<rparr>, Some c) \<and> head c = b)"
        using ok by (simp add: pop_packed_def Let_def Some r sb q1 chain_packed_def split: if_splits) auto
      then show thesis using skipped [OF q1] taken [OF q1] by blast
    qed
  next
    case None
    then have "res = (q, None)" using ok by (auto simp: pop_packed_def)
    then show thesis by (rule nothing)
  qed
qed

lemma pop_packed_owed: "pop_packed q mem = Ok res \<Longrightarrow> takes q res"
proof (erule pop_packed_cases)
  fix n q1 assume q1: "advance_avail q n = Ok q1"
  show "takes q res" if "res = (q1, None)"
    using that advance_avail_owed [OF q1] by (simp add: takes_def)
  fix cl c
  have "owed ((mark_taken q1 b)\<lparr>chain_len := cl\<rparr>) = owed (mark_taken q1 b)" for b
    by (rule owed_cong) simp
  then show "takes q res" if "res = ((mark_taken q1 (head c))\<lparr>chain_len := cl\<rparr>, Some c)"
    using that advance_avail_owed [OF q1] mark_taken_owed [of q1] by (fastforce simp: takes_def)
qed simp

lemma pop_owed: "pop q mem = Ok res \<Longrightarrow> takes q res"
proof -
  let ?q1 = "q\<lparr>next_avail := next_avail q + 1\<rparr>"
  have o: "owed ?q1 = owed q" by (rule owed_cong) simp
  assume ok: "pop q mem = Ok res"
  show ?thesis
  proof (cases "ready q \<and> packed q")
    case True
    then show ?thesis using ok pop_packed_owed by (simp add: pop_def)
  next
    case False
    then have "res = (q, None) \<or> res = (?q1, None) \<or> (\<exists>h. res = (mark_taken ?q1 h, Some (chain_new (desc_addr q) (qsize q) h)))"
      using ok by (simp add: pop_def Let_def split: if_splits option.splits) auto
    then show ?thesis
      using mark_taken_owed [of ?q1] unfolding o by (fastforce simp: takes_def chain_new_def o)
  qed
qed

lemma push_used_packed_heads: "push_used_packed q mem h len = Ok (q', mem') \<Longrightarrow> outstanding_heads q' = outstanding_heads q"
  by (auto simp: push_used_packed_def Let_def split: if_splits)

lemma push_used_owed:
  assumes "push_used q mem h len = Ok (q', mem')"
  shows "(if owed q h then owed q' = (owed q)(h := False) \<and> q' \<noteq> q else q' = q \<and> mem' = mem)"
proof (cases "owed q h")
  case True
  let ?q1 = "q\<lparr>outstanding_heads := (outstanding_heads q)[unat h := False]\<rparr>"
  have heads: "outstanding_heads q' = (outstanding_heads q)[unat h := False]"
    using assms True push_used_packed_heads [of ?q1]
    by (auto simp: push_used_def owed_def Let_def split: if_splits)
  then have o: "owed q' = (owed q)(h := False)"
    using True by (auto simp: owed_def fun_eq_iff nth_list_update word_unat_eq_iff)
  then have "\<not> owed q' h" by simp
  with True have "q' \<noteq> q" by blast
  with o True show ?thesis by simp
next
  case False
  then show ?thesis using assms by (auto simp: push_used_def owed_def split: if_splits)
qed

lemma needs_interrupt_heads: "needs_interrupt q mem = Ok (q', b) \<Longrightarrow> outstanding_heads q' = outstanding_heads q"
  by (auto simp: needs_interrupt_def needs_interrupt_packed_def Let_def split: if_splits option.splits)

lemma notification_heads:
  "outstanding_heads (fst (arm_notifications q mem)) = outstanding_heads q"
  "outstanding_heads (fst (suppress_notifications q mem on)) = outstanding_heads q"
  "outstanding_heads (fst (set_ready q on)) = outstanding_heads q"
  by (simp_all add: arm_notifications_def suppress_notifications_def publish_avail_event_def set_ready_def Let_def)

lemma queue_life_ledger:
  "queue_life q tr \<Longrightarrow> count_list tr (Returned h) + of_bool (owed q h) \<le> count_list tr (Taken h)"
proof (induction rule: queue_life.induct)
  case (took q tr mem q' c)
  then show ?case using pop_owed [OF took(2)] by (auto simp: takes_def split: if_splits)
next
  case (idle q tr mem q')
  then show ?case using pop_owed [OF idle(2)] by (auto simp: takes_def split: if_splits)
next
  case (gave q tr mem hn len q' mem')
  then show ?case using push_used_owed [OF gave(2)] by (auto split: if_splits)
next
  case (told q tr mem q' b)
  then show ?case using owed_cong [OF needs_interrupt_heads [OF told(2)]] by simp
qed (simp_all add: notification_heads owed_def vq_new_def vq_reset_def set_size_def set_packed_def set_event_idx_def)

text \<open>C1: A completion is reported at most once. Over the whole life of a queue, whatever the guest
  writes and reprograms in between and however often a device calls \<^verbatim>\<open>push_used\<close>, a head has been
  returned to the driver at most as often as it was taken from it, and strictly less often while a
  completion for it is still accepted.\<close>

theorem returned_at_most_once:
  "queue_life q tr \<Longrightarrow>
     count_list tr (Returned h) \<le> count_list tr (Taken h) \<and>
     (push_used q mem h len = Ok (q', mem') \<and> q' \<noteq> q \<longrightarrow> count_list tr (Returned h) < count_list tr (Taken h))"
  using queue_life_ledger [of q tr h] push_used_owed [of q mem h len q' mem'] by (auto split: if_splits)

definition demo_available :: bytes where
  "demo_available = [0, 0, 1, 0, 3, 0]"

definition demo_queue :: virtqueue where
  "demo_queue = (vq_new 8)\<lparr>desc_addr := 8192, avail_addr := 4096, used_addr := 12288, ready := True\<rparr>"

lemma demo_pending: "pending demo_queue (demo_memory 4096 demo_available) = [Some 3]"
  by (simp add: pending_def avail_idx_def ring_entry_def demo_queue_def vq_new_def demo_memory_def demo_available_def
      put_span_def memory_eval)

theorem pop_split_fifo_witness:
  "\<exists>q'. pop demo_queue (demo_memory 4096 demo_available) = Ok (q', Some (chain_new 8192 8 3)) \<and>
     pending q' (demo_memory 4096 demo_available) = []"
  using pop_split_fifo [of demo_queue "demo_memory 4096 demo_available"]
  by (simp add: demo_pending) (auto simp: demo_queue_def vq_new_def)

lemma demo_life: "\<exists>q. queue_life q [Taken 3] \<and> owed q 3"
proof -
  have "\<exists>q. pop demo_queue (demo_memory 4096 demo_available) = Ok (q, Some (chain_new 8192 8 3)) \<and> owed q 3"
    by (simp add: pop_def avail_idx_def demo_queue_def vq_new_def demo_memory_def demo_available_def
      put_span_def memory_eval mark_taken_def owed_def)
  moreover have "queue_life demo_queue []"
    using queue_life.readied [OF queue_life.placed [OF queue_life.born [of 8], where a = 8192 and b = 4096 and c = 12288], of True]
    by (simp add: demo_queue_def set_ready_def is_geometry_valid_def vq_new_def is_power_of_two_def)
  ultimately show ?thesis
    using queue_life.took [of demo_queue "[]" "demo_memory 4096 demo_available"] by (force simp: chain_new_def)
qed

theorem returned_at_most_once_witness:
  "\<exists>q. queue_life q [Taken 3] \<and> count_list [Taken 3] (Returned 3) \<le> count_list [Taken 3] (Taken 3)"
  using demo_life returned_at_most_once by blast

end
