(* ===== verification/Virtio_Device.thy ===== *)
theory Virtio_Device
  imports Virtqueue_Rings
begin

text \<open>
  The \<^verbatim>\<open>VirtioDevice\<close> trait of \<^verbatim>\<open>virtio/mod.rs\<close> as a record of operations over a device's own state, the
  \<^verbatim>\<open>Serviced\<close> mask, and what the transport relies on from a device: servicing a queue moves its
  cursors and nothing of its geometry.
\<close>

section \<open>The mask of serviced queues\<close>

type_synonym serviced = u32

text \<open>A shift of a \<^verbatim>\<open>u32\<close> uses the low five bits of the amount.\<close>

definition serviced_queue :: "u16 \<Rightarrow> serviced" where
  "serviced_queue index = push_bit (unat index mod 32) 1"

definition serviced_queue_if :: "u16 \<Rightarrow> bool \<Rightarrow> serviced" where
  "serviced_queue_if index used = (if used then serviced_queue index else 0)"

definition serviced_and :: "serviced \<Rightarrow> serviced \<Rightarrow> serviced" where
  "serviced_and a b = a OR b"

definition serviced_any :: "serviced \<Rightarrow> bool" where
  "serviced_any s \<longleftrightarrow> s \<noteq> 0"

definition serviced_contains :: "serviced \<Rightarrow> u16 \<Rightarrow> bool" where
  "serviced_contains s index \<longleftrightarrow> s AND push_bit (unat index mod 32) 1 \<noteq> 0"

lemma serviced_contains_bit: "serviced_contains s index \<longleftrightarrow> bit s (unat index mod 32)"
proof -
  have "s AND push_bit n 1 = 0 \<longleftrightarrow> \<not> bit s n" if "n < 32" for n
    using that by (simp add: and_exp_eq_0_iff_not_bit push_bit_eq_mult)
  then show ?thesis by (simp add: serviced_contains_def)
qed

section \<open>Features\<close>

definition RING_INDIRECT_DESC :: u64 where "RING_INDIRECT_DESC = push_bit 28 1"
definition RING_EVENT_IDX :: u64 where "RING_EVENT_IDX = push_bit 29 1"
definition VERSION_1 :: u64 where "VERSION_1 = push_bit 32 1"
definition RING_PACKED :: u64 where "RING_PACKED = push_bit 34 1"

definition DRIVER_OK :: u32 where "DRIVER_OK = 4"

definition COMMON_FEATURES :: u64 where
  "COMMON_FEATURES = VERSION_1 OR RING_INDIRECT_DESC OR RING_EVENT_IDX OR RING_PACKED"

text \<open>Whether the environment withholds the packed layout is the argument.\<close>

definition offered_features :: "bool \<Rightarrow> u64 \<Rightarrow> u64" where
  "offered_features withhold device = (if withhold then device AND NOT RING_PACKED else device)"

section \<open>The trait\<close>

record shm_region =
  shm_id :: u8
  shm_base :: u64
  shm_len :: u64

record 'd virtio_device =
  vd_type :: u32
  vd_features :: "'d \<Rightarrow> u64"
  vd_ack_features :: "'d \<Rightarrow> u64 \<Rightarrow> 'd"
  vd_queue_count :: "'d \<Rightarrow> nat"
  vd_queue_max_size_of :: "'d \<Rightarrow> u16 \<Rightarrow> u16"
  vd_shm_regions :: "'d \<Rightarrow> shm_region list"
  vd_config_read :: "'d \<Rightarrow> u64 \<Rightarrow> nat \<Rightarrow> bytes"
  vd_config_write :: "'d \<Rightarrow> u64 \<Rightarrow> bytes \<Rightarrow> 'd"
  vd_activate :: "'d \<Rightarrow> 'd"
  vd_notify :: "'d \<Rightarrow> u16 \<Rightarrow> virtqueue list \<Rightarrow> guest_memory \<Rightarrow> (memory_error, 'd \<times> virtqueue list \<times> guest_memory \<times> serviced) run"
  vd_retry_deadline :: "'d \<Rightarrow> nat option"
  vd_retry_deferred :: "'d \<Rightarrow> virtqueue list \<Rightarrow> guest_memory \<Rightarrow> nat \<Rightarrow> (memory_error, 'd \<times> virtqueue list \<times> guest_memory \<times> serviced) run"
  vd_reset :: "'d \<Rightarrow> 'd"

text \<open>The trait's defaults for a device that never defers work. An instant is a number of ticks.\<close>

definition no_deadline :: "'d \<Rightarrow> nat option" where
  "no_deadline d = None"

definition no_retry :: "'d \<Rightarrow> virtqueue list \<Rightarrow> guest_memory \<Rightarrow> nat \<Rightarrow> (memory_error, 'd \<times> virtqueue list \<times> guest_memory \<times> serviced) run" where
  "no_retry d qs mem now = Some (Ok (d, qs, mem, 0))"

text \<open>What of a queue is the driver's business: its place, size, layout and whether it is live.\<close>

definition queue_config :: "virtqueue \<Rightarrow> u16 \<times> u16 \<times> (u64 \<times> u64 \<times> u64) \<times> bool \<times> bool \<times> bool" where
  "queue_config q = (max_size q, qsize q, (desc_addr q, avail_addr q, used_addr q), ready q, packed q, event_idx q)"

lemma queue_config_eq:
  "queue_config q' = queue_config q \<longleftrightarrow>
     max_size q' = max_size q \<and> qsize q' = qsize q \<and> desc_addr q' = desc_addr q \<and> avail_addr q' = avail_addr q \<and>
     used_addr q' = used_addr q \<and> ready q' = ready q \<and> packed q' = packed q \<and> event_idx q' = event_idx q"
  by (auto simp: queue_config_def)

lemma mark_taken_config [simp]: "queue_config (mark_taken q h) = queue_config q"
  by (simp add: queue_config_def mark_taken_def Let_def)

lemma advance_avail_config: "advance_avail q n = Ok q' \<Longrightarrow> queue_config q' = queue_config q"
  by (auto simp: advance_avail_def Let_def queue_config_def split: if_splits)

lemma chain_len_config [simp]: "queue_config (q\<lparr>chain_len := cl\<rparr>) = queue_config q"
  by (simp add: queue_config_def)

lemma pop_packed_config:
  assumes "pop_packed q mem = Ok (q', r)"
  shows "queue_config q' = queue_config q"
  using assms by (cases rule: pop_packed_cases) (auto dest: advance_avail_config)

lemma pop_config:
  assumes "pop q mem = Ok (q', r)"
  shows "queue_config q' = queue_config q"
proof (cases "ready q \<and> packed q")
  case True
  then show ?thesis using assms pop_packed_config by (simp add: pop_def)
next
  case False
  then have "q' = q \<or> q' = q\<lparr>next_avail := next_avail q + 1\<rparr> \<or> (\<exists>h. q' = mark_taken (q\<lparr>next_avail := next_avail q + 1\<rparr>) h)"
    using assms by (auto simp: pop_def Let_def split: option.splits if_splits)
  moreover have "queue_config (q\<lparr>next_avail := next_avail q + 1\<rparr>) = queue_config q" by (simp add: queue_config_def)
  ultimately show ?thesis by auto
qed

lemma push_used_config: "push_used q mem h len = Ok (q', mem') \<Longrightarrow> queue_config q' = queue_config q"
  by (auto simp: push_used_def push_used_packed_def Let_def queue_config_def split: if_splits)

lemma arm_config: "queue_config (fst (arm_notifications q mem)) = queue_config q"
  by (simp add: arm_notifications_def publish_avail_event_def queue_config_def Let_def)

lemma needs_interrupt_config: "needs_interrupt q mem = Ok (q', b) \<Longrightarrow> queue_config q' = queue_config q"
  by (auto simp: needs_interrupt_def needs_interrupt_packed_def Let_def queue_config_def split: if_splits option.splits)

text \<open>What the transport relies on.\<close>

locale virtio_device_laws =
  fixes dev :: "'d virtio_device"
  assumes notify_keeps: "vd_notify dev d i qs mem = Some (Ok (d', qs', mem', s)) \<Longrightarrow>
      map queue_config qs' = map queue_config qs"
    and notify_features: "vd_notify dev d i qs mem = Some (Ok (d', qs', mem', s)) \<Longrightarrow> vd_features dev d' = vd_features dev d"
    and retry_keeps: "vd_retry_deferred dev d qs mem now = Some (Ok (d', qs', mem', s)) \<Longrightarrow>
      map queue_config qs' = map queue_config qs \<and> vd_features dev d' = vd_features dev d"
    and steady_features: "vd_features dev (vd_ack_features dev d f) = vd_features dev d"
      "vd_features dev (vd_config_write dev d a bs) = vd_features dev d"
      "vd_features dev (vd_activate dev d) = vd_features dev d" "vd_features dev (vd_reset dev d) = vd_features dev d"

end
