(* ===== verification/Virtqueue_Completion.thy ===== *)
theory Virtqueue_Completion
  imports Virtqueue_Rings
begin

text \<open>
  Completions of \<^verbatim>\<open>virtio/queue.rs\<close>, in both ring formats: what \<^verbatim>\<open>push_used\<close> leaves in guest memory for
  the driver to read, over the byte-store interface, and the packed cursors as counters.
\<close>

section \<open>Publishing fields\<close>

text \<open>Fields at increasing offsets of one base, none of which reaches round the address space.\<close>

lemma apart_at:
  assumes "a = base + of_nat x" "b = base + of_nat y" "x + n \<le> y \<or> y + k \<le> x" "x + n \<le> 2 ^ 64" "y + k \<le> 2 ^ 64"
  shows "apart a n b k"
  using assms apart_offset [of x n y k base] apart_sym [OF apart_offset [of y k x n base]] by auto

lemma read_u16_after:
  assumes "sorted_wrt (\<lambda>(a, bs) (b, cs). apart a (length bs) b (length cs)) fs"
    and "(a, to_le_bytes v) \<in> set fs" "\<exists>w. read_u16 m a = Ok w"
  shows "read_u16 (gm.store_all m fs) a = Ok (v :: u16)"
proof -
  have "gm_fetch m a 2 \<noteq> None"
    using assms(3) read_u16_fetch [of m a] by (cases "gm_fetch m a 2") auto
  then have "gm_fetch (gm.store_all m fs) a 2 = Some (to_le_bytes v)"
    using gm.store_all_reads [OF assms(1,2)] by (simp add: length_to_le_bytes)
  then show ?thesis
    using read_u16_fetch [of "gm.store_all m fs" a] by simp
qed

lemma read_u32_after:
  assumes "sorted_wrt (\<lambda>(a, bs) (b, cs). apart a (length bs) b (length cs)) fs"
    and "(a, to_le_bytes v) \<in> set fs" "\<exists>w. read_u32 m a = Ok w"
  shows "read_u32 (gm.store_all m fs) a = Ok (v :: u32)"
proof -
  have "gm_fetch m a 4 \<noteq> None"
    using assms(3) read_u32_fetch [of m a] by (cases "gm_fetch m a 4") auto
  then have "gm_fetch (gm.store_all m fs) a 4 = Some (to_le_bytes v)"
    using gm.store_all_reads [OF assms(1,2)] by (simp add: length_to_le_bytes)
  then show ?thesis
    using read_u32_fetch [of "gm.store_all m fs" a] by simp
qed

section \<open>The split used ring\<close>

definition used_element :: "virtqueue \<Rightarrow> u64" where
  "used_element q = used_addr q + 4 + ucast (next_used q mod qsize q) * 8"

lemma push_used_split:
  assumes "owed q hn" "\<not> packed q" "qsize q \<noteq> 0"
  shows "push_used q mem hn len =
    Ok (q\<lparr>outstanding_heads := (outstanding_heads q)[unat hn := False], next_used := next_used q + 1\<rparr>,
        gm.store_all mem [(used_element q, to_le_bytes (ucast hn :: u32)), (used_element q + 4, to_le_bytes len),
          (used_addr q + 2, to_le_bytes (next_used q + 1))])"
  using assms by (simp add: push_used_def owed_def Let_def used_element_def write_u16_store write_u32_store gm.store_all_simps)

lemma used_fields_apart:
  "sorted_wrt (\<lambda>(a, bs) (b, cs). apart a (length bs) b (length cs))
     [(used_element q, to_le_bytes (h :: u32)), (used_element q + 4, to_le_bytes (len :: u32)),
      (used_addr q + 2, to_le_bytes (n :: u16))]"
proof -
  let ?o = "unat (next_used q mod qsize q) * 8"
  have o: "?o < 2 ^ 20" using unat_lt_16 [of "next_used q mod qsize q"] by simp
  have e: "used_element q = used_addr q + of_nat (4 + ?o)" "used_element q + 4 = used_addr q + of_nat (8 + ?o)"
      "used_addr q + 2 = used_addr q + of_nat 2"
    by (simp_all add: used_element_def)
  have "apart (used_element q) 4 (used_element q + 4) 4" "apart (used_element q) 4 (used_addr q + 2) 2"
      "apart (used_element q + 4) 4 (used_addr q + 2) 2"
    using o by (auto intro!: apart_at [OF e(1,2)] apart_at [OF e(1,3)] apart_at [OF e(2,3)])
  then show ?thesis by (simp add: length_to_le_bytes)
qed

text \<open>A completion is where the driver looks for it. When a head that is outstanding is returned to
  a split queue whose used ring is in RAM, the element at the old used index holds the head and the
  number of bytes written, the used index has moved on by one past it, and no byte outside those three
  fields has changed. A head that is not outstanding changes neither the queue nor memory.\<close>

lemma push_used_split_publishes:
  assumes "\<not> packed q" "qsize q \<noteq> 0"
    and "\<exists>v. read_u32 mem (used_element q) = Ok v" "\<exists>v. read_u32 mem (used_element q + 4) = Ok v"
    and "\<exists>v. read_u16 mem (used_addr q + 2) = Ok v"
  shows "\<exists>q' mem'. push_used q mem hn len = Ok (q', mem') \<and>
    (if owed q hn
     then read_u32 mem' (used_element q) = Ok (ucast hn) \<and> read_u32 mem' (used_element q + 4) = Ok len \<and>
          read_u16 mem' (used_addr q + 2) = Ok (next_used q + 1) \<and> next_used q' = next_used q + 1 \<and> \<not> owed q' hn \<and>
          (\<forall>b n. apart (used_element q) 8 b n \<longrightarrow> apart (used_addr q + 2) 2 b n \<longrightarrow> gm_fetch mem' b n = gm_fetch mem b n)
     else q' = q \<and> mem' = mem)"
proof (cases "owed q hn")
  case True
  let ?fs = "[(used_element q, to_le_bytes (ucast hn :: u32)), (used_element q + 4, to_le_bytes len),
          (used_addr q + 2, to_le_bytes (next_used q + 1))]"
  note ok = push_used_split [OF True assms(1,2), of mem len]
  have "gm_fetch (gm.store_all mem ?fs) b n = gm_fetch mem b n"
    if "apart (used_element q) 8 b n" "apart (used_addr q + 2) 2 b n" for b n
  proof (rule gm.store_all_frame)
    have "apart (used_element q) 4 b n" "apart (used_element q + 4) 4 b n"
      using apart_within [OF that(1), of 0 4] apart_within [OF that(1), of 4 4] by simp_all
    then show "apart a (length bs) b n" if "(a, bs) \<in> set ?fs" for a bs
      using that \<open>apart (used_addr q + 2) 2 b n\<close> by (auto simp: length_to_le_bytes)
  qed
  then show ?thesis
    using ok True assms(3-5) read_u32_after [OF used_fields_apart] read_u16_after [OF used_fields_apart]
      push_used_owed [OF ok]
    by (simp add: True)
next
  case False
  then show ?thesis by (auto simp: push_used_def owed_def)
qed


section \<open>Packed cursors\<close>

text \<open>A packed cursor is a slot and a lap bit; together they count modulo two laps of the ring.\<close>

definition lap_pos :: "u16 \<Rightarrow> bool \<Rightarrow> u16 \<Rightarrow> nat" where
  "lap_pos slot wrap sz = unat slot + (if wrap then 0 else unat sz)"

lemma lap_sum:
  fixes nxt slots :: u16
  shows "unat ((ucast nxt :: u32) + ucast slots) = unat nxt + unat slots"
  using unat_lt_16 [of nxt] unat_lt_16 [of slots]
  by (subst unat_add_no_wrap) (simp_all add: unat_ucast_16_32)

lemma lap_slot:
  fixes nxt slots sz :: u16
  assumes "sz \<noteq> 0"
  shows "unat (ucast (((ucast nxt :: u32) + ucast slots) mod ucast sz) :: u16) = (unat nxt + unat slots) mod unat sz"
proof -
  have z: "0 < unat sz" using assms by (simp add: unat_gt_0)
  have "unat (((ucast nxt :: u32) + ucast slots) mod ucast sz) = (unat nxt + unat slots) mod unat sz"
    by (simp add: unat_mod lap_sum unat_ucast_16_32)
  moreover have "(unat nxt + unat slots) mod unat sz < 65536"
    using z unat_lt_16 [of sz] mod_less_divisor [OF z, of "unat nxt + unat slots"] by linarith
  ultimately show ?thesis
    by (simp add: unsigned_ucast_eq take_bit_nat_eq_self)
qed

lemma lap_advance:
  fixes nxt slots sz :: u16
  assumes "nxt < sz" "slots \<le> sz"
  defines "further \<equiv> (ucast nxt :: u32) + ucast slots"
  shows "lap_pos (ucast (further mod ucast sz)) (if ucast sz \<le> further then \<not> wrap else wrap) sz =
      (lap_pos nxt wrap sz + unat slots) mod (2 * unat sz)"
    and "ucast (further mod ucast sz) < sz"
proof -
  have z: "sz \<noteq> 0" using assms(1) by auto
  have b: "unat nxt < unat sz" "unat slots \<le> unat sz" using assms by (simp_all add: word_less_nat_alt word_le_nat_alt)
  have s: "unat (ucast (further mod ucast sz) :: u16) = (unat nxt + unat slots) mod unat sz"
    unfolding further_def by (rule lap_slot [OF z])
  have w: "ucast sz \<le> further \<longleftrightarrow> unat sz \<le> unat nxt + unat slots"
    by (simp add: further_def word_le_nat_alt lap_sum unat_ucast_16_32)
  show "ucast (further mod ucast sz) < sz"
    using b by (simp add: word_less_nat_alt s)
  show "lap_pos (ucast (further mod ucast sz)) (if ucast sz \<le> further then \<not> wrap else wrap) sz =
      (lap_pos nxt wrap sz + unat slots) mod (2 * unat sz)"
  proof (cases "unat sz \<le> unat nxt + unat slots")
    case True
    then have "(unat nxt + unat slots) mod unat sz = unat nxt + unat slots - unat sz"
      using b by (simp add: le_mod_geq)
    moreover have "(unat nxt + unat sz + unat slots) mod (2 * unat sz) = unat nxt + unat slots - unat sz"
      using b True by (subst le_mod_geq) simp_all
    ultimately show ?thesis
      using b True by (simp add: lap_pos_def s w)
  next
    case False
    then show ?thesis
      using b by (simp add: lap_pos_def s w)
  qed
qed

text \<open>The measured extent of a packed chain.\<close>

lemma packed_extent_bounds:
  "1 \<le> slots \<Longrightarrow> slots \<le> qsize q \<Longrightarrow> packed_extent mem q start slots flags b = (n, i) \<Longrightarrow> 1 \<le> n \<and> n \<le> qsize q"
proof (induction mem q start slots flags b arbitrary: n i rule: packed_extent.induct)
  case (1 mem q start slots flags b)
  show ?case
  proof (cases "flags AND VIRTQ_DESC_F_NEXT = 0 \<or> qsize q \<le> slots")
    case True
    then show ?thesis using 1(2-4) by (auto simp: packed_extent.simps [of mem q start slots flags b] split: if_splits)
  next
    case False
    then have lt: "slots < qsize q" by (simp add: not_le)
    then have "1 \<le> slots + 1" "slots + 1 \<le> qsize q"
      using 1(2) unat_lt_16 [of "qsize q"] unat_add_no_wrap [of slots 1]
      by (simp_all add: word_le_nat_alt word_less_nat_alt)
    then show ?thesis
      using 1(1) [OF _ _ refl _] False lt 1(2-4)
      by (simp add: packed_extent.simps [of mem q start slots flags b] Let_def split: option.splits)
  qed
qed

lemma advance_avail_run:
  assumes "advance_avail q n = Ok q'" "next_avail q < qsize q" "n \<le> qsize q"
  shows "qsize q' = qsize q" "desc_addr q' = desc_addr q" "chain_len q' = chain_len q"
    and "next_avail q' < qsize q"
    and "lap_pos (next_avail q') (avail_wrap q') (qsize q) =
      (lap_pos (next_avail q) (avail_wrap q) (qsize q) + unat n) mod (2 * unat (qsize q))"
  using assms lap_advance(1) [OF assms(2,3), of "avail_wrap q"] lap_advance(2) [OF assms(2,3)]
  by (auto simp: advance_avail_def Let_def split: if_splits)

lemma pop_packed_run:
  assumes ok: "pop_packed q mem = Ok (q', Some c)" and sz: "qsize q \<noteq> 0"
  obtains q1 slots b where "advance_avail q slots = Ok q1" "b < qsize q" "1 \<le> slots" "slots \<le> qsize q"
    "q' = (mark_taken q1 b)\<lparr>chain_len :=
       (if length (chain_len q1) \<noteq> unat (qsize q1) then replicate (unat (qsize q1)) 1 else chain_len q1)[unat b := slots]\<rparr>"
    "c = chain_packed (desc_addr q') (qsize q') (next_avail q) slots b"
proof -
  let ?a = "desc_at q (next_avail q)"
  obtain f a l i where r: "result_ok (read_u16 mem (?a + 14)) = Some f" "is_available q f"
      "result_ok (read_u64 mem ?a) = Some a" "result_ok (read_u32 mem (?a + 8)) = Some l"
      "result_ok (read_u16 mem (?a + 12)) = Some i"
    using ok by (auto simp: pop_packed_def Let_def split: option.splits if_splits)
  obtain slots b where sb: "(if f AND VIRTQ_DESC_F_INDIRECT \<noteq> 0 then (1, i)
               else packed_extent mem q (next_avail q) 1 f i) = (slots, b)"
    by fastforce
  have one: "(1 :: u16) \<le> qsize q" using sz by (simp add: word_le_nat_alt unat_gt_0 Suc_le_eq)
  then have "1 \<le> slots \<and> slots \<le> qsize q"
    using sb packed_extent_bounds [of 1 q mem "next_avail q" f i slots b] by (auto split: if_splits)
  moreover obtain q1 where q1: "advance_avail q slots = Ok q1" and b: "b < qsize q"
    using ok r sb by (cases "advance_avail q slots") (auto simp: pop_packed_def Let_def not_le split: if_splits)
  moreover have upd: "(if unat b < length xs then xs[unat b := s] else xs) = xs[unat b := s]" for xs and s :: u16
    by (simp add: list_update_beyond)
  moreover have "\<not> qsize q \<le> b" using b by simp
  ultimately show thesis
    using ok that [of slots q1 b] by (auto simp: pop_packed_def Let_def r sb q1 upd cong: if_cong)
qed

text \<open>Taking from a packed ring. A chain \<^verbatim>\<open>pop\<close> returns from a ready packed queue starts at the
  device's cursor and takes between one slot and the whole ring; the cursor moves past exactly those
  slots, counted modulo two laps, which is what the lap bit tells apart; the buffer id is in range, is
  now outstanding, and the number of slots is remembered for the completion.\<close>

lemma pop_packed_cursor:
  assumes "ready q" "packed q" "next_avail q < qsize q" "pop q mem = Ok (q', Some c)"
  shows "\<exists>n. 1 \<le> n \<and> n \<le> qsize q \<and> c = chain_packed (desc_addr q) (qsize q) (next_avail q) n (head c) \<and>
    head c < qsize q \<and> owed q' (head c) \<and>
    chain_len q' ! unat (head c) = n \<and> unat (head c) < length (chain_len q') \<and> next_avail q' < qsize q \<and>
    lap_pos (next_avail q') (avail_wrap q') (qsize q) =
      (lap_pos (next_avail q) (avail_wrap q) (qsize q) + unat n) mod (2 * unat (qsize q))"
proof -
  have sz: "qsize q \<noteq> 0" using assms(3) by auto
  have "pop_packed q mem = Ok (q', Some c)" using assms by (simp add: pop_def)
  then obtain q1 slots b where run: "advance_avail q slots = Ok q1" "b < qsize q" "1 \<le> slots" "slots \<le> qsize q"
    "q' = (mark_taken q1 b)\<lparr>chain_len :=
       (if length (chain_len q1) \<noteq> unat (qsize q1) then replicate (unat (qsize q1)) 1 else chain_len q1)[unat b := slots]\<rparr>"
    "c = chain_packed (desc_addr q') (qsize q') (next_avail q) slots b"
    using pop_packed_run [OF _ sz] by blast
  note a = advance_avail_run [OF run(1) assms(3) run(4)]
  have "owed q' b"
    using mark_taken_marks [of b q1] run(2,5) a(1) by (simp add: owed_def)
  then show ?thesis
    using run a by (intro exI [of _ slots]) (auto simp: chain_packed_def word_less_nat_alt)
qed

section \<open>Packed completions\<close>

definition packed_done :: "virtqueue \<Rightarrow> u16" where
  "packed_done q = (if used_wrap q then VIRTQ_DESC_F_AVAIL OR VIRTQ_DESC_F_USED else 0)"

lemma packed_done_taken: "\<not> is_available q2 (packed_done q)"
  by (simp add: is_available_def packed_done_def desc_flag_defs Let_def)

lemma packed_fields_apart:
  "sorted_wrt (\<lambda>(a, bs) (b, cs). apart a (length bs) b (length cs))
     [(a + 12, to_le_bytes (h :: u16)), (a + 8, to_le_bytes (len :: u32)), (a + 14, to_le_bytes (n :: u16))]"
proof -
  have e: "a + 12 = a + of_nat 12" "a + 8 = a + of_nat 8" "a + 14 = a + of_nat 14" by simp_all
  have "apart (a + 12) 2 (a + 8) 4" "apart (a + 12) 2 (a + 14) 2" "apart (a + 8) 4 (a + 14) 2"
    by (auto intro!: apart_at [OF e(1,2)] apart_at [OF e(1,3)] apart_at [OF e(2,3)])
  then show ?thesis by (simp add: length_to_le_bytes)
qed

lemma push_used_packed_run:
  assumes "owed q b" "packed q" "qsize q \<noteq> 0" "unat b < length (chain_len q)" "1 \<le> chain_len q ! unat b"
  shows "push_used q mem b len = Ok
    (q\<lparr>outstanding_heads := (outstanding_heads q)[unat b := False],
       used_wrap := (if ucast (qsize q) \<le> (ucast (next_used q) :: u32) + ucast (chain_len q ! unat b) then \<not> used_wrap q else used_wrap q),
       next_used := ucast (((ucast (next_used q) :: u32) + ucast (chain_len q ! unat b)) mod ucast (qsize q)),
       used_total := used_total q + chain_len q ! unat b\<rparr>,
     gm.store_all mem [(desc_at q (next_used q) + 12, to_le_bytes b), (desc_at q (next_used q) + 8, to_le_bytes len),
        (desc_at q (next_used q) + 14, to_le_bytes (packed_done q))])"
proof -
  have m: "max (chain_len q ! unat b) 1 = chain_len q ! unat b"
    using assms(5) by (simp add: max_def)
  show ?thesis
    using assms m
    by (simp add: push_used_def push_used_packed_def owed_def Let_def desc_at_def packed_done_def
        write_u16_store write_u32_store gm.store_all_simps)
qed

text \<open>Completing on a packed ring. Returning an outstanding buffer writes its id, its length and then
  flags that no lap of the device's cursor takes for an available descriptor, into the slot at the used
  cursor and nowhere else, and moves the used cursor and the running total past exactly the slots the
  chain took.\<close>

lemma push_used_packed_publishes:
  assumes "packed q" "next_used q < qsize q" "owed q b"
    and "unat b < length (chain_len q)" "1 \<le> chain_len q ! unat b" "chain_len q ! unat b \<le> qsize q"
    and "\<exists>v. read_u16 mem (desc_at q (next_used q) + 12) = Ok v" "\<exists>v. read_u32 mem (desc_at q (next_used q) + 8) = Ok v"
      "\<exists>v. read_u16 mem (desc_at q (next_used q) + 14) = Ok v"
  shows "\<exists>q' mem' flags. push_used q mem b len = Ok (q', mem') \<and>
    read_u16 mem' (desc_at q (next_used q) + 12) = Ok b \<and> read_u32 mem' (desc_at q (next_used q) + 8) = Ok len \<and>
    read_u16 mem' (desc_at q (next_used q) + 14) = Ok flags \<and> (\<forall>q2. \<not> is_available q2 flags) \<and>
    (\<forall>a n. apart (desc_at q (next_used q) + 8) 8 a n \<longrightarrow> gm_fetch mem' a n = gm_fetch mem a n) \<and>
    \<not> owed q' b \<and> next_used q' < qsize q \<and> used_total q' = used_total q + chain_len q ! unat b \<and>
    lap_pos (next_used q') (used_wrap q') (qsize q) =
      (lap_pos (next_used q) (used_wrap q) (qsize q) + unat (chain_len q ! unat b)) mod (2 * unat (qsize q))"
proof -
  let ?a = "desc_at q (next_used q)"
  let ?fs = "[(?a + 12, to_le_bytes b), (?a + 8, to_le_bytes len), (?a + 14, to_le_bytes (packed_done q))]"
  have sz: "qsize q \<noteq> 0" using assms(2) by auto
  note ok = push_used_packed_run [OF assms(3,1) sz assms(4,5), of mem len]
  have "gm_fetch (gm.store_all mem ?fs) a n = gm_fetch mem a n" if "apart (?a + 8) 8 a n" for a n
  proof (rule gm.store_all_frame)
    have "apart (?a + 8) 4 a n" "apart (?a + 12) 2 a n" "apart (?a + 14) 2 a n"
      using apart_within [OF that, of 0 4] apart_within [OF that, of 4 2] apart_within [OF that, of 6 2]
      by (simp_all add: algebra_simps)
    then show "apart c (length bs) a n" if "(c, bs) \<in> set ?fs" for c bs
      using that by (auto simp: length_to_le_bytes)
  qed
  then show ?thesis
    using ok assms(3,7-9) lap_advance(1) [OF assms(2,6), of "used_wrap q"] lap_advance(2) [OF assms(2,6)] packed_done_taken [of _ q]
      read_u16_after [OF packed_fields_apart] read_u32_after [OF packed_fields_apart] push_used_owed [OF ok]
    by simp
qed


section \<open>The properties at work\<close>

definition demo_taken :: virtqueue where
  "demo_taken = demo_queue\<lparr>next_avail := 1, outstanding_heads := [False, False, False, True, False, False, False, False]\<rparr>"

lemma push_used_split_publishes_witness:
  "\<exists>q' mem'. push_used demo_taken (demo_memory 4096 demo_available) 3 512 = Ok (q', mem') \<and>
     read_u32 mem' 12292 = Ok 3 \<and> read_u32 mem' 12296 = Ok 512 \<and> read_u16 mem' 12290 = Ok 1"
proof -
  have q: "\<not> packed demo_taken" "qsize demo_taken \<noteq> 0" "used_element demo_taken = 12292" "used_addr demo_taken = 12288"
      "next_used demo_taken = 0" "owed demo_taken 3"
    by (simp_all add: demo_taken_def demo_queue_def vq_new_def used_element_def owed_def)
  have "\<exists>v. read_u32 (demo_memory 4096 demo_available) 12292 = Ok v" "\<exists>v. read_u32 (demo_memory 4096 demo_available) 12296 = Ok v"
      "\<exists>v. read_u16 (demo_memory 4096 demo_available) 12290 = Ok v"
    by (simp_all add: demo_memory_def memory_eval)
  with push_used_split_publishes [OF q(1,2), of "demo_memory 4096 demo_available" 3 512] q
  show ?thesis by auto
qed

definition demo_packed_slot :: bytes where
  "demo_packed_slot = [0, 80, 0, 0, 0, 0, 0, 0, 16, 0, 0, 0, 3, 0, 128, 0]"

definition demo_packed_queue :: virtqueue where
  "demo_packed_queue = (vq_new 8)\<lparr>desc_addr := 4096, avail_addr := 8192, used_addr := 12288, ready := True, packed := True\<rparr>"

lemma demo_pop_packed:
  "\<exists>q'. pop demo_packed_queue (demo_memory 4096 demo_packed_slot) = Ok (q', Some (chain_packed 4096 8 0 1 3))"
proof -
  have "packed_extent mem q s 1 128 i = (1, i)" for mem q s i
    by (simp add: packed_extent.simps desc_flag_defs)
  then show ?thesis
    by (simp add: pop_def pop_packed_def demo_packed_queue_def vq_new_def demo_memory_def demo_packed_slot_def
        put_span_def memory_eval desc_at_def is_available_def desc_flag_defs DESC_SIZE_def advance_avail_def mark_taken_def
        chain_packed_def)
qed

lemma pop_packed_cursor_witness:
  "\<exists>q'. pop demo_packed_queue (demo_memory 4096 demo_packed_slot) = Ok (q', Some (chain_packed 4096 8 0 1 3)) \<and>
     lap_pos (next_avail q') (avail_wrap q') 8 = 1 \<and> owed q' 3"
proof -
  obtain q' where p: "pop demo_packed_queue (demo_memory 4096 demo_packed_slot) = Ok (q', Some (chain_packed 4096 8 0 1 3))"
    using demo_pop_packed by blast
  have q: "ready demo_packed_queue" "packed demo_packed_queue" "next_avail demo_packed_queue < qsize demo_packed_queue"
      "qsize demo_packed_queue = 8" "lap_pos (next_avail demo_packed_queue) (avail_wrap demo_packed_queue) 8 = 0"
    by (simp_all add: demo_packed_queue_def vq_new_def lap_pos_def)
  show ?thesis
    using pop_packed_cursor [OF q(1-3) p] p q(4,5) by (auto simp: chain_packed_def)
qed

definition demo_packed_taken :: virtqueue where
  "demo_packed_taken = demo_packed_queue\<lparr>next_avail := 1, chain_len := [1, 1, 1, 1, 1, 1, 1, 1],
     outstanding_heads := [False, False, False, True, False, False, False, False]\<rparr>"

lemma push_used_packed_publishes_witness:
  "\<exists>q' mem'. push_used demo_packed_taken (demo_memory 4096 demo_packed_slot) 3 512 = Ok (q', mem') \<and>
     read_u16 mem' 4108 = Ok 3 \<and> read_u32 mem' 4104 = Ok 512 \<and> lap_pos (next_used q') (used_wrap q') 8 = 1"
proof -
  have q: "packed demo_packed_taken" "next_used demo_packed_taken < qsize demo_packed_taken" "owed demo_packed_taken 3"
      "unat (3 :: u16) < length (chain_len demo_packed_taken)" "1 \<le> chain_len demo_packed_taken ! unat (3 :: u16)"
      "chain_len demo_packed_taken ! unat (3 :: u16) \<le> qsize demo_packed_taken"
    by (simp_all add: demo_packed_taken_def demo_packed_queue_def vq_new_def owed_def)
  have r: "desc_at demo_packed_taken (next_used demo_packed_taken) = 4096" "qsize demo_packed_taken = 8"
      "lap_pos (next_used demo_packed_taken) (used_wrap demo_packed_taken) 8 = 0" "chain_len demo_packed_taken ! 3 = 1"
    by (simp_all add: demo_packed_taken_def demo_packed_queue_def vq_new_def desc_at_def lap_pos_def)
  have "\<exists>v. read_u16 (demo_memory 4096 demo_packed_slot) 4108 = Ok v" "\<exists>v. read_u32 (demo_memory 4096 demo_packed_slot) 4104 = Ok v"
      "\<exists>v. read_u16 (demo_memory 4096 demo_packed_slot) 4110 = Ok v"
    by (simp_all add: demo_memory_def memory_eval)
  with push_used_packed_publishes [OF q, of "demo_memory 4096 demo_packed_slot" 512] r
  show ?thesis by auto
qed

end
