(* ===== verification/Virtqueue_Events.thy ===== *)
theory Virtqueue_Events
  imports Virtqueue_Completion
begin

text \<open>
  Notifications in both directions (\<^verbatim>\<open>needs_interrupt\<close>, \<^verbatim>\<open>arm_notifications\<close>, \<^verbatim>\<open>suppress_notifications\<close>
  of \<^verbatim>\<open>virtio/queue.rs\<close>): no driver that asked to be woken is left asleep, however completions are
  batched, and a driver is told to kick exactly when the device wants to hear from it.
\<close>

section \<open>Interrupting the driver\<close>

text \<open>Completions in batches with a check after each, the driver waiting all the while: \<open>ns\<close> are the
  numbers of completions between one check and the next.\<close>

fun interrupt_checks :: "virtqueue \<Rightarrow> guest_memory \<Rightarrow> nat list \<Rightarrow> (memory_error, bool list) result" where
  "interrupt_checks q mem [] = Ok []"
| "interrupt_checks q mem (n # ns) =
     result_bind (needs_interrupt (q\<lparr>next_used := next_used q + of_nat n\<rparr>) mem) (\<lambda>(q', b).
     result_bind (interrupt_checks q' mem ns) (\<lambda>bs. Ok (b # bs)))"

lemma needs_interrupt_event:
  assumes "\<not> packed q" "event_idx q" "read_u16 mem (used_event_addr q) = Ok w"
  shows "needs_interrupt q mem =
    Ok (q\<lparr>signalled_used := next_used q\<rparr>, unat (w - signalled_used q) < unat (next_used q - signalled_used q))"
  using assms by (simp add: needs_interrupt_def need_event_distance)

lemma distance_step:
  fixes w l :: u16
  assumes "n \<le> 65535" "k \<le> 65535 - n"
  shows "unat (w - (l + of_nat n)) < k \<longleftrightarrow> n \<le> unat (w - l) \<and> unat (w - l) < n + k"
proof -
  have n: "unat (of_nat n :: u16) = n" using assms by (simp add: unat_of_nat take_bit_nat_eq_self)
  have "w - (l + of_nat n) = (w - l) - of_nat n" by simp
  then have "unat (w - (l + of_nat n)) = (if n \<le> unat (w - l) then unat (w - l) - n else unat (w - l) + 65536 - n)"
    by (simp only: unat_sub_if' n) simp
  then show ?thesis using assms by auto
qed

lemma interrupt_checks_count:
  assumes "\<not> packed q" "event_idx q" "read_u16 mem (used_event_addr q) = Ok w" "signalled_used q = next_used q"
    and "sum_list ns \<le> 65535"
  shows "\<exists>bs. interrupt_checks q mem ns = Ok bs \<and>
    count_list bs True = (if unat (w - next_used q) < sum_list ns then 1 else 0)"
  using assms
proof (induction ns arbitrary: q)
  case (Cons n ns)
  let ?q1 = "q\<lparr>next_used := next_used q + of_nat n\<rparr>" and ?d = "unat (w - next_used q)"
  let ?q2 = "?q1\<lparr>signalled_used := next_used ?q1\<rparr>"
  have n: "unat (of_nat n :: u16) = n" "n \<le> 65535"
    using Cons.prems(5) by (simp_all add: unat_of_nat take_bit_nat_eq_self)
  have "needs_interrupt ?q1 mem = Ok (?q2, ?d < n)"
    using needs_interrupt_event [of ?q1 mem w] Cons.prems n by (simp add: used_event_addr_def)
  moreover obtain bs where "interrupt_checks ?q2 mem ns = Ok bs"
      "count_list bs True = (if unat (w - next_used ?q2) < sum_list ns then 1 else 0)"
    using Cons.IH [of ?q2] Cons.prems by (auto simp: used_event_addr_def)
  moreover have "unat (w - next_used ?q2) < sum_list ns \<longleftrightarrow> n \<le> ?d \<and> ?d < n + sum_list ns"
    using distance_step [of n "sum_list ns" w "next_used q"] Cons.prems(5) n by simp
  ultimately show ?case by auto
qed simp

text \<open>C13: No lost wake-up on a split ring. A driver that asked, through the event index, to be woken
  once the used index passes \<open>w\<close> is interrupted exactly once while up to a full index space of
  completions goes by, if \<open>w\<close> is among them, and not at all if it is not, however the completions are
  batched between the device's checks.\<close>

theorem driver_woken_exactly_once:
  assumes "\<not> packed q" "event_idx q" "read_u16 mem (used_event_addr q) = Ok w" "signalled_used q = next_used q"
    and "sum_list ns \<le> 65535"
  shows "\<exists>bs. interrupt_checks q mem ns = Ok bs \<and>
    count_list bs True = (if \<exists>k < sum_list ns. w = next_used q + of_nat k then 1 else 0)"
  using interrupt_checks_count [OF assms] wrapping_offset [of "sum_list ns" w "next_used q"] assms(5)
  by simp

lemma need_event_behind: "need_event (new - behind) new old \<longleftrightarrow> 1 \<le> unat behind \<and> unat behind \<le> unat (new - old)"
proof -
  have "unat (a - b) < unat a \<longleftrightarrow> 1 \<le> unat b \<and> unat b \<le> unat a" for a b :: u16
    using unat_lt_16 [of b] by (auto simp: unat_sub_if')
  moreover have "new - behind - old = (new - old) - behind" by simp
  ultimately show ?thesis by (simp only: need_event_distance)
qed

text \<open>The distance \<^verbatim>\<open>needs_interrupt_packed\<close> computes, on a ring whose size divides the index space.\<close>

lemma packed_distance:
  fixes nxt pos sz :: u16
  assumes "unat sz dvd 65536" "nxt < sz" "pos < sz"
  shows "unat ((nxt - pos) mod sz) = (unat nxt + unat sz - unat pos) mod unat sz"
proof -
  have b: "unat nxt < unat sz" "unat pos < unat sz" using assms by (simp_all add: word_less_nat_alt)
  obtain c where c: "65536 = unat sz * c" using assms(1) unfolding dvd_def by blast
  then have "0 < c" by (cases c) auto
  show ?thesis
  proof (cases "unat pos \<le> unat nxt")
    case True
    then have e: "unat nxt + unat sz - unat pos = (unat nxt - unat pos) + unat sz" using b by simp
    show ?thesis unfolding e by (simp only: unat_mod unat_sub_if' True if_True mod_add_self2)
  next
    case False
    obtain c' where "c = Suc c'" using \<open>0 < c\<close> by (cases c) auto
    then have e: "unat nxt + 65536 - unat pos = (unat nxt + unat sz - unat pos) + unat sz * c'"
      using c b by simp
    have "unat ((nxt - pos) mod sz) = (unat nxt + 65536 - unat pos) mod unat sz"
      using False by (simp add: unat_mod unat_sub_if')
    then show ?thesis unfolding e by simp
  qed
qed

lemma packed_behind:
  fixes nxt pos sz :: u16
  assumes "unat sz dvd 65536" "nxt < sz" "pos < sz" "1 \<le> d" "d \<le> unat sz"
    and "(lap_pos pos wrap sz + d) mod (2 * unat sz) = lap_pos nxt uwrap sz"
  shows "unat (if (nxt - pos) mod sz = 0 \<and> wrap \<noteq> uwrap then sz else (nxt - pos) mod sz) = d"
proof -
  have b: "unat nxt < unat sz" "unat pos < unat sz" using assms by (simp_all add: word_less_nat_alt)
  note pd = packed_distance [OF assms(1-3)]
  have z: "(nxt - pos) mod sz = 0 \<longleftrightarrow> unat nxt = unat pos"
    using pd b by (auto simp: word_unat_eq_iff [of "(nxt - pos) mod sz"] mod_if split: if_splits)
  have "(if unat nxt = unat pos \<and> wrap \<noteq> uwrap then unat sz else (unat nxt + unat sz - unat pos) mod unat sz) = d"
    using assms(4-6) b by (cases wrap; cases uwrap) (auto simp: lap_pos_def mod_if split: if_splits)
  then show ?thesis
    using z pd by auto
qed

text \<open>No lost wake-up on a packed ring. A driver waiting on a descriptor position (slot and lap) that
  the used cursor has passed by at most one full ring, all of it since the previous check, is
  interrupted. That includes the batch of exactly one ring, which leaves the cursor's slot where it
  was. Every check also moves the mark the next one measures from.\<close>

lemma packed_driver_woken:
  assumes "packed q" "unat (qsize q) dvd 65536" "next_used q < qsize q"
    and "read_u16 mem (avail_addr q + 2) = Ok EVENT_DESC" "read_u16 mem (avail_addr q) = Ok off_wrap"
    and "off_wrap AND NOT (push_bit 15 1) < qsize q"
    and "1 \<le> d" "d \<le> unat (qsize q)" "d \<le> unat (used_total q - signalled_total q)"
    and "(lap_pos (off_wrap AND NOT (push_bit 15 1)) (drop_bit 15 off_wrap \<noteq> 0) (qsize q) + d) mod (2 * unat (qsize q)) =
      lap_pos (next_used q) (used_wrap q) (qsize q)"
  shows "needs_interrupt q mem = Ok (q\<lparr>signalled_total := used_total q\<rparr>, True)"
proof -
  let ?pos = "off_wrap AND NOT (push_bit 15 1)" and ?wrap = "drop_bit 15 off_wrap \<noteq> 0"
  let ?behind = "if (next_used q - ?pos) mod qsize q = 0 \<and> ?wrap \<noteq> used_wrap q then qsize q else (next_used q - ?pos) mod qsize q"
  have sz: "qsize q \<noteq> 0" using assms(3) by auto
  have "unat ?behind = d"
    by (rule packed_behind [OF assms(2,3,6,7,8,10)])
  then have "need_event (used_total q - ?behind) (used_total q) (signalled_total q)"
    using assms(7,9) by (simp only: need_event_behind)
  moreover have "EVENT_DESC \<noteq> EVENT_DISABLE" by (simp add: EVENT_DESC_def EVENT_DISABLE_def)
  ultimately show ?thesis
    using assms(1,4,5) sz by (simp add: needs_interrupt_def needs_interrupt_packed_def Let_def cong: if_cong)
qed

section \<open>Asking the driver to kick\<close>

text \<open>The device skips a write of the event index it believes is already there; that is right as long
  as nobody else writes the field.\<close>

definition event_coherent :: "virtqueue \<Rightarrow> guest_memory \<Rightarrow> bool" where
  "event_coherent q mem \<longleftrightarrow>
     (\<forall>w. published_event q = Some w \<longrightarrow> read_u16 mem (avail_event_addr q) = Ok w)"

lemma publish_avail_event_reads:
  assumes "event_coherent q mem" "\<exists>v. read_u16 mem (avail_event_addr q) = Ok v"
  shows "read_u16 (snd (publish_avail_event q mem)) (avail_event_addr q) =
      Ok (if suppressed q then next_avail q + 0x8000 else next_avail q)"
    and "event_coherent (fst (publish_avail_event q mem)) (snd (publish_avail_event q mem))"
proof -
  let ?w = "if suppressed q then next_avail q + 0x8000 else next_avail q" and ?a = "avail_event_addr q"
  have w: "read_u16 (gm.store_all mem [(?a, to_le_bytes v)]) ?a = Ok v" for v :: u16
    by (rule read_u16_after) (use assms(2) in simp_all)
  show 1: "read_u16 (snd (publish_avail_event q mem)) ?a = Ok ?w"
    using assms(1) w [of "next_avail q"] w [of "next_avail q + 0x8000"]
    by (cases "suppressed q") (simp_all add: publish_avail_event_def Let_def event_coherent_def write_u16_store gm.store_all_simps)
  have "published_event (fst (publish_avail_event q mem)) = Some ?w"
      "avail_event_addr (fst (publish_avail_event q mem)) = ?a"
    by (simp_all add: publish_avail_event_def Let_def avail_event_addr_def)
  with 1 show "event_coherent (fst (publish_avail_event q mem)) (snd (publish_avail_event q mem))"
    by (simp add: event_coherent_def)
qed

lemma event_decides:
  "new \<noteq> (l :: u16) \<Longrightarrow> need_event l new l"
  "unat (new - l) \<le> 0x8000 \<Longrightarrow> \<not> need_event (l + 0x8000) new l"
  by (simp_all add: need_event_distance unat_gt_0)

text \<open>Asking to be kicked. With the event index on a split ring, once the device has called
  \<^verbatim>\<open>suppress_notifications\<close>, or \<^verbatim>\<open>arm_notifications\<close> after taking more chains, the field the driver
  tests makes it kick for the very next publication if the device is not suppressing, and not kick for
  any batch up to half the index space if it is; and the copy the device keeps of the field is right.\<close>

lemma kick_wanted_or_not:
  assumes "\<not> packed q" "event_idx q" "used_addr q \<noteq> 0"
    and "event_coherent q mem" "\<exists>v. read_u16 mem (avail_event_addr q) = Ok v"
    and "(q', mem') = suppress_notifications q mem on \<or> (q', mem') = arm_notifications q mem \<and> on = suppressed q"
  shows "\<exists>w. read_u16 mem' (avail_event_addr q) = Ok w \<and> event_coherent q' mem' \<and> suppressed q' = on \<and>
    (if on then \<forall>new. unat (new - next_avail q) \<le> 0x8000 \<longrightarrow> \<not> need_event w new (next_avail q)
     else \<forall>new. new \<noteq> next_avail q \<longrightarrow> need_event w new (next_avail q))"
proof -
  let ?q1 = "q\<lparr>suppressed := on\<rparr>"
  have e: "avail_event_addr ?q1 = avail_event_addr q" "event_coherent ?q1 mem"
    using assms(4) by (simp_all add: avail_event_addr_def event_coherent_def)
  have same: "suppressed q \<Longrightarrow> q\<lparr>suppressed := True\<rparr> = q" "\<not> suppressed q \<Longrightarrow> q\<lparr>suppressed := False\<rparr> = q"
    by (cases q; simp)+
  have "(q', mem') = publish_avail_event ?q1 mem"
    using assms(1-3,6) by (auto simp: suppress_notifications_def arm_notifications_def Let_def same)
  then have q': "q' = fst (publish_avail_event ?q1 mem)" "mem' = snd (publish_avail_event ?q1 mem)"
    by (metis fst_conv) (metis \<open>(q', mem') = publish_avail_event ?q1 mem\<close> snd_conv)
  have "suppressed q' = on"
    by (simp add: q' publish_avail_event_def Let_def)
  with publish_avail_event_reads [OF e(2)] assms(5) e(1) show ?thesis
    by (auto simp: q' event_decides)
qed

section \<open>The properties at work\<close>

definition demo_event_queue :: virtqueue where
  "demo_event_queue = demo_queue\<lparr>event_idx := True, next_used := 65534, signalled_used := 65534\<rparr>"

lemma demo_event_fields:
  "\<not> packed demo_event_queue" "event_idx demo_event_queue" "used_addr demo_event_queue \<noteq> 0"
  "signalled_used demo_event_queue = next_used demo_event_queue" "next_used demo_event_queue = 65534"
  "used_event_addr demo_event_queue = 4116" "avail_event_addr demo_event_queue = 12356"
  "published_event demo_event_queue = None" "next_avail demo_event_queue = 0" "\<not> suppressed demo_event_queue"
  by (simp_all add: demo_event_queue_def demo_queue_def vq_new_def used_event_addr_def avail_event_addr_def)

text \<open>The driver waits for index 0, which wraps past the end of the index space.\<close>

theorem driver_woken_exactly_once_witness:
  "\<exists>bs. interrupt_checks demo_event_queue (demo_memory 4096 []) [1, 3, 2] = Ok bs \<and> count_list bs True = 1"
proof -
  have r: "read_u16 (demo_memory 4096 []) (used_event_addr demo_event_queue) = Ok 0"
    by (simp add: demo_event_fields demo_memory_def put_span_def memory_eval)
  have "\<exists>k < sum_list [1, 3, 2]. (0 :: u16) = next_used demo_event_queue + of_nat k"
    by (rule exI [of _ 2]) (simp add: demo_event_fields)
  then show ?thesis
    using driver_woken_exactly_once [OF demo_event_fields(1,2) r demo_event_fields(4), of "[1, 3, 2]"] by simp
qed

definition demo_packed_event :: virtqueue where
  "demo_packed_event = demo_packed_queue\<lparr>used_wrap := False, used_total := 8\<rparr>"

text \<open>A whole ring completed in one batch; the driver waits on slot 0 of the lap before.\<close>

lemma packed_driver_woken_witness:
  "needs_interrupt demo_packed_event (demo_memory 8192 [0, 128, 2, 0]) =
     Ok (demo_packed_event\<lparr>signalled_total := 8\<rparr>, True)"
proof -
  have q: "packed demo_packed_event" "unat (qsize demo_packed_event) dvd 65536" "next_used demo_packed_event < qsize demo_packed_event"
      "avail_addr demo_packed_event = 8192" "qsize demo_packed_event = 8" "used_total demo_packed_event = 8"
      "signalled_total demo_packed_event = 0" "next_used demo_packed_event = 0" "\<not> used_wrap demo_packed_event"
    by (simp_all add: demo_packed_event_def demo_packed_queue_def vq_new_def)
  have r: "read_u16 (demo_memory 8192 [0, 128, 2, 0]) (avail_addr demo_packed_event + 2) = Ok EVENT_DESC"
      "read_u16 (demo_memory 8192 [0, 128, 2, 0]) (avail_addr demo_packed_event) = Ok 32768"
    by (simp_all add: q demo_memory_def put_span_def memory_eval EVENT_DESC_def)
  have "drop_bit 15 (32768 :: u16) = 1" by (simp add: drop_bit_eq_div)
  then show ?thesis
    using packed_driver_woken [OF q(1-3) r, of 8] by (simp add: q lap_pos_def)
qed

lemma kick_wanted_or_not_witness:
  "\<exists>w. read_u16 (snd (arm_notifications demo_event_queue (demo_memory 4096 []))) 12356 = Ok w \<and> need_event w 1 0"
proof -
  let ?qm = "arm_notifications demo_event_queue (demo_memory 4096 [])"
  have "event_coherent demo_event_queue (demo_memory 4096 [])" by (simp add: event_coherent_def demo_event_fields)
  moreover have "\<exists>v. read_u16 (demo_memory 4096 []) (avail_event_addr demo_event_queue) = Ok v"
    by (simp add: demo_event_fields demo_memory_def memory_eval)
  ultimately show ?thesis
    using kick_wanted_or_not [OF demo_event_fields(1-3), of "demo_memory 4096 []" "fst ?qm" "snd ?qm" False]
    by (auto simp: demo_event_fields)
qed

end
