(* ===== verification/Mmio_Fault.thy ===== *)
theory Mmio_Fault
  imports Lighter_Prelude
begin

text \<open>
  From a stage-2 abort to a device access: the syndrome of \<^verbatim>\<open>lighter-hv\<close> (\<^verbatim>\<open>Exception\<close>), its decoding in
  \<^verbatim>\<open>bus.rs\<close> (\<^verbatim>\<open>MmioFault::decode\<close>) and the value a load leaves in the guest's register
  (\<^verbatim>\<open>extend_loaded_value\<close>).
\<close>

record hv_exception =
  ex_syndrome :: u64
  ex_virtual_address :: u64
  ex_physical_address :: u64

definition exception_class :: "hv_exception \<Rightarrow> u8" where
  "exception_class e = ucast (drop_bit 26 (ex_syndrome e) AND 0x3f)"

definition exception_iss :: "hv_exception \<Rightarrow> u32" where
  "exception_iss e = ucast (ex_syndrome e AND 0x01ffffff)"

record mmio_fault =
  mf_address :: u64
  mf_size :: usize
  mf_is_write :: bool
  mf_reg :: u8
  mf_reg_is_64bit :: bool
  mf_sign_extend :: bool

datatype fault_error = NoSyndrome u64 | NotDeviceAccess u64 u8

definition fault_decode :: "hv_exception \<Rightarrow> (fault_error, mmio_fault) result" where
  "fault_decode e =
     (let iss = exception_iss e; address = ex_physical_address e; dfsc = ucast (iss AND 0x3f) :: u8 in
      if dfsc AND 0x3c \<noteq> 0x04 then Err (NotDeviceAccess address dfsc)
      else if drop_bit 24 iss AND 1 \<noteq> 1 then Err (NoSyndrome address)
      else
        let sas = drop_bit 22 iss AND 3 in
        Ok \<lparr>mf_address = address, mf_size = push_bit (unat sas) 1,
            mf_is_write = (drop_bit 6 iss AND 1 = 1), mf_reg = ucast (drop_bit 16 iss AND 0x1f),
            mf_reg_is_64bit = (drop_bit 15 iss AND 1 = 1), mf_sign_extend = (drop_bit 21 iss AND 1 = 1)\<rparr>)"

definition extend_loaded_value :: "mmio_fault \<Rightarrow> u64 \<Rightarrow> u64" where
  "extend_loaded_value f raw =
     (let bits = ucast (mf_size f * 8) :: u32 in
      if 64 \<le> bits then raw
      else
        let masked = raw AND (push_bit (unat bits) 1 - 1) in
        if \<not> mf_sign_extend f then masked
        else
          let shift = unat (64 - bits);
              signed = signed_drop_bit shift (push_bit shift masked) in
          if mf_reg_is_64bit f then signed else signed AND 0xffffffff)"

lemma mask_keeps: "n \<le> 64 \<Longrightarrow> raw AND (push_bit n 1 - 1) = take_bit n (raw :: u64)"
  by (simp add: take_bit_eq_mask mask_eq_decr_exp push_bit_eq_mult)

lemma low_mask: "(v :: u64) AND 0xffffffff = take_bit 32 v"
  by (simp add: take_bit_eq_mask mask_numeral)

lemma shift_up_down:
  assumes "0 < n" "n < 64"
  shows "signed_drop_bit (64 - n) (push_bit (64 - n) (take_bit n (raw :: u64))) = signed_take_bit (n - 1) raw"
proof (cases n)
  case (Suc k)
  with assms show ?thesis
    by (intro bit_word_eqI) (auto simp: bit_simps min_def not_less_eq_eq dest: le_antisym)
qed (use assms in simp)

lemma extend_loaded_value_bits:
  assumes "mf_size f = push_bit k 1" "k \<le> 3"
  shows "extend_loaded_value f raw =
    (if k = 3 then raw
     else if \<not> mf_sign_extend f then take_bit (8 * 2 ^ k) raw
     else if mf_reg_is_64bit f then signed_take_bit (8 * 2 ^ k - 1) raw
     else take_bit 32 (signed_take_bit (8 * 2 ^ k - 1) raw))"
proof -
  have "k = 0 \<or> k = 1 \<or> k = 2 \<or> k = 3" using assms(2) by auto
  then show ?thesis
    using assms(1) mask_keeps [of 8 raw] mask_keeps [of 16 raw] mask_keeps [of 32 raw]
      shift_up_down [of 8 raw] shift_up_down [of 16 raw] shift_up_down [of 32 raw]
    by (elim disjE) (simp_all add: extend_loaded_value_def Let_def low_mask)
qed

lemma dfsc_translation:
  assumes "unat (d :: u8) < 64"
  shows "d AND 0x3c = 4 \<longleftrightarrow> unat d \<in> {4..7}"
proof -
  have "list_all (\<lambda>n. ((of_nat n :: u8) AND 0x3c = 4) = (4 \<le> n \<and> n \<le> 7)) [0 ..< 64]"
    by code_simp
  then have "((of_nat (unat d) :: u8) AND 0x3c = 4) = (4 \<le> unat d \<and> unat d \<le> 7)"
    using assms by (simp only: list_all_iff set_upt) (erule bspec, simp)
  then show ?thesis by simp
qed

lemma and_below: "unat (v AND mask n) < 2 ^ n"
  using take_bit_nat_less_exp [of n "unat v"] by (simp add: take_bit_eq_mask [symmetric] unsigned_take_bit_eq)

lemma narrow_casts:
  fixes raw :: u64
  shows "take_bit 8 raw = ucast (ucast raw :: u8)" "take_bit 16 raw = ucast (ucast raw :: u16)"
    "take_bit 32 raw = ucast (ucast raw :: u32)"
    "signed_take_bit 7 raw = scast (ucast raw :: u8)" "signed_take_bit 15 raw = scast (ucast raw :: u16)"
    "signed_take_bit 31 raw = scast (ucast raw :: u32)"
  by (rule bit_word_eqI, auto simp: bit_simps min_def)+

lemma narrow_signed:
  fixes raw :: u64
  shows "(ucast (scast (ucast raw :: u8) :: u64) :: u32) = scast (ucast raw :: u8)"
    "(ucast (scast (ucast raw :: u16) :: u64) :: u32) = scast (ucast raw :: u16)"
  by (rule bit_word_eqI, auto simp: bit_simps min_def)+

lemma narrow_signed_whole: "(ucast (scast (ucast (raw :: u64) :: u32) :: u64) :: u32) = ucast raw"
proof (rule bit_word_eqI)
  fix n :: nat assume "n < LENGTH(32)"
  then consider "n < 31" | "n = 31" by (cases "n < 31") auto
  then show "bit (ucast (scast (ucast raw :: u32) :: u64) :: u32) n = bit (ucast raw :: u32) n"
    by cases (auto simp: bit_simps min_def)
qed

text \<open>What a load leaves in the register. For every access \<^verbatim>\<open>decode\<close> accepts, the width is 1, 2, 4
  or 8 bytes and the register one of 32; \<^verbatim>\<open>extend_loaded_value\<close> keeps exactly the accessed bytes of what
  the device returned and zero- or sign-extends them: to 64 bits for an X register, to 32 bits with a
  zero upper half for a W register. \<^verbatim>\<open>decode\<close> refuses exactly the aborts that are no translation fault
  and those without a syndrome.\<close>

lemma fault_decode_extend:
  "case fault_decode e of
     Ok f \<Rightarrow> unat (mf_reg f) < 32 \<and> mf_address f = ex_physical_address e \<and>
       (mf_size f = 1 \<and> extend_loaded_value f raw =
          (if \<not> mf_sign_extend f then ucast (ucast raw :: u8)
           else if mf_reg_is_64bit f then scast (ucast raw :: u8) else ucast (scast (ucast raw :: u8) :: u32)) \<or>
        mf_size f = 2 \<and> extend_loaded_value f raw =
          (if \<not> mf_sign_extend f then ucast (ucast raw :: u16)
           else if mf_reg_is_64bit f then scast (ucast raw :: u16) else ucast (scast (ucast raw :: u16) :: u32)) \<or>
        mf_size f = 4 \<and> extend_loaded_value f raw =
          (if \<not> mf_sign_extend f then ucast (ucast raw :: u32)
           else if mf_reg_is_64bit f then scast (ucast raw :: u32) else ucast (ucast raw :: u32)) \<or>
        mf_size f = 8 \<and> extend_loaded_value f raw = raw)
   | Err (NotDeviceAccess a d) \<Rightarrow> unat (exception_iss e AND 0x3f) \<notin> {4..7}
   | Err (NoSyndrome a) \<Rightarrow> unat (exception_iss e AND 0x3f) \<in> {4..7} \<and> \<not> bit (exception_iss e) 24
   | Panic \<Rightarrow> False"
proof -
  let ?i = "exception_iss e"
  have d: "unat (ucast (?i AND 0x3f) :: u8) = unat (?i AND 0x3f)" and lt: "unat (?i AND 0x3f) < 64"
    using and_below [of ?i 6] by (simp_all add: mask_numeral unsigned_ucast_eq take_bit_nat_eq_self)
  have tf: "(ucast (?i AND 0x3f) :: u8) AND 0x3c = 4 \<longleftrightarrow> unat (?i AND 0x3f) \<in> {4..7}"
    using dfsc_translation [of "ucast (?i AND 0x3f)"] d lt by simp
  have isv: "drop_bit 24 ?i AND 1 = 1 \<longleftrightarrow> bit ?i 24"
    by (simp add: and_one_eq bit_drop_bit_eq odd_iff_mod_2_eq_one bit_iff_odd_drop_bit)
  have reg: "unat (ucast (drop_bit 16 ?i AND 0x1f) :: u8) < 32"
    using and_below [of "drop_bit 16 ?i" 5] by (simp add: mask_numeral unsigned_ucast_eq take_bit_nat_eq_self)
  have sas: "unat (drop_bit 22 ?i AND 3) \<le> 3"
    using and_below [of "drop_bit 22 ?i" 2] by (simp add: mask_numeral)
  show ?thesis
  proof (cases "fault_decode e")
    case (Ok f)
    have f: "mf_size f = push_bit (unat (drop_bit 22 ?i AND 3)) 1" "unat (mf_reg f) < 32" "mf_address f = ex_physical_address e"
      using Ok reg by (auto simp: fault_decode_def Let_def split: if_splits)
    have "unat (drop_bit 22 ?i AND 3) \<in> {0, 1, 2, 3}" using sas by auto
    with extend_loaded_value_bits [OF f(1) sas, of raw] f show ?thesis
      by (auto simp: Ok narrow_casts narrow_signed narrow_signed_whole)
  next
    case (Err x)
    then show ?thesis using tf isv by (auto simp: fault_decode_def Let_def split: if_splits fault_error.splits)
  next
    case Panic
    then show ?thesis by (auto simp: fault_decode_def Let_def split: if_splits)
  qed
qed

end
