(* ===== verification/Interrupt_Line.thy ===== *)
theory Interrupt_Line
  imports Lighter_Prelude
begin

text \<open>
  The level-triggered interrupt line of \<^verbatim>\<open>bus.rs\<close> (\<^verbatim>\<open>InterruptLine\<close>): the operations as they run alone,
  and any number of threads that raise and acknowledge at once, one atomic access at a time. The wire
  is the level last given to \<^verbatim>\<open>IrqLine::set_level\<close>.
\<close>

section \<open>The operations\<close>

record interrupt_line =
  il_status :: u32
  il_level :: bool
  il_wire :: bool

definition line_new :: interrupt_line where
  "line_new = \<lparr>il_status = 0, il_level = False, il_wire = False\<rparr>"

definition line_sync :: "interrupt_line \<Rightarrow> interrupt_line" where
  "line_sync l =
     (let want = (il_status l \<noteq> 0) in
      if il_level l \<noteq> want then l\<lparr>il_wire := want, il_level := want\<rparr> else l)"

definition raise_line :: "interrupt_line \<Rightarrow> u32 \<Rightarrow> interrupt_line" where
  "raise_line l bits = line_sync (l\<lparr>il_status := il_status l OR bits\<rparr>)"

definition acknowledge_line :: "interrupt_line \<Rightarrow> u32 \<Rightarrow> interrupt_line" where
  "acknowledge_line l bits = line_sync (l\<lparr>il_status := il_status l AND NOT bits\<rparr>)"

definition line_settled :: "interrupt_line \<Rightarrow> bool" where
  "line_settled l \<longleftrightarrow> il_level l = (il_status l \<noteq> 0) \<and> il_wire l = il_level l"

lemma line_new_settled [simp]: "line_settled line_new"
  by (simp add: line_settled_def line_new_def)

lemma line_sync_settled: "il_wire l = il_level l \<Longrightarrow> line_settled (line_sync l)"
  by (simp add: line_settled_def line_sync_def Let_def)

lemma raise_line_settled [simp]: "line_settled l \<Longrightarrow> line_settled (raise_line l bits)"
  unfolding raise_line_def by (rule line_sync_settled) (simp add: line_settled_def)

lemma acknowledge_line_settled [simp]: "line_settled l \<Longrightarrow> line_settled (acknowledge_line l bits)"
  unfolding acknowledge_line_def by (rule line_sync_settled) (simp add: line_settled_def)

lemma line_status [simp]:
  "il_status (line_sync l) = il_status l"
  "il_status (raise_line l bits) = il_status l OR bits"
  "il_status (acknowledge_line l bits) = il_status l AND NOT bits"
  by (simp_all add: line_sync_def Let_def raise_line_def acknowledge_line_def)

section \<open>Threads\<close>

text \<open>Where a thread is in a call: its status change is done and \<^verbatim>\<open>sync\<close> waits for the lock; it holds the
  lock; it holds the lock and has loaded the status; it has driven the wire and not yet stored the
  level.\<close>

datatype line_pc = Idle | Waiting | Holding | Loaded bool | Driven bool

record line_state =
  ls_line :: interrupt_line
  ls_lock :: "nat option"
  ls_pc :: "nat \<Rightarrow> line_pc"

definition goes :: "line_state \<Rightarrow> nat \<Rightarrow> line_pc \<Rightarrow> interrupt_line \<Rightarrow> nat option \<Rightarrow> line_state" where
  "goes s t p l k = \<lparr>ls_line = l, ls_lock = k, ls_pc = (ls_pc s)(t := p)\<rparr>"

inductive line_step :: "line_state \<Rightarrow> line_state \<Rightarrow> bool" where
  fetch_or: "ls_pc s t = Idle \<Longrightarrow>
    line_step s (goes s t Waiting ((ls_line s)\<lparr>il_status := il_status (ls_line s) OR bits\<rparr>) (ls_lock s))"
| fetch_and: "ls_pc s t = Idle \<Longrightarrow>
    line_step s (goes s t Waiting ((ls_line s)\<lparr>il_status := il_status (ls_line s) AND NOT bits\<rparr>) (ls_lock s))"
| lock: "ls_pc s t = Waiting \<Longrightarrow> ls_lock s = None \<Longrightarrow> line_step s (goes s t Holding (ls_line s) (Some t))"
| load: "ls_pc s t = Holding \<Longrightarrow>
    line_step s (goes s t (Loaded (il_status (ls_line s) \<noteq> 0)) (ls_line s) (ls_lock s))"
| same: "ls_pc s t = Loaded want \<Longrightarrow> il_level (ls_line s) = want \<Longrightarrow> line_step s (goes s t Idle (ls_line s) None)"
| set_level: "ls_pc s t = Loaded want \<Longrightarrow> il_level (ls_line s) \<noteq> want \<Longrightarrow>
    line_step s (goes s t (Driven want) ((ls_line s)\<lparr>il_wire := want\<rparr>) (ls_lock s))"
| store: "ls_pc s t = Driven want \<Longrightarrow>
    line_step s (goes s t Idle ((ls_line s)\<lparr>il_level := want\<rparr>) None)"

definition line_start :: line_state where
  "line_start = \<lparr>ls_line = line_new, ls_lock = None, ls_pc = (\<lambda>_. Idle)\<rparr>"

definition holds_lock :: "line_pc \<Rightarrow> bool" where
  "holds_lock p \<longleftrightarrow> p \<noteq> Idle \<and> p \<noteq> Waiting"

definition holder_pc :: "line_state \<Rightarrow> line_pc" where
  "holder_pc s = (case ls_lock s of None \<Rightarrow> Idle | Some t \<Rightarrow> ls_pc s t)"

text \<open>What the lock holder is about to leave behind is right unless somebody is still on the way in.\<close>

definition about_right :: "line_pc \<Rightarrow> bool \<Rightarrow> bool \<Rightarrow> bool" where
  "about_right p level up = (case p of Holding \<Rightarrow> True | Loaded w \<Rightarrow> w = up | Driven w \<Rightarrow> w = up | _ \<Rightarrow> level = up)"

definition line_inv :: "line_state \<Rightarrow> bool" where
  "line_inv s \<longleftrightarrow>
     (\<forall>t. holds_lock (ls_pc s t) \<longleftrightarrow> ls_lock s = Some t) \<and>
     il_wire (ls_line s) = (case holder_pc s of Driven w \<Rightarrow> w | _ \<Rightarrow> il_level (ls_line s)) \<and>
     ((\<forall>t. ls_pc s t \<noteq> Waiting) \<longrightarrow> about_right (holder_pc s) (il_level (ls_line s)) (il_status (ls_line s) \<noteq> 0))"

lemma holder_other: "line_inv s \<Longrightarrow> ls_pc s t = Idle \<or> ls_pc s t = Waiting \<Longrightarrow> ls_lock s \<noteq> Some t"
  by (force simp: line_inv_def holds_lock_def)

lemma holder_self: "line_inv s \<Longrightarrow> holds_lock (ls_pc s t) \<Longrightarrow> ls_lock s = Some t"
  by (simp add: line_inv_def)

lemma goes_simps [simp]:
  "ls_line (goes s t p l k) = l" "ls_lock (goes s t p l k) = k" "ls_pc (goes s t p l k) u = (if u = t then p else ls_pc s u)"
  "holder_pc (goes s t p l None) = Idle" "holder_pc (goes s t p l (Some t)) = p"
  by (simp_all add: goes_def holder_pc_def)

lemma holds_lock_simps [simp]:
  "\<not> holds_lock Idle" "\<not> holds_lock Waiting" "holds_lock Holding" "holds_lock (Loaded w)" "holds_lock (Driven w)"
  by (simp_all add: holds_lock_def)

lemma line_inv_change:
  assumes "line_inv s" "ls_pc s t = Idle"
  shows "line_inv (goes s t Waiting ((ls_line s)\<lparr>il_status := v\<rparr>) (ls_lock s))"
proof -
  have o: "ls_lock s \<noteq> Some t" using holder_other [OF assms(1)] assms(2) by blast
  then have "holder_pc (goes s t Waiting l (ls_lock s)) = holder_pc s" for l
    by (auto simp: holder_pc_def split: option.splits)
  moreover have "holds_lock (if u = t then Waiting else ls_pc s u) \<longleftrightarrow> ls_lock s = Some u" for u
    using assms(1) o by (auto simp: line_inv_def)
  ultimately show ?thesis using assms(1) by (auto simp: line_inv_def cong: line_pc.case_cong)
qed

lemma line_inv_holder:
  assumes "line_inv s" "holds_lock (ls_pc s t)" "holds_lock p"
    and "il_wire l = (case p of Driven w \<Rightarrow> w | _ \<Rightarrow> il_level l)"
    and "(\<forall>u. ls_pc s u \<noteq> Waiting) \<Longrightarrow> about_right p (il_level l) (il_status l \<noteq> 0)"
  shows "line_inv (goes s t p l (ls_lock s))"
proof -
  have o: "ls_lock s = Some t" using holder_self [OF assms(1,2)] .
  have "holds_lock (if u = t then p else ls_pc s u) \<longleftrightarrow> ls_lock s = Some u" for u
    using assms(1,3) o by (auto simp: line_inv_def)
  moreover have "(\<forall>u. (if u = t then p else ls_pc s u) \<noteq> Waiting) \<Longrightarrow> \<forall>u. ls_pc s u \<noteq> Waiting"
    using assms(2) holds_lock_simps(2) by metis
  ultimately show ?thesis using assms(4,5) o by (simp add: line_inv_def cong: line_pc.case_cong)
qed

lemma line_inv_unlock:
  assumes "line_inv s" "holds_lock (ls_pc s t)" "il_wire l = il_level l"
    and "(\<forall>u. ls_pc s u \<noteq> Waiting) \<Longrightarrow> il_level l = (il_status l \<noteq> 0)"
  shows "line_inv (goes s t Idle l None)"
proof -
  have o: "ls_lock s = Some t" using holder_self [OF assms(1,2)] .
  have "\<not> holds_lock (if u = t then Idle else ls_pc s u)" for u
    using assms(1) o by (auto simp: line_inv_def)
  moreover have "(\<forall>u. (if u = t then Idle else ls_pc s u) \<noteq> Waiting) \<Longrightarrow> \<forall>u. ls_pc s u \<noteq> Waiting"
    using assms(2) holds_lock_simps(2) by metis
  ultimately show ?thesis using assms(3,4) by (simp add: line_inv_def about_right_def)
qed

lemma line_inv_at:
  assumes "line_inv s" "ls_pc s t = p" "holds_lock p"
  shows "il_wire (ls_line s) = (case p of Driven w \<Rightarrow> w | _ \<Rightarrow> il_level (ls_line s))"
    and "\<forall>u. ls_pc s u \<noteq> Waiting \<Longrightarrow> about_right p (il_level (ls_line s)) (il_status (ls_line s) \<noteq> 0)"
  using assms holder_self [OF assms(1), of t] by (simp_all add: line_inv_def holder_pc_def)

lemma line_inv_step:
  assumes inv: "line_inv s" and "line_step s s'"
  shows "line_inv s'"
  using assms(2)
proof cases
  case (lock t)
  have "holds_lock (if u = t then Holding else ls_pc s u) \<longleftrightarrow> Some t = Some u" for u
    using inv lock(3) by (auto simp: line_inv_def)
  then show ?thesis
    using inv lock by (simp add: line_inv_def about_right_def holder_pc_def)
next
  case (load t)
  then show ?thesis
    using line_inv_at [OF inv load(2)] by (auto intro!: line_inv_holder [OF inv] simp: about_right_def)
next
  case (same t want)
  then show ?thesis
    using line_inv_at [OF inv same(2)] by (auto intro!: line_inv_unlock [OF inv] simp: about_right_def)
next
  case (set_level t want)
  then show ?thesis
    using line_inv_at [OF inv set_level(2)] by (auto intro!: line_inv_holder [OF inv] simp: about_right_def)
next
  case (store t want)
  then show ?thesis
    using line_inv_at [OF inv store(2)] by (auto intro!: line_inv_unlock [OF inv] simp: about_right_def)
qed (use line_inv_change [OF inv] in auto)

lemma line_inv_reachable: "line_step\<^sup>*\<^sup>* line_start s \<Longrightarrow> line_inv s"
proof (induction rule: rtranclp_induct)
  case base
  show ?case by (simp add: line_inv_def holder_pc_def about_right_def line_start_def line_new_def)
next
  case (step s s')
  then show ?case using line_inv_step by blast
qed

text \<open>C6: The line ends up matching the status. However many device threads raise bits and however many
  vCPUs acknowledge them, and however their atomic accesses interleave, whenever no call is under way
  the wire is high exactly when the status word is non-zero. And no call waits forever on the lock:
  while some call is under way, one of them can take its next step.\<close>

theorem line_follows_status:
  assumes "line_step\<^sup>*\<^sup>* line_start s"
  shows "((\<forall>t. ls_pc s t = Idle) \<longrightarrow> line_settled (ls_line s)) \<and>
    (\<forall>t. ls_pc s t \<noteq> Idle \<longrightarrow> (\<exists>u s'. ls_pc s u \<noteq> Idle \<and> ls_pc s' u \<noteq> ls_pc s u \<and> line_step s s'))"
proof (intro conjI impI allI)
  have inv: "line_inv s" by (rule line_inv_reachable [OF assms])
  show "line_settled (ls_line s)" if idle: "\<forall>t. ls_pc s t = Idle"
  proof -
    have "ls_lock s = None"
      using inv idle by (cases "ls_lock s") (auto simp: line_inv_def)
    then show ?thesis using inv idle by (simp add: line_inv_def line_settled_def holder_pc_def about_right_def)
  qed
  have go: "\<exists>s'. ls_pc s' u \<noteq> ls_pc s u \<and> line_step s s'"
    if "ls_pc s u \<noteq> Idle" "ls_pc s u = Waiting \<Longrightarrow> ls_lock s = None" for u
  proof (cases "ls_pc s u")
    case Waiting
    with that(2) line_step.lock [of s u] show ?thesis by (intro exI [of _ "goes s u Holding (ls_line s) (Some u)"]) simp
  next
    case Holding
    with line_step.load [of s u] show ?thesis by (intro exI conjI) (auto simp: Holding)
  next
    case (Loaded w)
    then show ?thesis
      using line_step.same [of s u w] line_step.set_level [of s u w] by (cases "il_level (ls_line s) = w") force+
  next
    case (Driven w)
    with line_step.store [of s u w] show ?thesis by (intro exI conjI) (auto simp: Driven)
  qed (use that in simp)
  fix t assume t: "ls_pc s t \<noteq> Idle"
  show "\<exists>u s'. ls_pc s u \<noteq> Idle \<and> ls_pc s' u \<noteq> ls_pc s u \<and> line_step s s'"
  proof (cases "ls_lock s")
    case None
    with t go [of t] show ?thesis by blast
  next
    case (Some u)
    then have "holds_lock (ls_pc s u)" using inv by (simp add: line_inv_def)
    then show ?thesis using go [of u] by (metis holds_lock_def)
  qed
qed


text \<open>One thread raises bit 0, all the way through.\<close>

lemma line_raised:
  "\<exists>s. line_step\<^sup>*\<^sup>* line_start s \<and> (\<forall>t. ls_pc s t = Idle) \<and> il_status (ls_line s) = 1"
proof -
  let ?l = "line_new\<lparr>il_status := 1\<rparr>"
  define s1 where "s1 = goes line_start 0 Waiting ?l None"
  define s2 where "s2 = goes s1 0 Holding ?l (Some 0)"
  define s3 where "s3 = goes s2 0 (Loaded True) ?l (Some 0)"
  define s4 where "s4 = goes s3 0 (Driven True) (?l\<lparr>il_wire := True\<rparr>) (Some 0)"
  define s5 where "s5 = goes s4 0 Idle (?l\<lparr>il_wire := True, il_level := True\<rparr>) None"
  have 1: "line_step line_start s1"
    using line_step.fetch_or [of line_start 0 1] by (simp add: s1_def line_start_def line_new_def)
  have 2: "line_step s1 s2"
    using line_step.lock [of s1 0] by (simp add: s2_def s1_def)
  have 3: "line_step s2 s3"
    using line_step.load [of s2 0] by (simp add: s3_def s2_def)
  have 4: "line_step s3 s4"
    using line_step.set_level [of s3 0 True] by (simp add: s4_def s3_def line_new_def)
  have 5: "line_step s4 s5"
    using line_step.store [of s4 0 True] by (simp add: s5_def s4_def)
  have "ls_pc s5 t = Idle" for t
    by (simp add: s5_def s4_def s3_def s2_def s1_def) (simp add: line_start_def)
  moreover have "il_status (ls_line s5) = 1" by (simp add: s5_def)
  moreover have "line_step\<^sup>*\<^sup>* line_start s5"
    using 1 2 3 4 5 by (meson rtranclp.rtrancl_into_rtrancl rtranclp.rtrancl_refl)
  ultimately show ?thesis by blast
qed

theorem line_follows_status_witness:
  "\<exists>s. line_step\<^sup>*\<^sup>* line_start s \<and> il_status (ls_line s) = 1 \<and> il_wire (ls_line s)"
proof -
  obtain s where s: "line_step\<^sup>*\<^sup>* line_start s" "\<forall>t. ls_pc s t = Idle" "il_status (ls_line s) = 1"
    using line_raised by blast
  with line_follows_status [OF s(1)] have "line_settled (ls_line s)" by blast
  with s show ?thesis by (auto simp: line_settled_def)
qed

end
