(* ===== verification/Mmio_Bus.thy ===== *)
theory Mmio_Bus
  imports Mmio_Fault Interrupt_Line Guest_Memory
begin

text \<open>
  The bus of \<^verbatim>\<open>bus.rs\<close> (\<^verbatim>\<open>MmioBus\<close>): windows, the devices behind them, and the two interrupt registers
  served without the device's lock. A device is a record of the operations of the \<^verbatim>\<open>MmioDevice\<close> trait;
  \<open>'m\<close> is what all devices share (guest memory), \<open>'d\<close> the state behind one device's mutex.
\<close>

section \<open>Windows\<close>

record window =
  w_base :: u64
  w_size :: u64

definition window_end :: "window \<Rightarrow> u64" where
  "window_end w = w_base w + w_size w"

definition window_contains :: "window \<Rightarrow> u64 \<Rightarrow> bool" where
  "window_contains w a \<longleftrightarrow> w_base w \<le> a \<and> a < w_base w + w_size w"

section \<open>The bus\<close>

record ('m, 'd) mmio_device =
  dev_read :: "'m \<Rightarrow> 'd \<Rightarrow> u64 \<Rightarrow> nat \<Rightarrow> 'd \<times> bytes"
  dev_write :: "'m \<Rightarrow> 'd \<Rightarrow> u64 \<Rightarrow> bytes \<Rightarrow> (memory_error, 'm \<times> 'd) run"
  dev_lockfree :: "'d \<Rightarrow> (u64 \<times> u64) option"
  dev_line :: "'d \<Rightarrow> interrupt_line"
  dev_set_line :: "'d \<Rightarrow> interrupt_line \<Rightarrow> 'd"

record 'd bus_entry =
  be_window :: window
  be_device :: 'd
  be_interrupt :: "(u64 \<times> u64) option"

datatype bus_error = BusOverlap u64 u64

definition bus_register :: "('m, 'd) mmio_device \<Rightarrow> 'd bus_entry list \<Rightarrow> window \<Rightarrow> 'd \<Rightarrow> (bus_error, 'd bus_entry list) result" where
  "bus_register ops es w d =
     (if \<exists>e \<in> set es. w_base w < window_end (be_window e) \<and> w_base (be_window e) < window_end w
      then Err (BusOverlap (w_base w) (window_end w))
      else Ok (sort_key (\<lambda>e. w_base (be_window e))
        (es @ [\<lparr>be_window = w, be_device = d, be_interrupt = dev_lockfree ops d\<rparr>])))"

definition bus_find :: "'d bus_entry list \<Rightarrow> u64 \<Rightarrow> nat option" where
  "bus_find es a = find_index (\<lambda>e. window_contains (be_window e) a) es"

definition bus_read :: "('m, 'd) mmio_device \<Rightarrow> 'm \<Rightarrow> 'd bus_entry list \<Rightarrow> u64 \<Rightarrow> nat \<Rightarrow> 'd bus_entry list \<times> bytes \<times> bool" where
  "bus_read ops m es a n =
     (case bus_find es a of
        None \<Rightarrow> (es, replicate n 0, False)
      | Some i \<Rightarrow>
          let e = es ! i; offset = a - w_base (be_window e) in
          if n = 4 \<and> map_option fst (be_interrupt e) = Some offset
          then (es, to_le_bytes (il_status (dev_line ops (be_device e))), True)
          else
            let (d, bs) = dev_read ops m (be_device e) offset n in
            (es[i := e\<lparr>be_device := d\<rparr>], bs, True))"

definition bus_write :: "('m, 'd) mmio_device \<Rightarrow> 'm \<Rightarrow> 'd bus_entry list \<Rightarrow> u64 \<Rightarrow> bytes \<Rightarrow> (memory_error, 'm \<times> 'd bus_entry list \<times> bool) run" where
  "bus_write ops m es a bs =
     (case bus_find es a of
        None \<Rightarrow> Some (Ok (m, es, False))
      | Some i \<Rightarrow>
          let e = es ! i; offset = a - w_base (be_window e); d = be_device e in
          if length bs = 4 \<and> map_option snd (be_interrupt e) = Some offset
          then Some (Ok (m, es[i := e\<lparr>be_device := dev_set_line ops d (acknowledge_line (dev_line ops d) (from_le_bytes bs))\<rparr>], True))
          else run_bind (dev_write ops m d offset bs) (\<lambda>(m', d').
            Some (Ok (m', es[i := e\<lparr>be_device := d'\<rparr>], True))))"

section \<open>The invariant\<close>

definition wf_window :: "window \<Rightarrow> bool" where
  "wf_window w \<longleftrightarrow> unat (w_base w) + unat (w_size w) < 2 ^ 64"

definition wf_bus :: "'d bus_entry list \<Rightarrow> bool" where
  "wf_bus es \<longleftrightarrow> (\<forall>e \<in> set es. wf_window (be_window e)) \<and> sorted (map (\<lambda>e. w_base (be_window e)) es) \<and>
     (\<forall>a. length (filter (\<lambda>e. window_contains (be_window e) a) es) \<le> 1)"

lemma window_contains_nat:
  "wf_window w \<Longrightarrow> window_contains w a \<longleftrightarrow> unat (w_base w) \<le> unat a \<and> unat a < unat (w_base w) + unat (w_size w)"
  using unat_add_no_wrap [of "w_base w" "w_size w"]
  by (simp add: window_contains_def wf_window_def word_le_nat_alt word_less_nat_alt)

lemma register_disjoint:
  assumes "wf_window w" "wf_window v" "\<not> (w_base w < window_end v \<and> w_base v < window_end w)"
  shows "\<not> (window_contains w a \<and> window_contains v a)"
proof -
  have "unat (window_end x) = unat (w_base x) + unat (w_size x)" if "wf_window x" for x
    using that unat_add_no_wrap [of "w_base x" "w_size x"] by (simp add: window_end_def wf_window_def)
  with assms show ?thesis by (auto simp: window_contains_nat word_less_nat_alt)
qed

lemma bus_register_wf:
  assumes "wf_bus es" "wf_window w" "bus_register ops es w d = Ok es'"
  shows "wf_bus es'"
proof -
  let ?new = "\<lparr>be_window = w, be_device = d, be_interrupt = dev_lockfree ops d\<rparr>"
  have no: "\<forall>e \<in> set es. \<not> (w_base w < window_end (be_window e) \<and> w_base (be_window e) < window_end w)"
      and es': "es' = sort_key (\<lambda>e. w_base (be_window e)) (es @ [?new])"
    using assms(3) by (auto simp: bus_register_def split: if_splits)
  have "length (filter (\<lambda>e. window_contains (be_window e) a) (es @ [?new])) \<le> 1" for a
  proof (cases "window_contains w a")
    case True
    have "\<not> window_contains (be_window e) a" if "e \<in> set es" for e
      using register_disjoint [OF assms(2), of "be_window e" a] no True assms(1) that by (auto simp: wf_bus_def)
    then have "filter (\<lambda>e. window_contains (be_window e) a) es = []" by (simp add: filter_empty_conv)
    then show ?thesis by simp
  next
    case False
    then show ?thesis using assms(1) by (simp add: wf_bus_def)
  qed
  moreover have "length (filter P es') = length (filter P (es @ [?new]))" for P
    unfolding es' by (rule sort_key_filter_length)
  ultimately show ?thesis
    using assms(1,2) by (simp add: wf_bus_def) (simp add: es')
qed

lemma wf_bus_windows:
  assumes "wf_bus es" "map be_window es' = map be_window es"
  shows "wf_bus es'"
proof -
  have n: "map (\<lambda>e. w_base (be_window e)) es' = map (\<lambda>e. w_base (be_window e)) es"
    using arg_cong [OF assms(2), of "map w_base"] by (simp add: comp_def)
  have "length (filter (\<lambda>e. window_contains (be_window e) a) es') = length (filter (\<lambda>e. window_contains (be_window e) a) es)" for a
    using arg_cong [OF assms(2), of "map (\<lambda>w. window_contains w a)"] by (intro filter_length_cong) (simp add: comp_def)
  moreover have "be_window ` set es' = be_window ` set es"
    using assms(2) by (metis set_map)
  then have "\<forall>e \<in> set es'. wf_window (be_window e)"
    using assms(1) by (auto simp: wf_bus_def) (metis image_eqI imageE)
  ultimately show ?thesis using assms(1) n by (simp add: wf_bus_def)
qed

lemma bus_find_iff:
  assumes "wf_bus es"
  shows "bus_find es a = Some i \<longleftrightarrow> i < length es \<and> window_contains (be_window (es ! i)) a"
proof
  show "bus_find es a = Some i \<Longrightarrow> i < length es \<and> window_contains (be_window (es ! i)) a"
    by (auto simp: bus_find_def dest: find_index_Some)
  assume i: "i < length es \<and> window_contains (be_window (es ! i)) a"
  then obtain j where j: "bus_find es a = Some j"
    by (cases "bus_find es a") (auto simp: bus_find_def)
  then have "j < length es" "window_contains (be_window (es ! j)) a"
    by (auto simp: bus_find_def dest: find_index_Some)
  with i assms have "i = j"
    by (intro one_in_filter [of "\<lambda>e. window_contains (be_window e) a" es]) (simp_all add: wf_bus_def)
  with j show "bus_find es a = Some i" by simp
qed

lemma bus_find_None: "bus_find es a = None \<longleftrightarrow> (\<forall>e \<in> set es. \<not> window_contains (be_window e) a)"
  by (simp add: bus_find_def)


section \<open>The lock-free registers\<close>

text \<open>The bus as it would be if every access took the device's lock.\<close>

definition bus_read_locked :: "('m, 'd) mmio_device \<Rightarrow> 'm \<Rightarrow> 'd bus_entry list \<Rightarrow> u64 \<Rightarrow> nat \<Rightarrow> 'd bus_entry list \<times> bytes \<times> bool" where
  "bus_read_locked ops m es a n =
     (case bus_find es a of
        None \<Rightarrow> (es, replicate n 0, False)
      | Some i \<Rightarrow>
          let e = es ! i; (d, bs) = dev_read ops m (be_device e) (a - w_base (be_window e)) n in
          (es[i := e\<lparr>be_device := d\<rparr>], bs, True))"

definition bus_write_locked :: "('m, 'd) mmio_device \<Rightarrow> 'm \<Rightarrow> 'd bus_entry list \<Rightarrow> u64 \<Rightarrow> bytes \<Rightarrow> (memory_error, 'm \<times> 'd bus_entry list \<times> bool) run" where
  "bus_write_locked ops m es a bs =
     (case bus_find es a of
        None \<Rightarrow> Some (Ok (m, es, False))
      | Some i \<Rightarrow>
          let e = es ! i in
          run_bind (dev_write ops m (be_device e) (a - w_base (be_window e)) bs) (\<lambda>(m', d').
            Some (Ok (m', es[i := e\<lparr>be_device := d'\<rparr>], True))))"

text \<open>What a device promises when it hands the bus its status word: its own registers say the same.\<close>

locale lockfree_device =
  fixes ops :: "('m, 'd) mmio_device"
    and good :: "'d \<Rightarrow> bool"
  assumes status_agrees: "good d \<Longrightarrow> dev_lockfree ops d = Some (so, ao) \<Longrightarrow>
      dev_read ops m d so 4 = (d, to_le_bytes (il_status (dev_line ops d)))"
    and ack_agrees: "good d \<Longrightarrow> dev_lockfree ops d = Some (so, ao) \<Longrightarrow> length bs = 4 \<Longrightarrow>
      dev_write ops m d ao bs = Some (Ok (m, dev_set_line ops d (acknowledge_line (dev_line ops d) (from_le_bytes bs))))"
begin

definition entry_good :: "'d bus_entry \<Rightarrow> bool" where
  "entry_good e \<longleftrightarrow> good (be_device e) \<and> be_interrupt e = dev_lockfree ops (be_device e)"

lemma read_agrees:
  assumes "\<forall>e \<in> set es. entry_good e"
  shows "bus_read ops m es a n = bus_read_locked ops m es a n"
proof (cases "bus_find es a")
  case (Some i)
  then have i: "i < length es" by (auto simp: bus_find_def dest: find_index_Some)
  then have g: "entry_good (es ! i)" using assms by simp
  show ?thesis
  proof (cases "n = 4 \<and> map_option fst (be_interrupt (es ! i)) = Some (a - w_base (be_window (es ! i)))")
    case True
    then obtain ao where "dev_lockfree ops (be_device (es ! i)) = Some (a - w_base (be_window (es ! i)), ao)"
      using g by (cases "dev_lockfree ops (be_device (es ! i))") (auto simp: entry_good_def)
    with True g i Some show ?thesis
      by (simp add: bus_read_def bus_read_locked_def Let_def status_agrees entry_good_def list_update_same_conv)
  next
    case False
    then show ?thesis by (simp only: bus_read_def bus_read_locked_def Some Let_def option.case if_False)
  qed
qed (simp add: bus_read_def bus_read_locked_def)

lemma write_agrees:
  assumes "\<forall>e \<in> set es. entry_good e"
  shows "bus_write ops m es a bs = bus_write_locked ops m es a bs"
proof (cases "bus_find es a")
  case (Some i)
  then have i: "i < length es" by (auto simp: bus_find_def dest: find_index_Some)
  then have g: "entry_good (es ! i)" using assms by simp
  show ?thesis
  proof (cases "length bs = 4 \<and> map_option snd (be_interrupt (es ! i)) = Some (a - w_base (be_window (es ! i)))")
    case True
    then obtain so where "dev_lockfree ops (be_device (es ! i)) = Some (so, a - w_base (be_window (es ! i)))"
      using g by (cases "dev_lockfree ops (be_device (es ! i))") (auto simp: entry_good_def)
    with True g Some show ?thesis
      by (simp add: bus_write_def bus_write_locked_def Let_def ack_agrees entry_good_def)
  next
    case False
    then show ?thesis by (simp only: bus_write_def bus_write_locked_def Some Let_def option.case if_False)
  qed
qed (simp add: bus_write_def bus_write_locked_def)

end

end
