(* ===== verification/Virtio_Mmio.thy ===== *)
theory Virtio_Mmio
  imports Virtio_Device Virtqueue_Events Mmio_Bus
begin

text \<open>
  The virtio-mmio transport of \<^verbatim>\<open>virtio/mmio.rs\<close>: the register file, feature negotiation, device status,
  queue notification with its re-check loop, and the lock-free mirror of each queue's cursor. The
  device is any record of the trait's operations. Two things come from outside: \<open>guest k\<close> is what the
  guest has stored to its memory between the \<open>k\<close>-th arming of the queues and the look at the rings that
  follows it, and \<open>withhold\<close> says whether the environment withholds the packed layout. The tracing and
  the counters are left out, and so is the kick observer, whose call changes nothing here.
\<close>

section \<open>Registers\<close>

definition MAGIC_VALUE :: u64 where "MAGIC_VALUE = 0x000"
definition VERSION :: u64 where "VERSION = 0x004"
definition DEVICE_ID :: u64 where "DEVICE_ID = 0x008"
definition VENDOR_ID :: u64 where "VENDOR_ID = 0x00c"
definition DEVICE_FEATURES :: u64 where "DEVICE_FEATURES = 0x010"
definition DEVICE_FEATURES_SEL :: u64 where "DEVICE_FEATURES_SEL = 0x014"
definition DRIVER_FEATURES :: u64 where "DRIVER_FEATURES = 0x020"
definition DRIVER_FEATURES_SEL :: u64 where "DRIVER_FEATURES_SEL = 0x024"
definition QUEUE_SEL :: u64 where "QUEUE_SEL = 0x030"
definition QUEUE_NUM_MAX :: u64 where "QUEUE_NUM_MAX = 0x034"
definition QUEUE_NUM :: u64 where "QUEUE_NUM = 0x038"
definition QUEUE_READY :: u64 where "QUEUE_READY = 0x044"
definition QUEUE_NOTIFY :: u64 where "QUEUE_NOTIFY = 0x050"
definition INTERRUPT_STATUS :: u64 where "INTERRUPT_STATUS = 0x060"
definition INTERRUPT_ACK :: u64 where "INTERRUPT_ACK = 0x064"
definition STATUS :: u64 where "STATUS = 0x070"
definition QUEUE_DESC_LOW :: u64 where "QUEUE_DESC_LOW = 0x080"
definition QUEUE_DESC_HIGH :: u64 where "QUEUE_DESC_HIGH = 0x084"
definition QUEUE_DRIVER_LOW :: u64 where "QUEUE_DRIVER_LOW = 0x090"
definition QUEUE_DRIVER_HIGH :: u64 where "QUEUE_DRIVER_HIGH = 0x094"
definition QUEUE_DEVICE_LOW :: u64 where "QUEUE_DEVICE_LOW = 0x0a0"
definition QUEUE_DEVICE_HIGH :: u64 where "QUEUE_DEVICE_HIGH = 0x0a4"
definition SHM_SEL :: u64 where "SHM_SEL = 0x0ac"
definition SHM_LEN_LOW :: u64 where "SHM_LEN_LOW = 0x0b0"
definition SHM_LEN_HIGH :: u64 where "SHM_LEN_HIGH = 0x0b4"
definition SHM_BASE_LOW :: u64 where "SHM_BASE_LOW = 0x0b8"
definition SHM_BASE_HIGH :: u64 where "SHM_BASE_HIGH = 0x0bc"
definition CONFIG_GENERATION :: u64 where "CONFIG_GENERATION = 0x0fc"
definition CONFIG_SPACE :: u64 where "CONFIG_SPACE = 0x100"

lemmas register_defs = MAGIC_VALUE_def VERSION_def DEVICE_ID_def VENDOR_ID_def DEVICE_FEATURES_def
  DEVICE_FEATURES_SEL_def DRIVER_FEATURES_def DRIVER_FEATURES_SEL_def QUEUE_SEL_def QUEUE_NUM_MAX_def
  QUEUE_NUM_def QUEUE_READY_def QUEUE_NOTIFY_def INTERRUPT_STATUS_def INTERRUPT_ACK_def STATUS_def
  QUEUE_DESC_LOW_def QUEUE_DESC_HIGH_def QUEUE_DRIVER_LOW_def QUEUE_DRIVER_HIGH_def QUEUE_DEVICE_LOW_def
  QUEUE_DEVICE_HIGH_def SHM_SEL_def SHM_LEN_LOW_def SHM_LEN_HIGH_def SHM_BASE_LOW_def SHM_BASE_HIGH_def
  CONFIG_GENERATION_def CONFIG_SPACE_def

definition VIRTIO_MMIO_MAGIC :: u32 where "VIRTIO_MMIO_MAGIC = 0x74726976"
definition VIRTIO_MMIO_VERSION :: u32 where "VIRTIO_MMIO_VERSION = 2"
definition LIGHTER_VENDOR_ID :: u32 where "LIGHTER_VENDOR_ID = 0x4c474854"
definition INT_VRING :: u32 where "INT_VRING = 1"
definition INT_CONFIG :: u32 where "INT_CONFIG = 2"

section \<open>State\<close>

record queue_signal =
  sg_ready :: bool
  sg_ring_addr :: u64
  sg_next_avail :: u16
  sg_packed :: bool
  sg_avail_wrap :: bool

definition signal_default :: queue_signal where
  "signal_default = \<lparr>sg_ready = False, sg_ring_addr = 0, sg_next_avail = 0, sg_packed = False, sg_avail_wrap = False\<rparr>"

definition signal_has_work :: "queue_signal \<Rightarrow> guest_memory \<Rightarrow> bool" where
  "signal_has_work sg mem =
     (if \<not> sg_ready sg then False
      else if sg_packed sg
      then is_ok_and (read_u16 mem (sg_ring_addr sg + ucast (sg_next_avail sg) * 16 + 14)) (\<lambda>flags.
        let avail = flags AND push_bit 7 1 \<noteq> 0; used = flags AND push_bit 15 1 \<noteq> 0 in
        avail = sg_avail_wrap sg \<and> used \<noteq> avail)
      else is_ok_and (read_u16 mem (sg_ring_addr sg + 2)) (\<lambda>idx. idx \<noteq> sg_next_avail sg))"

definition signal_publish :: "virtqueue \<Rightarrow> queue_signal" where
  "signal_publish q =
     \<lparr>sg_ready = ready q, sg_ring_addr = (if packed q then desc_addr q else avail_addr q),
      sg_next_avail = next_avail q, sg_packed = packed q, sg_avail_wrap = avail_wrap q\<rparr>"

record 'd virtio_mmio =
  vm_device :: 'd
  vm_queues :: "virtqueue list"
  vm_device_features_sel :: u32
  vm_driver_features_sel :: u32
  vm_acked_features :: u64
  vm_queue_sel :: u32
  vm_shm_sel :: u32
  vm_shm :: "shm_region list"
  vm_status :: u32
  vm_line :: interrupt_line
  vm_config_generation :: u32
  vm_activated :: bool
  vm_early_kicks :: u64
  vm_signals :: "queue_signal list"

definition vm_new :: "'d virtio_device \<Rightarrow> 'd \<Rightarrow> 'd virtio_mmio" where
  "vm_new dev d =
     \<lparr>vm_device = d, vm_queues = map (\<lambda>q. vq_new (vd_queue_max_size_of dev d (of_nat q))) [0 ..< vd_queue_count dev d],
      vm_device_features_sel = 0, vm_driver_features_sel = 0, vm_acked_features = 0, vm_queue_sel = 0,
      vm_shm_sel = 0, vm_shm = vd_shm_regions dev d, vm_status = 0, vm_line = line_new, vm_config_generation = 0,
      vm_activated = False, vm_early_kicks = 0, vm_signals = replicate (vd_queue_count dev d) signal_default\<rparr>"

definition negotiated_features :: "'d virtio_device \<Rightarrow> 'd virtio_mmio \<Rightarrow> u64" where
  "negotiated_features dev v = vd_features dev (vm_device v) AND vm_acked_features v"

definition shm_selected :: "'d virtio_mmio \<Rightarrow> shm_region option" where
  "shm_selected v = List.find (\<lambda>r. ucast (shm_id r) = vm_shm_sel v) (vm_shm v)"

definition on_selected :: "(virtqueue \<Rightarrow> virtqueue) \<Rightarrow> 'd virtio_mmio \<Rightarrow> 'd virtio_mmio" where
  "on_selected f v =
     (let i = unat (vm_queue_sel v) in
      if i < length (vm_queues v) then v\<lparr>vm_queues := (vm_queues v)[i := f (vm_queues v ! i)]\<rparr> else v)"

definition publish_signals :: "'d virtio_mmio \<Rightarrow> 'd virtio_mmio" where
  "publish_signals v =
     v\<lparr>vm_signals := map (\<lambda>(s, q). signal_publish q) (zip (vm_signals v) (vm_queues v)) @ drop (length (vm_queues v)) (vm_signals v)\<rparr>"

definition vm_reset :: "'d virtio_device \<Rightarrow> 'd virtio_mmio \<Rightarrow> 'd virtio_mmio" where
  "vm_reset dev v =
     v\<lparr>vm_queues := map vq_reset (vm_queues v), vm_device := vd_reset dev (vm_device v), vm_status := 0,
       vm_acked_features := 0, vm_line := acknowledge_line (vm_line v) (- 1), vm_queue_sel := 0,
       vm_activated := False, vm_early_kicks := 0\<rparr>"

section \<open>Notification\<close>

fun arm_all :: "virtqueue list \<Rightarrow> guest_memory \<Rightarrow> virtqueue list \<times> guest_memory" where
  "arm_all [] mem = ([], mem)"
| "arm_all (q # qs) mem =
     (let (q', mem1) = arm_notifications q mem; (qs', mem2) = arm_all qs mem1 in (q' # qs', mem2))"

text \<open>The second look at every ring, once the queues are armed.\<close>

fun recheck :: "'d virtio_device \<Rightarrow> 'd \<Rightarrow> virtqueue list \<Rightarrow> guest_memory \<Rightarrow> serviced \<Rightarrow> bool \<Rightarrow> nat list \<Rightarrow>
    (memory_error, 'd \<times> virtqueue list \<times> guest_memory \<times> serviced \<times> bool) run" where
  "recheck dev d qs mem s moved [] = Some (Ok (d, qs, mem, s, moved))"
| "recheck dev d qs mem s moved (i # is) =
     (if \<not> has_work (qs ! i) mem then recheck dev d qs mem s moved is
      else run_bind (vd_notify dev d (of_nat i) qs mem) (\<lambda>(d', qs', mem', more).
        recheck dev d' qs' mem' (serviced_and s more)
          (moved \<or> next_avail (qs' ! i) \<noteq> next_avail (qs ! i)) is))"

partial_function (option) finish_loop ::
  "'d virtio_device \<Rightarrow> (nat \<Rightarrow> guest_memory \<Rightarrow> guest_memory) \<Rightarrow> nat \<Rightarrow> 'd virtio_mmio \<Rightarrow> guest_memory \<Rightarrow> serviced \<Rightarrow>
   (memory_error, 'd virtio_mmio \<times> guest_memory \<times> serviced) run" where
  "finish_loop dev guest k v mem s =
     (let v1 = publish_signals v; (qs, mem1) = arm_all (vm_queues v1) mem in
      run_bind (recheck dev (vm_device v1) qs (guest k mem1) s False [0 ..< length qs]) (\<lambda>(d', qs', mem', s', moved).
        let v2 = v1\<lparr>vm_device := d', vm_queues := qs'\<rparr> in
        if moved then finish_loop dev guest (Suc k) v2 mem' s' else Some (Ok (v2, mem', s'))))"

fun ask_queues :: "serviced \<Rightarrow> guest_memory \<Rightarrow> nat \<Rightarrow> virtqueue list \<Rightarrow> (memory_error, virtqueue list \<times> bool) result" where
  "ask_queues s mem i [] = Ok ([], False)"
| "ask_queues s mem i (q # qs) =
     (if serviced_contains s (of_nat i)
      then result_bind (needs_interrupt q mem) (\<lambda>(q', b).
        result_bind (ask_queues s mem (Suc i) qs) (\<lambda>(qs', wants). Ok (q' # qs', b \<or> wants)))
      else result_bind (ask_queues s mem (Suc i) qs) (\<lambda>(qs', wants). Ok (q # qs', wants)))"

definition finish_service ::
  "'d virtio_device \<Rightarrow> (nat \<Rightarrow> guest_memory \<Rightarrow> guest_memory) \<Rightarrow> 'd virtio_mmio \<Rightarrow> guest_memory \<Rightarrow> serviced \<Rightarrow>
   (memory_error, 'd virtio_mmio \<times> guest_memory) run" where
  "finish_service dev guest v mem s =
     run_bind (finish_loop dev guest 0 v mem s) (\<lambda>(v', mem', s').
       if \<not> serviced_any s' then Some (Ok (v', mem'))
       else run_bind (Some (ask_queues s' mem' 0 (vm_queues v'))) (\<lambda>(qs, wants).
         Some (Ok (v'\<lparr>vm_queues := qs, vm_line := (if wants then raise_line (vm_line v') INT_VRING else vm_line v')\<rparr>, mem'))))"

definition notify_queue ::
  "'d virtio_device \<Rightarrow> (nat \<Rightarrow> guest_memory \<Rightarrow> guest_memory) \<Rightarrow> 'd virtio_mmio \<Rightarrow> guest_memory \<Rightarrow> u16 \<Rightarrow>
   (memory_error, 'd virtio_mmio \<times> guest_memory) run" where
  "notify_queue dev guest v mem index =
     (if \<not> vm_activated v
      then Some (Ok (if index < 64 then v\<lparr>vm_early_kicks := vm_early_kicks v OR push_bit (unat index) 1\<rparr> else v, mem))
      else run_bind (vd_notify dev (vm_device v) index (vm_queues v) mem) (\<lambda>(d', qs', mem', s).
        finish_service dev guest (v\<lparr>vm_device := d', vm_queues := qs'\<rparr>) mem' s))"

fun notify_each ::
  "'d virtio_device \<Rightarrow> (nat \<Rightarrow> guest_memory \<Rightarrow> guest_memory) \<Rightarrow> 'd virtio_mmio \<Rightarrow> guest_memory \<Rightarrow> nat list \<Rightarrow>
   (memory_error, 'd virtio_mmio \<times> guest_memory) run" where
  "notify_each dev guest v mem [] = Some (Ok (v, mem))"
| "notify_each dev guest v mem (i # is) =
     run_bind (notify_queue dev guest v mem (of_nat i)) (\<lambda>(v', mem'). notify_each dev guest v' mem' is)"

definition set_status ::
  "'d virtio_device \<Rightarrow> (nat \<Rightarrow> guest_memory \<Rightarrow> guest_memory) \<Rightarrow> 'd virtio_mmio \<Rightarrow> guest_memory \<Rightarrow> u32 \<Rightarrow>
   (memory_error, 'd virtio_mmio \<times> guest_memory) run" where
  "set_status dev guest v mem val =
     (if val = 0 then Some (Ok (vm_reset dev v, mem))
      else
        let v1 = v\<lparr>vm_status := val\<rparr> in
        if val AND DRIVER_OK \<noteq> 0 \<and> \<not> vm_activated v1
        then notify_each dev guest
          (v1\<lparr>vm_activated := True, vm_device := vd_activate dev (vm_device v1), vm_early_kicks := 0\<rparr>) mem
          (filter (\<lambda>i. vm_early_kicks v1 AND push_bit i 1 \<noteq> 0) [0 ..< 64])
        else Some (Ok (v1, mem)))"

section \<open>The register file\<close>

definition read_register :: "bool \<Rightarrow> 'd virtio_device \<Rightarrow> 'd virtio_mmio \<Rightarrow> u64 \<Rightarrow> u32" where
  "read_register withhold dev v offset =
     (if CONFIG_SPACE \<le> offset then from_le_bytes (vd_config_read dev (vm_device v) (offset - CONFIG_SPACE) 4)
      else if offset = MAGIC_VALUE then VIRTIO_MMIO_MAGIC
      else if offset = VERSION then VIRTIO_MMIO_VERSION
      else if offset = DEVICE_ID then vd_type dev
      else if offset = VENDOR_ID then LIGHTER_VENDOR_ID
      else if offset = DEVICE_FEATURES
      then (let all = offered_features withhold (vd_features dev (vm_device v)) in
            if vm_device_features_sel v = 0 then ucast all else ucast (drop_bit 32 all))
      else if offset = QUEUE_NUM_MAX
      then (let i = unat (vm_queue_sel v) in if i < length (vm_queues v) then ucast (max_size (vm_queues v ! i)) else 0)
      else if offset = QUEUE_READY
      then (let i = unat (vm_queue_sel v) in if i < length (vm_queues v) then of_bool (ready (vm_queues v ! i)) else 0)
      else if offset = INTERRUPT_STATUS then il_status (vm_line v)
      else if offset = STATUS then vm_status v
      else if offset = CONFIG_GENERATION then vm_config_generation v
      else if offset = SHM_LEN_LOW then (case shm_selected v of None \<Rightarrow> - 1 | Some r \<Rightarrow> ucast (shm_len r))
      else if offset = SHM_LEN_HIGH then (case shm_selected v of None \<Rightarrow> - 1 | Some r \<Rightarrow> ucast (drop_bit 32 (shm_len r)))
      else if offset = SHM_BASE_LOW then (case shm_selected v of None \<Rightarrow> 0 | Some r \<Rightarrow> ucast (shm_base r))
      else if offset = SHM_BASE_HIGH then (case shm_selected v of None \<Rightarrow> 0 | Some r \<Rightarrow> ucast (drop_bit 32 (shm_base r)))
      else 0)"

definition addr_half :: "u64 \<Rightarrow> u32 \<Rightarrow> bool \<Rightarrow> u64" where
  "addr_half slot val high =
     (if high then (slot AND 0x00000000ffffffff) OR push_bit 32 (ucast val)
      else (slot AND 0xffffffff00000000) OR ucast val)"

text \<open>Acknowledging features. A shift of a \<^verbatim>\<open>u64\<close> uses the low six bits of the amount.\<close>

definition ack_driver_features :: "'d virtio_device \<Rightarrow> 'd virtio_mmio \<Rightarrow> u32 \<Rightarrow> 'd virtio_mmio" where
  "ack_driver_features dev v val =
     (let shifted = push_bit (unat (32 * (ucast (vm_driver_features_sel v) :: u64)) mod 64) (ucast val :: u64);
          acked = vm_acked_features v OR shifted;
          v1 = v\<lparr>vm_acked_features := acked, vm_device := vd_ack_features dev (vm_device v) acked\<rparr>;
          negotiated = negotiated_features dev v1;
          event = (negotiated AND RING_EVENT_IDX \<noteq> 0);
          pack = (negotiated AND RING_PACKED \<noteq> 0) in
      v1\<lparr>vm_queues := map (\<lambda>q. set_packed (set_event_idx q event) pack) (vm_queues v1)\<rparr>)"

definition write_register_inner ::
  "'d virtio_device \<Rightarrow> (nat \<Rightarrow> guest_memory \<Rightarrow> guest_memory) \<Rightarrow> 'd virtio_mmio \<Rightarrow> guest_memory \<Rightarrow> u64 \<Rightarrow> u32 \<Rightarrow>
   (memory_error, 'd virtio_mmio \<times> guest_memory) run" where
  "write_register_inner dev guest v mem offset val =
     (if offset = DEVICE_FEATURES_SEL then Some (Ok (v\<lparr>vm_device_features_sel := val\<rparr>, mem))
      else if offset = DRIVER_FEATURES_SEL then Some (Ok (v\<lparr>vm_driver_features_sel := val\<rparr>, mem))
      else if offset = DRIVER_FEATURES then Some (Ok (ack_driver_features dev v val, mem))
      else if offset = QUEUE_SEL then Some (Ok (v\<lparr>vm_queue_sel := val\<rparr>, mem))
      else if offset = QUEUE_NUM then Some (Ok (on_selected (\<lambda>q. set_size q (ucast val)) v, mem))
      else if offset = QUEUE_READY then Some (Ok (on_selected (\<lambda>q. fst (set_ready q (val = 1))) v, mem))
      else if offset = QUEUE_NOTIFY then notify_queue dev guest v mem (ucast val)
      else if offset = INTERRUPT_ACK then Some (Ok (v\<lparr>vm_line := acknowledge_line (vm_line v) val\<rparr>, mem))
      else if offset = STATUS then set_status dev guest v mem val
      else if offset = QUEUE_DESC_LOW then Some (Ok (on_selected (\<lambda>q. q\<lparr>desc_addr := addr_half (desc_addr q) val False\<rparr>) v, mem))
      else if offset = QUEUE_DESC_HIGH then Some (Ok (on_selected (\<lambda>q. q\<lparr>desc_addr := addr_half (desc_addr q) val True\<rparr>) v, mem))
      else if offset = QUEUE_DRIVER_LOW then Some (Ok (on_selected (\<lambda>q. q\<lparr>avail_addr := addr_half (avail_addr q) val False\<rparr>) v, mem))
      else if offset = QUEUE_DRIVER_HIGH then Some (Ok (on_selected (\<lambda>q. q\<lparr>avail_addr := addr_half (avail_addr q) val True\<rparr>) v, mem))
      else if offset = QUEUE_DEVICE_LOW then Some (Ok (on_selected (\<lambda>q. q\<lparr>used_addr := addr_half (used_addr q) val False\<rparr>) v, mem))
      else if offset = QUEUE_DEVICE_HIGH then Some (Ok (on_selected (\<lambda>q. q\<lparr>used_addr := addr_half (used_addr q) val True\<rparr>) v, mem))
      else if offset = SHM_SEL then Some (Ok (v\<lparr>vm_shm_sel := val\<rparr>, mem))
      else Some (Ok (v, mem)))"

definition write_register ::
  "'d virtio_device \<Rightarrow> (nat \<Rightarrow> guest_memory \<Rightarrow> guest_memory) \<Rightarrow> 'd virtio_mmio \<Rightarrow> guest_memory \<Rightarrow> u64 \<Rightarrow> u32 \<Rightarrow>
   (memory_error, 'd virtio_mmio \<times> guest_memory) run" where
  "write_register dev guest v mem offset val =
     (if CONFIG_SPACE \<le> offset
      then Some (Ok (v\<lparr>vm_device := vd_config_write dev (vm_device v) (offset - CONFIG_SPACE) (to_le_bytes val),
                       vm_config_generation := vm_config_generation v + 1\<rparr>, mem))
      else run_bind (write_register_inner dev guest v mem offset val) (\<lambda>(v', mem').
        Some (Ok (publish_signals v', mem'))))"

definition mmio_read :: "bool \<Rightarrow> 'd virtio_device \<Rightarrow> 'd virtio_mmio \<Rightarrow> u64 \<Rightarrow> nat \<Rightarrow> bytes" where
  "mmio_read withhold dev v offset n =
     (if CONFIG_SPACE \<le> offset then vd_config_read dev (vm_device v) (offset - CONFIG_SPACE) n
      else
        let bs = to_le_bytes (read_register withhold dev v (offset AND NOT 3)); shift = unat (offset AND 3) in
        map (\<lambda>i. if shift + i < length bs then bs ! (shift + i) else 0) [0 ..< n])"

definition mmio_write ::
  "'d virtio_device \<Rightarrow> (nat \<Rightarrow> guest_memory \<Rightarrow> guest_memory) \<Rightarrow> 'd virtio_mmio \<Rightarrow> guest_memory \<Rightarrow> u64 \<Rightarrow> bytes \<Rightarrow>
   (memory_error, 'd virtio_mmio \<times> guest_memory) run" where
  "mmio_write dev guest v mem offset bs =
     (if CONFIG_SPACE \<le> offset
      then Some (Ok (v\<lparr>vm_device := vd_config_write dev (vm_device v) (offset - CONFIG_SPACE) bs,
                       vm_config_generation := vm_config_generation v + 1\<rparr>, mem))
      else write_register dev guest v mem (offset AND NOT 3) (from_le_bytes (take 4 bs @ replicate (4 - length bs) 0)))"

section \<open>Host-side entry points\<close>

definition notify_config_change :: "'d virtio_mmio \<Rightarrow> 'd virtio_mmio" where
  "notify_config_change v =
     v\<lparr>vm_config_generation := vm_config_generation v + 1, vm_line := raise_line (vm_line v) INT_CONFIG\<rparr>"

definition vm_retry_deferred ::
  "'d virtio_device \<Rightarrow> (nat \<Rightarrow> guest_memory \<Rightarrow> guest_memory) \<Rightarrow> 'd virtio_mmio \<Rightarrow> guest_memory \<Rightarrow> nat \<Rightarrow>
   (memory_error, 'd virtio_mmio \<times> guest_memory) run" where
  "vm_retry_deferred dev guest v mem now =
     (if \<not> vm_activated v \<or> (case vd_retry_deadline dev (vm_device v) of None \<Rightarrow> True | Some deadline \<Rightarrow> now < deadline)
      then Some (Ok (v, mem))
      else run_bind (vd_retry_deferred dev (vm_device v) (vm_queues v) mem now) (\<lambda>(d', qs', mem', s).
        finish_service dev guest (v\<lparr>vm_device := d', vm_queues := qs'\<rparr>) mem' s))"

definition poll_queue ::
  "'d virtio_device \<Rightarrow> (nat \<Rightarrow> guest_memory \<Rightarrow> guest_memory) \<Rightarrow> 'd virtio_mmio \<Rightarrow> guest_memory \<Rightarrow> u16 \<Rightarrow>
   (memory_error, 'd virtio_mmio \<times> guest_memory \<times> bool) run" where
  "poll_queue dev guest v mem index =
     (if length (vm_queues v) \<le> unat index then Some (Ok (v, mem, False))
      else if \<not> has_work (vm_queues v ! unat index) mem then Some (Ok (v, mem, False))
      else run_bind (notify_queue dev guest v mem index) (\<lambda>(v', mem').
        Some (Ok (v', mem', vd_retry_deadline dev (vm_device v') = None))))"

definition vm_outstanding :: "'d virtio_mmio \<Rightarrow> guest_memory \<Rightarrow> u16 \<Rightarrow> u16" where
  "vm_outstanding v mem index =
     (if unat index < length (vm_queues v) then outstanding (vm_queues v ! unat index) mem else 0)"

definition vm_suppress_notifications :: "'d virtio_mmio \<Rightarrow> guest_memory \<Rightarrow> u16 \<Rightarrow> bool \<Rightarrow> 'd virtio_mmio \<times> guest_memory" where
  "vm_suppress_notifications v mem index suppress =
     (let i = unat index in
      if i < length (vm_queues v)
      then let (q, mem') = suppress_notifications (vm_queues v ! i) mem suppress in (v\<lparr>vm_queues := (vm_queues v)[i := q]\<rparr>, mem')
      else (v, mem))"

end
