(* ===== verification/Virtio_Mmio_Laws.thy ===== *)
theory Virtio_Mmio_Laws
  imports Virtio_Mmio
begin

text \<open>
  What the transport of \<^verbatim>\<open>virtio/mmio.rs\<close> guarantees for every device that keeps the laws of
  \<open>virtio_device_laws\<close>: the layout of every queue follows the negotiated features, the mirrors follow the
  queues, and the interrupt line follows its status, whatever the driver writes.
\<close>

section \<open>The mirror\<close>

lemma signal_has_work_publish: "signal_has_work (signal_publish q) mem = has_work q mem"
proof (cases "packed q")
  case True
  then show ?thesis
    by (cases "read_u16 mem (desc_addr q + (ucast (next_avail q) * 16 + 14))")
      (simp_all add: signal_has_work_def signal_publish_def has_work_def desc_at_def DESC_SIZE_def is_available_def
        desc_flag_defs Let_def add.assoc)
next
  case False
  then show ?thesis
    by (cases "read_u16 mem (avail_addr q + 2)") (simp_all add: signal_has_work_def signal_publish_def has_work_def avail_idx_def)
qed

definition mirrored :: "'d virtio_mmio \<Rightarrow> bool" where
  "mirrored v \<longleftrightarrow> vm_signals v = map signal_publish (vm_queues v)"

lemma publish_signals_mirrored:
  "length (vm_signals v) = length (vm_queues v) \<Longrightarrow> mirrored (publish_signals v)"
  by (simp add: mirrored_def publish_signals_def) (simp add: list_eq_iff_nth_eq)

lemma publish_signals_idem: "mirrored v \<Longrightarrow> publish_signals v = v"
  by (simp add: mirrored_def publish_signals_def) (simp add: list_eq_iff_nth_eq cong: virtio_mmio.fold_congs)

lemma publish_signals_fields [simp]:
  "vm_device (publish_signals v) = vm_device v" "vm_queues (publish_signals v) = vm_queues v"
  "vm_acked_features (publish_signals v) = vm_acked_features v" "vm_activated (publish_signals v) = vm_activated v"
  "vm_early_kicks (publish_signals v) = vm_early_kicks v" "vm_line (publish_signals v) = vm_line v"
  "length (vm_signals (publish_signals v)) = length (vm_signals v)"
  by (simp_all add: publish_signals_def)

section \<open>Servicing keeps the configuration\<close>

definition keeps :: "'d virtio_device \<Rightarrow> 'd virtio_mmio \<Rightarrow> 'd virtio_mmio \<Rightarrow> bool" where
  "keeps dev v v' \<longleftrightarrow> map queue_config (vm_queues v') = map queue_config (vm_queues v) \<and>
     vd_features dev (vm_device v') = vd_features dev (vm_device v) \<and>
     vm_acked_features v' = vm_acked_features v \<and> vm_activated v' = vm_activated v \<and>
     vm_early_kicks v' = vm_early_kicks v \<and> length (vm_signals v') = length (vm_signals v) \<and>
     (line_settled (vm_line v) \<longrightarrow> line_settled (vm_line v'))"

lemma keeps_refl [simp]: "keeps dev v v" by (simp add: keeps_def)

lemma keeps_trans: "keeps dev v v1 \<Longrightarrow> keeps dev v1 v2 \<Longrightarrow> keeps dev v v2" by (simp add: keeps_def)

lemma keeps_publish [simp]: "keeps dev v (publish_signals v)" by (simp add: keeps_def)

lemma arm_all_config: "map queue_config (fst (arm_all qs mem)) = map queue_config qs"
proof (induction qs arbitrary: mem)
  case (Cons q qs)
  obtain q' mem1 where a: "arm_notifications q mem = (q', mem1)" by fastforce
  obtain qs' mem2 where b: "arm_all qs mem1 = (qs', mem2)" by fastforce
  show ?case using Cons [of mem1] arm_config [of q mem] by (simp add: a b)
qed simp

lemma ask_queues_config:
  "ask_queues s mem i qs = Ok (qs', w) \<Longrightarrow> map queue_config qs' = map queue_config qs"
  by (induction qs arbitrary: i qs' w) (auto split: if_splits dest!: needs_interrupt_config)

context virtio_device_laws
begin

lemma recheck_keeps:
  "recheck dev d qs mem s moved is = Some (Ok (d', qs', mem', s', moved')) \<Longrightarrow>
     map queue_config qs' = map queue_config qs \<and> vd_features dev d' = vd_features dev d"
proof (induction "is" arbitrary: d qs mem s moved)
  case (Cons i "is")
  show ?case
  proof (cases "has_work (qs ! i) mem")
    case True
    then obtain d1 qs1 mem1 more where n: "vd_notify dev d (of_nat i) qs mem = Some (Ok (d1, qs1, mem1, more))"
        and r: "recheck dev d1 qs1 mem1 (serviced_and s more) (moved \<or> next_avail (qs1 ! i) \<noteq> next_avail (qs ! i)) is =
          Some (Ok (d', qs', mem', s', moved'))"
      using Cons.prems by auto
    from Cons.IH [OF r] show ?thesis
      using notify_keeps [OF n] notify_features [OF n] by simp
  qed (use Cons in simp)
qed simp

lemma finish_loop_keeps:
  assumes "finish_loop dev guest k v mem s = Some (Ok (v', mem', s'))"
  shows "keeps dev v v'"
proof -
  have "dev = dev \<longrightarrow> (\<forall>v1 mem1 s1. Ok (v', mem', s') = (Ok (v1, mem1, s1) :: (memory_error, _) result) \<longrightarrow> keeps dev v v1)"
  proof (rule finish_loop.raw_induct [where P = "\<lambda>dev0 guest k v mem s r. dev0 = dev \<longrightarrow>
      (\<forall>v1 mem1 s1. r = Ok (v1, mem1, s1) \<longrightarrow> keeps dev v v1)", OF _ assms], intro impI allI)
    fix loop dev0 guest k v mem s r v1 mem1 s1
    assume IH: "\<And>dev0 guest k v mem s r. loop dev0 guest k v mem s = Some r \<Longrightarrow>
        dev0 = dev \<longrightarrow> (\<forall>v1 mem1 s1. r = Ok (v1, mem1, s1) \<longrightarrow> keeps dev v v1)"
      and body: "(let v1 = publish_signals v; (qs, mem1) = arm_all (vm_queues v1) mem in
        run_bind (recheck dev0 (vm_device v1) qs (guest k mem1) s False [0 ..< length qs]) (\<lambda>(d', qs', mem', s', moved).
          let v2 = v1\<lparr>vm_device := d', vm_queues := qs'\<rparr> in
          if moved then loop dev0 guest (Suc k) v2 mem' s' else Some (Ok (v2, mem', s')))) = Some r"
      and d: "dev0 = dev" and r: "r = Ok (v1, mem1, s1)"
    obtain qs m1 where arm: "arm_all (vm_queues v) mem = (qs, m1)" by fastforce
    obtain d' qs' m' s' moved where rc: "recheck dev (vm_device v) qs (guest k m1) s False [0 ..< length qs] = Some (Ok (d', qs', m', s', moved))"
        and rest: "(if moved then loop dev0 guest (Suc k) ((publish_signals v)\<lparr>vm_device := d', vm_queues := qs'\<rparr>) m' s'
          else Some (Ok ((publish_signals v)\<lparr>vm_device := d', vm_queues := qs'\<rparr>, m', s'))) = Some (Ok (v1, mem1, s1))"
      using body r d by (auto simp: Let_def arm)
    have "map queue_config qs = map queue_config (vm_queues v)"
      using arm_all_config [of "vm_queues v" mem] by (simp add: arm)
    then have "keeps dev v ((publish_signals v)\<lparr>vm_device := d', vm_queues := qs'\<rparr>)"
      using recheck_keeps [OF rc] by (simp add: keeps_def)
    then show "keeps dev v v1"
      using rest IH d keeps_trans by (fastforce split: if_splits)
  qed
  then show ?thesis by simp
qed

end


section \<open>The transport's invariant\<close>

definition layout_agreed :: "'d virtio_device \<Rightarrow> 'd virtio_mmio \<Rightarrow> bool" where
  "layout_agreed dev v \<longleftrightarrow> (\<forall>q \<in> set (vm_queues v).
     packed q = (negotiated_features dev v AND RING_PACKED \<noteq> 0) \<and>
     event_idx q = (negotiated_features dev v AND RING_EVENT_IDX \<noteq> 0))"

definition base_inv :: "'d virtio_device \<Rightarrow> 'd virtio_mmio \<Rightarrow> bool" where
  "base_inv dev v \<longleftrightarrow> layout_agreed dev v \<and> line_settled (vm_line v) \<and>
     (vm_activated v \<longrightarrow> vm_early_kicks v = 0) \<and> length (vm_signals v) = length (vm_queues v)"

text \<open>Watching the mirror is watching the queue.\<close>

definition mirror_ok :: "'d virtio_mmio \<Rightarrow> bool" where
  "mirror_ok v \<longleftrightarrow> (\<forall>i < length (vm_queues v). \<forall>mem.
     signal_has_work (vm_signals v ! i) mem = has_work (vm_queues v ! i) mem)"

lemma mirrored_ok: "mirrored v \<Longrightarrow> mirror_ok v"
  by (simp add: mirrored_def mirror_ok_def signal_has_work_publish)

lemma layout_config:
  assumes "map queue_config qs' = map queue_config qs" "\<forall>q \<in> set qs. packed q = p \<and> event_idx q = e"
  shows "\<forall>q \<in> set qs'. packed q = p \<and> event_idx q = e"
proof
  fix q' assume "q' \<in> set qs'"
  then have "queue_config q' \<in> set (map queue_config qs)"
    using assms(1) by (metis image_eqI list.set_map)
  then obtain q where "q \<in> set qs" "queue_config q' = queue_config q" by auto
  with assms(2) show "packed q' = p \<and> event_idx q' = e" by (simp add: queue_config_eq)
qed

lemma keeps_base: "keeps dev v v' \<Longrightarrow> base_inv dev v \<Longrightarrow> base_inv dev v'"
proof -
  assume k: "keeps dev v v'" and b: "base_inv dev v"
  have n: "negotiated_features dev v' = negotiated_features dev v"
    using k by (simp add: keeps_def negotiated_features_def)
  have len: "length (vm_queues v') = length (vm_queues v)"
    using k map_eq_imp_length_eq unfolding keeps_def by blast
  have "layout_agreed dev v'"
  proof (unfold layout_agreed_def n, rule layout_config)
    show "map queue_config (vm_queues v') = map queue_config (vm_queues v)" using k by (simp add: keeps_def)
  qed (use b in \<open>unfold base_inv_def layout_agreed_def, blast\<close>)
  then show ?thesis using k b len by (simp add: base_inv_def keeps_def)
qed

lemma selected_base:
  assumes "base_inv dev v" "\<And>q. packed (f q) = packed q \<and> event_idx (f q) = event_idx q"
  shows "base_inv dev (on_selected f v)"
proof -
  have "q \<in> set ((vm_queues v)[i := f (vm_queues v ! i)]) \<Longrightarrow> i < length (vm_queues v) \<Longrightarrow>
      \<exists>r \<in> set (vm_queues v). packed q = packed r \<and> event_idx q = event_idx r" for q i
    using set_update_subset_insert [of "vm_queues v" i "f (vm_queues v ! i)"] assms(2) nth_mem by blast
  then show ?thesis
    using assms(1) by (fastforce simp: base_inv_def on_selected_def Let_def layout_agreed_def negotiated_features_def)
qed

lemma reset_base: "base_inv dev v \<Longrightarrow> base_inv dev (vm_reset dev v)"
  by (auto simp: base_inv_def vm_reset_def layout_agreed_def negotiated_features_def vq_reset_def vq_new_def)

lemma ack_base: "base_inv dev v \<Longrightarrow> base_inv dev (ack_driver_features dev v val)"
  by (auto simp: base_inv_def ack_driver_features_def Let_def layout_agreed_def negotiated_features_def
      set_packed_def set_event_idx_def)

context virtio_device_laws
begin

lemma finish_service_keeps:
  assumes "finish_service dev guest v mem s = Some (Ok (v', mem'))"
  shows "keeps dev v v'"
proof -
  obtain v1 mem1 s1 where l: "finish_loop dev guest 0 v mem s = Some (Ok (v1, mem1, s1))"
      and rest: "(if \<not> serviced_any s1 then Some (Ok (v1, mem1))
       else run_bind (Some (ask_queues s1 mem1 0 (vm_queues v1))) (\<lambda>(qs, wants).
         Some (Ok (v1\<lparr>vm_queues := qs, vm_line := (if wants then raise_line (vm_line v1) INT_VRING else vm_line v1)\<rparr>, mem1)))) = Some (Ok (v', mem'))"
    using assms by (auto simp: finish_service_def)
  have "keeps dev v1 v'"
    using rest ask_queues_config [of s1 mem1 0 "vm_queues v1"] by (auto simp: keeps_def split: if_splits)
  then show ?thesis using finish_loop_keeps [OF l] keeps_trans by blast
qed

lemma notify_queue_base:
  assumes "base_inv dev v" "notify_queue dev guest v mem index = Some (Ok (v', mem'))"
  shows "base_inv dev v'"
proof (cases "vm_activated v")
  case False
  with assms show ?thesis
    by (auto simp: notify_queue_def base_inv_def layout_agreed_def negotiated_features_def split: if_splits)
next
  case True
  then obtain d1 qs1 mem1 s where n: "vd_notify dev (vm_device v) index (vm_queues v) mem = Some (Ok (d1, qs1, mem1, s))"
      and f: "finish_service dev guest (v\<lparr>vm_device := d1, vm_queues := qs1\<rparr>) mem1 s = Some (Ok (v', mem'))"
    using assms(2) by (auto simp: notify_queue_def)
  have "keeps dev v (v\<lparr>vm_device := d1, vm_queues := qs1\<rparr>)"
    using notify_keeps [OF n] notify_features [OF n] by (simp add: keeps_def)
  then show ?thesis
    using finish_service_keeps [OF f] assms(1) keeps_base by blast
qed

lemma retry_deferred_base:
  assumes "base_inv dev v" "vm_retry_deferred dev guest v mem now = Some (Ok (v', mem'))"
  shows "base_inv dev v'"
proof (cases "v' = v")
  case False
  then obtain d1 qs1 mem1 s where r: "vd_retry_deferred dev (vm_device v) (vm_queues v) mem now = Some (Ok (d1, qs1, mem1, s))"
      and f: "finish_service dev guest (v\<lparr>vm_device := d1, vm_queues := qs1\<rparr>) mem1 s = Some (Ok (v', mem'))"
    using assms(2) by (auto simp: vm_retry_deferred_def split: if_splits option.splits)
  have "keeps dev v (v\<lparr>vm_device := d1, vm_queues := qs1\<rparr>)" using retry_keeps [OF r] by (simp add: keeps_def)
  then show ?thesis using finish_service_keeps [OF f] assms(1) keeps_base by blast
qed (use assms in simp)

lemma notify_each_base:
  "base_inv dev v \<Longrightarrow> notify_each dev guest v mem is = Some (Ok (v', mem')) \<Longrightarrow> base_inv dev v'"
  by (induction "is" arbitrary: v mem) (auto dest: notify_queue_base)

lemma set_status_base:
  assumes "base_inv dev v" "set_status dev guest v mem val = Some (Ok (v', mem'))"
  shows "base_inv dev v'"
proof -
  have "base_inv dev (v\<lparr>vm_status := val, vm_activated := True, vm_device := vd_activate dev (vm_device v), vm_early_kicks := 0\<rparr>)"
    using assms(1) by (simp add: base_inv_def layout_agreed_def negotiated_features_def steady_features)
  moreover have "base_inv dev (v\<lparr>vm_status := val\<rparr>)"
    using assms(1) by (simp add: base_inv_def layout_agreed_def negotiated_features_def)
  ultimately show ?thesis
    using assms reset_base notify_each_base by (auto simp: set_status_def Let_def split: if_splits)
qed

lemma write_register_base:
  assumes "base_inv dev v" "write_register_inner dev guest v mem offset val = Some (Ok (v', mem'))"
  shows "base_inv dev v'"
proof -
  have plain: "base_inv dev (v\<lparr>vm_device_features_sel := val\<rparr>)" "base_inv dev (v\<lparr>vm_driver_features_sel := val\<rparr>)"
      "base_inv dev (v\<lparr>vm_queue_sel := val\<rparr>)" "base_inv dev (v\<lparr>vm_shm_sel := val\<rparr>)"
      "base_inv dev (v\<lparr>vm_line := acknowledge_line (vm_line v) val\<rparr>)"
    using assms(1) by (simp_all add: base_inv_def layout_agreed_def negotiated_features_def)
  have sel: "base_inv dev (on_selected (\<lambda>q. set_size q n) v)" "base_inv dev (on_selected (\<lambda>q. fst (set_ready q r)) v)"
      "base_inv dev (on_selected (\<lambda>q. q\<lparr>desc_addr := g q\<rparr>) v)" "base_inv dev (on_selected (\<lambda>q. q\<lparr>avail_addr := g q\<rparr>) v)"
      "base_inv dev (on_selected (\<lambda>q. q\<lparr>used_addr := g q\<rparr>) v)" for n r g
    using assms(1) by (simp_all add: selected_base set_size_def set_ready_def)
  have "yields (\<lambda>(v', mem'). base_inv dev v') (notify_queue dev guest v mem n)"
      "yields (\<lambda>(v', mem'). base_inv dev v') (set_status dev guest v mem s)" for n s
    using notify_queue_base [OF assms(1)] set_status_base [OF assms(1)] by (auto simp: yields_def)
  then have "yields (\<lambda>(v', mem'). base_inv dev v') (write_register_inner dev guest v mem offset val)"
    unfolding write_register_inner_def by (intro yields_if) (simp_all only: yields_ok prod.case plain sel ack_base assms(1))
  with assms(2) show ?thesis by (simp add: yields_def)
qed

lemma transport_inv:
  assumes "base_inv dev v" "mirror_ok v" "write_register dev guest v mem offset val = Some (Ok (v', mem'))"
  shows "base_inv dev v' \<and> mirror_ok v'"
proof (cases "CONFIG_SPACE \<le> offset")
  case True
  with assms show ?thesis
    by (auto simp: write_register_def base_inv_def layout_agreed_def negotiated_features_def steady_features mirror_ok_def)
next
  case False
  then obtain v1 where v1: "write_register_inner dev guest v mem offset val = Some (Ok (v1, mem'))" "v' = publish_signals v1"
    using assms(3) by (auto simp: write_register_def)
  have "base_inv dev v1" by (rule write_register_base [OF assms(1) v1(1)])
  then show ?thesis
    using v1(2) keeps_base [OF keeps_publish] mirrored_ok publish_signals_mirrored by (auto simp: base_inv_def)
qed

end

lemma vm_new_inv: "base_inv dev (vm_new dev d) \<and> mirror_ok (vm_new dev d)"
  by (auto simp: base_inv_def vm_new_def layout_agreed_def negotiated_features_def vq_new_def mirror_ok_def
      signal_has_work_def signal_default_def has_work_def)

end
