(* ===== verification/Virtio_Drain.thy ===== *)
theory Virtio_Drain
  imports Virtio_Device Virtqueue_Walk
begin

text \<open>
  The loop the simple devices share: take a chain, work on it, return it, until the queue is empty.
  \<open>work\<close> is the body of the loop, from the chain to the length its completion reports; a panic in it
  is a panic of the loop.
\<close>

partial_function (option) drain_queue ::
  "('s \<Rightarrow> guest_memory \<Rightarrow> chain \<Rightarrow> (memory_error, 's \<times> guest_memory \<times> u32) result) \<Rightarrow> 's \<Rightarrow> virtqueue \<Rightarrow> guest_memory \<Rightarrow> bool \<Rightarrow>
   (memory_error, 's \<times> virtqueue \<times> guest_memory \<times> bool) run" where
  "drain_queue work s q mem used =
     run_bind (Some (pop q mem)) (\<lambda>(q1, oc). case oc of
        None \<Rightarrow> Some (Ok (s, q1, mem, used))
      | Some c \<Rightarrow> run_bind (Some (work s mem c)) (\<lambda>(s', mem1, n).
          run_bind (Some (push_used q1 mem1 (head c) n)) (\<lambda>(q2, mem2). drain_queue work s' q2 mem2 True)))"

text \<open>The descriptors of a chain that is read before anything is written.\<close>

definition chain_descs :: "guest_memory \<Rightarrow> chain \<Rightarrow> descriptor list" where
  "chain_descs mem c = chain_collect (\<lambda>_. mem) 0 c"

text \<open>One round of the loop, and what holds of the state through any number of them.\<close>

lemma drain_round:
  assumes "pop q mem = Ok (q1, Some c)" "push_used q1 mem1 (head c) n = Ok (q2, mem2)"
  shows "queue_config q2 = queue_config q" "owed q2 x \<Longrightarrow> owed q x"
proof -
  show "queue_config q2 = queue_config q"
    using pop_config [OF assms(1)] push_used_config [OF assms(2)] by simp
  show "owed q x" if "owed q2 x"
    using that pop_owed [OF assms(1)] push_used_owed [OF assms(2)] by (auto simp: takes_def split: if_splits)
qed

lemma drain_queue_keeps:
  assumes run: "drain_queue work s q mem used = Some (Ok (s', q', mem', used'))"
    and start: "P s" and step: "\<And>s mem c s' mem' n. P s \<Longrightarrow> work s mem c = Ok (s', mem', n) \<Longrightarrow> P s'"
  shows "P s' \<and> queue_config q' = queue_config q \<and> (\<forall>x. owed q' x \<longrightarrow> owed q x)"
proof -
  let ?P = "\<lambda>q y. P (fst y) \<and> queue_config (fst (snd y)) = queue_config q \<and> (\<forall>x. owed (fst (snd y)) x \<longrightarrow> owed q x)"
  let ?S = "\<lambda>work s. P s \<and> (\<forall>s mem c s' mem' n. P s \<longrightarrow> work s mem c = Ok (s', mem', n) \<longrightarrow> P s')"
  have "\<forall>y. ?S work s \<longrightarrow> Ok (s', q', mem', used') = (Ok y :: (memory_error, _) result) \<longrightarrow> ?P q y"
  proof (rule drain_queue.raw_induct [where P = "\<lambda>work s q mem used r. \<forall>y. ?S work s \<longrightarrow> r = Ok y \<longrightarrow> ?P q y", OF _ run], intro allI impI)
    fix loop work s q mem used r y
    assume IH: "\<And>work s q mem used r. loop work s q mem used = Some r \<Longrightarrow> \<forall>y. ?S work s \<longrightarrow> r = Ok y \<longrightarrow> ?P q y"
      and body: "run_bind (Some (pop q mem)) (\<lambda>(q1, oc). case oc of
          None \<Rightarrow> Some (Ok (s, q1, mem, used))
        | Some c \<Rightarrow> run_bind (Some (work s mem c)) (\<lambda>(s', mem1, n).
            run_bind (Some (push_used q1 mem1 (head c) n)) (\<lambda>(q2, mem2). loop work s' q2 mem2 True))) = Some r"
      and S: "?S work s" and r: "r = Ok y"
    obtain q1 oc where p: "pop q mem = Ok (q1, oc)" using body r by (cases "pop q mem") auto
    show "?P q y"
    proof (cases oc)
      case None
      then show ?thesis using body r p S pop_config [OF p] pop_owed [OF p] by (auto simp: takes_def)
    next
      case (Some c)
      obtain s1 m1 n where w: "work s mem c = Ok (s1, m1, n)" using body r p Some by (cases "work s mem c") auto
      obtain q2 m2 where pu: "push_used q1 m1 (head c) n = Ok (q2, m2)" and l: "loop work s1 q2 m2 True = Some (Ok y)"
        using body r p Some w by (cases "push_used q1 m1 (head c) n") auto
      have "P s1" using S w by blast
      then show ?thesis using IH [OF l] S drain_round [OF p [unfolded Some] pu] by auto
    qed
  qed
  then show ?thesis using start step by auto
qed

end
