(* ===== verification/Virtio_Rng.thy ===== *)
theory Virtio_Rng
  imports Virtio_Drain
begin

text \<open>
  The entropy device of \<^verbatim>\<open>virtio/rng.rs\<close>. The host's entropy pool is a parameter: \<open>rd\<close> is
  \<^verbatim>\<open>Read::read_exact\<close> on a source state, which fills a buffer of the length it is asked for or fails.
\<close>

definition MAX_FILL :: nat where "MAX_FILL = 1048576"

lemma chain_next_shrinks:
  "(c', Some d) = chain_next mem c \<Longrightarrow> 513 - unat (walked c') < 513 - unat (walked c)"
  using chain_next_yield [of mem c c' d] by auto

function rng_fill :: "('s \<Rightarrow> nat \<Rightarrow> 's \<times> bytes option) \<Rightarrow> 's \<Rightarrow> guest_memory \<Rightarrow> chain \<Rightarrow> u32 \<Rightarrow> 's \<times> guest_memory \<times> u32" where
  "rng_fill rd src mem c filled =
     (case chain_next mem c of
        (c', None) \<Rightarrow> (src, mem, filled)
      | (c', Some desc) \<Rightarrow>
          if \<not> is_write_only desc then rng_fill rd src mem c' filled
          else
            let len = min (unat (d_len desc)) MAX_FILL in
            case rd src len of
              (src', None) \<Rightarrow> (src', mem, filled)
            | (src', Some buf) \<Rightarrow>
                (case gm_poke mem (d_addr desc) buf of
                   Ok mem' \<Rightarrow> rng_fill rd src' mem' c' (filled + of_nat len)
                 | _ \<Rightarrow> rng_fill rd src' mem c' filled))"
  by pat_completeness auto
termination
proof (relation "measure (\<lambda>(rd, src, mem, c, filled). 513 - unat (walked c))", goal_cases)
  case 1
  show ?case by simp
qed (auto dest: chain_next_shrinks)

declare rng_fill.simps [simp del]

definition rng_drain ::
  "('s \<Rightarrow> nat \<Rightarrow> 's \<times> bytes option) \<Rightarrow> 's \<Rightarrow> virtqueue \<Rightarrow> guest_memory \<Rightarrow> bool \<Rightarrow>
   (memory_error, 's \<times> virtqueue \<times> guest_memory \<times> bool) run" where
  "rng_drain rd = drain_queue (\<lambda>src mem c. Ok (rng_fill rd src mem c 0))"

definition rng_notify ::
  "('s \<Rightarrow> nat \<Rightarrow> 's \<times> bytes option) \<Rightarrow> 's \<Rightarrow> u16 \<Rightarrow> virtqueue list \<Rightarrow> guest_memory \<Rightarrow>
   (memory_error, 's \<times> virtqueue list \<times> guest_memory \<times> serviced) run" where
  "rng_notify rd src index qs mem =
     (case qs of
        [] \<Rightarrow> Some (Ok (src, qs, mem, 0))
      | q # rest \<Rightarrow> run_bind (rng_drain rd src q mem False) (\<lambda>(src', q', mem', used).
          Some (Ok (src', q' # rest, mem', serviced_queue_if 0 used))))"

definition rng_device :: "('s \<Rightarrow> nat \<Rightarrow> 's \<times> bytes option) \<Rightarrow> 's virtio_device" where
  "rng_device rd =
     \<lparr>vd_type = 4, vd_features = (\<lambda>_. COMMON_FEATURES), vd_ack_features = (\<lambda>d _. d), vd_queue_count = (\<lambda>_. 1),
      vd_queue_max_size_of = (\<lambda>_ _. MAX_QUEUE_SIZE), vd_shm_regions = (\<lambda>_. []),
      vd_config_read = (\<lambda>_ _ n. replicate n 0), vd_config_write = (\<lambda>d _ _. d), vd_activate = (\<lambda>d. d),
      vd_notify = rng_notify rd, vd_retry_deadline = no_deadline, vd_retry_deferred = no_retry,
      vd_reset = (\<lambda>d. d)\<rparr>"

text \<open>A drained queue has the configuration it had and owes nothing it did not owe before.\<close>

lemma rng_drain_keeps:
  assumes "rng_drain rd src q mem used = Some (Ok (src', q', mem', used'))"
  shows "queue_config q' = queue_config q \<and> (\<forall>x. owed q' x \<longrightarrow> owed q x)"
  using drain_queue_keeps [OF assms [unfolded rng_drain_def], of "\<lambda>_. True"] by simp

interpretation rng: virtio_device_laws "rng_device rd" for rd :: "'s \<Rightarrow> nat \<Rightarrow> 's \<times> bytes option"
proof
  fix d i qs mem d' qs' mem' s
  assume "vd_notify (rng_device rd) d i qs mem = Some (Ok (d', qs', mem', s))"
  then show "map queue_config qs' = map queue_config qs"
    using rng_drain_keeps by (cases qs) (fastforce simp: rng_device_def rng_notify_def)+
qed (simp_all add: rng_device_def no_retry_def)

text \<open>The entropy device keeps no buffer. When servicing its queue returns, every chain it took has
  been given back to the driver: no head is outstanding that was not outstanding before, whether the
  host's pool failed, a descriptor was malformed, or its buffer was outside RAM. The queue's size,
  place, layout and readiness are as they were.\<close>

lemma rng_returns_every_buffer:
  assumes "rng_notify rd src index qs mem = Some (Ok (src', qs', mem', s))"
  shows "map queue_config qs' = map queue_config qs \<and>
    (\<forall>i < length qs. \<forall>h. owed (qs' ! i) h \<longrightarrow> owed (qs ! i) h)"
proof (cases qs)
  case Nil
  with assms show ?thesis by (simp add: rng_notify_def)
next
  case (Cons q rest)
  then obtain q' used where "rng_drain rd src q mem False = Some (Ok (src', q', mem', used))" "qs' = q' # rest"
    using assms by (auto simp: rng_notify_def)
  then show ?thesis
    using Cons rng_drain_keeps [of rd src q mem False src' q' mem' used] by (auto simp: nth_Cons')
qed


text \<open>A host pool of zeros, and the demo queue with one published chain whose descriptor is not writable.\<close>

definition demo_pool :: "unit \<Rightarrow> nat \<Rightarrow> unit \<times> bytes option" where
  "demo_pool s n = (s, Some (replicate n 0))"

lemma demo_rng_pop:
  "\<exists>q1. pop demo_queue (demo_memory 4096 demo_available) = Ok (q1, Some (chain_new 8192 8 3)) \<and>
     q1 = mark_taken (demo_queue\<lparr>next_avail := 1\<rparr>) 3"
  by (simp add: pop_def avail_idx_def demo_queue_def vq_new_def demo_memory_def demo_available_def
      put_span_def memory_eval mark_taken_def)

lemma demo_rng_fill:
  "rng_fill demo_pool () (demo_memory 4096 demo_available) (chain_new 8192 8 3) 0 = ((), demo_memory 4096 demo_available, 0)"
  by (simp add: rng_fill.simps chain_next_def chain_new_def walk_bound_def MAX_QUEUE_SIZE_def next_split.simps
      read_descriptor_def DESC_SIZE_def demo_memory_def demo_available_def put_span_def memory_eval
      is_indirect_def has_next_def is_write_only_def desc_flag_defs)

lemma demo_rng_push:
  "case push_used (mark_taken (demo_queue\<lparr>next_avail := 1\<rparr>) 3) (demo_memory 4096 demo_available) 3 0 of
     Ok (q2, mem2) \<Rightarrow> pop q2 mem2 = Ok (q2, None) | _ \<Rightarrow> False"
  by (simp add: push_used_def mark_taken_def demo_queue_def vq_new_def pop_def avail_idx_def write_u16_def write_u32_def ignore_def
      gm_poke_def demo_memory_def demo_available_def put_span_def memory_eval to_le_bytes_def Let_def)

lemma rng_returns_every_buffer_witness:
  "\<exists>qs' mem' s. rng_notify demo_pool () 0 [demo_queue] (demo_memory 4096 demo_available) = Some (Ok ((), qs', mem', s)) \<and>
     (\<forall>h. owed (qs' ! 0) h \<longrightarrow> owed demo_queue h)"
proof -
  obtain q2 mem2 where push: "push_used (mark_taken (demo_queue\<lparr>next_avail := 1\<rparr>) 3) (demo_memory 4096 demo_available) 3 0 = Ok (q2, mem2)"
      and rest: "pop q2 mem2 = Ok (q2, None)"
    using demo_rng_push by (auto split: result.splits)
  have "rng_drain demo_pool () q2 mem2 True = Some (Ok ((), q2, mem2, True))"
    unfolding rng_drain_def by (subst drain_queue.simps) (simp add: rest)
  then have "rng_drain demo_pool () demo_queue (demo_memory 4096 demo_available) False = Some (Ok ((), q2, mem2, True))"
    unfolding rng_drain_def using demo_rng_pop demo_rng_fill push by (subst drain_queue.simps) (simp add: chain_new_def)
  then have "rng_notify demo_pool () 0 [demo_queue] (demo_memory 4096 demo_available) =
      Some (Ok ((), [q2], mem2, serviced_queue_if 0 True))"
    by (simp add: rng_notify_def)
  then show ?thesis using rng_returns_every_buffer by fastforce
qed

end
