(* ===== verification/Virtio_Transport.thy ===== *)
theory Virtio_Transport
  imports Virtio_Mmio_Laws Virtio_Rng
begin

text \<open>
  The properties of the virtio-mmio transport: its invariant over every sequence of register writes,
  the assembly of ring addresses, kicks before the driver is ready, the re-check after arming, and the
  two interrupt registers the bus serves without the transport's lock.
\<close>

section \<open>The life of a transport\<close>

text \<open>Any sequence of register writes, with any guest memory at each and any stores by the guest while a
  write is being served.\<close>

inductive transport_life :: "'d virtio_device \<Rightarrow> 'd virtio_mmio \<Rightarrow> bool" for dev where
  fresh: "transport_life dev (vm_new dev d)"
| wrote: "transport_life dev v \<Longrightarrow> write_register dev guest v mem offset val = Some (Ok (v', mem')) \<Longrightarrow>
    transport_life dev v'"

context virtio_device_laws
begin

lemma life_inv: "transport_life dev v \<Longrightarrow> base_inv dev v \<and> mirror_ok v"
proof (induction rule: transport_life.induct)
  case (fresh d)
  show ?case by (rule vm_new_inv)
next
  case (wrote v guest mem offset val v' mem')
  then show ?case using transport_inv by blast
qed

end

text \<open>C14: The transport's invariant, for the entropy device. Whatever the driver writes to the registers,
  in whatever order, after every write: each queue has the packed layout and the event index exactly
  when the negotiated features say so; the lock-free mirror of a queue answers "is there work" exactly
  as the queue would; the interrupt line is high exactly when the interrupt status is non-zero; and no
  early kick is pending once the driver is ready.\<close>

theorem rng_transport_invariant:
  assumes "transport_life (rng_device rd) v"
  shows "(\<forall>q \<in> set (vm_queues v). packed q = (negotiated_features (rng_device rd) v AND RING_PACKED \<noteq> 0) \<and>
      event_idx q = (negotiated_features (rng_device rd) v AND RING_EVENT_IDX \<noteq> 0)) \<and>
    (\<forall>i < length (vm_queues v). \<forall>mem. signal_has_work (vm_signals v ! i) mem = has_work (vm_queues v ! i) mem) \<and>
    il_wire (vm_line v) = (il_status (vm_line v) \<noteq> 0) \<and> (vm_activated v \<longrightarrow> vm_early_kicks v = 0)"
  using rng.life_inv [OF assms]
  unfolding base_inv_def layout_agreed_def mirror_ok_def line_settled_def by blast

section \<open>Ring addresses\<close>

lemma half_masks: "(0xffffffff :: u64) = mask 32" "(0xffffffff00000000 :: u64) = NOT (mask 32)"
  by (simp_all add: mask_numeral)

lemma addr_halves:
  fixes hi lo :: u32
  shows "addr_half (addr_half s lo False) hi True = word_cat hi lo"
    and "addr_half (addr_half s hi True) lo False = word_cat hi lo"
  by (intro bit_word_eqI; auto simp: addr_half_def half_masks bit_simps bit_word_cat_iff dest: bit_imp_le_length)+

lemma publish_signals_sel [simp]: "vm_queue_sel (publish_signals v) = vm_queue_sel v"
  by (simp add: publish_signals_def)

text \<open>Two register writes, one after the other.\<close>

definition write_both ::
  "'d virtio_device \<Rightarrow> (nat \<Rightarrow> guest_memory \<Rightarrow> guest_memory) \<Rightarrow> 'd virtio_mmio \<Rightarrow> guest_memory \<Rightarrow> (u64 \<times> u32) \<Rightarrow> (u64 \<times> u32) \<Rightarrow>
   (memory_error, 'd virtio_mmio \<times> guest_memory) run" where
  "write_both dev guest v mem a b =
     run_bind (write_register dev guest v mem (fst a) (snd a)) (\<lambda>(v1, mem1). write_register dev guest v1 mem1 (fst b) (snd b))"

lemma addr_writes:
  "write_register dev guest v mem QUEUE_DESC_LOW val =
     Some (Ok (publish_signals (on_selected (\<lambda>q. q\<lparr>desc_addr := addr_half (desc_addr q) val False\<rparr>) v), mem))"
  "write_register dev guest v mem QUEUE_DESC_HIGH val =
     Some (Ok (publish_signals (on_selected (\<lambda>q. q\<lparr>desc_addr := addr_half (desc_addr q) val True\<rparr>) v), mem))"
  "write_register dev guest v mem QUEUE_DRIVER_LOW val =
     Some (Ok (publish_signals (on_selected (\<lambda>q. q\<lparr>avail_addr := addr_half (avail_addr q) val False\<rparr>) v), mem))"
  "write_register dev guest v mem QUEUE_DRIVER_HIGH val =
     Some (Ok (publish_signals (on_selected (\<lambda>q. q\<lparr>avail_addr := addr_half (avail_addr q) val True\<rparr>) v), mem))"
  "write_register dev guest v mem QUEUE_DEVICE_LOW val =
     Some (Ok (publish_signals (on_selected (\<lambda>q. q\<lparr>used_addr := addr_half (used_addr q) val False\<rparr>) v), mem))"
  "write_register dev guest v mem QUEUE_DEVICE_HIGH val =
     Some (Ok (publish_signals (on_selected (\<lambda>q. q\<lparr>used_addr := addr_half (used_addr q) val True\<rparr>) v), mem))"
  by (simp_all add: write_register_def write_register_inner_def register_defs)

text \<open>A ring address is what the driver wrote. Writing the low and the high half of a descriptor,
  driver or device area address, in either order, leaves the selected queue with exactly the 64-bit
  address they spell, whatever was there before, and touches no memory.\<close>

lemma ring_address_assembled:
  assumes "i = unat (vm_queue_sel v)" "i < length (vm_queues v)"
    and "(lo, hi) \<in> {(QUEUE_DESC_LOW, QUEUE_DESC_HIGH), (QUEUE_DRIVER_LOW, QUEUE_DRIVER_HIGH), (QUEUE_DEVICE_LOW, QUEUE_DEVICE_HIGH)}"
    and "(a, b) \<in> {((lo, x), (hi, y)), ((hi, y), (lo, x))}"
  shows "\<exists>v'. write_both dev guest v mem a b = Some (Ok (v', mem)) \<and>
    (if lo = QUEUE_DESC_LOW then desc_addr (vm_queues v' ! i)
     else if lo = QUEUE_DRIVER_LOW then avail_addr (vm_queues v' ! i)
     else used_addr (vm_queues v' ! i)) = word_cat y x"
proof -
  have ne: "QUEUE_DRIVER_LOW \<noteq> QUEUE_DESC_LOW" "QUEUE_DEVICE_LOW \<noteq> QUEUE_DESC_LOW" "QUEUE_DEVICE_LOW \<noteq> QUEUE_DRIVER_LOW"
    by (simp_all add: register_defs)
  show ?thesis
    using assms by (auto simp: write_both_def addr_writes on_selected_def Let_def addr_halves ne ne [symmetric])
qed

section \<open>Before the driver is ready\<close>

text \<open>Nothing happens before \<^verbatim>\<open>DRIVER_OK\<close>, and nothing is lost. Until the driver sets it, no register
  write touches guest memory or starts the device; a notification of one of the first 64 queues is
  remembered, and no write but a reset forgets it.\<close>

lemma quiet_before_driver_ok:
  assumes "\<not> vm_activated v" "offset \<noteq> STATUS \<or> val AND DRIVER_OK = 0"
    and "write_register dev guest v mem offset val = Some (Ok (v', mem'))"
  shows "mem' = mem \<and> \<not> vm_activated v' \<and>
    (offset = QUEUE_NOTIFY \<longrightarrow> (ucast val :: u16) < 64 \<longrightarrow> bit (vm_early_kicks v') (unat (ucast val :: u16))) \<and>
    (\<forall>n. bit (vm_early_kicks v) n \<longrightarrow> offset = STATUS \<and> val = 0 \<or> bit (vm_early_kicks v') n)"
proof (cases "CONFIG_SPACE \<le> offset")
  case True
  then have "offset \<noteq> QUEUE_NOTIFY" by (auto simp: register_defs)
  with True assms show ?thesis by (auto simp: write_register_def)
next
  case False
  let ?Q = "\<lambda>(v', mem'). mem' = mem \<and> \<not> vm_activated v' \<and>
    (offset = QUEUE_NOTIFY \<longrightarrow> (ucast val :: u16) < 64 \<longrightarrow> bit (vm_early_kicks v') (unat (ucast val :: u16))) \<and>
    (\<forall>n. bit (vm_early_kicks v) n \<longrightarrow> offset = STATUS \<and> val = 0 \<or> bit (vm_early_kicks v') n)"
  have sel: "vm_activated (on_selected f v) = vm_activated v" "vm_early_kicks (on_selected f v) = vm_early_kicks v" for f
    by (simp_all add: on_selected_def Let_def)
  have ack: "vm_activated (ack_driver_features dev v val) = vm_activated v"
      "vm_early_kicks (ack_driver_features dev v val) = vm_early_kicks v"
    by (simp_all add: ack_driver_features_def Let_def)
  have bit: "n < 64 \<Longrightarrow> bit (push_bit n 1 :: u64) n" for n by (simp add: bit_simps)
  have notify: "offset = QUEUE_NOTIFY \<Longrightarrow> yields ?Q (notify_queue dev guest v mem (ucast val))"
    using assms(1) bit by (auto simp: notify_queue_def yields_ok bit_or_iff word_less_nat_alt register_defs)
  have status: "offset = STATUS \<Longrightarrow> yields ?Q (set_status dev guest v mem val)"
    using assms(1,2) by (auto simp: set_status_def yields_ok vm_reset_def register_defs Let_def)
  have ne: "DEVICE_FEATURES_SEL \<noteq> QUEUE_NOTIFY" "DRIVER_FEATURES_SEL \<noteq> QUEUE_NOTIFY" "DRIVER_FEATURES \<noteq> QUEUE_NOTIFY"
      "QUEUE_SEL \<noteq> QUEUE_NOTIFY" "QUEUE_NUM \<noteq> QUEUE_NOTIFY" "QUEUE_READY \<noteq> QUEUE_NOTIFY"
    by (simp_all add: register_defs)
  have "yields ?Q (write_register_inner dev guest v mem offset val)"
    unfolding write_register_inner_def
    by (intro yields_if_cond) (use assms(1) notify status in \<open>auto simp: yields_ok sel ack ne\<close>)
  with assms(3) False show ?thesis by (auto simp: write_register_def yields_def)
qed

section \<open>The second look\<close>

text \<open>A look at the rings in which the device is not called changes nothing.\<close>

lemma recheck_quiet:
  "\<forall>i \<in> set is. \<not> has_work (qs ! i) mem \<Longrightarrow> recheck dev d qs mem s moved is = Some (Ok (d, qs, mem, s, moved))"
  by (induction "is") auto

text \<open>The last look called the device on queue \<open>i\<close>, which had work, and the device left the cursor where it
  was; the rest of that look led to the queues and the memory left behind.\<close>

definition declined :: "'d virtio_device \<Rightarrow> virtqueue list \<Rightarrow> guest_memory \<Rightarrow> bool" where
  "declined dev qs' mem' \<longleftrightarrow> (\<exists>n. \<exists>i < n. \<exists>d qs mem d1 qs1 mem1 s1. has_work (qs ! i) mem \<and>
     vd_notify dev d (of_nat i) qs mem = Some (Ok (d1, qs1, mem1, s1)) \<and> next_avail (qs1 ! i) = next_avail (qs ! i) \<and>
     (\<exists>s d2 s2. recheck dev d1 qs1 mem1 s False [Suc i ..< n] = Some (Ok (d2, qs', mem', s2, False))))"

lemma declinedI:
  assumes "i < n" "has_work (qs ! i) mem" "vd_notify dev d (of_nat i) qs mem = Some (Ok (d1, qs1, mem1, s1))"
    and "next_avail (qs1 ! i) = next_avail (qs ! i)"
    and "recheck dev d1 qs1 mem1 s False [Suc i ..< n] = Some (Ok (d2, qs', mem', s2, False))"
  shows "declined dev qs' mem'"
  unfolding declined_def by (rule exI [of _ n], rule exI [of _ i], intro conjI exI) (rule assms)+

lemma recheck_moved: "recheck dev d qs mem s True is = Some (Ok (d', qs', mem', s', m)) \<Longrightarrow> m"
  by (induction "is" arbitrary: d qs mem s) (auto split: if_splits)

lemma recheck_unmoved:
  "j \<le> n \<Longrightarrow> recheck dev d qs mem s False [j ..< n] = Some (Ok (d', qs', mem', s', False)) \<Longrightarrow>
     declined dev qs' mem' \<or> (\<forall>i \<in> {j ..< n}. \<not> has_work (qs ! i) mem) \<and> qs' = qs \<and> mem' = mem"
proof (induction "n - j" arbitrary: j d qs mem s)
  case (Suc k)
  then have j: "j < n" "[j ..< n] = j # [Suc j ..< n]" by (simp_all add: upt_conv_Cons)
  show ?case
  proof (cases "has_work (qs ! j) mem")
    case True
    then obtain d1 qs1 mem1 more where n: "vd_notify dev d (of_nat j) qs mem = Some (Ok (d1, qs1, mem1, more))"
        and r: "recheck dev d1 qs1 mem1 (serviced_and s more) (next_avail (qs1 ! j) \<noteq> next_avail (qs ! j)) [Suc j ..< n] =
          Some (Ok (d', qs', mem', s', False))"
      using Suc.prems j by auto
    have same: "next_avail (qs1 ! j) = next_avail (qs ! j)"
    proof (rule ccontr)
      assume "next_avail (qs1 ! j) \<noteq> next_avail (qs ! j)"
      with r have "recheck dev d1 qs1 mem1 (serviced_and s more) True [Suc j ..< n] = Some (Ok (d', qs', mem', s', False))"
        by simp
      from recheck_moved [OF this] show False .
    qed
    with r have "recheck dev d1 qs1 mem1 (serviced_and s more) False [Suc j ..< n] = Some (Ok (d', qs', mem', s', False))"
      by simp
    from declinedI [OF j(1) True n same this] show ?thesis by simp
  next
    case False
    with Suc j have "declined dev qs' mem' \<or> (\<forall>i \<in> {Suc j ..< n}. \<not> has_work (qs ! i) mem) \<and> qs' = qs \<and> mem' = mem"
      by (intro Suc.hyps(1)) auto
    moreover have "{j ..< n} = insert j {Suc j ..< n}" using j(1) by auto
    ultimately show ?thesis using False by auto
  qed
qed simp

text \<open>What the transport leaves behind: queues armed on what they had taken, memory as the guest then
  left it, and nothing on any ring.\<close>

definition left_quiet :: "(nat \<Rightarrow> guest_memory \<Rightarrow> guest_memory) \<Rightarrow> virtqueue list \<Rightarrow> guest_memory \<Rightarrow> bool" where
  "left_quiet guest qs mem \<longleftrightarrow> (\<exists>k qs0 mem0 mem1. arm_all qs0 mem0 = (qs, mem1) \<and> mem = guest k mem1) \<and>
     (\<forall>i < length qs. \<not> has_work (qs ! i) mem)"

lemma finish_loop_quiet:
  assumes "finish_loop dev guest k v mem s = Some (Ok (v', mem', s'))"
  shows "declined dev (vm_queues v') mem' \<or> left_quiet guest (vm_queues v') mem'"
proof -
  let ?P = "\<lambda>dev guest x. declined dev (vm_queues (fst x)) (fst (snd x)) \<or> left_quiet guest (vm_queues (fst x)) (fst (snd x))"
  have "\<forall>x. Ok (v', mem', s') = (Ok x :: (memory_error, _) result) \<longrightarrow> ?P dev guest x"
  proof (rule finish_loop.raw_induct [where P = "\<lambda>dev guest k v mem s r. \<forall>x. r = Ok x \<longrightarrow> ?P dev guest x", OF _ assms], intro allI impI)
    fix loop dev guest k v mem s r x
    assume IH: "\<And>dev guest k v mem s r. loop dev guest k v mem s = Some r \<Longrightarrow> \<forall>x. r = Ok x \<longrightarrow> ?P dev guest x"
      and body: "(let v1 = publish_signals v; (qs, mem1) = arm_all (vm_queues v1) mem in
        run_bind (recheck dev (vm_device v1) qs (guest k mem1) s False [0 ..< length qs]) (\<lambda>(d', qs', mem', s', moved).
          let v2 = v1\<lparr>vm_device := d', vm_queues := qs'\<rparr> in
          if moved then loop dev guest (Suc k) v2 mem' s' else Some (Ok (v2, mem', s')))) = Some r"
      and r: "r = Ok x"
    obtain qs m1 where arm: "arm_all (vm_queues v) mem = (qs, m1)" by fastforce
    obtain d' qs' m' s' moved where rc: "recheck dev (vm_device v) qs (guest k m1) s False [0 ..< length qs] = Some (Ok (d', qs', m', s', moved))"
        and rest: "(if moved then loop dev guest (Suc k) ((publish_signals v)\<lparr>vm_device := d', vm_queues := qs'\<rparr>) m' s'
          else Some (Ok ((publish_signals v)\<lparr>vm_device := d', vm_queues := qs'\<rparr>, m', s'))) = Some (Ok x)"
      using body r by (auto simp: Let_def arm)
    show "?P dev guest x"
    proof (cases moved)
      case True
      then have "loop dev guest (Suc k) ((publish_signals v)\<lparr>vm_device := d', vm_queues := qs'\<rparr>) m' s' = Some (Ok x)"
        using rest by simp
      from IH [OF this] show ?thesis by blast
    next
      case False
      then have "declined dev qs' m' \<or> (\<forall>i < length qs. \<not> has_work (qs ! i) (guest k m1)) \<and> qs' = qs \<and> m' = guest k m1"
        using recheck_unmoved [of 0 "length qs" dev "vm_device v" qs "guest k m1" s d' qs' m' s'] rc by auto
      moreover have "left_quiet guest qs (guest k m1)" if "\<forall>i < length qs. \<not> has_work (qs ! i) (guest k m1)"
        unfolding left_quiet_def using arm that by blast
      ultimately show ?thesis using False rest by auto
    qed
  qed
  then show ?thesis by simp
qed



section \<open>The lock-free interrupt registers\<close>

definition vm_ops ::
  "bool \<Rightarrow> 'd virtio_device \<Rightarrow> (nat \<Rightarrow> guest_memory \<Rightarrow> guest_memory) \<Rightarrow> (guest_memory, 'd virtio_mmio) mmio_device" where
  "vm_ops withhold dev guest =
     \<lparr>dev_read = (\<lambda>mem v offset n. (v, mmio_read withhold dev v offset n)),
      dev_write = (\<lambda>mem v offset bs. run_bind (mmio_write dev guest v mem offset bs) (\<lambda>(v', mem'). Some (Ok (mem', v')))),
      dev_lockfree = (\<lambda>v. Some (INTERRUPT_STATUS, INTERRUPT_ACK)),
      dev_line = vm_line, dev_set_line = (\<lambda>v l. v\<lparr>vm_line := l\<rparr>)\<rparr>"

lemma status_register_read: "mmio_read withhold dev v INTERRUPT_STATUS 4 = to_le_bytes (il_status (vm_line v))"
proof -
  have r: "read_register withhold dev v INTERRUPT_STATUS = il_status (vm_line v)"
    by (simp add: read_register_def register_defs)
  have o: "INTERRUPT_STATUS AND NOT 3 = INTERRUPT_STATUS" "INTERRUPT_STATUS AND 3 = 0" "\<not> CONFIG_SPACE \<le> INTERRUPT_STATUS"
    by (simp_all add: register_defs)
  show ?thesis
    unfolding mmio_read_def Let_def o r by (simp add: o(3) list_eq_iff_nth_eq length_to_le_bytes)
qed

lemma ack_register_write:
  assumes "mirrored v" "length bs = 4"
  shows "mmio_write dev guest v mem INTERRUPT_ACK bs = Some (Ok (v\<lparr>vm_line := acknowledge_line (vm_line v) (from_le_bytes bs)\<rparr>, mem))"
proof -
  have o: "INTERRUPT_ACK AND NOT 3 = INTERRUPT_ACK" "\<not> CONFIG_SPACE \<le> INTERRUPT_ACK"
    by (simp_all add: register_defs)
  have "write_register_inner dev guest v mem INTERRUPT_ACK val = Some (Ok (v\<lparr>vm_line := acknowledge_line (vm_line v) val\<rparr>, mem))" for val
    by (simp add: write_register_inner_def register_defs)
  moreover have "publish_signals (v\<lparr>vm_line := l\<rparr>) = v\<lparr>vm_line := l\<rparr>" for l
    by (rule publish_signals_idem) (use assms(1) in \<open>simp add: mirrored_def\<close>)
  ultimately show ?thesis
    unfolding mmio_write_def o write_register_def using assms(2) by (simp add: o(2))
qed

interpretation vm: lockfree_device "vm_ops withhold dev guest" mirrored
  for withhold :: bool and dev :: "'d virtio_device" and guest
proof
  fix d :: "'d virtio_mmio" and so ao m bs
  assume good: "mirrored d" and lf: "dev_lockfree (vm_ops withhold dev guest) d = Some (so, ao)"
  then have o: "so = INTERRUPT_STATUS" "ao = INTERRUPT_ACK" by (simp_all add: vm_ops_def)
  show "dev_read (vm_ops withhold dev guest) m d so 4 = (d, to_le_bytes (il_status (dev_line (vm_ops withhold dev guest) d)))"
    by (simp add: vm_ops_def o status_register_read)
  show "dev_write (vm_ops withhold dev guest) m d ao bs = Some (Ok (m, dev_set_line (vm_ops withhold dev guest) d
      (acknowledge_line (dev_line (vm_ops withhold dev guest) d) (from_le_bytes bs))))" if "length bs = 4"
    using ack_register_write [OF good that] by (simp add: vm_ops_def o)
qed

text \<open>C15: Serving the interrupt registers without the lock changes nothing but the lock. On a bus of virtio
  transports whose mirrors are current, every read and every write the bus serves, of whatever address
  and length, gives the result and leaves the state it would with the device locked for each of them.\<close>

theorem lockfree_registers_agree:
  assumes "\<forall>e \<in> set es. mirrored (be_device e) \<and> be_interrupt e = Some (INTERRUPT_STATUS, INTERRUPT_ACK)"
  shows "bus_read (vm_ops withhold dev guest) mem es a n = bus_read_locked (vm_ops withhold dev guest) mem es a n \<and>
    bus_write (vm_ops withhold dev guest) mem es a bs = bus_write_locked (vm_ops withhold dev guest) mem es a bs"
proof -
  have "\<forall>e \<in> set es. vm.entry_good withhold dev guest e"
    using assms by (simp add: vm.entry_good_def) (simp add: vm_ops_def)
  then show ?thesis using vm.read_agrees vm.write_agrees by blast
qed

section \<open>A size the driver can change\<close>

text \<open>C16: A driver can abort the whole process. \<^verbatim>\<open>QUEUE_NUM\<close> is not refused once a queue is ready, and
  zero is not refused at all; a notification of a split queue with work then divides by the size.
  For the entropy device, two register writes suffice.\<close>

theorem queue_num_zero_aborts:
  assumes "vm_queues v = [q]" "vm_queue_sel v = 0" "vm_activated v" "ready q" "\<not> packed q"
    and "avail_idx q mem = Some idx" "idx \<noteq> next_avail q"
  shows "write_both (rng_device rd) guest v mem (QUEUE_NUM, 0) (QUEUE_NOTIFY, 0) = Some Panic"
proof -
  let ?q = "q\<lparr>qsize := 0\<rparr>"
  have w1: "write_register (rng_device rd) guest v mem QUEUE_NUM 0 =
      Some (Ok (publish_signals (v\<lparr>vm_queues := [?q]\<rparr>), mem))"
    using assms(1,2) by (simp add: write_register_def write_register_inner_def register_defs on_selected_def set_size_def)
  have "pop ?q mem = Panic"
    using assms by (simp add: pop_def avail_idx_def)
  then have "rng_notify rd src 0 [?q] mem = Some Panic" for src
    by (simp add: rng_notify_def rng_drain_def) (subst drain_queue.simps, simp)
  then have "notify_queue (rng_device rd) guest (publish_signals (v\<lparr>vm_queues := [?q]\<rparr>)) mem 0 = Some Panic"
    using assms(3) by (simp add: notify_queue_def) (simp add: rng_device_def)
  then have "write_register (rng_device rd) guest (publish_signals (v\<lparr>vm_queues := [?q]\<rparr>)) mem QUEUE_NOTIFY 0 = Some Panic"
    by (simp add: write_register_def write_register_inner_def register_defs)
  with w1 show ?thesis by (simp add: write_both_def)
qed


section \<open>The properties at work\<close>

definition demo_transport :: "unit virtio_mmio" where
  "demo_transport = (vm_new (rng_device demo_pool) ())\<lparr>vm_activated := True, vm_queues := [demo_queue]\<rparr>"

definition idle_guest :: "nat \<Rightarrow> guest_memory \<Rightarrow> guest_memory" where
  "idle_guest k mem = mem"

theorem rng_transport_invariant_witness:
  "transport_life (rng_device demo_pool) (vm_new (rng_device demo_pool) ()) \<and>
   il_wire (vm_line (vm_new (rng_device demo_pool) ())) = False"
  using rng_transport_invariant [OF transport_life.fresh [of "rng_device demo_pool" "()"]] transport_life.fresh
  by (auto simp: vm_new_def line_new_def)

lemma ring_address_assembled_witness:
  "\<exists>v'. write_both (rng_device demo_pool) idle_guest (vm_new (rng_device demo_pool) ()) (demo_memory 4096 [])
       (QUEUE_DESC_HIGH, 1) (QUEUE_DESC_LOW, 8192) = Some (Ok (v', demo_memory 4096 [])) \<and>
     desc_addr (vm_queues v' ! 0) = word_cat (1 :: u32) (8192 :: u32)"
  using ring_address_assembled [of 0 "vm_new (rng_device demo_pool) ()" QUEUE_DESC_LOW QUEUE_DESC_HIGH
      "(QUEUE_DESC_HIGH, 1)" "(QUEUE_DESC_LOW, 8192)" 8192 1 "rng_device demo_pool" idle_guest "demo_memory 4096 []"]
  by (simp add: vm_new_def rng_device_def)

lemma quiet_before_driver_ok_witness:
  "\<exists>v'. write_register (rng_device demo_pool) idle_guest (vm_new (rng_device demo_pool) ()) (demo_memory 4096 []) QUEUE_NOTIFY 0 =
      Some (Ok (v', demo_memory 4096 [])) \<and> bit (vm_early_kicks v') 0"
proof -
  let ?v = "vm_new (rng_device demo_pool) ()"
  have na: "\<not> vm_activated ?v" by (simp add: vm_new_def)
  then have "\<exists>v'. write_register (rng_device demo_pool) idle_guest ?v (demo_memory 4096 []) QUEUE_NOTIFY 0 = Some (Ok (v', demo_memory 4096 []))"
    by (simp add: write_register_def write_register_inner_def register_defs notify_queue_def)
  then show ?thesis
    using quiet_before_driver_ok [OF na, of QUEUE_NOTIFY 0 "rng_device demo_pool" idle_guest "demo_memory 4096 []"]
    by (auto simp: register_defs)
qed


definition demo_bus :: "unit virtio_mmio bus_entry list" where
  "demo_bus = [\<lparr>be_window = \<lparr>w_base = 201392128, w_size = 512\<rparr>, be_device = publish_signals demo_transport,
     be_interrupt = Some (INTERRUPT_STATUS, INTERRUPT_ACK)\<rparr>]"

theorem lockfree_registers_agree_witness:
  "bus_read (vm_ops False (rng_device demo_pool) idle_guest) (demo_memory 4096 []) demo_bus 201392224 4 =
     bus_read_locked (vm_ops False (rng_device demo_pool) idle_guest) (demo_memory 4096 []) demo_bus 201392224 4 \<and>
   bus_read (vm_ops False (rng_device demo_pool) idle_guest) (demo_memory 4096 []) demo_bus 201392224 4 = (demo_bus, to_le_bytes (0 :: u32), True)"
proof -
  have "mirrored (publish_signals demo_transport)"
    by (rule publish_signals_mirrored) (simp add: demo_transport_def vm_new_def rng_device_def)
  then have "\<forall>e \<in> set demo_bus. mirrored (be_device e) \<and> be_interrupt e = Some (INTERRUPT_STATUS, INTERRUPT_ACK)"
    by (simp add: demo_bus_def)
  then have "bus_read (vm_ops False (rng_device demo_pool) idle_guest) (demo_memory 4096 []) demo_bus 201392224 4 =
     bus_read_locked (vm_ops False (rng_device demo_pool) idle_guest) (demo_memory 4096 []) demo_bus 201392224 4"
    using lockfree_registers_agree by blast
  moreover have "bus_read (vm_ops False (rng_device demo_pool) idle_guest) (demo_memory 4096 []) demo_bus 201392224 4 =
      (demo_bus, to_le_bytes (0 :: u32), True)"
    by (simp add: bus_read_def bus_find_def demo_bus_def window_contains_def register_defs vm_ops_def demo_transport_def vm_new_def
        line_new_def)
  ultimately show ?thesis by (rule conjI)
qed

theorem queue_num_zero_aborts_witness:
  "write_both (rng_device demo_pool) idle_guest demo_transport (demo_memory 4096 demo_available) (QUEUE_NUM, 0) (QUEUE_NOTIFY, 0) = Some Panic"
proof (rule queue_num_zero_aborts)
  show "avail_idx demo_queue (demo_memory 4096 demo_available) = Some 1"
    by (simp add: avail_idx_def demo_queue_def vq_new_def demo_memory_def demo_available_def put_span_def memory_eval)
qed (simp_all add: demo_transport_def vm_new_def demo_queue_def vq_new_def)



end
