(* ===== verification/Guest_Layout.thy ===== *)
theory Guest_Layout
  imports Mmio_Bus
begin

text \<open>
  The guest's physical address map of \<^verbatim>\<open>layout.rs\<close>. The GIC's sizes come from the host and are
  parameters; that a redistributor for every core fits the region the host reports is what the code
  relies on.
\<close>

record gic_parameters =
  gic_distributor_size :: u64
  gic_redistributor_size :: u64
  gic_redistributor_region_size :: u64

record guest_layout =
  gl_gicd :: window
  gl_gicr :: window
  gl_uart :: window
  gl_virtio_mmio :: window
  gl_ram :: window
  gl_hotplug :: "window option"
  gl_gpu :: "window option"
  gl_video :: "window option"

datatype layout_error = GicOverlapsDevices u64 u64 u64 | RamTooSmall u64

definition VIRTIO_MMIO_SLOTS :: nat where "VIRTIO_MMIO_SLOTS = 32"
definition VIRTIO_MMIO_SIZE :: u64 where "VIRTIO_MMIO_SIZE = 0x200"
definition VIRTIO_SPI_BASE :: u32 where "VIRTIO_SPI_BASE = 1"
definition RAM_BASE :: u64 where "RAM_BASE = 0x40000000"
definition GICD_BASE :: u64 where "GICD_BASE = 0x08000000"
definition GICR_BASE :: u64 where "GICR_BASE = 0x080a0000"
definition DEVICE_BASE :: u64 where "DEVICE_BASE = 0x0c000000"
definition BLOCK_SIZE :: u64 where "BLOCK_SIZE = 0x8000000"
definition APERTURE_ALIGN :: u64 where "APERTURE_ALIGN = 0x40000000"

lemmas layout_consts = VIRTIO_MMIO_SLOTS_def VIRTIO_MMIO_SIZE_def RAM_BASE_def GICD_BASE_def GICR_BASE_def DEVICE_BASE_def

text \<open>\<^verbatim>\<open>u64::div_ceil\<close>, and the rounding up the source writes with it.\<close>

definition div_ceil :: "u64 \<Rightarrow> u64 \<Rightarrow> u64" where
  "div_ceil x a = (if x mod a = 0 then x div a else x div a + 1)"

definition align_up :: "u64 \<Rightarrow> u64 \<Rightarrow> u64" where
  "align_up x a = div_ceil x a * a"

definition layout_new :: "gic_parameters \<Rightarrow> u32 \<Rightarrow> u64 \<Rightarrow> u64 \<Rightarrow> u64 \<Rightarrow> u64 \<Rightarrow> (layout_error, guest_layout) result" where
  "layout_new gic vcpus ram_bytes hotplug_bytes gpu_bytes video_bytes =
     (if ram_bytes < 64 * 1024 * 1024 then Err (RamTooSmall ram_bytes)
      else
        let gicr_size = gic_redistributor_size gic * ucast vcpus;
            gicd = \<lparr>w_base = GICD_BASE, w_size = gic_distributor_size gic\<rparr>;
            gicr = \<lparr>w_base = GICR_BASE, w_size = gicr_size\<rparr>;
            max_gicr_end = GICR_BASE + gic_redistributor_region_size gic in
        if DEVICE_BASE < max_gicr_end
        then Err (GicOverlapsDevices GICR_BASE (gic_redistributor_region_size gic) DEVICE_BASE)
        else
          let uart = \<lparr>w_base = DEVICE_BASE, w_size = 0x1000\<rparr>;
              virtio_mmio = \<lparr>w_base = DEVICE_BASE + 0x10000, w_size = VIRTIO_MMIO_SIZE * of_nat VIRTIO_MMIO_SLOTS\<rparr>;
              ram = \<lparr>w_base = RAM_BASE, w_size = ram_bytes\<rparr>;
              hotplug = (if 0 < hotplug_bytes
                then Some \<lparr>w_base = align_up (window_end ram) BLOCK_SIZE, w_size = align_up hotplug_bytes BLOCK_SIZE\<rparr> else None);
              above = (case hotplug of None \<Rightarrow> window_end ram | Some h \<Rightarrow> window_end h);
              gpu = (if 0 < gpu_bytes
                then Some \<lparr>w_base = align_up above APERTURE_ALIGN, w_size = align_up gpu_bytes APERTURE_ALIGN\<rparr> else None);
              video = (if 0 < video_bytes
                then Some \<lparr>w_base = align_up (case gpu of None \<Rightarrow> above | Some w \<Rightarrow> window_end w) APERTURE_ALIGN,
                           w_size = align_up video_bytes APERTURE_ALIGN\<rparr> else None) in
          Ok \<lparr>gl_gicd = gicd, gl_gicr = gicr, gl_uart = uart, gl_virtio_mmio = virtio_mmio, gl_ram = ram,
              gl_hotplug = hotplug, gl_gpu = gpu, gl_video = video\<rparr>)"

definition layout_high :: "guest_layout \<Rightarrow> window list" where
  "layout_high l = gl_ram l # concat (map (\<lambda>w. case w of None \<Rightarrow> [] | Some w \<Rightarrow> [w]) [gl_hotplug l, gl_gpu l, gl_video l])"

definition layout_top :: "guest_layout \<Rightarrow> u64" where
  "layout_top l = Max (set (map window_end (layout_high l)))"

definition top_for :: "u64 \<Rightarrow> u64 \<Rightarrow> u64 \<Rightarrow> u64 \<Rightarrow> u64" where
  "top_for ram_bytes hotplug_bytes gpu_bytes video_bytes =
     (let ram_end = RAM_BASE + ram_bytes;
          above = (if 0 < hotplug_bytes then align_up ram_end BLOCK_SIZE + align_up hotplug_bytes BLOCK_SIZE else ram_end);
          gpu_end = (if 0 < gpu_bytes then Some (align_up above APERTURE_ALIGN + align_up gpu_bytes APERTURE_ALIGN) else None);
          video_end = (if 0 < video_bytes
            then Some (align_up (case gpu_end of None \<Rightarrow> above | Some e \<Rightarrow> e) APERTURE_ALIGN + align_up video_bytes APERTURE_ALIGN)
            else None) in
      case video_end of Some e \<Rightarrow> e | None \<Rightarrow> (case gpu_end of Some e \<Rightarrow> e | None \<Rightarrow> above))"

definition virtio_slot :: "guest_layout \<Rightarrow> nat \<Rightarrow> window option" where
  "virtio_slot l index =
     (if VIRTIO_MMIO_SLOTS \<le> index then None
      else Some \<lparr>w_base = w_base (gl_virtio_mmio l) + VIRTIO_MMIO_SIZE * of_nat index, w_size = VIRTIO_MMIO_SIZE\<rparr>)"

definition virtio_spi :: "nat \<Rightarrow> u32" where
  "virtio_spi index = VIRTIO_SPI_BASE + of_nat index"

section \<open>Rounding up\<close>

lemma align_up_bounds:
  assumes "a \<noteq> 0" "unat x + unat a < 2 ^ 64"
  shows "unat x \<le> unat (align_up x a) \<and> unat (align_up x a) < unat x + unat a"
proof -
  have a: "0 < unat a" using assms(1) by (simp add: unat_gt_0)
  let ?q = "unat x div unat a" and ?r = "unat x mod unat a"
  have x: "unat x = ?q * unat a + ?r" "?r < unat a" using a by simp_all
  have z: "x mod a = 0 \<longleftrightarrow> ?r = 0"
    by (metis unat_mod unsigned_eq_0_iff)
  have d: "unat (x div a) = ?q" by (rule unat_div)
  show ?thesis
  proof (cases "?r = 0")
    case True
    then have "unat (align_up x a) = unat x"
      using z d x unat_lt_64 [of x] by (simp add: align_up_def div_ceil_def unat_word_ariths)
    then show ?thesis using a by simp
  next
    case False
    have b: "?q * unat a + unat a < 2 ^ 64" using x assms(2) by linarith
    have "?q * 1 \<le> ?q * unat a" by (rule mult_le_mono2) (use a in simp)
    with a b have "?q + 1 < 2 ^ 64" by (simp only: mult_1_right)
    then have "unat (x div a) + unat (1 :: u64) < 2 ^ LENGTH(64)" by (simp add: d)
    from unat_add_no_wrap [OF this] have "unat (x div a + 1) = ?q + 1" by (simp add: d)
    then have "unat (align_up x a) = (?q + 1) * unat a"
      using False z b by (simp add: align_up_def div_ceil_def unat_word_ariths)
    then have "unat (align_up x a) = ?q * unat a + unat a" by (simp only: add_mult_distrib mult_1)
    then show ?thesis using x False by linarith
  qed
qed

section \<open>The map is in order\<close>

definition w_last :: "window \<Rightarrow> nat" where
  "w_last w = unat (w_base w) + unat (w_size w)"

text \<open>Window after window, none reaching into the next.\<close>

definition in_order :: "window list \<Rightarrow> bool" where
  "in_order ws \<longleftrightarrow> sorted_wrt (\<lambda>w v. w_last w \<le> unat (w_base v)) ws"

lemma window_end_last: "w_last w < 2 ^ 64 \<Longrightarrow> unat (window_end w) = w_last w"
  using unat_add_no_wrap [of "w_base w" "w_size w"] by (simp add: window_end_def w_last_def)

text \<open>An optional window placed at the next boundary above an address, and the address past it.\<close>

definition place :: "u64 \<Rightarrow> u64 \<Rightarrow> u64 \<Rightarrow> window option" where
  "place lo bytes a = (if 0 < bytes then Some \<lparr>w_base = align_up lo a, w_size = align_up bytes a\<rparr> else None)"

definition past :: "u64 \<Rightarrow> window option \<Rightarrow> u64" where
  "past lo w = (case w of None \<Rightarrow> lo | Some w \<Rightarrow> window_end w)"

lemma place_above:
  assumes "a \<noteq> 0" "unat a \<le> 2 ^ 30" "unat lo \<le> n * 2 ^ 60" "n \<le> 8" "unat bytes \<le> 2 ^ 59"
  shows "unat lo \<le> unat (past lo (place lo bytes a))" "unat (past lo (place lo bytes a)) \<le> Suc n * 2 ^ 60"
    and "place lo bytes a = Some w \<Longrightarrow> unat lo \<le> unat (w_base w) \<and> w_last w = unat (past lo (place lo bytes a)) \<and> w_last w < 2 ^ 64"
proof -
  let ?w = "\<lparr>w_base = align_up lo a, w_size = align_up bytes a\<rparr>"
  have b: "unat lo \<le> unat (align_up lo a) \<and> unat (align_up lo a) < unat lo + unat a"
    using assms by (intro align_up_bounds) simp_all
  have c: "unat bytes \<le> unat (align_up bytes a) \<and> unat (align_up bytes a) < unat bytes + unat a"
    using assms by (intro align_up_bounds) simp_all
  have l: "w_last ?w \<le> Suc n * 2 ^ 60" "unat lo \<le> w_last ?w" using b c assms(2,3,5) by (simp_all add: w_last_def)
  then have lt: "w_last ?w < 2 ^ 64" using assms(4) by simp
  then have e: "unat (window_end ?w) = w_last ?w" by (rule window_end_last)
  show "unat lo \<le> unat (past lo (place lo bytes a))" "unat (past lo (place lo bytes a)) \<le> Suc n * 2 ^ 60"
    using l e assms(3) by (simp_all add: past_def place_def)
  show "place lo bytes a = Some w \<Longrightarrow> unat lo \<le> unat (w_base w) \<and> w_last w = unat (past lo (place lo bytes a)) \<and> w_last w < 2 ^ 64"
    using b e lt by (auto simp: past_def place_def split: if_splits)
qed

lemma layout_new_fields:
  assumes "layout_new gic vcpus ram_bytes hotplug_bytes gpu_bytes video_bytes = Ok l"
  defines "lo1 \<equiv> past (RAM_BASE + ram_bytes) (place (RAM_BASE + ram_bytes) hotplug_bytes BLOCK_SIZE)"
  defines "lo2 \<equiv> past lo1 (place lo1 gpu_bytes APERTURE_ALIGN)"
  shows "gl_ram l = \<lparr>w_base = RAM_BASE, w_size = ram_bytes\<rparr>"
    and "gl_hotplug l = place (RAM_BASE + ram_bytes) hotplug_bytes BLOCK_SIZE"
    and "gl_gpu l = place lo1 gpu_bytes APERTURE_ALIGN" and "gl_video l = place lo2 video_bytes APERTURE_ALIGN"
    and "top_for ram_bytes hotplug_bytes gpu_bytes video_bytes = past lo2 (place lo2 video_bytes APERTURE_ALIGN)"
  using assms(1) unfolding lo2_def lo1_def
  by (auto simp: layout_new_def Let_def place_def past_def window_end_def top_for_def split: if_splits)

lemma layout_high_cases:
  "w \<in> set (layout_high l) \<longleftrightarrow> w = gl_ram l \<or> gl_hotplug l = Some w \<or> gl_gpu l = Some w \<or> gl_video l = Some w"
  by (auto simp: layout_high_def split: option.splits)

lemma past_cases: "past lo w = lo \<and> w = None \<or> (\<exists>x. w = Some x \<and> past lo w = window_end x)"
  by (cases w) (simp_all add: past_def)

text \<open>The windows from RAM up, in order.\<close>

lemma layout_high_order:
  assumes ok: "layout_new gic vcpus ram_bytes hotplug_bytes gpu_bytes video_bytes = Ok l"
    and sz: "unat ram_bytes \<le> 2 ^ 59" "unat hotplug_bytes \<le> 2 ^ 59" "unat gpu_bytes \<le> 2 ^ 59" "unat video_bytes \<le> 2 ^ 59"
  shows "in_order (layout_high l)" and "\<forall>w \<in> set (layout_high l). unat RAM_BASE \<le> unat (w_base w)"
    and "layout_top l = top_for ram_bytes hotplug_bytes gpu_bytes video_bytes"
proof -
  let ?e0 = "RAM_BASE + ram_bytes"
  let ?e1 = "past ?e0 (place ?e0 hotplug_bytes BLOCK_SIZE)"
  let ?e2 = "past ?e1 (place ?e1 gpu_bytes APERTURE_ALIGN)"
  let ?e3 = "past ?e2 (place ?e2 video_bytes APERTURE_ALIGN)"
  note f = layout_new_fields [OF ok]
  have al: "BLOCK_SIZE \<noteq> 0" "unat BLOCK_SIZE \<le> 2 ^ 30" "APERTURE_ALIGN \<noteq> 0" "unat APERTURE_ALIGN \<le> 2 ^ 30"
    by (simp_all add: BLOCK_SIZE_def APERTURE_ALIGN_def)
  have ram: "w_last (gl_ram l) = unat ?e0" "unat ?e0 \<le> 1 * 2 ^ 60" "unat RAM_BASE \<le> unat ?e0"
    using sz(1) unat_add_no_wrap [of RAM_BASE ram_bytes] by (simp_all add: f w_last_def RAM_BASE_def)
  note h = place_above [OF al(1,2) ram(2) _ sz(2)]
  note g = place_above [OF al(3,4) h(2) _ sz(3)]
  note v = place_above [OF al(3,4) g(2) _ sz(4)]
  have ends: "unat ?e0 \<le> unat ?e1" "unat ?e1 \<le> unat ?e2" "unat ?e2 \<le> unat ?e3"
    using h(1) g(1) v(1) by simp_all
  have hw: "gl_hotplug l = Some w \<Longrightarrow> unat ?e0 \<le> unat (w_base w) \<and> w_last w = unat ?e1 \<and> w_last w < 2 ^ 64"
    and gw: "gl_gpu l = Some w \<Longrightarrow> unat ?e1 \<le> unat (w_base w) \<and> w_last w = unat ?e2 \<and> w_last w < 2 ^ 64"
    and vw: "gl_video l = Some w \<Longrightarrow> unat ?e2 \<le> unat (w_base w) \<and> w_last w = unat ?e3 \<and> w_last w < 2 ^ 64" for w
    using h(3) g(3) v(3) by (simp_all add: f)
  show "in_order (layout_high l)"
    using hw gw vw ends ram by (auto simp: in_order_def layout_high_def split: option.splits)
  show "\<forall>w \<in> set (layout_high l). unat RAM_BASE \<le> unat (w_base w)"
  proof
    fix w assume "w \<in> set (layout_high l)"
    then consider "w = gl_ram l" | "gl_hotplug l = Some w" | "gl_gpu l = Some w" | "gl_video l = Some w"
      unfolding layout_high_cases by blast
    then show "unat RAM_BASE \<le> unat (w_base w)"
    proof cases
      case 1 then show ?thesis by (simp add: f)
    next
      case 2 then show ?thesis using hw ram(3) by fastforce
    next
      case 3 then show ?thesis using gw ram(3) ends by fastforce
    next
      case 4 then show ?thesis using vw ram(3) ends by fastforce
    qed
  qed
  show "layout_top l = top_for ram_bytes hotplug_bytes gpu_bytes video_bytes"
    unfolding layout_top_def f(5)
  proof (rule Max_eqI)
    fix x assume "x \<in> set (map window_end (layout_high l))"
    then obtain w where w: "w \<in> set (layout_high l)" "x = window_end w" by auto
    then have "w_last w \<le> unat ?e3 \<and> w_last w < 2 ^ 64"
      using hw gw vw ends ram unfolding layout_high_cases by fastforce
    then show "x \<le> ?e3" using window_end_last [of w] by (simp add: w(2) word_le_nat_alt)
  next
    have 0: "?e0 = window_end (gl_ram l)" by (simp add: f window_end_def)
    have 1: "?e1 = past ?e0 (gl_hotplug l)" and 2: "?e2 = past ?e1 (gl_gpu l)" and 3: "?e3 = past ?e2 (gl_video l)" by (simp_all add: f)
    have "\<exists>w. (w = gl_ram l \<or> gl_hotplug l = Some w \<or> gl_gpu l = Some w \<or> gl_video l = Some w) \<and> past (past (past (window_end (gl_ram l)) (gl_hotplug l)) (gl_gpu l)) (gl_video l) = window_end w"
      by (cases "gl_video l"; cases "gl_gpu l"; cases "gl_hotplug l") (auto simp: past_def)
    then have "\<exists>w. w \<in> set (layout_high l) \<and> ?e3 = window_end w"
      unfolding 3 unfolding 2 unfolding 1 unfolding 0 by (simp only: layout_high_cases)
    then show "?e3 \<in> set (map window_end (layout_high l))"
      by auto
  qed simp
qed


text \<open>The device windows below RAM.\<close>

definition layout_low :: "guest_layout \<Rightarrow> window list" where
  "layout_low l = [gl_gicd l, gl_gicr l, gl_uart l, gl_virtio_mmio l]"

lemma in_order_append:
  "in_order (ws @ vs) \<longleftrightarrow> in_order ws \<and> in_order vs \<and> (\<forall>w \<in> set ws. \<forall>v \<in> set vs. w_last w \<le> unat (w_base v))"
  by (simp add: in_order_def sorted_wrt_append)

lemma layout_low_fields:
  assumes "layout_new gic vcpus ram_bytes hotplug_bytes gpu_bytes video_bytes = Ok l"
  shows "gl_gicd l = \<lparr>w_base = GICD_BASE, w_size = gic_distributor_size gic\<rparr>"
    and "gl_gicr l = \<lparr>w_base = GICR_BASE, w_size = gic_redistributor_size gic * ucast vcpus\<rparr>"
    and "gl_uart l = \<lparr>w_base = DEVICE_BASE, w_size = 0x1000\<rparr>"
    and "gl_virtio_mmio l = \<lparr>w_base = DEVICE_BASE + 0x10000, w_size = VIRTIO_MMIO_SIZE * of_nat VIRTIO_MMIO_SLOTS\<rparr>"
    and "GICR_BASE + gic_redistributor_region_size gic \<le> DEVICE_BASE"
  using assms by (auto simp: layout_new_def Let_def split: if_splits)

lemma layout_low_order:
  assumes ok: "layout_new gic vcpus ram_bytes hotplug_bytes gpu_bytes video_bytes = Ok l"
    and d: "unat (gic_distributor_size gic) \<le> 0xa0000"
    and r: "unat (gic_redistributor_size gic) * unat vcpus \<le> unat (gic_redistributor_region_size gic)"
    and b: "unat (gic_redistributor_region_size gic) \<le> 2 ^ 40"
  shows "in_order (layout_low l)" and "\<forall>w \<in> set (layout_low l). w_last w \<le> unat RAM_BASE"
proof -
  note f = layout_low_fields [OF ok]
  have "unat (ucast vcpus :: u64) = unat vcpus" by (rule unat_ucast_32_64)
  then have s: "unat (gic_redistributor_size gic * ucast vcpus) = unat (gic_redistributor_size gic) * unat vcpus"
    using r b by (simp add: unat_word_ariths)
  have "unat (GICR_BASE + gic_redistributor_region_size gic) = unat GICR_BASE + unat (gic_redistributor_region_size gic)"
    using b by (intro unat_add_no_wrap) (simp add: GICR_BASE_def)
  then have m: "unat GICR_BASE + unat (gic_redistributor_region_size gic) \<le> unat DEVICE_BASE"
    using f(5) by (simp add: word_le_nat_alt)
  show "in_order (layout_low l)" "\<forall>w \<in> set (layout_low l). w_last w \<le> unat RAM_BASE"
    using d r m by (simp_all add: in_order_def layout_low_def w_last_def f s layout_consts)
qed

text \<open>C18: The address map is sound. For every machine whose sizes are below 2 to the 59 and whose host GIC
  has a distributor that ends before the redistributors and a redistributor for every core in the
  region it reports: the windows of the map the constructor accepts follow one another in address
  order and none reaches into the next; the top chosen before the machine exists is the top of the
  map it gets; and the virtio slots tile their window, each 0x200 bytes past the one before, with
  one interrupt number each, and no slot past the last.\<close>

theorem layout_sound:
  assumes "layout_new gic vcpus ram_bytes hotplug_bytes gpu_bytes video_bytes = Ok l"
    and "unat ram_bytes \<le> 2 ^ 59" "unat hotplug_bytes \<le> 2 ^ 59" "unat gpu_bytes \<le> 2 ^ 59" "unat video_bytes \<le> 2 ^ 59"
    and "unat (gic_distributor_size gic) \<le> 0xa0000"
    and "unat (gic_redistributor_size gic) * unat vcpus \<le> unat (gic_redistributor_region_size gic)"
    and "unat (gic_redistributor_region_size gic) \<le> 2 ^ 40"
  shows "in_order (layout_low l @ layout_high l) \<and>
    layout_top l = top_for ram_bytes hotplug_bytes gpu_bytes video_bytes \<and>
    (\<forall>i. virtio_slot l i = None \<longleftrightarrow> VIRTIO_MMIO_SLOTS \<le> i) \<and>
    (\<forall>i w. virtio_slot l i = Some w \<longrightarrow>
       w_last w \<le> w_last (gl_virtio_mmio l) \<and> unat (w_base w) = unat (w_base (gl_virtio_mmio l)) + i * 512 \<and> w_size w = 512 \<and>
       unat (virtio_spi i) = Suc i)"
proof (intro conjI allI impI)
  show "in_order (layout_low l @ layout_high l)"
    using layout_low_order [OF assms(1,6-8)] layout_high_order [OF assms(1-5)]
    unfolding in_order_append by (meson order_trans)
  show "layout_top l = top_for ram_bytes hotplug_bytes gpu_bytes video_bytes"
    by (rule layout_high_order [OF assms(1-5)])
  show "virtio_slot l i = None \<longleftrightarrow> VIRTIO_MMIO_SLOTS \<le> i" for i by (simp add: virtio_slot_def)
next
  fix i w assume w: "virtio_slot l i = Some w"
  then have i: "i < 32" by (simp add: virtio_slot_def VIRTIO_MMIO_SLOTS_def split: if_splits)
  then have "unat (0xc010000 + 0x200 * of_nat i :: u64) = 0xc010000 + 0x200 * i"
    by (simp add: unat_word_ariths unat_of_nat)
  with w i show "unat (w_base w) = unat (w_base (gl_virtio_mmio l)) + i * 512" "w_size w = 512"
      "w_last w \<le> w_last (gl_virtio_mmio l)"
    by (auto simp: virtio_slot_def layout_low_fields [OF assms(1)] layout_consts w_last_def split: if_splits)
  show "unat (virtio_spi i) = Suc i"
    using i by (simp add: virtio_spi_def VIRTIO_SPI_BASE_def unat_word_ariths unat_of_nat)
qed

text \<open>The GIC sizes and a machine with every window, from the source's tests.\<close>

definition demo_gic :: gic_parameters where
  "demo_gic = \<lparr>gic_distributor_size = 0x10000, gic_redistributor_size = 0x80000, gic_redistributor_region_size = 0x2000000\<rparr>"

theorem layout_sound_witness:
  "\<exists>l. layout_new demo_gic 4 0x80000001 0xB00000003 0xC0000007 0 = Ok l \<and> in_order (layout_low l @ layout_high l) \<and>
     layout_top l = top_for 0x80000001 0xB00000003 0xC0000007 0"
proof -
  obtain l where l: "layout_new demo_gic 4 0x80000001 0xB00000003 0xC0000007 0 = Ok l"
    by (simp add: layout_new_def demo_gic_def layout_consts Let_def)
  show ?thesis
    using layout_sound [OF l] l by (simp add: demo_gic_def)
qed

end
