(* ===== verification/Vsock_Packet.thy ===== *)
theory Vsock_Packet
  imports Lighter_Prelude
begin

text \<open>
  The virtio-vsock wire format of \<^verbatim>\<open>virtio/vsock/packet.rs\<close>: a header of 44 bytes, little-endian
  throughout, and the payload. The writers fill a buffer range by range; the ranges tile it, so they
  are one concatenation here.
\<close>

definition HDR_LEN :: nat where "HDR_LEN = 44"
definition MAX_PAYLOAD :: nat where "MAX_PAYLOAD = 256 * 1024"
definition HOST_CID :: u64 where "HOST_CID = 2"
definition GUEST_CID :: u64 where "GUEST_CID = 3"
definition TYPE_STREAM :: u16 where "TYPE_STREAM = 1"

datatype op = Invalid | Request | Response | Rst | Shutdown | Rw | CreditUpdate | CreditRequest

definition op_from_raw :: "u16 \<Rightarrow> op" where
  "op_from_raw v =
     (if v = 1 then Request else if v = 2 then Response else if v = 3 then Rst else if v = 4 then Shutdown
      else if v = 5 then Rw else if v = 6 then CreditUpdate else if v = 7 then CreditRequest else Invalid)"

text \<open>The discriminants of the enum, \<^verbatim>\<open>self.op as u16\<close>.\<close>

primrec op_raw :: "op \<Rightarrow> u16" where
  "op_raw Invalid = 0"
| "op_raw Request = 1"
| "op_raw Response = 2"
| "op_raw Rst = 3"
| "op_raw Shutdown = 4"
| "op_raw Rw = 5"
| "op_raw CreditUpdate = 6"
| "op_raw CreditRequest = 7"

record packet =
  src_cid :: u64
  dst_cid :: u64
  src_port :: u32
  dst_port :: u32
  pk_op :: op
  pk_flags :: u32
  buf_alloc :: u32
  fwd_cnt :: u32
  payload :: bytes

definition packet_control :: "op \<Rightarrow> u32 \<Rightarrow> u32 \<Rightarrow> packet" where
  "packet_control opc sport dport =
     \<lparr>src_cid = HOST_CID, dst_cid = GUEST_CID, src_port = sport, dst_port = dport, pk_op = opc, pk_flags = 0,
      buf_alloc = 0, fwd_cnt = 0, payload = []\<rparr>"

text \<open>The fields both readers take from the header, at their offsets.\<close>

definition header_fields :: "bytes \<Rightarrow> bytes \<Rightarrow> packet" where
  "header_fields hdr body =
     \<lparr>src_cid = from_le_bytes (slice_at 0 8 hdr), dst_cid = from_le_bytes (slice_at 8 8 hdr),
      src_port = from_le_bytes (slice_at 16 4 hdr), dst_port = from_le_bytes (slice_at 20 4 hdr),
      pk_op = op_from_raw (from_le_bytes (slice_at 30 2 hdr)), pk_flags = from_le_bytes (slice_at 32 4 hdr),
      buf_alloc = from_le_bytes (slice_at 36 4 hdr), fwd_cnt = from_le_bytes (slice_at 40 4 hdr),
      payload = body\<rparr>"

definition header_len :: "bytes \<Rightarrow> nat" where
  "header_len hdr = unat (from_le_bytes (slice_at 24 4 hdr) :: u32)"

definition packet_parse :: "bytes \<Rightarrow> packet option" where
  "packet_parse bs =
     (if length bs < HDR_LEN then None
      else
        let len = header_len bs in
        if MAX_PAYLOAD < len \<or> length bs < HDR_LEN + len then None
        else Some (header_fields bs (slice_at HDR_LEN len bs)))"

definition header_bytes :: "packet \<Rightarrow> bytes" where
  "header_bytes p =
     to_le_bytes (src_cid p) @ to_le_bytes (dst_cid p) @ to_le_bytes (src_port p) @ to_le_bytes (dst_port p) @
     to_le_bytes (of_nat (length (payload p)) :: u32) @ to_le_bytes TYPE_STREAM @ to_le_bytes (op_raw (pk_op p)) @
     to_le_bytes (pk_flags p) @ to_le_bytes (buf_alloc p) @ to_le_bytes (fwd_cnt p)"

definition from_parts :: "bytes \<Rightarrow> bytes \<Rightarrow> packet option" where
  "from_parts hdr body =
     (let len = header_len hdr in
      if MAX_PAYLOAD < len \<or> length body \<noteq> len then None else Some (header_fields hdr body))"

definition header_only :: "bytes \<Rightarrow> packet option" where
  "header_only hdr =
     (if MAX_PAYLOAD < header_len hdr then None
      else from_parts (take 24 hdr @ to_le_bytes (0 :: u32) @ drop 28 hdr) [])"

definition to_bytes :: "packet \<Rightarrow> bytes" where
  "to_bytes p =
     to_le_bytes (src_cid p) @ to_le_bytes (dst_cid p) @ to_le_bytes (src_port p) @ to_le_bytes (dst_port p) @
     to_le_bytes (of_nat (length (payload p)) :: u32) @ to_le_bytes TYPE_STREAM @ to_le_bytes (op_raw (pk_op p)) @
     to_le_bytes (pk_flags p) @ to_le_bytes (buf_alloc p) @ to_le_bytes (fwd_cnt p) @ payload p"

section \<open>Reading back what was written\<close>

lemma op_raw_from_raw [simp]: "op_from_raw (op_raw c) = c"
  by (cases c) (simp_all add: op_from_raw_def)

lemma length_header_bytes [simp]: "length (header_bytes p) = HDR_LEN"
  by (simp add: header_bytes_def HDR_LEN_def)

lemma to_bytes_header: "to_bytes p = header_bytes p @ payload p"
  by (simp add: to_bytes_def header_bytes_def)

lemma header_len_bytes:
  assumes "length (payload p) \<le> MAX_PAYLOAD"
  shows "header_len (header_bytes p) = length (payload p)"
  using assms by (simp add: header_len_def header_bytes_def wire_simps MAX_PAYLOAD_def unat_of_nat)

lemma header_fields_bytes: "header_fields (header_bytes p) body = p\<lparr>payload := body\<rparr>"
  by (simp add: header_fields_def header_bytes_def wire_simps)

lemma header_len_append: "HDR_LEN \<le> length hdr \<Longrightarrow> header_len (hdr @ body) = header_len hdr"
  by (simp add: header_len_def HDR_LEN_def slice_at_append1)

lemma header_fields_append: "HDR_LEN \<le> length hdr \<Longrightarrow> header_fields (hdr @ ys) body = header_fields hdr body"
  by (simp add: header_fields_def HDR_LEN_def slice_at_append1)

text \<open>Clearing the length field changes no other field.\<close>

lemma header_only_cleared:
  assumes "length hdr = HDR_LEN"
  shows "header_len (take 24 hdr @ to_le_bytes (0 :: u32) @ drop 28 hdr) = 0"
    and "header_fields (take 24 hdr @ to_le_bytes (0 :: u32) @ drop 28 hdr) body = header_fields hdr body"
proof -
  let ?h = "take 24 hdr @ to_le_bytes (0 :: u32) @ drop 28 hdr"
  have "slice_at 24 4 ?h = to_le_bytes (0 :: u32)" using assms by (simp add: slice_at_def HDR_LEN_def)
  then show "header_len ?h = 0" by (simp add: header_len_def)
  have "slice_at off n ?h = slice_at off n hdr" if "off + n \<le> 24 \<or> 28 \<le> off" for off n
    using that assms by (auto simp: slice_at_def HDR_LEN_def drop_take min_def)
  then show "header_fields ?h body = header_fields hdr body" by (simp add: header_fields_def)
qed

text \<open>C31: A packet survives the wire. Every packet with a payload of at most 256 KiB comes back from each
  reader as it was: parsed from its serialized bytes, whatever follows them in the buffer; built from
  its header and its payload; and, without its payload, read from its header alone. Serialized bytes
  are the header's bytes and then the payload.\<close>

theorem packet_roundtrip:
  assumes "length (payload p) \<le> MAX_PAYLOAD"
  shows "packet_parse (to_bytes p @ rest) = Some p \<and> from_parts (header_bytes p) (payload p) = Some p \<and>
    header_only (header_bytes p) = Some (p\<lparr>payload := []\<rparr>) \<and>
    to_bytes p = header_bytes p @ payload p \<and> length (header_bytes p) = 44"
proof (intro conjI)
  note [simp] = header_len_bytes [OF assms] header_fields_bytes
  have "slice_at HDR_LEN (length (payload p)) (header_bytes p @ payload p @ rest) = payload p"
    by (simp add: slice_at_def)
  then show "packet_parse (to_bytes p @ rest) = Some p"
    using assms by (simp add: packet_parse_def to_bytes_header header_len_append header_fields_append Let_def)
  show "from_parts (header_bytes p) (payload p) = Some p"
    using assms by (simp add: from_parts_def Let_def)
  show "header_only (header_bytes p) = Some (p\<lparr>payload := []\<rparr>)"
    using assms by (simp add: header_only_def from_parts_def header_only_cleared Let_def)
  show "to_bytes p = header_bytes p @ payload p" by (rule to_bytes_header)
  show "length (header_bytes p) = 44" by (simp add: HDR_LEN_def)
qed

text \<open>No packet out of too few bytes. Parsing succeeds exactly on a buffer that holds a header and
  as many bytes after it as the header's length field says, at most 256 KiB; the payload is exactly
  those bytes; and the reader that is handed a header and a payload gives the same packet.\<close>

lemma packet_parse_exact:
  "packet_parse bs = Some p \<longleftrightarrow>
    (\<exists>hdr rest. bs = hdr @ payload p @ rest \<and> length hdr = 44 \<and> length (payload p) = header_len hdr \<and>
      length (payload p) \<le> 262144 \<and> from_parts hdr (payload p) = Some p)"
proof
  assume ok: "packet_parse bs = Some p"
  let ?n = "header_len bs"
  have l: "44 + ?n \<le> length bs" "?n \<le> 262144" and p: "p = header_fields bs (slice_at 44 ?n bs)"
    using ok by (auto simp: packet_parse_def Let_def HDR_LEN_def MAX_PAYLOAD_def split: if_splits)
  have pl: "payload p = slice_at 44 ?n bs" by (simp add: p header_fields_def)
  have b: "bs = take 44 bs @ payload p @ drop (44 + ?n) bs"
    unfolding pl slice_at_def by (metis append_take_drop_id drop_drop add.commute)
  have h: "header_len (take 44 bs) = ?n" "header_fields (take 44 bs) x = header_fields bs x" for x
    using l header_len_append [of "take 44 bs" "drop 44 bs"] header_fields_append [of "take 44 bs" "drop 44 bs"]
    by (simp_all add: HDR_LEN_def)
  have "length (payload p) = ?n" using l by (simp add: pl)
  moreover have "from_parts (take 44 bs) (payload p) = Some p"
    using l calculation by (simp add: from_parts_def h MAX_PAYLOAD_def Let_def) (simp add: p header_fields_def)
  ultimately show "\<exists>hdr rest. bs = hdr @ payload p @ rest \<and> length hdr = 44 \<and> length (payload p) = header_len hdr \<and>
      length (payload p) \<le> 262144 \<and> from_parts hdr (payload p) = Some p"
    using b l h(1) by (intro exI [of _ "take 44 bs"] exI [of _ "drop (44 + ?n) bs"]) simp
next
  assume "\<exists>hdr rest. bs = hdr @ payload p @ rest \<and> length hdr = 44 \<and> length (payload p) = header_len hdr \<and>
      length (payload p) \<le> 262144 \<and> from_parts hdr (payload p) = Some p"
  then obtain hdr rest where e: "bs = hdr @ payload p @ rest" "length hdr = 44" "length (payload p) = header_len hdr"
      "length (payload p) \<le> 262144" "from_parts hdr (payload p) = Some p" by blast
  have "p = header_fields hdr (payload p)" using e(5) by (simp add: from_parts_def Let_def split: if_splits)
  moreover have "slice_at HDR_LEN (length (payload p)) bs = payload p" using e(1,2) by (simp add: slice_at_def HDR_LEN_def)
  ultimately show "packet_parse bs = Some p"
    using e header_len_append [of hdr "payload p @ rest"] header_fields_append [of hdr "payload p @ rest"]
    by (simp add: packet_parse_def Let_def HDR_LEN_def MAX_PAYLOAD_def)
qed

section \<open>The properties at work\<close>

definition demo_packet :: packet where
  "demo_packet = \<lparr>src_cid = HOST_CID, dst_cid = GUEST_CID, src_port = 0xdead, dst_port = 2375, pk_op = Rw, pk_flags = 0,
     buf_alloc = 262144, fwd_cnt = 4096, payload = [71, 69, 84]\<rparr>"

theorem packet_roundtrip_witness:
  "packet_parse (to_bytes demo_packet @ [1]) = Some demo_packet \<and> length (to_bytes demo_packet) = 47"
proof -
  have l: "length (payload demo_packet) = 3" by (simp add: demo_packet_def)
  then have "length (payload demo_packet) \<le> MAX_PAYLOAD" by (simp add: MAX_PAYLOAD_def)
  note rt = packet_roundtrip [OF this, of "[1]"]
  have "length (to_bytes demo_packet) = 47" unfolding to_bytes_header by (simp add: l HDR_LEN_def)
  with rt [THEN conjunct1] show ?thesis by (rule conjI)
qed

end
