(* ===== verification/Vsock_Credit.thy ===== *)
theory Vsock_Credit
  imports Lighter_Prelude
begin

text \<open>
  Flow control of virtio-vsock, \<^verbatim>\<open>virtio/vsock/credit.rs\<close>: the budget all receive windows are drawn from,
  and one connection's accounting of what it may send. Every counter of the accounting wraps.
\<close>

definition BUF_ALLOC :: u32 where "BUF_ALLOC = 4 * 1024 * 1024"
definition MIN_WINDOW :: u32 where "MIN_WINDOW = 64 * 1024"
definition BUDGET :: u64 where "BUDGET = 128 * 1024 * 1024"

record budget =
  bg_total :: u64
  bg_granted :: u64

definition budget_new :: "u64 \<Rightarrow> budget" where
  "budget_new t = \<lparr>bg_total = t, bg_granted = 0\<rparr>"

definition budget_default :: budget where
  "budget_default = budget_new BUDGET"

definition budget_free :: "budget \<Rightarrow> u64" where
  "budget_free b = saturating_sub (bg_total b) (bg_granted b)"

definition budget_open :: "budget \<Rightarrow> budget \<times> u32" where
  "budget_open b = (b, MIN_WINDOW)"

definition budget_grow :: "budget \<Rightarrow> u32 \<Rightarrow> budget \<times> u32" where
  "budget_grow b window =
     (let want = min (ucast window * 2) (ucast BUF_ALLOC :: u64);
          grown = max (min want (ucast window + budget_free b)) (ucast window) in
      (b\<lparr>bg_granted := bg_granted b + (grown - ucast window)\<rparr>, ucast grown))"

definition beyond_least :: "u32 \<Rightarrow> u64" where
  "beyond_least window = ucast (saturating_sub window MIN_WINDOW)"

definition budget_shrink :: "budget \<Rightarrow> u32 \<Rightarrow> budget \<times> u32" where
  "budget_shrink b window =
     (b\<lparr>bg_granted := saturating_sub (bg_granted b) (beyond_least window)\<rparr>, min window MIN_WINDOW)"

definition budget_close :: "budget \<Rightarrow> u32 \<Rightarrow> budget" where
  "budget_close b window = b\<lparr>bg_granted := saturating_sub (bg_granted b) (beyond_least window)\<rparr>"

record credit =
  peer_buf_alloc :: u32
  peer_fwd_cnt :: u32
  tx_cnt :: u32
  cr_fwd_cnt :: u32

definition credit_new :: credit where
  "credit_new = \<lparr>peer_buf_alloc = 0, peer_fwd_cnt = 0, tx_cnt = 0, cr_fwd_cnt = 0\<rparr>"

definition credit_observe :: "credit \<Rightarrow> u32 \<Rightarrow> u32 \<Rightarrow> credit" where
  "credit_observe c alloc fwd = c\<lparr>peer_buf_alloc := alloc, peer_fwd_cnt := fwd\<rparr>"

definition credit_available :: "credit \<Rightarrow> u32" where
  "credit_available c = saturating_sub (peer_buf_alloc c) (tx_cnt c - peer_fwd_cnt c)"

definition credit_sent :: "credit \<Rightarrow> u32 \<Rightarrow> credit" where
  "credit_sent c n = c\<lparr>tx_cnt := tx_cnt c + n\<rparr>"

definition credit_consumed :: "credit \<Rightarrow> u32 \<Rightarrow> credit" where
  "credit_consumed c n = c\<lparr>cr_fwd_cnt := cr_fwd_cnt c + n\<rparr>"

section \<open>The budget\<close>

text \<open>The windows of the open connections, as connections open, drain, stall and close in any order.\<close>

inductive budget_life :: "u64 \<Rightarrow> budget \<Rightarrow> u32 list \<Rightarrow> bool" for t where
  start: "budget_life t (budget_new t) []"
| opened: "budget_life t b ws \<Longrightarrow> budget_open b = (b', w) \<Longrightarrow> budget_life t b' (ws @ [w])"
| grown: "budget_life t b ws \<Longrightarrow> i < length ws \<Longrightarrow> budget_grow b (ws ! i) = (b', w) \<Longrightarrow> budget_life t b' (ws[i := w])"
| shrunk: "budget_life t b ws \<Longrightarrow> i < length ws \<Longrightarrow> budget_shrink b (ws ! i) = (b', w) \<Longrightarrow> budget_life t b' (ws[i := w])"
| closed: "budget_life t b ws \<Longrightarrow> i < length ws \<Longrightarrow> budget_life t (budget_close b (ws ! i)) (take i ws @ drop (Suc i) ws)"

definition beyond :: "u32 \<Rightarrow> nat" where
  "beyond w = unat w - 65536"

definition window_ok :: "u32 \<Rightarrow> bool" where
  "window_ok w \<longleftrightarrow> 65536 \<le> unat w \<and> unat w \<le> 4194304"

lemma beyond_least_nat [simp]: "unat (beyond_least w) = beyond w"
  by (simp add: beyond_least_def beyond_def unat_saturating_sub MIN_WINDOW_def)

lemma unat_min: "unat (min a b) = min (unat a) (unat (b :: 'a::len word))"
  by (simp add: min_def word_le_nat_alt)

lemma unat_max: "unat (max a b) = max (unat a) (unat (b :: 'a::len word))"
  by (simp add: max_def word_le_nat_alt)

lemma unat_ucast_64_32: "unat (x :: u64) < 2 ^ 32 \<Longrightarrow> unat (ucast x :: u32) = unat x"
  by (simp add: unsigned_ucast_eq take_bit_eq_mod)

lemma budget_grow_nat:
  assumes ok: "window_ok w" and g: "unat (bg_granted b) \<le> unat (bg_total b)" and t: "unat (bg_total b) < 2 ^ 63"
    and r: "budget_grow b w = (b', w')"
  shows "bg_total b' = bg_total b"
    and "unat w' = max (unat w) (min (min (2 * unat w) 4194304) (unat w + (unat (bg_total b) - unat (bg_granted b))))"
    and "unat (bg_granted b') = unat (bg_granted b) + (unat w' - unat w)"
proof -
  define want where "want = min (ucast w * 2) (ucast BUF_ALLOC :: u64)"
  define new where "new = max (min want (ucast w + budget_free b)) (ucast w)"
  have b': "b' = b\<lparr>bg_granted := bg_granted b + (new - ucast w)\<rparr>" "w' = ucast new"
    using r by (simp_all add: budget_grow_def Let_def new_def want_def)
  have w: "unat w \<le> 4194304" using ok by (simp add: window_ok_def)
  have "unat (ucast w * 2 :: u64) = unat w * 2" using w by (simp add: unat_word_ariths)
  then have want: "unat want = min (2 * unat w) 4194304" by (simp add: want_def unat_min BUF_ALLOC_def)
  have "unat (ucast w + budget_free b) = unat w + (unat (bg_total b) - unat (bg_granted b))"
    using w t unat_add_no_wrap [of "ucast w" "budget_free b"] by (simp add: budget_free_def unat_saturating_sub)
  then have new: "unat new = max (unat w) (min (min (2 * unat w) 4194304) (unat w + (unat (bg_total b) - unat (bg_granted b))))"
    by (simp add: new_def unat_max unat_min want max.commute)
  then have lt: "unat new \<le> 4194304" using w by simp
  then have w': "unat w' = unat new" by (simp add: b' unat_ucast_64_32)
  have "ucast w \<le> new" by (simp add: new_def)
  then have d: "unat (new - ucast w) = unat new - unat w" by (simp add: unat_sub_le)
  show "bg_total b' = bg_total b" by (simp add: b')
  show "unat w' = max (unat w) (min (min (2 * unat w) 4194304) (unat w + (unat (bg_total b) - unat (bg_granted b))))"
    by (simp add: w' new)
  show "unat (bg_granted b') = unat (bg_granted b) + (unat w' - unat w)"
    using g t lt d unat_add_no_wrap [of "bg_granted b" "new - ucast w"] by (simp add: b'(1) w')
qed

lemma budget_shrink_nat:
  assumes "window_ok w" and "budget_shrink b w = (b', w')"
  shows "bg_total b' = bg_total b" "unat w' = 65536" "unat (bg_granted b') = unat (bg_granted b) - beyond w"
proof -
  have "unat (min w MIN_WINDOW) = 65536" using assms(1) by (simp add: unat_min window_ok_def MIN_WINDOW_def)
  then show "bg_total b' = bg_total b" "unat w' = 65536" "unat (bg_granted b') = unat (bg_granted b) - beyond w"
    using assms(2) by (auto simp: budget_shrink_def unat_saturating_sub)
qed

lemma sum_list_update_nat:
  fixes f :: "'a \<Rightarrow> nat"
  assumes "i < length xs"
  shows "sum_list (map f (xs[i := x])) + f (xs ! i) = sum_list (map f xs) + f x"
    and "sum_list (map f (take i xs @ drop (Suc i) xs)) + f (xs ! i) = sum_list (map f xs)"
  using assms id_take_nth_drop [OF assms]
  by (simp_all add: upd_conv_take_nth_drop) (metis add.assoc add.commute list.simps(9) map_append sum_list.Cons sum_list.append)+

lemma budget_life_inv:
  assumes "budget_life t b ws" "unat t < 2 ^ 63"
  shows "bg_total b = t \<and> (\<forall>w \<in> set ws. window_ok w) \<and> unat (bg_granted b) = sum_list (map beyond ws) \<and>
    unat (bg_granted b) \<le> unat t"
  using assms
proof (induction rule: budget_life.induct)
  case start
  then show ?case by (simp add: budget_new_def)
next
  case (opened b ws b' w)
  then show ?case by (auto simp: budget_open_def window_ok_def MIN_WINDOW_def beyond_def)
next
  case (grown b ws i b' w)
  then have ok: "window_ok (ws ! i)" and g: "unat (bg_granted b) \<le> unat (bg_total b)" "unat (bg_total b) < 2 ^ 63" by simp_all
  note n = budget_grow_nat [OF ok g grown(3)]
  have w: "window_ok w" using ok n(2) by (simp add: window_ok_def)
  have "beyond w = beyond (ws ! i) + (unat w - unat (ws ! i))"
    using ok n(2) by (simp add: beyond_def window_ok_def)
  then show ?case
    using grown n g w sum_list_update_nat(1) [OF grown(2), of beyond w] set_update_subset_insert [of ws i w]
    by (auto simp: min_def max_def)
next
  case (shrunk b ws i b' w)
  then have ok: "window_ok (ws ! i)" by simp
  note n = budget_shrink_nat [OF ok shrunk(3)]
  then have w: "window_ok w" "beyond w = 0" by (simp_all add: window_ok_def beyond_def)
  then show ?case
    using shrunk n sum_list_update_nat(1) [OF shrunk(2), of beyond w] set_update_subset_insert [of ws i w]
    by auto
next
  case (closed b ws i)
  then show ?case
    using sum_list_update_nat(2) [OF closed(2), of beyond] set_take_subset [of i ws] set_drop_subset [of "Suc i" ws]
    by (auto simp: budget_close_def unat_saturating_sub)
qed


text \<open>The windows stay within the budget. Whatever the order in which connections open, drain, stall, idle and
  close: every window is between 64 KiB and 4 MiB, the budget's counter is exactly what the open
  windows hold beyond their least, so all windows together promise at most 64 KiB each and the
  budget besides; and a drained window doubles whenever that much is free and 4 MiB allows it.\<close>

lemma windows_within_budget:
  assumes "budget_life t b ws" "unat t < 2 ^ 63"
  shows "(\<forall>w \<in> set ws. 65536 \<le> unat w \<and> unat w \<le> 4194304) \<and>
    unat (bg_granted b) = sum_list (map (\<lambda>w. unat w - 65536) ws) \<and>
    sum_list (map unat ws) \<le> length ws * 65536 + unat t \<and>
    (\<forall>w \<in> set ws. unat w \<le> unat t - unat (bg_granted b) \<and> unat w * 2 \<le> 4194304 \<longrightarrow> unat (snd (budget_grow b w)) = unat w * 2)"
proof (intro conjI ballI impI)
  have inv: "bg_total b = t" "\<forall>w \<in> set ws. window_ok w" "unat (bg_granted b) = sum_list (map beyond ws)" "unat (bg_granted b) \<le> unat t"
    using budget_life_inv [OF assms] by simp_all
  show "unat (bg_granted b) = sum_list (map (\<lambda>w. unat w - 65536) ws)"
    using inv(3) by (simp add: beyond_def [abs_def])
  have "\<forall>w \<in> set ws. window_ok w \<Longrightarrow> sum_list (map unat ws) = length ws * 65536 + sum_list (map beyond ws)"
    by (induction ws) (auto simp: window_ok_def beyond_def)
  then show "sum_list (map unat ws) \<le> length ws * 65536 + unat t" using inv by simp
  fix w assume w: "w \<in> set ws"
  then show "65536 \<le> unat w" "unat w \<le> 4194304" using inv(2) by (simp_all add: window_ok_def)
  assume free: "unat w \<le> unat t - unat (bg_granted b) \<and> unat w * 2 \<le> 4194304"
  have g: "unat (bg_granted b) \<le> unat (bg_total b)" "unat (bg_total b) < 2 ^ 63" using inv assms(2) by simp_all
  obtain b' w' where r: "budget_grow b w = (b', w')" by fastforce
  have "window_ok w" using inv(2) w by simp
  from budget_grow_nat(2) [OF this g r] free show "unat (snd (budget_grow b w)) = unat w * 2"
    by (simp add: r inv(1))
qed

section \<open>Credit\<close>

text \<open>
  One direction of a connection: our accounting, the bytes sent and the bytes the peer's application
  has taken since the connection began, and the reports of the peer still under way, oldest first.
  The peer may change the size it advertises, up to the room \<open>room\<close> it really has; we send at any moment,
  up to what the accounting allows.
\<close>

inductive credit_life :: "u32 \<Rightarrow> credit \<Rightarrow> nat \<Rightarrow> nat \<Rightarrow> (u32 \<times> nat) list \<Rightarrow> bool" for room where
  start: "credit_life room credit_new 0 0 []"
| send: "credit_life room c s k rs \<Longrightarrow> n \<le> credit_available c \<Longrightarrow> credit_life room (credit_sent c n) (s + unat n) k rs"
| receive: "credit_life room c s k rs \<Longrightarrow> credit_life room (credit_consumed c n) s k rs"
| taken: "credit_life room c s k rs \<Longrightarrow> k + n \<le> s \<Longrightarrow> credit_life room c s (k + n) rs"
| report: "credit_life room c s k rs \<Longrightarrow> alloc \<le> room \<Longrightarrow> credit_life room c s k (rs @ [(alloc, k)])"
| observe: "credit_life room c s k ((alloc, r) # rs) \<Longrightarrow> credit_life room (credit_observe c alloc (of_nat r)) s k rs"

text \<open>The last count observed, as an unbounded number \<open>r\<close>.\<close>

definition credit_inv :: "u32 \<Rightarrow> credit \<Rightarrow> nat \<Rightarrow> nat \<Rightarrow> (u32 \<times> nat) list \<Rightarrow> nat \<Rightarrow> bool" where
  "credit_inv room c s k rs r \<longleftrightarrow> tx_cnt c = of_nat s \<and> peer_fwd_cnt c = of_nat r \<and> peer_buf_alloc c \<le> room \<and>
     s - r \<le> unat room \<and> k \<le> s \<and> sorted (r # map snd rs @ [k]) \<and> (\<forall>(alloc, _) \<in> set rs. alloc \<le> room)"

lemma available_nat:
  assumes "credit_inv room c s k rs r"
  shows "unat (credit_available c) = unat (peer_buf_alloc c) - (s - r)"
proof -
  have rs: "r \<le> s" "s - r < 2 ^ 32" using assms unat_lt_32 [of room] by (auto simp: credit_inv_def)
  have "d < 2 ^ 32 \<Longrightarrow> unat (of_nat d :: u32) = d" for d by (simp add: unat_of_nat)
  then have "unat (of_nat (s - r) :: u32) = s - r" using rs by blast
  moreover have "tx_cnt c - peer_fwd_cnt c = of_nat (s - r)"
    using assms rs by (simp add: credit_inv_def of_nat_diff)
  ultimately show ?thesis by (simp only: credit_available_def unat_saturating_sub)
qed

lemma credit_life_inv:
  assumes "credit_life room c s k rs"
  shows "\<exists>r. credit_inv room c s k rs r"
  using assms
proof (induction rule: credit_life.induct)
  case start
  have "credit_inv room credit_new 0 0 [] 0" by (simp add: credit_inv_def credit_new_def)
  then show ?case ..
next
  case (send c s k rs n)
  then obtain r where inv: "credit_inv room c s k rs r" by blast
  have "unat n \<le> unat (peer_buf_alloc c) - (s - r)"
    using send(2) available_nat [OF inv] by (simp add: word_le_nat_alt)
  moreover have "unat (peer_buf_alloc c) \<le> unat room" using inv by (simp add: credit_inv_def word_le_nat_alt)
  ultimately have "s + unat n - r \<le> unat room" using inv by (auto simp: credit_inv_def)
  then have "credit_inv room (credit_sent c n) (s + unat n) k rs r"
    using inv by (auto simp: credit_inv_def credit_sent_def)
  then show ?case ..
next
  case (observe c s k alloc r rs)
  then obtain q where inv: "credit_inv room c s k ((alloc, r) # rs) q" by blast
  then have "q \<le> r" by (simp add: credit_inv_def)
  then have "credit_inv room (credit_observe c alloc (of_nat r)) s k rs r"
    using inv by (auto simp: credit_inv_def credit_observe_def)
  then show ?case ..
qed (fastforce simp: credit_inv_def credit_consumed_def sorted_append)+

text \<open>C32: The peer's buffer is never overrun and the connection never stalls for good. Over any number of
  bytes, the counters wrapping as they will, and whatever reports are still under way: the bytes the
  peer holds, and all that we may send besides, fit the room it has; nothing is sent before it
  advertises a buffer; and once it has taken everything and its report arrives, its whole buffer is
  available again.\<close>

theorem credit_never_overruns:
  assumes "credit_life room c s k rs"
  shows "k \<le> s \<and> s - k + unat (credit_available c) \<le> unat room \<and>
    (peer_buf_alloc c = 0 \<longrightarrow> credit_available c = 0) \<and>
    (\<forall>alloc. credit_available (credit_observe c alloc (of_nat s)) = alloc)"
proof -
  obtain r where inv: "credit_inv room c s k rs r" using credit_life_inv [OF assms] by blast
  then have "r \<le> k" "unat (peer_buf_alloc c) \<le> unat room" "s - r \<le> unat room" "k \<le> s" "tx_cnt c = of_nat s"
    by (auto simp: credit_inv_def word_le_nat_alt)
  moreover have "credit_available (credit_observe c alloc (of_nat s)) = alloc" for alloc
    using calculation by (simp add: credit_available_def credit_observe_def saturating_sub_def)
  ultimately show ?thesis
    using available_nat [OF inv] by (auto simp: credit_available_def saturating_sub_def)
qed

section \<open>The properties at work\<close>

lemma demo_budget: "budget_life 131072 \<lparr>bg_total = 131072, bg_granted = 65536\<rparr> [131072]"
proof -
  have "budget_life 131072 (budget_new 131072) ([] @ [0x10000])"
    by (rule budget_life.opened [OF budget_life.start]) (simp add: budget_open_def MIN_WINDOW_def)
  then have "budget_life 131072 (budget_new 131072) [0x10000]" by simp
  then have "budget_life 131072 \<lparr>bg_total = 131072, bg_granted = 65536\<rparr> ([0x10000][0 := 0x20000])"
    by (rule budget_life.grown [where i = 0]) (simp_all add: budget_grow_def budget_new_def budget_free_def saturating_sub_def BUF_ALLOC_def)
  then show ?thesis by simp
qed

lemma windows_within_budget_witness:
  "65536 \<le> unat (131072 :: u32) \<and> sum_list (map unat [131072 :: u32]) \<le> 1 * 65536 + 131072"
  using windows_within_budget [OF demo_budget] by simp

text \<open>The connection of the source's tests: 400 bytes sent and taken, the report not yet made.\<close>

lemma demo_credit: "credit_life 1000 \<lparr>peer_buf_alloc = 1000, peer_fwd_cnt = 0, tx_cnt = 400, cr_fwd_cnt = 0\<rparr> 400 400 []"
proof -
  have "credit_life 1000 credit_new 0 0 ([] @ [(1000, 0)])"
    by (rule credit_life.report [OF credit_life.start]) simp
  then have "credit_life 1000 (credit_observe credit_new 1000 (of_nat 0)) 0 0 []"
    by (intro credit_life.observe) simp
  then have "credit_life 1000 (credit_sent (credit_observe credit_new 1000 (of_nat 0)) 400) (0 + unat (400 :: u32)) 0 []"
    by (rule credit_life.send) (simp add: credit_available_def credit_observe_def credit_new_def saturating_sub_def)
  then have "credit_life 1000 (credit_sent (credit_observe credit_new 1000 (of_nat 0)) 400) 400 (0 + 400) []"
    by (intro credit_life.taken) simp_all
  then show ?thesis by (simp add: credit_sent_def credit_observe_def credit_new_def)
qed

theorem credit_never_overruns_witness:
  "400 - 400 + unat (credit_available \<lparr>peer_buf_alloc = 1000, peer_fwd_cnt = 0, tx_cnt = 400, cr_fwd_cnt = 0\<rparr>) \<le> unat (1000 :: u32) \<and>
   credit_available \<lparr>peer_buf_alloc = 1000, peer_fwd_cnt = 0, tx_cnt = 400, cr_fwd_cnt = 0\<rparr> = 600"
proof -
  have "400 - 400 + unat (credit_available \<lparr>peer_buf_alloc = 1000, peer_fwd_cnt = 0, tx_cnt = 400, cr_fwd_cnt = 0\<rparr>) \<le> unat (1000 :: u32)"
    using credit_never_overruns [OF demo_credit] by blast
  then show ?thesis by (simp add: credit_available_def saturating_sub_def)
qed

end
