(* ===== verification/Virtio_Mem.thy ===== *)
theory Virtio_Mem
  imports Virtio_Drain Guest_Layout
begin

text \<open>
  virtio-mem, \<^verbatim>\<open>virtio/mem.rs\<close>: the range of blocks the guest plugs in and out, the offer the host makes
  of it, and the device that serves the guest's requests. Each reading of the monotonic clock is
  one value of the parameter \<open>clk\<close>, counted by \<open>ms_reads\<close>; the environment variable \<^verbatim>\<open>split\<close> looks
  at is a parameter too.
\<close>

definition F_UNPLUGGED_INACCESSIBLE :: u64 where "F_UNPLUGGED_INACCESSIBLE = 2"

definition REQ_PLUG :: u16 where "REQ_PLUG = 0"
definition REQ_UNPLUG :: u16 where "REQ_UNPLUG = 1"
definition REQ_UNPLUG_ALL :: u16 where "REQ_UNPLUG_ALL = 2"
definition REQ_STATE :: u16 where "REQ_STATE = 3"

definition RESP_ACK :: u16 where "RESP_ACK = 0"
definition RESP_NACK :: u16 where "RESP_NACK = 1"
definition RESP_ERROR :: u16 where "RESP_ERROR = 3"

definition STATE_PLUGGED :: u16 where "STATE_PLUGGED = 0"
definition STATE_UNPLUGGED :: u16 where "STATE_UNPLUGGED = 1"
definition STATE_MIXED :: u16 where "STATE_MIXED = 2"

definition REQ_LEN :: nat where "REQ_LEN = 24"
definition RESP_LEN :: nat where "RESP_LEN = 10"

definition HOLD_AFTER_GROWTH_MS :: u64 where "HOLD_AFTER_GROWTH_MS = 5000"
definition STUCK_AFTER_MS :: u64 where "STUCK_AFTER_MS = 60000"
definition PLUG_STALLED_AFTER_MS :: u64 where "PLUG_STALLED_AFTER_MS = 330000"

lemmas mem_wire_consts = REQ_PLUG_def REQ_UNPLUG_def REQ_UNPLUG_ALL_def REQ_STATE_def RESP_ACK_def RESP_NACK_def
  RESP_ERROR_def STATE_PLUGGED_def STATE_UNPLUGGED_def STATE_MIXED_def

section \<open>The range\<close>

record mem_state =
  ms_base :: u64
  ms_addr :: u64
  ms_region :: u64
  ms_requested :: u64
  ms_available :: u64
  ms_plugged :: u64
  ms_blocks :: "bool list"
  ms_grown_at :: u64
  ms_changed_at :: u64
  ms_plugged_at :: u64
  ms_reads :: nat

definition monotonic_ms :: "(nat \<Rightarrow> u64) \<Rightarrow> mem_state \<Rightarrow> mem_state \<times> u64" where
  "monotonic_ms clk s = (s\<lparr>ms_reads := Suc (ms_reads s)\<rparr>, clk (ms_reads s))"

definition mem_round :: "u64 \<Rightarrow> u64" where
  "mem_round n = n div BLOCK_SIZE * BLOCK_SIZE"

definition mem_new :: "u64 \<Rightarrow> u64 \<Rightarrow> u64 \<Rightarrow> u64 \<Rightarrow> mem_state" where
  "mem_new base addr region requested =
     \<lparr>ms_base = base, ms_addr = addr, ms_region = region, ms_requested = mem_round (min requested region),
      ms_available = region, ms_plugged = 0, ms_blocks = replicate (unat (region div BLOCK_SIZE)) False,
      ms_grown_at = - 1, ms_changed_at = 0, ms_plugged_at = 0, ms_reads = 0\<rparr>"

definition total_bytes :: "mem_state \<Rightarrow> u64" where
  "total_bytes s = ms_base s + ms_plugged s"

definition requested_bytes :: "mem_state \<Rightarrow> u64" where
  "requested_bytes s = min (ms_requested s) (ms_available s)"

definition mem_settled :: "mem_state \<Rightarrow> bool" where
  "mem_settled s \<longleftrightarrow> ms_plugged s = requested_bytes s"

definition defer_backing :: "mem_state \<Rightarrow> mem_state" where
  "defer_backing s = s\<lparr>ms_available := 0\<rparr>"

definition set_requested_bytes :: "mem_state \<Rightarrow> u64 \<Rightarrow> mem_state \<times> u64" where
  "set_requested_bytes s n =
     (let rounded = mem_round (min n (ms_region s)) in (s\<lparr>ms_requested := rounded\<rparr>, rounded))"

definition block_of :: "mem_state \<Rightarrow> u64 \<Rightarrow> nat option" where
  "block_of s gpa =
     (if gpa < ms_addr s \<or> ms_addr s + ms_region s \<le> gpa \<or> \<not> is_multiple_of gpa BLOCK_SIZE then None
      else Some (unat ((gpa - ms_addr s) div BLOCK_SIZE)))"

section \<open>The host's handle\<close>

text \<open>Publishing more backing: two assertions, then the store. The configuration interrupt it raises is
  the transport's \<open>notify_config_change\<close>.\<close>

definition backing_ready :: "mem_state \<Rightarrow> u64 \<Rightarrow> (memory_error, mem_state) result" where
  "backing_ready s n =
     (if \<not> (n \<le> ms_region s \<and> is_multiple_of n BLOCK_SIZE) then Panic
      else if \<not> ms_available s \<le> n then Panic
      else Ok (s\<lparr>ms_available := n\<rparr>))"

text \<open>\<^verbatim>\<open>request\<close>: the state, what was offered, and whether the guest was told.\<close>

definition mem_request :: "(nat \<Rightarrow> u64) \<Rightarrow> mem_state \<Rightarrow> u64 \<Rightarrow> mem_state \<times> u64 \<times> bool" where
  "mem_request clk s n =
     (let before = requested_bytes s in
      if mem_round (min n (ms_region s)) = before then (s, before, False)
      else
        let (s1, rounded) = set_requested_bytes s n;
            (s2, now) = monotonic_ms clk s1;
            s3 = s2\<lparr>ms_changed_at := now\<rparr> in
        (if before < rounded then s3\<lparr>ms_grown_at := now\<rparr> else s3, rounded, True))"

definition mem_held :: "(nat \<Rightarrow> u64) \<Rightarrow> mem_state \<Rightarrow> mem_state \<times> bool" where
  "mem_held clk s =
     (if ms_grown_at s = - 1 then (s, False)
      else let (s', now) = monotonic_ms clk s in (s', saturating_sub now (ms_grown_at s) < HOLD_AFTER_GROWTH_MS))"

definition mem_stuck :: "(nat \<Rightarrow> u64) \<Rightarrow> mem_state \<Rightarrow> mem_state \<times> bool" where
  "mem_stuck clk s =
     (if \<not> requested_bytes s < ms_plugged s then (s, False)
      else let (s', now) = monotonic_ms clk s in (s', STUCK_AFTER_MS < saturating_sub now (ms_changed_at s)))"

definition plug_stalled :: "(nat \<Rightarrow> u64) \<Rightarrow> mem_state \<Rightarrow> mem_state \<times> bool" where
  "plug_stalled clk s =
     (let since = max (ms_changed_at s) (ms_plugged_at s) in
      if \<not> ms_plugged s < requested_bytes s then (s, False)
      else let (s', now) = monotonic_ms clk s in (s', PLUG_STALLED_AFTER_MS < saturating_sub now since))"

text \<open>\<^verbatim>\<open>split\<close>; \<open>env\<close> is the number \<^verbatim>\<open>LIGHTER_VIRTIO_MEM\<close> holds, if it is set and is one.\<close>

definition mem_split :: "u64 option \<Rightarrow> u64 \<Rightarrow> u64 \<Rightarrow> u64 \<times> u64" where
  "mem_split env tot base =
     (if env = Some 0 then (tot, 0)
      else
        let b0 = (case env of Some mib \<Rightarrow> push_bit 20 mib | None \<Rightarrow> base);
            b = div_ceil b0 BLOCK_SIZE * BLOCK_SIZE in
        if tot \<le> b then (tot, 0) else (b, tot - b))"

section \<open>The device\<close>

definition fill_span :: "nat \<Rightarrow> nat \<Rightarrow> 'a \<Rightarrow> 'a list \<Rightarrow> 'a list" where
  "fill_span first n v xs = take first xs @ replicate n v @ drop (first + n) xs"

text \<open>\<^verbatim>\<open>let _ = mem.release_thoroughly(..)\<close>: an error is dropped, an abort is not.\<close>

definition release_quietly :: "host \<Rightarrow> guest_memory \<Rightarrow> u64 \<Rightarrow> u64 \<Rightarrow> (memory_error, guest_memory) result" where
  "release_quietly h m gpa len = (case gm_release h m gpa len of (m', Panic) \<Rightarrow> Panic | (m', _) \<Rightarrow> Ok m')"

definition mem_handle ::
  "host \<Rightarrow> (nat \<Rightarrow> u64) \<Rightarrow> mem_state \<Rightarrow> bytes \<Rightarrow> guest_memory \<Rightarrow>
   (memory_error, mem_state \<times> guest_memory \<times> u16 \<times> u16) result" where
  "mem_handle h clk s req mem =
     (let kind = from_le_bytes (slice_at 0 2 req) :: u16;
          addr = from_le_bytes (slice_at 8 8 req) :: u64;
          n = unat (from_le_bytes (slice_at 16 2 req) :: u16) in
      case block_of s addr of
        None \<Rightarrow> Ok (s, mem, RESP_ERROR, 0)
      | Some first \<Rightarrow>
          if kind \<noteq> REQ_UNPLUG_ALL \<and> (n = 0 \<or> length (ms_blocks s) < first + n) then Ok (s, mem, RESP_ERROR, 0)
          else if kind = REQ_PLUG then
            (if ms_available s < of_nat (first + n) * BLOCK_SIZE then Ok (s, mem, RESP_NACK, 0)
             else if list_ex (\<lambda>b. b) (slice_at first n (ms_blocks s)) then Ok (s, mem, RESP_NACK, 0)
             else
               let wanted = of_nat n * BLOCK_SIZE in
               if requested_bytes s < ms_plugged s + wanted then Ok (s, mem, RESP_NACK, 0)
               else
                 let s1 = s\<lparr>ms_blocks := fill_span first n True (ms_blocks s), ms_plugged := ms_plugged s + wanted\<rparr>;
                     (s2, now) = monotonic_ms clk s1 in
                 Ok (s2\<lparr>ms_plugged_at := now\<rparr>, mem, RESP_ACK, 0))
          else if kind = REQ_UNPLUG then
            (if list_ex (\<lambda>b. \<not> b) (slice_at first n (ms_blocks s)) then Ok (s, mem, RESP_NACK, 0)
             else
               let s1 = s\<lparr>ms_blocks := fill_span first n False (ms_blocks s), ms_plugged := ms_plugged s - of_nat n * BLOCK_SIZE\<rparr> in
               result_bind (release_quietly h mem addr (of_nat n * BLOCK_SIZE)) (\<lambda>mem'. Ok (s1, mem', RESP_ACK, 0)))
          else if kind = REQ_UNPLUG_ALL then
            (let s1 = s\<lparr>ms_blocks := map (\<lambda>_. False) (ms_blocks s), ms_plugged := 0\<rparr> in
             if ms_available s1 \<noteq> 0
             then result_bind (release_quietly h mem (ms_addr s1) (ms_available s1)) (\<lambda>mem'. Ok (s1, mem', RESP_ACK, 0))
             else Ok (s1, mem, RESP_ACK, 0))
          else if kind = REQ_STATE then
            (let held = length (filter (\<lambda>b. b) (slice_at first n (ms_blocks s))) in
             Ok (s, mem, RESP_ACK, if held = 0 then STATE_UNPLUGGED else if held = n then STATE_PLUGGED else STATE_MIXED))
          else Ok (s, mem, RESP_ERROR, 0))"

text \<open>The request gathered from a chain's readable descriptors, and the first writable one.\<close>

fun gather_request :: "guest_memory \<Rightarrow> bytes \<Rightarrow> (u64 \<times> u32) option \<Rightarrow> descriptor list \<Rightarrow> bytes \<times> (u64 \<times> u32) option" where
  "gather_request mem have_bytes resp [] = (have_bytes, resp)"
| "gather_request mem have_bytes resp (desc # ds) =
     (if is_write_only desc
      then gather_request mem have_bytes (if resp = None then Some (d_addr desc, d_len desc) else resp) ds
      else
        let n = min (unat (d_len desc)) (REQ_LEN - length have_bytes) in
        if n = 0 then gather_request mem have_bytes resp ds
        else case gm_peek mem (d_addr desc) (of_nat n) of
               Ok bs \<Rightarrow> gather_request mem (have_bytes @ bs) resp ds
             | _ \<Rightarrow> gather_request mem have_bytes resp ds)"

definition mem_serve ::
  "host \<Rightarrow> (nat \<Rightarrow> u64) \<Rightarrow> mem_state \<Rightarrow> guest_memory \<Rightarrow> chain \<Rightarrow> (memory_error, mem_state \<times> guest_memory \<times> u32) result" where
  "mem_serve h clk s mem c =
     (let (request, response_at) = gather_request mem [] None (chain_descs mem c) in
      result_bind (if length request = REQ_LEN then mem_handle h clk s request mem else Ok (s, mem, RESP_ERROR, 0))
        (\<lambda>(s1, mem1, kind, st).
          case response_at of
            None \<Rightarrow> Ok (s1, mem1, 0)
          | Some (addr, len) \<Rightarrow>
              let resp = to_le_bytes kind @ replicate 6 0 @ to_le_bytes st;
                  n = min (unat len) RESP_LEN in
              (case gm_poke mem1 addr (take n resp) of
                 Ok mem2 \<Rightarrow> Ok (s1, mem2, of_nat n)
               | _ \<Rightarrow> Ok (s1, mem1, 0))))"

definition mem_config :: "mem_state \<Rightarrow> bytes" where
  "mem_config s =
     to_le_bytes BLOCK_SIZE @ replicate 8 0 @ to_le_bytes (ms_addr s) @ to_le_bytes (ms_region s) @
     to_le_bytes (ms_available s) @ to_le_bytes (ms_plugged s) @ to_le_bytes (requested_bytes s)"

definition mem_config_read :: "mem_state \<Rightarrow> u64 \<Rightarrow> nat \<Rightarrow> bytes" where
  "mem_config_read s offset n =
     map (\<lambda>i. let config = mem_config s in if unat offset + i < length config then config ! (unat offset + i) else 0) [0 ..< n]"

definition mem_notify ::
  "host \<Rightarrow> (nat \<Rightarrow> u64) \<Rightarrow> mem_state \<Rightarrow> u16 \<Rightarrow> virtqueue list \<Rightarrow> guest_memory \<Rightarrow>
   (memory_error, mem_state \<times> virtqueue list \<times> guest_memory \<times> serviced) run" where
  "mem_notify h clk s index qs mem =
     (if length qs \<le> unat index then Some (Ok (s, qs, mem, 0))
      else run_bind (drain_queue (mem_serve h clk) s (qs ! unat index) mem False) (\<lambda>(s', q', mem', used).
        Some (Ok (s', qs[unat index := q'], mem', serviced_queue_if index used))))"

definition mem_reset :: "(nat \<Rightarrow> u64) \<Rightarrow> mem_state \<Rightarrow> mem_state" where
  "mem_reset clk s =
     (let (s', now) = monotonic_ms clk (s\<lparr>ms_blocks := map (\<lambda>_. False) (ms_blocks s), ms_plugged := 0\<rparr>) in
      s'\<lparr>ms_plugged_at := now\<rparr>)"

definition mem_device :: "host \<Rightarrow> (nat \<Rightarrow> u64) \<Rightarrow> mem_state virtio_device" where
  "mem_device h clk =
     \<lparr>vd_type = 24, vd_features = (\<lambda>_. COMMON_FEATURES OR F_UNPLUGGED_INACCESSIBLE), vd_ack_features = (\<lambda>d _. d),
      vd_queue_count = (\<lambda>_. 1), vd_queue_max_size_of = (\<lambda>_ _. MAX_QUEUE_SIZE), vd_shm_regions = (\<lambda>_. []),
      vd_config_read = mem_config_read, vd_config_write = (\<lambda>d _ _. d), vd_activate = (\<lambda>d. d),
      vd_notify = mem_notify h clk, vd_retry_deadline = no_deadline, vd_retry_deferred = no_retry,
      vd_reset = mem_reset clk\<rparr>"

lemma mem_notify_keeps:
  assumes "mem_notify h clk s index qs mem = Some (Ok (s', qs', mem', sv))"
    and "P s" "\<And>s mem c s' mem' n. P s \<Longrightarrow> mem_serve h clk s mem c = Ok (s', mem', n) \<Longrightarrow> P s'"
  shows "P s' \<and> map queue_config qs' = map queue_config qs"
proof (cases "length qs \<le> unat index")
  case False
  then obtain q' used where d: "drain_queue (mem_serve h clk) s (qs ! unat index) mem False = Some (Ok (s', q', mem', used))"
      and qs': "qs' = qs[unat index := q']"
    using assms(1) by (auto simp: mem_notify_def)
  have "P s' \<and> queue_config q' = queue_config (qs ! unat index)"
    using drain_queue_keeps [OF d, of P] assms(2,3) by blast
  with False show ?thesis by (simp add: qs' map_update list_update_same_conv)
qed (use assms in \<open>simp add: mem_notify_def\<close>)

interpretation memd: virtio_device_laws "mem_device h clk" for h clk
proof
  fix d i qs mem d' qs' mem' s
  assume "vd_notify (mem_device h clk) d i qs mem = Some (Ok (d', qs', mem', s))"
  then show "map queue_config qs' = map queue_config qs"
    using mem_notify_keeps [of h clk d i qs mem d' qs' mem' s "\<lambda>_. True"] by (simp add: mem_device_def)
qed (simp_all add: mem_device_def no_retry_def)

end
