(* ===== verification/Virtio_Mem_Blocks.thy ===== *)
theory Virtio_Mem_Blocks
  imports Virtio_Mem Guest_Memory_Growth
begin

text \<open>
  What the guest may count on from virtio-mem: the account of plugged blocks, which requests are
  granted, and what each does to the blocks.
\<close>

abbreviation bs :: nat where "bs \<equiv> 134217728"

definition held_in :: "mem_state \<Rightarrow> nat" where
  "held_in s = length (filter (\<lambda>b. b) (ms_blocks s))"

definition mem_ok :: "mem_state \<Rightarrow> bool" where
  "mem_ok s \<longleftrightarrow> unat (ms_addr s) + unat (ms_region s) < 2 ^ 64 \<and> bs dvd unat (ms_addr s) \<and>
     unat (ms_region s) = bs * length (ms_blocks s) \<and>
     ms_available s \<le> ms_region s \<and> ms_requested s \<le> ms_region s \<and>
     unat (ms_plugged s) = bs * held_in s \<and>
     (\<forall>i < length (ms_blocks s). ms_blocks s ! i \<longrightarrow> Suc i * bs \<le> unat (ms_available s))"

lemma BLOCK_SIZE_nat [simp]: "unat BLOCK_SIZE = bs"
  by (simp add: BLOCK_SIZE_def)

lemma unat_blocks: "k * bs < 2 ^ 64 \<Longrightarrow> unat (of_nat k * BLOCK_SIZE) = k * bs"
  by (simp add: unat_word_ariths unat_of_nat)

lemma mem_round_le: "mem_round x \<le> x"
proof -
  have "unat x div bs * bs \<le> unat x" by simp
  then have "unat (mem_round x) = unat x div bs * bs"
    using unat_lt_64 [of x] by (simp add: mem_round_def unat_word_ariths unat_div)
  then show ?thesis by (simp add: word_le_nat_alt)
qed

section \<open>Filling a span\<close>

lemma length_fill_span [simp]: "first + n \<le> length xs \<Longrightarrow> length (fill_span first n v xs) = length xs"
  by (simp add: fill_span_def)

lemma nth_fill_span:
  "first + n \<le> length xs \<Longrightarrow> i < length xs \<Longrightarrow>
     fill_span first n v xs ! i = (if first \<le> i \<and> i < first + n then v else xs ! i)"
  by (auto simp: fill_span_def nth_append)

lemma filter_fill_span:
  assumes "first + n \<le> length xs"
  shows "length (filter P (fill_span first n v xs)) + length (filter P (slice_at first n xs)) =
    length (filter P xs) + (if P v then n else 0)"
proof -
  have "xs = take first xs @ slice_at first n xs @ drop (first + n) xs"
    by (simp add: slice_at_def) (metis add.commute append_take_drop_id drop_drop)
  then have "length (filter P xs) = length (filter P (take first xs)) + length (filter P (slice_at first n xs)) +
      length (filter P (drop (first + n) xs))"
    by (metis filter_append length_append add.assoc)
  then show ?thesis by (simp add: fill_span_def)
qed

lemma in_slice:
  "first + n \<le> length xs \<Longrightarrow> list_ex P (slice_at first n xs) \<longleftrightarrow> (\<exists>i. first \<le> i \<and> i < first + n \<and> P (xs ! i))"
proof -
  assume l: "first + n \<le> length xs"
  have "list_ex P (slice_at first n xs) \<longleftrightarrow> (\<exists>j < n. P (xs ! (first + j)))"
    using l by (auto simp: list_ex_length slice_at_def)
  also have "\<dots> \<longleftrightarrow> (\<exists>i. first \<le> i \<and> i < first + n \<and> P (xs ! i))"
    by (metis add_less_cancel_left le_Suc_ex le_add1)
  finally show ?thesis .
qed

section \<open>Requests\<close>

text \<open>\<^verbatim>\<open>struct virtio_mem_req\<close> as the driver writes it.\<close>

definition mem_req :: "u16 \<Rightarrow> u64 \<Rightarrow> u16 \<Rightarrow> bytes" where
  "mem_req kind addr n = to_le_bytes kind @ replicate 6 0 @ to_le_bytes addr @ to_le_bytes n @ replicate 6 0"

lemma mem_req_fields [simp]:
  "from_le_bytes (slice_at 0 2 (mem_req kind addr n)) = kind"
  "from_le_bytes (slice_at 8 8 (mem_req kind addr n)) = addr"
  "from_le_bytes (slice_at 16 2 (mem_req kind addr n)) = n"
  by (simp_all add: mem_req_def slice_at_def)

lemma block_of_eq:
  assumes "mem_ok s"
  shows "block_of s a = Some first \<longleftrightarrow> unat a = unat (ms_addr s) + first * bs \<and> first < length (ms_blocks s)"
proof -
  have e: "unat (ms_addr s + ms_region s) = unat (ms_addr s) + bs * length (ms_blocks s)"
    and d: "bs dvd unat (ms_addr s)"
    using assms unat_add_no_wrap [of "ms_addr s" "ms_region s"] by (simp_all add: mem_ok_def)
  have "a mod BLOCK_SIZE = 0 \<longleftrightarrow> bs dvd unat a"
    by (metis BLOCK_SIZE_nat dvd_eq_mod_eq_0 unat_mod unsigned_eq_0_iff)
  then have m: "is_multiple_of a BLOCK_SIZE \<longleftrightarrow> bs dvd unat a"
    by (simp add: is_multiple_of_def BLOCK_SIZE_def)
  show ?thesis
  proof (cases "ms_addr s \<le> a \<and> bs dvd unat a")
    case True
    then obtain k where k: "unat a = unat (ms_addr s) + k * bs"
      using d by (metis dvd_diff_nat dvd_def le_add_diff_inverse mult.commute word_le_nat_alt)
    have "unat ((a - ms_addr s) div BLOCK_SIZE) = k"
      using True k by (simp add: unat_div unat_sub_le)
    then show ?thesis
      using True k e m by (auto simp: block_of_def word_less_nat_alt word_le_nat_alt not_less)
  next
    case False
    have "unat a \<noteq> unat (ms_addr s) + first * bs"
    proof
      assume "unat a = unat (ms_addr s) + first * bs"
      with d have "bs dvd unat a" "ms_addr s \<le> a" by (simp_all add: word_le_nat_alt)
      with False show False by simp
    qed
    then show ?thesis using False m by (auto simp: block_of_def not_le)
  qed
qed

text \<open>What an acknowledged plug, a refused one and the others are, over the blocks.\<close>

definition may_plug :: "mem_state \<Rightarrow> nat \<Rightarrow> nat \<Rightarrow> bool" where
  "may_plug s first n \<longleftrightarrow> (first + n) * bs \<le> unat (ms_available s) \<and>
     (\<forall>i. first \<le> i \<and> i < first + n \<longrightarrow> \<not> ms_blocks s ! i) \<and> unat (ms_plugged s) + n * bs \<le> unat (requested_bytes s)"

definition may_unplug :: "mem_state \<Rightarrow> nat \<Rightarrow> nat \<Rightarrow> bool" where
  "may_unplug s first n \<longleftrightarrow> (\<forall>i. first \<le> i \<and> i < first + n \<longrightarrow> ms_blocks s ! i)"

lemma held_le: "held_in s \<le> length (ms_blocks s)"
  by (simp add: held_in_def)

lemma plug_room:
  assumes "mem_ok s" "first + n \<le> length (ms_blocks s)"
  shows "(first + n) * bs < 2 ^ 64" "n * bs < 2 ^ 64"
proof -
  have "(first + n) * bs \<le> bs * length (ms_blocks s)" using assms(2) by simp
  also have "\<dots> < 2 ^ 64" using assms(1) unat_lt_64 [of "ms_region s"] by (simp add: mem_ok_def)
  finally show "(first + n) * bs < 2 ^ 64" .
  then show "n * bs < 2 ^ 64" by simp
qed

lemma refused_unless:
  "(if A then x else if B then x else if C then x else y) = (if \<not> A \<and> \<not> B \<and> \<not> C then y else x)"
  by auto

lemma mem_handle_plug:
  assumes ok: "mem_ok s" and r: "unat a = unat (ms_addr s) + first * bs" "first + unat n \<le> length (ms_blocks s)" "n \<noteq> 0"
  shows "mem_handle h clk s (mem_req REQ_PLUG a n) mem =
    (if may_plug s first (unat n)
     then Ok (s\<lparr>ms_blocks := fill_span first (unat n) True (ms_blocks s), ms_plugged := ms_plugged s + of_nat (unat n) * BLOCK_SIZE,
                ms_reads := Suc (ms_reads s), ms_plugged_at := clk (ms_reads s)\<rparr>, mem, RESP_ACK, 0)
     else Ok (s, mem, RESP_NACK, 0))"
proof -
  have n: "0 < unat n" using r(3) by (simp add: unat_gt_0)
  then have b: "block_of s a = Some first" using ok r by (simp add: block_of_eq)
  note room = plug_room [OF ok r(2)]
  have av: "ms_available s < of_nat (first + unat n) * BLOCK_SIZE \<longleftrightarrow> \<not> (first + unat n) * bs \<le> unat (ms_available s)"
    unfolding word_less_nat_alt unat_blocks [OF room(1)] by (simp only: not_le)
  have none: "list_ex (\<lambda>b. b) (slice_at first (unat n) (ms_blocks s)) \<longleftrightarrow> (\<exists>i. first \<le> i \<and> i < first + unat n \<and> ms_blocks s ! i)"
    by (rule in_slice [OF r(2)])
  have "unat (ms_plugged s + of_nat (unat n) * BLOCK_SIZE) = unat (ms_plugged s) + unat n * bs"
    if "\<not> (\<exists>i. first \<le> i \<and> i < first + unat n \<and> ms_blocks s ! i)"
  proof -
    have "filter (\<lambda>b. b) (slice_at first (unat n) (ms_blocks s)) = []"
      using that none by (auto simp: filter_empty_conv list_ex_iff)
    then have "held_in s + unat n \<le> length (ms_blocks s)"
      using filter_fill_span [OF r(2), of "\<lambda>b. b" True] length_filter_le [of "\<lambda>b. b" "fill_span first (unat n) True (ms_blocks s)"] r(2)
      by (simp add: held_in_def)
    then have "bs * (held_in s + unat n) \<le> unat (ms_region s)" using ok by (simp add: mem_ok_def)
    then have "unat (ms_plugged s) + unat n * bs < 2 ^ 64"
      using ok unat_lt_64 [of "ms_region s"] by (simp add: mem_ok_def)
    then show ?thesis
      using unat_add_no_wrap [of "ms_plugged s" "of_nat (unat n) * BLOCK_SIZE"] unat_blocks [OF room(2)] by simp
  qed
  then have fit: "\<not> (\<exists>i. first \<le> i \<and> i < first + unat n \<and> ms_blocks s ! i) \<Longrightarrow>
      requested_bytes s < ms_plugged s + of_nat (unat n) * BLOCK_SIZE \<longleftrightarrow> \<not> unat (ms_plugged s) + unat n * bs \<le> unat (requested_bytes s)"
    unfolding word_less_nat_alt by (metis not_le)
  have fields: "mem_handle h clk s (mem_req REQ_PLUG a n) mem =
     (if ms_available s < of_nat (first + unat n) * BLOCK_SIZE then Ok (s, mem, RESP_NACK, 0)
      else if list_ex (\<lambda>b. b) (slice_at first (unat n) (ms_blocks s)) then Ok (s, mem, RESP_NACK, 0)
      else if requested_bytes s < ms_plugged s + of_nat (unat n) * BLOCK_SIZE then Ok (s, mem, RESP_NACK, 0)
      else Ok (s\<lparr>ms_blocks := fill_span first (unat n) True (ms_blocks s), ms_plugged := ms_plugged s + of_nat (unat n) * BLOCK_SIZE,
                ms_reads := Suc (ms_reads s), ms_plugged_at := clk (ms_reads s)\<rparr>, mem, RESP_ACK, 0))"
    using n r(2) by (simp add: mem_handle_def b monotonic_ms_def Let_def mem_wire_consts del: of_nat_add)
  have may: "may_plug s first (unat n) \<longleftrightarrow> \<not> ms_available s < of_nat (first + unat n) * BLOCK_SIZE \<and>
      \<not> list_ex (\<lambda>b. b) (slice_at first (unat n) (ms_blocks s)) \<and> \<not> requested_bytes s < ms_plugged s + of_nat (unat n) * BLOCK_SIZE"
    unfolding may_plug_def av none using fit by blast
  show ?thesis unfolding fields may by (rule refused_unless)
qed

lemma mem_handle_unplug:
  assumes ok: "mem_ok s" and r: "unat a = unat (ms_addr s) + first * bs" "first + unat n \<le> length (ms_blocks s)" "n \<noteq> 0"
  shows "mem_handle h clk s (mem_req REQ_UNPLUG a n) mem =
    (if may_unplug s first (unat n)
     then result_bind (release_quietly h mem a (of_nat (unat n) * BLOCK_SIZE)) (\<lambda>mem'.
       Ok (s\<lparr>ms_blocks := fill_span first (unat n) False (ms_blocks s), ms_plugged := ms_plugged s - of_nat (unat n) * BLOCK_SIZE\<rparr>, mem', RESP_ACK, 0))
     else Ok (s, mem, RESP_NACK, 0))"
proof -
  have n: "0 < unat n" using r(3) by (simp add: unat_gt_0)
  then have b: "block_of s a = Some first" using ok r by (simp add: block_of_eq)
  have "list_ex (\<lambda>b. \<not> b) (slice_at first (unat n) (ms_blocks s)) \<longleftrightarrow> \<not> may_unplug s first (unat n)"
    unfolding in_slice [OF r(2)] may_unplug_def by blast
  then show ?thesis
    using n r(2) by (simp add: mem_handle_def b Let_def mem_wire_consts)
qed

lemma mem_handle_state:
  assumes ok: "mem_ok s" and r: "unat a = unat (ms_addr s) + first * bs" "first + unat n \<le> length (ms_blocks s)" "n \<noteq> 0"
  shows "mem_handle h clk s (mem_req REQ_STATE a n) mem =
    Ok (s, mem, RESP_ACK, if (\<forall>i. first \<le> i \<and> i < first + unat n \<longrightarrow> \<not> ms_blocks s ! i) then STATE_UNPLUGGED
      else if may_unplug s first (unat n) then STATE_PLUGGED else STATE_MIXED)"
proof -
  have n: "0 < unat n" using r(3) by (simp add: unat_gt_0)
  then have b: "block_of s a = Some first" using ok r by (simp add: block_of_eq)
  let ?x = "slice_at first (unat n) (ms_blocks s)"
  have l: "length ?x = unat n" using r(2) by simp
  have "length (filter (\<lambda>b. b) ?x) = 0 \<longleftrightarrow> \<not> list_ex (\<lambda>b. b) ?x"
    by (simp add: filter_empty_conv list_ex_iff)
  then have z: "length (filter (\<lambda>b. b) ?x) = 0 \<longleftrightarrow> (\<forall>i. first \<le> i \<and> i < first + unat n \<longrightarrow> \<not> ms_blocks s ! i)"
    unfolding in_slice [OF r(2)] by blast
  have "length (filter (\<lambda>b. b) ?x) = unat n \<longleftrightarrow> filter (\<lambda>b. b) ?x = ?x"
    using l by (metis filter_id_conv length_filter_less less_irrefl)
  also have "\<dots> \<longleftrightarrow> \<not> list_ex (\<lambda>b. \<not> b) ?x" by (auto simp: filter_id_conv list_ex_iff)
  finally have a: "length (filter (\<lambda>b. b) ?x) = unat n \<longleftrightarrow> may_unplug s first (unat n)"
    unfolding in_slice [OF r(2)] may_unplug_def by blast
  have "mem_handle h clk s (mem_req REQ_STATE a n) mem =
    Ok (s, mem, RESP_ACK, if length (filter (\<lambda>b. b) ?x) = 0 then STATE_UNPLUGGED
      else if length (filter (\<lambda>b. b) ?x) = unat n then STATE_PLUGGED else STATE_MIXED)"
    using n r(2) by (simp add: mem_handle_def b Let_def mem_wire_consts)
  then show ?thesis unfolding z a .
qed


section \<open>The account\<close>

lemma mem_ok_plugged:
  assumes ok: "mem_ok s" and l: "first + n \<le> length (ms_blocks s)" and may: "may_plug s first n"
  shows "mem_ok (s\<lparr>ms_blocks := fill_span first n True (ms_blocks s), ms_plugged := ms_plugged s + of_nat n * BLOCK_SIZE,
                   ms_reads := r, ms_plugged_at := t\<rparr>)"
proof -
  let ?bl = "fill_span first n True (ms_blocks s)"
  have "\<not> list_ex (\<lambda>b. b) (slice_at first n (ms_blocks s))"
    using may unfolding in_slice [OF l] may_plug_def by blast
  then have "filter (\<lambda>b. b) (slice_at first n (ms_blocks s)) = []" by (auto simp: filter_empty_conv list_ex_iff)
  then have c: "length (filter (\<lambda>b. b) ?bl) = held_in s + n"
    using filter_fill_span [OF l, of "\<lambda>b. b" True] by (simp add: held_in_def)
  have "requested_bytes s \<le> ms_region s" using ok by (simp add: mem_ok_def requested_bytes_def min_le_iff_disj)
  then have "unat (ms_plugged s) + n * bs < 2 ^ 64"
    using may unat_lt_64 [of "requested_bytes s"] by (simp add: may_plug_def)
  then have "unat (ms_plugged s + of_nat n * BLOCK_SIZE) = bs * (held_in s + n)"
    using ok unat_add_no_wrap [of "ms_plugged s" "of_nat n * BLOCK_SIZE"] unat_blocks [of n] by (simp add: mem_ok_def)
  moreover have "Suc i * bs \<le> unat (ms_available s)" if "i < length (ms_blocks s)" "?bl ! i" for i
  proof (cases "first \<le> i \<and> i < first + n")
    case True
    then have "Suc i * bs \<le> (first + n) * bs" by (intro mult_le_mono1) simp
    then show ?thesis using may by (simp only: may_plug_def order_trans)
  next
    case False
    then show ?thesis using that ok nth_fill_span [OF l, of i True] by (auto simp: mem_ok_def)
  qed
  ultimately show ?thesis using ok l c by (simp add: mem_ok_def held_in_def)
qed

lemma mem_ok_unplugged:
  assumes ok: "mem_ok s" and l: "first + n \<le> length (ms_blocks s)" and may: "may_unplug s first n"
  shows "mem_ok (s\<lparr>ms_blocks := fill_span first n False (ms_blocks s), ms_plugged := ms_plugged s - of_nat n * BLOCK_SIZE\<rparr>)"
proof -
  let ?bl = "fill_span first n False (ms_blocks s)"
  have "\<not> list_ex (\<lambda>b. \<not> b) (slice_at first n (ms_blocks s))"
    using may unfolding in_slice [OF l] may_unplug_def by blast
  then have "filter (\<lambda>b. b) (slice_at first n (ms_blocks s)) = slice_at first n (ms_blocks s)"
    by (auto simp: filter_id_conv list_ex_iff)
  then have c: "length (filter (\<lambda>b. b) ?bl) + n = held_in s"
    using filter_fill_span [OF l, of "\<lambda>b. b" False] l by (simp add: held_in_def)
  have nb: "unat (of_nat n * BLOCK_SIZE) = n * bs" by (rule unat_blocks [OF plug_room(2) [OF ok l]])
  have p: "unat (ms_plugged s) = bs * (length (filter (\<lambda>b. b) ?bl) + n)" using ok c by (simp add: mem_ok_def)
  then have "unat (ms_plugged s - of_nat n * BLOCK_SIZE) = bs * length (filter (\<lambda>b. b) ?bl)"
    using nb unat_sub_le [of "of_nat n * BLOCK_SIZE" "ms_plugged s"] by (simp add: word_le_nat_alt algebra_simps)
  moreover have "Suc i * bs \<le> unat (ms_available s)" if "i < length (ms_blocks s)" "?bl ! i" for i
    using that ok nth_fill_span [OF l, of i False] by (auto simp: mem_ok_def split: if_splits)
  ultimately show ?thesis using ok l by (simp add: mem_ok_def held_in_def)
qed

lemma mem_ok_cleared: "mem_ok s \<Longrightarrow> mem_ok (s\<lparr>ms_blocks := map (\<lambda>_. False) (ms_blocks s), ms_plugged := 0, ms_reads := r, ms_plugged_at := t\<rparr>)"
  by (simp add: mem_ok_def held_in_def filter_empty_conv)

lemma mem_handle_by_fields:
  "mem_handle h clk s req mem = mem_handle h clk s
     (mem_req (from_le_bytes (slice_at 0 2 req)) (from_le_bytes (slice_at 8 8 req)) (from_le_bytes (slice_at 16 2 req))) mem"
  by (simp only: mem_handle_def mem_req_fields)

lemma mem_handle_outside:
  "mem_ok s \<Longrightarrow> kind \<notin> {REQ_PLUG, REQ_UNPLUG, REQ_UNPLUG_ALL} \<or> block_of s a = None \<or>
     (kind \<noteq> REQ_UNPLUG_ALL \<and> (n = 0 \<or> length (ms_blocks s) < the (block_of s a) + unat n)) \<Longrightarrow>
   mem_handle h clk s (mem_req kind a n) mem = Ok (s', mem', k, st) \<Longrightarrow> s' = s \<and> mem' = mem"
  by (cases "block_of s a") (auto simp: mem_handle_def Let_def split: if_splits)

lemma mem_handle_all:
  "mem_handle h clk s (mem_req REQ_UNPLUG_ALL a n) mem = Ok (s', mem', k, st) \<Longrightarrow>
     s' = s \<or> s' = s\<lparr>ms_blocks := map (\<lambda>_. False) (ms_blocks s), ms_plugged := 0\<rparr>"
  by (auto simp: mem_handle_def Let_def mem_wire_consts split: option.splits if_splits)

lemma mem_handle_ok:
  assumes ok: "mem_ok s" and r: "mem_handle h clk s req mem = Ok (s', mem', k, st)"
  shows "mem_ok s'"
proof -
  obtain kind a n where q: "mem_handle h clk s (mem_req kind a n) mem = Ok (s', mem', k, st)"
    using r mem_handle_by_fields by metis
  show ?thesis
  proof (cases "kind \<notin> {REQ_PLUG, REQ_UNPLUG, REQ_UNPLUG_ALL} \<or> block_of s a = None \<or>
     (kind \<noteq> REQ_UNPLUG_ALL \<and> (n = 0 \<or> length (ms_blocks s) < the (block_of s a) + unat n))")
    case True
    then show ?thesis using mem_handle_outside [OF ok _ q] ok by simp
  next
    case False
    then obtain first where f: "block_of s a = Some first" by auto
    then have a: "unat a = unat (ms_addr s) + first * bs" using ok by (simp add: block_of_eq)
    show ?thesis
    proof (cases "kind = REQ_UNPLUG_ALL")
      case True
      then have "s' = s \<or> s' = s\<lparr>ms_blocks := map (\<lambda>_. False) (ms_blocks s), ms_plugged := 0\<rparr>"
        using mem_handle_all q by blast
      then show ?thesis using ok mem_ok_cleared [OF ok] by (auto simp: mem_ok_def held_in_def)
    next
      case other: False
      with False f have l: "first + unat n \<le> length (ms_blocks s)" "n \<noteq> 0" by auto
      show ?thesis
      proof (cases "kind = REQ_PLUG")
        case True
        then show ?thesis
          using q mem_handle_plug [OF ok a l, of h clk mem] ok mem_ok_plugged [OF ok l(1)] by (auto split: if_splits)
      next
        case unplug: False
        then have "kind = REQ_UNPLUG" using False other by blast
        then show ?thesis
          using q mem_handle_unplug [OF ok a l, of h clk mem] ok mem_ok_unplugged [OF ok l(1)] by (auto split: if_splits)
      qed
    qed
  qed
qed


text \<open>
  The range over the machine's life: it starts empty, its backing ready or deferred; then guest
  requests, offers, growing backing and resets come in any order.
\<close>

inductive mem_life :: "host \<Rightarrow> (nat \<Rightarrow> u64) \<Rightarrow> mem_state \<Rightarrow> bool" for h clk where
  boot: "bs dvd unat addr \<Longrightarrow> bs dvd unat region \<Longrightarrow> unat addr + unat region < 2 ^ 64 \<Longrightarrow>
    s = mem_new base addr region requested \<or> s = defer_backing (mem_new base addr region requested) \<Longrightarrow> mem_life h clk s"
| handled: "mem_life h clk s \<Longrightarrow> mem_handle h clk s req mem = Ok (s', mem', k, st) \<Longrightarrow> mem_life h clk s'"
| offered: "mem_life h clk s \<Longrightarrow> mem_request clk s n = (s', rounded, told) \<Longrightarrow> mem_life h clk s'"
| prepared: "mem_life h clk s \<Longrightarrow> backing_ready s n = Ok s' \<Longrightarrow> mem_life h clk s'"
| driver_gone: "mem_life h clk s \<Longrightarrow> mem_life h clk (mem_reset clk s)"

lemma mem_life_ok: "mem_life h clk s \<Longrightarrow> mem_ok s"
proof (induction rule: mem_life.induct)
  case (boot addr region s base requested)
  have "unat (region div BLOCK_SIZE) * bs = unat region" using boot(2) by (simp add: unat_div)
  moreover have "mem_round (min requested region) \<le> region"
    using mem_round_le [of "min requested region"] by (meson min.cobounded2 order_trans)
  ultimately show ?case
    using boot by (auto simp: mem_ok_def held_in_def mem_new_def defer_backing_def filter_empty_conv)
next
  case (handled s req mem s' mem' k st)
  then show ?case using mem_handle_ok by blast
next
  case (offered s n s' rounded told)
  have "mem_round (min n (ms_region s)) \<le> ms_region s"
    using mem_round_le [of "min n (ms_region s)"] by (meson min.cobounded2 order_trans)
  then show ?case
    using offered by (auto simp: mem_request_def set_requested_bytes_def monotonic_ms_def Let_def mem_ok_def held_in_def split: if_splits)
next
  case (prepared s n s')
  then show ?case
    by (auto simp: backing_ready_def mem_ok_def held_in_def word_le_nat_alt split: if_splits intro: order_trans)
next
  case (driver_gone s)
  then show ?case using mem_ok_cleared by (simp add: mem_reset_def monotonic_ms_def Let_def)
qed


text \<open>C21: Requests are granted exactly when they should be. For a span of blocks inside the range: a plug
  is acknowledged exactly when the span's backing is ready, the guest holds none of its blocks and
  the offer covers what it would then hold, and then exactly those blocks are marked held; an unplug
  exactly when the guest holds all of them, and then exactly those are given up; a state query
  answers plugged, unplugged or mixed. A refused request changes nothing.\<close>

theorem mem_requests_exact:
  assumes "mem_life h clk s" "unat a = unat (ms_addr s) + first * 134217728" "first + unat n \<le> length (ms_blocks s)" "n \<noteq> 0"
  shows "(may_plug s first (unat n) \<longrightarrow> (\<exists>s'. mem_handle h clk s (mem_req REQ_PLUG a n) mem = Ok (s', mem, RESP_ACK, 0) \<and>
        ms_plugged s' \<le> requested_bytes s' \<and>
        (\<forall>i < length (ms_blocks s). ms_blocks s' ! i = (first \<le> i \<and> i < first + unat n \<or> ms_blocks s ! i)))) \<and>
    (\<not> may_plug s first (unat n) \<longrightarrow> mem_handle h clk s (mem_req REQ_PLUG a n) mem = Ok (s, mem, RESP_NACK, 0)) \<and>
    (\<forall>s' mem' k st. mem_handle h clk s (mem_req REQ_UNPLUG a n) mem = Ok (s', mem', k, st) \<longrightarrow>
       (if may_unplug s first (unat n)
        then k = RESP_ACK \<and> (\<forall>i < length (ms_blocks s). ms_blocks s' ! i = (\<not> (first \<le> i \<and> i < first + unat n) \<and> ms_blocks s ! i))
        else k = RESP_NACK \<and> s' = s \<and> mem' = mem)) \<and>
    mem_handle h clk s (mem_req REQ_STATE a n) mem =
      Ok (s, mem, RESP_ACK, if (\<forall>i. first \<le> i \<and> i < first + unat n \<longrightarrow> \<not> ms_blocks s ! i) then STATE_UNPLUGGED
        else if may_unplug s first (unat n) then STATE_PLUGGED else STATE_MIXED)"
proof (intro conjI impI)
  have ok: "mem_ok s" by (rule mem_life_ok [OF assms(1)])
  note span = assms(2-4)
  show "mem_handle h clk s (mem_req REQ_STATE a n) mem =
      Ok (s, mem, RESP_ACK, if (\<forall>i. first \<le> i \<and> i < first + unat n \<longrightarrow> \<not> ms_blocks s ! i) then STATE_UNPLUGGED
        else if may_unplug s first (unat n) then STATE_PLUGGED else STATE_MIXED)"
    by (rule mem_handle_state [OF ok span])
  show "\<not> may_plug s first (unat n) \<Longrightarrow> mem_handle h clk s (mem_req REQ_PLUG a n) mem = Ok (s, mem, RESP_NACK, 0)"
    using mem_handle_plug [OF ok span, of h clk mem] by simp
  show "\<forall>s' mem' k st. mem_handle h clk s (mem_req REQ_UNPLUG a n) mem = Ok (s', mem', k, st) \<longrightarrow>
       (if may_unplug s first (unat n)
        then k = RESP_ACK \<and> (\<forall>i < length (ms_blocks s). ms_blocks s' ! i = (\<not> (first \<le> i \<and> i < first + unat n) \<and> ms_blocks s ! i))
        else k = RESP_NACK \<and> s' = s \<and> mem' = mem)"
    using mem_handle_unplug [OF ok span, of h clk mem] span(2) by (auto simp: nth_fill_span split: if_splits)
  assume may: "may_plug s first (unat n)"
  then have "unat (ms_plugged s) + unat n * bs \<le> unat (requested_bytes s)" by (simp add: may_plug_def)
  moreover from this have "unat (ms_plugged s + of_nat (unat n) * BLOCK_SIZE) = unat (ms_plugged s) + unat n * bs"
    using unat_lt_64 [of "requested_bytes s"] unat_blocks [of "unat n"]
      unat_add_no_wrap [of "ms_plugged s" "of_nat (unat n) * BLOCK_SIZE"] by simp
  ultimately have "ms_plugged s + of_nat (unat n) * BLOCK_SIZE \<le> requested_bytes s" by (simp add: word_le_nat_alt)
  then show "\<exists>s'. mem_handle h clk s (mem_req REQ_PLUG a n) mem = Ok (s', mem, RESP_ACK, 0) \<and> ms_plugged s' \<le> requested_bytes s' \<and>
      (\<forall>i < length (ms_blocks s). ms_blocks s' ! i = (first \<le> i \<and> i < first + unat n \<or> ms_blocks s ! i))"
    using mem_handle_plug [OF ok span, of h clk mem] may span(2) by (auto simp: nth_fill_span requested_bytes_def)
qed

text \<open>C22: An unplug-all that carries no address is refused. The request has no address of its own, and a
  driver leaves that field zero; with the range anywhere above zero the device answers with an error and every block
  stays held, although the range could have been given back.\<close>

theorem unplug_all_needs_address:
  assumes "ms_addr s \<noteq> 0"
  shows "mem_handle h clk s (mem_req REQ_UNPLUG_ALL 0 0) mem = Ok (s, mem, RESP_ERROR, 0)"
proof -
  have "0 < ms_addr s" using assms by (simp add: word_neq_0_conv)
  then have "block_of s 0 = None" by (simp add: block_of_def)
  then show ?thesis by (simp add: mem_handle_def Let_def)
qed


section \<open>The properties at work\<close>

text \<open>Two blocks beside a gigabyte of RAM, both offered; the guest plugs the second.\<close>

definition demo_range :: mem_state where
  "demo_range = mem_new 0x40000000 0x80000000 0x10000000 0x10000000"

lemma demo_range_life: "mem_life demo_host (\<lambda>_. 7) demo_range"
  by (rule mem_life.boot [of "0x80000000" "0x10000000" _ "0x40000000" "0x10000000"]) (simp_all add: demo_range_def)

lemma replicate_two: "replicate 2 x = [x, x]"
  by (simp add: numeral_2_eq_2)

lemma demo_range_fields:
  "ms_addr demo_range = 0x80000000" "ms_blocks demo_range = [False, False]" "ms_plugged demo_range = 0"
  "ms_available demo_range = 0x10000000" "requested_bytes demo_range = 0x10000000"
  by (simp_all add: demo_range_def mem_new_def requested_bytes_def mem_round_def BLOCK_SIZE_def replicate_two)

lemma demo_may_plug: "may_plug demo_range 1 1"
proof -
  have "\<not> ms_blocks demo_range ! i" if "1 \<le> i \<and> i < 1 + 1" for i
  proof -
    from that have "i = 1" by simp
    then show ?thesis by (simp add: demo_range_fields)
  qed
  then show ?thesis unfolding may_plug_def by (simp add: demo_range_fields)
qed

theorem mem_requests_exact_witness:
  "\<exists>s'. mem_handle demo_host (\<lambda>_. 7) demo_range (mem_req REQ_PLUG 0x88000000 1) gm_new = Ok (s', gm_new, RESP_ACK, 0) \<and>
     ms_plugged s' \<le> requested_bytes s' \<and> ms_blocks s' ! 1 \<and> \<not> ms_blocks s' ! 0"
proof -
  obtain s' where "mem_handle demo_host (\<lambda>_. 7) demo_range (mem_req REQ_PLUG 0x88000000 1) gm_new = Ok (s', gm_new, RESP_ACK, 0)"
      "ms_plugged s' \<le> requested_bytes s'" "\<forall>i < 2. ms_blocks s' ! i = (1 \<le> i \<and> i < 1 + unat (1 :: u16) \<or> ms_blocks demo_range ! i)"
    using mem_requests_exact [OF demo_range_life, of "0x88000000" 1 1 gm_new] demo_may_plug
    by (auto simp: demo_range_fields)
  then show ?thesis by (auto simp: demo_range_fields)
qed


theorem unplug_all_needs_address_witness:
  "mem_handle demo_host (\<lambda>_. 7) demo_range (mem_req REQ_UNPLUG_ALL 0 0) gm_new = Ok (demo_range, gm_new, RESP_ERROR, 0)"
  by (rule unplug_all_needs_address) (simp add: demo_range_fields)

end
