(* ===== verification/Virtio_Balloon.thy ===== *)
theory Virtio_Balloon
  imports Virtio_Drain Guest_Release
begin

text \<open>
  virtio-balloon, \<^verbatim>\<open>virtio/balloon.rs\<close>: inflation and deflation by page frame number, and free page
  reporting. A page frame is 4 KiB whatever the host's page size, so frames are sorted and joined
  into runs before anything is released.
\<close>

definition BALLOON_PAGE_SIZE :: u64 where "BALLOON_PAGE_SIZE = 4096"
definition QUEUE_INFLATE :: u16 where "QUEUE_INFLATE = 0"
definition QUEUE_DEFLATE :: u16 where "QUEUE_DEFLATE = 1"
definition QUEUE_REPORTING :: u16 where "QUEUE_REPORTING = 2"
definition F_MUST_TELL_HOST :: u64 where "F_MUST_TELL_HOST = 1"
definition F_DEFLATE_ON_OOM :: u64 where "F_DEFLATE_ON_OOM = 4"
definition F_REPORTING :: u64 where "F_REPORTING = 32"

record balloon =
  bl_target :: u32
  bl_actual :: u32
  bl_reported :: u64
  bl_offered :: u64
  bl_acked :: u64

definition balloon_new :: balloon where
  "balloon_new = \<lparr>bl_target = 0, bl_actual = 0, bl_reported = 0, bl_offered = 0, bl_acked = 0\<rparr>"

definition set_target_pages :: "balloon \<Rightarrow> u32 \<Rightarrow> balloon" where
  "set_target_pages b n = b\<lparr>bl_target := n\<rparr>"

definition ballooned_bytes :: "balloon \<Rightarrow> u64" where
  "ballooned_bytes b = ucast (bl_actual b) * BALLOON_PAGE_SIZE"

section \<open>Inflating and deflating\<close>

definition read_pfns :: "guest_memory \<Rightarrow> descriptor list \<Rightarrow> u32 list" where
  "read_pfns mem ds =
     concat (map (\<lambda>desc. if is_write_only desc then []
       else concat (map (\<lambda>i. case read_u32 mem (d_addr desc + of_nat i * 4) of Ok pfn \<Rightarrow> [pfn] | _ \<Rightarrow> [])
         [0 ..< unat (d_len desc div 4)])) ds)"

definition release_run :: "host \<Rightarrow> guest_memory \<Rightarrow> u32 \<Rightarrow> u32 \<Rightarrow> (memory_error, guest_memory \<times> u64) result" where
  "release_run h m fst_pfn last_pfn =
     (let gpa = ucast fst_pfn * BALLOON_PAGE_SIZE;
          len = (ucast last_pfn - ucast fst_pfn + 1) * BALLOON_PAGE_SIZE in
      case gm_release h m gpa len of
        (m', Ok n) \<Rightarrow> Ok (m', n)
      | (m', Err x) \<Rightarrow> Ok (m', 0)
      | (m', Panic) \<Rightarrow> Panic)"

fun release_joined :: "host \<Rightarrow> guest_memory \<Rightarrow> u32 \<Rightarrow> u32 \<Rightarrow> u64 \<Rightarrow> u32 list \<Rightarrow> (memory_error, guest_memory \<times> u64) result" where
  "release_joined h m run_start run_end released [] =
     result_bind (release_run h m run_start run_end) (\<lambda>(m', n). Ok (m', released + n))"
| "release_joined h m run_start run_end released (pfn # pfns) =
     (if pfn = run_end + 1 then release_joined h m run_start pfn released pfns
      else result_bind (release_run h m run_start run_end) (\<lambda>(m', n).
        release_joined h m' pfn pfn (released + n) pfns))"

definition release_frames :: "host \<Rightarrow> guest_memory \<Rightarrow> u32 list \<Rightarrow> (memory_error, guest_memory \<times> u64) result" where
  "release_frames h m pfns =
     (case remdups_adj (sort pfns) of [] \<Rightarrow> Ok (m, 0) | p # ps \<Rightarrow> release_joined h m p p 0 ps)"

definition serve_pfns ::
  "host \<Rightarrow> bool \<Rightarrow> balloon \<Rightarrow> guest_memory \<Rightarrow> chain \<Rightarrow> (memory_error, balloon \<times> guest_memory \<times> u32) result" where
  "serve_pfns h inflating b mem c =
     (let pfns = read_pfns mem (chain_descs mem c) in
      if inflating
      then result_bind (release_frames h mem pfns) (\<lambda>(mem', _).
        Ok (b\<lparr>bl_actual := bl_actual b + of_nat (length pfns)\<rparr>, mem', 0))
      else Ok (b\<lparr>bl_actual := bl_actual b - min (of_nat (length pfns)) (bl_actual b)\<rparr>, mem, 0))"

section \<open>Free page reporting\<close>

definition serve_reporting ::
  "host \<Rightarrow> balloon \<Rightarrow> guest_memory \<Rightarrow> chain \<Rightarrow> (memory_error, balloon \<times> guest_memory \<times> u32) result" where
  "serve_reporting h b mem c =
     (let spans = map (\<lambda>desc. (d_addr desc, ucast (d_len desc) :: u64)) (chain_descs mem c);
          offered = sum_list (map snd spans) in
      case release_reported h mem spans of
        (mem', Panic) \<Rightarrow> Panic
      | (mem', r) \<Rightarrow>
          let released = (case r of Ok n \<Rightarrow> n | _ \<Rightarrow> 0);
              b1 = b\<lparr>bl_offered := bl_offered b + offered\<rparr> in
          Ok (if 0 < released then b1\<lparr>bl_reported := bl_reported b1 + released\<rparr> else b1, mem', 0))"

section \<open>The device\<close>

definition balloon_config_read :: "balloon \<Rightarrow> u64 \<Rightarrow> nat \<Rightarrow> bytes" where
  "balloon_config_read b offset n =
     map (\<lambda>i. let config = to_le_bytes (bl_target b) @ to_le_bytes (bl_actual b) in
       if unat offset + i < length config then config ! (unat offset + i) else 0) [0 ..< n]"

definition balloon_notify ::
  "host \<Rightarrow> balloon \<Rightarrow> u16 \<Rightarrow> virtqueue list \<Rightarrow> guest_memory \<Rightarrow>
   (memory_error, balloon \<times> virtqueue list \<times> guest_memory \<times> serviced) run" where
  "balloon_notify h b index qs mem =
     (if length qs \<le> unat index then Some (Ok (b, qs, mem, 0))
      else if index \<notin> {QUEUE_INFLATE, QUEUE_DEFLATE, QUEUE_REPORTING} then Some (Ok (b, qs, mem, serviced_queue_if index False))
      else
        let work = (if index = QUEUE_INFLATE then serve_pfns h True else if index = QUEUE_DEFLATE then serve_pfns h False
                    else serve_reporting h) in
        run_bind (drain_queue work b (qs ! unat index) mem False) (\<lambda>(b', q', mem', used).
          Some (Ok (b', qs[unat index := q'], mem', serviced_queue_if index used))))"

definition balloon_device :: "host \<Rightarrow> balloon virtio_device" where
  "balloon_device h =
     \<lparr>vd_type = 5, vd_features = (\<lambda>_. COMMON_FEATURES OR F_REPORTING OR F_DEFLATE_ON_OOM OR F_MUST_TELL_HOST),
      vd_ack_features = (\<lambda>b f. b\<lparr>bl_acked := f\<rparr>), vd_queue_count = (\<lambda>_. 3), vd_queue_max_size_of = (\<lambda>_ _. MAX_QUEUE_SIZE),
      vd_shm_regions = (\<lambda>_. []), vd_config_read = balloon_config_read, vd_config_write = (\<lambda>b _ _. b), vd_activate = (\<lambda>b. b),
      vd_notify = balloon_notify h, vd_retry_deadline = no_deadline, vd_retry_deferred = no_retry,
      vd_reset = (\<lambda>b. b\<lparr>bl_acked := 0, bl_actual := 0, bl_target := 0\<rparr>)\<rparr>"

interpretation balloond: virtio_device_laws "balloon_device h" for h
proof
  fix d i qs mem d' qs' mem' s
  assume "vd_notify (balloon_device h) d i qs mem = Some (Ok (d', qs', mem', s))"
  then have n: "balloon_notify h d i qs mem = Some (Ok (d', qs', mem', s))" by (simp add: balloon_device_def)
  show "map queue_config qs' = map queue_config qs"
  proof (cases "qs' = qs")
    case False
    then obtain work q' used where l: "unat i < length qs" and qs': "qs' = qs[unat i := q']"
        and d: "drain_queue work d (qs ! unat i) mem False = Some (Ok (d', q', mem', used))"
      using n unfolding balloon_notify_def Let_def by (auto simp: not_le simp del: insert_iff split: if_splits)
    then show ?thesis
      using drain_queue_keeps [OF d, of "\<lambda>_. True"] by (simp add: map_update list_update_same_conv)
  qed simp
qed (simp_all add: balloon_device_def no_retry_def)

section \<open>Runs\<close>

text \<open>The runs a sorted list of frames falls into, and releasing them one after another.\<close>

fun frame_runs :: "u32 \<Rightarrow> u32 \<Rightarrow> u32 list \<Rightarrow> (u32 \<times> u32) list" where
  "frame_runs a b [] = [(a, b)]"
| "frame_runs a b (p # ps) = (if p = b + 1 then frame_runs a p ps else (a, b) # frame_runs p p ps)"

fun release_each :: "host \<Rightarrow> guest_memory \<Rightarrow> u64 \<Rightarrow> (u32 \<times> u32) list \<Rightarrow> (memory_error, guest_memory \<times> u64) result" where
  "release_each h m released [] = Ok (m, released)"
| "release_each h m released ((a, b) # rs) =
     result_bind (release_run h m a b) (\<lambda>(m', n). release_each h m' (released + n) rs)"

lemma release_joined_runs: "release_joined h m a b released ps = release_each h m released (frame_runs a b ps)"
proof (induction ps arbitrary: m a b released)
  case Nil
  show ?case by (cases "release_run h m a b") auto
next
  case (Cons p ps)
  show ?case
  proof (cases "p = b + 1")
    case False
    then show ?thesis using Cons by (cases "release_run h m a b") auto
  qed (simp add: Cons)
qed

text \<open>The runs cover the frames, and between two of them at least one frame is missing.\<close>

lemma unat_next_frame: "(b :: u32) < p \<Longrightarrow> unat (b + 1) = unat b + 1"
  using unat_add_no_wrap [of b 1] unat_lt_32 [of p] by (simp add: word_less_nat_alt)

lemma frame_runs_cover:
  assumes "a \<le> b" "sorted_wrt (<) (b # ps)"
  shows "(\<exists>(x, y) \<in> set (frame_runs a b ps). x \<le> q \<and> q \<le> y) \<longleftrightarrow> a \<le> q \<and> q \<le> b \<or> q \<in> set ps"
  using assms
proof (induction ps arbitrary: a b)
  case (Cons p ps)
  have step: "b < p" "sorted_wrt (<) (p # ps)" using Cons.prems by simp_all
  show ?case
  proof (cases "p = b + 1")
    case True
    then have "unat p = unat b + 1" using unat_next_frame [OF step(1)] by simp
    then have q: "q \<le> p \<longleftrightarrow> q \<le> b \<or> q = p" by (simp add: word_le_nat_alt word_unat_eq_iff le_Suc_eq)
    have "a \<le> p" using Cons.prems(1) step(1) by simp
    with q True show ?thesis using Cons.IH [of a p] step(2) by auto
  next
    case False
    then show ?thesis using Cons.IH [of p p] step(2) by auto
  qed
qed simp

lemma frame_runs_apart:
  assumes "a \<le> b" "sorted_wrt (<) (b # ps)"
  shows "sorted_wrt (\<lambda>r r'. unat (snd r) + 1 < unat (fst r')) (frame_runs a b ps) \<and>
    (\<forall>r \<in> set (frame_runs a b ps). fst r \<le> snd r \<and> a \<le> fst r)"
  using assms
proof (induction ps arbitrary: a b)
  case (Cons p ps)
  have step: "b < p" "sorted_wrt (<) (p # ps)" using Cons.prems by simp_all
  show ?case
  proof (cases "p = b + 1")
    case True
    then show ?thesis using Cons.IH [of a p] step Cons.prems(1) by simp
  next
    case False
    then have "unat p \<noteq> unat b + 1" using unat_next_frame [OF step(1)] by (metis word_unat_eq_iff)
    then have far: "unat b + 1 < unat p" using step(1) by (simp add: word_less_nat_alt)
    have "sorted_wrt (\<lambda>r r'. unat (snd r) + 1 < unat (fst r')) (frame_runs p p ps)"
        "\<forall>r \<in> set (frame_runs p p ps). fst r \<le> snd r \<and> p \<le> fst r"
      using Cons.IH [of p p] step(2) by simp_all
    with False far Cons.prems(1) step(1) show ?thesis
      by (fastforce simp: word_le_nat_alt word_less_nat_alt)
  qed
qed simp

text \<open>Which frames an address falls in.\<close>

definition frame_of :: "u64 \<Rightarrow> nat" where
  "frame_of a = unat a div 4096"

lemma run_addresses:
  assumes "x \<le> (y :: u32)"
  shows "in_span (ucast x * BALLOON_PAGE_SIZE) (unat ((ucast y - ucast x + 1) * BALLOON_PAGE_SIZE :: u64)) a \<longleftrightarrow>
    unat x \<le> frame_of a \<and> frame_of a \<le> unat y"
proof -
  have xy: "unat x \<le> unat y" "unat y < 4294967296" using assms unat_lt_32 [of y] by (simp_all add: word_le_nat_alt)
  have frames: "unat (w * BALLOON_PAGE_SIZE) = unat w * 4096" if "unat w \<le> 4294967296" for w :: u64
    using that by (simp add: BALLOON_PAGE_SIZE_def unat_word_ariths)
  have g: "unat (ucast x * BALLOON_PAGE_SIZE :: u64) = unat x * 4096"
    using xy frames [of "ucast x"] by simp
  have "unat (ucast y - ucast x :: u64) = unat y - unat x"
    using xy unat_sub_le [of "ucast x :: u64" "ucast y"] by (simp add: word_le_nat_alt)
  then have one: "unat (ucast y - ucast x + 1 :: u64) = unat y - unat x + 1"
    using xy unat_add_no_wrap [of "ucast y - ucast x :: u64" 1] by simp
  have l: "unat ((ucast y - ucast x + 1) * BALLOON_PAGE_SIZE :: u64) = (unat y - unat x + 1) * 4096"
    unfolding one [symmetric] by (rule frames) (use one xy in linarith)
  have "unat x * 4096 \<le> unat a \<longleftrightarrow> unat x \<le> frame_of a"
    by (simp add: frame_of_def less_eq_div_iff_mult_less_eq)
  moreover have "unat a < (unat y + 1) * 4096 \<longleftrightarrow> frame_of a < unat y + 1"
    by (simp add: frame_of_def div_less_iff_less_mult)
  moreover have "unat x * 4096 + (unat y - unat x + 1) * 4096 = (unat y + 1) * 4096"
    using xy by (simp add: algebra_simps)
  ultimately show ?thesis unfolding in_span_def g l by auto
qed

lemma release_run_discards:
  assumes "wf_memory m" "host_page_size h \<noteq> 0" "x \<le> y" "release_run h m x y = Ok (m', n)"
  shows "wf_memory m' \<and> discards m m' (\<lambda>a. unat x \<le> frame_of a \<and> frame_of a \<le> unat y)"
proof -
  let ?g = "ucast x * BALLOON_PAGE_SIZE :: u64" and ?l = "(ucast y - ucast x + 1) * BALLOON_PAGE_SIZE :: u64"
  have "discards m (fst (gm_release h m ?g ?l)) (in_span ?g (unat ?l))"
    using gm_release_releases [OF assms(1,2), of ?g ?l] by (simp add: releases_pages_def)
  moreover have "m' = fst (gm_release h m ?g ?l)"
    using assms(4) by (auto simp: release_run_def Let_def split: prod.splits result.splits)
  moreover have "in_span ?g (unat ?l) = (\<lambda>a. unat x \<le> frame_of a \<and> frame_of a \<le> unat y)"
    using run_addresses [OF assms(3)] by blast
  ultimately show ?thesis using discards_wf [OF _ assms(1)] by metis
qed

lemma release_each_discards:
  assumes "wf_memory m" "host_page_size h \<noteq> 0" "\<forall>r \<in> set rs. fst r \<le> snd r" "release_each h m released rs = Ok (m', n)"
  shows "wf_memory m' \<and> discards m m' (\<lambda>a. \<exists>r \<in> set rs. unat (fst r) \<le> frame_of a \<and> frame_of a \<le> unat (snd r))"
  using assms
proof (induction rs arbitrary: m released)
  case (Cons r rs)
  obtain x y where r: "r = (x, y)" by (cases r)
  then obtain m1 k where one: "release_run h m x y = Ok (m1, k)" and rest: "release_each h m1 (released + k) rs = Ok (m', n)"
    using Cons.prems(4) by auto
  have d1: "wf_memory m1" "discards m m1 (\<lambda>a. unat x \<le> frame_of a \<and> frame_of a \<le> unat y)"
    using release_run_discards [OF Cons.prems(1,2) _ one] Cons.prems(3) by (simp_all add: r)
  have d2: "wf_memory m'" "discards m1 m' (\<lambda>a. \<exists>r \<in> set rs. unat (fst r) \<le> frame_of a \<and> frame_of a \<le> unat (snd r))"
    using Cons.IH [OF d1(1) Cons.prems(2) _ rest] Cons.prems(3) by simp_all
  show ?case
    using d2(1) discards_trans [OF discards_mono [OF d1(2)] discards_mono [OF d2(2)]] by (auto simp: r)
qed simp


lemma sorted_remdups_strict: "sorted xs \<Longrightarrow> sorted_wrt (<) (remdups_adj (xs :: 'a::linorder list))"
proof (induction xs rule: remdups_adj.induct)
  case (3 x y xs)
  show ?case
  proof (cases "x = y")
    case False
    then have "\<forall>z \<in> set (y # xs). x < z" using 3(3) by auto
    with False 3 show ?thesis by simp
  qed (use 3 in simp)
qed simp_all

lemma sorted_frames: "sorted_wrt (<) (remdups_adj (sort (pfns :: u32 list)))"
  by (simp add: sorted_remdups_strict)

lemma set_frames: "set (remdups_adj (sort pfns)) = set pfns"
  by simp

text \<open>C23: Inflating the balloon gives back the frames and nothing else. The frames the guest hands over, in any
  order and with repeats, are released as their maximal runs: the runs cover exactly those frames,
  and between two runs a frame is missing, so a host page all of whose frames were given is never split. Whether or not
  the host releases a run, no byte outside the frames changes, a byte that does becomes zero, and
  memory stays well formed.\<close>

theorem inflate_releases_runs:
  assumes "wf_memory m" "host_page_size h \<noteq> 0"
  shows "\<exists>runs. release_frames h m pfns = release_each h m 0 runs \<and>
    (\<forall>q. q \<in> set pfns \<longleftrightarrow> (\<exists>r \<in> set runs. fst r \<le> q \<and> q \<le> snd r)) \<and>
    sorted_wrt (\<lambda>r r'. unat (snd r) + 1 < unat (fst r')) runs \<and>
    (\<forall>m' n. release_frames h m pfns = Ok (m', n) \<longrightarrow>
       wf_memory m' \<and> discards m m' (\<lambda>a. frame_of a \<in> unat ` set pfns))"
proof (cases "remdups_adj (sort pfns)")
  case Nil
  then have "pfns = []" using set_frames [of pfns] by simp
  then show ?thesis
    using assms by (intro exI [of _ "[]"]) (auto simp: release_frames_def)
next
  case (Cons p ps)
  let ?runs = "frame_runs p p ps"
  have st: "sorted_wrt (<) (p # ps)" and el: "set pfns = set (p # ps)"
    using sorted_frames [of pfns] set_frames [of pfns] Cons by simp_all
  have run: "release_frames h m pfns = release_each h m 0 ?runs" by (simp add: release_frames_def Cons release_joined_runs)
  have cover: "q \<in> set pfns \<longleftrightarrow> (\<exists>r \<in> set ?runs. fst r \<le> q \<and> q \<le> snd r)" for q
    using frame_runs_cover [of p p ps q] st unfolding el by (auto simp: case_prod_unfold)
  have apart: "sorted_wrt (\<lambda>r r'. unat (snd r) + 1 < unat (fst r')) ?runs" and le: "\<forall>r \<in> set ?runs. fst r \<le> snd r"
    using frame_runs_apart [of p p ps] st by simp_all
  have "wf_memory m' \<and> discards m m' (\<lambda>a. frame_of a \<in> unat ` set pfns)" if ok: "release_frames h m pfns = Ok (m', n)" for m' n
  proof -
    have d: "wf_memory m'" "discards m m' (\<lambda>a. \<exists>r \<in> set ?runs. unat (fst r) \<le> frame_of a \<and> frame_of a \<le> unat (snd r))"
      using release_each_discards [OF assms le ok [unfolded run]] by simp_all
    have "frame_of a \<in> unat ` set pfns" if r: "r \<in> set ?runs" "unat (fst r) \<le> frame_of a" "frame_of a \<le> unat (snd r)" for a r
    proof -
      let ?q = "of_nat (frame_of a) :: u32"
      have "frame_of a < 4294967296" using r(3) unat_lt_32 [of "snd r"] by linarith
      then have q: "unat ?q = frame_of a" by (simp add: unat_of_nat)
      then have "?q \<in> set pfns" using r cover [of ?q] by (auto simp: word_le_nat_alt)
      then show ?thesis using q by force
    qed
    then have "discards m m' (\<lambda>a. frame_of a \<in> unat ` set pfns)" by (intro discards_mono [OF d(2)]) blast
    with d(1) show ?thesis by (rule conjI)
  qed
  then show ?thesis using run cover apart by blast
qed

section \<open>The property at work\<close>

lemma demo_inflate: "\<exists>m' n. release_frames demo_host demo_filled [19, 16, 18, 17, 16] = Ok (m', n) \<and> gm_bytes m' 65536 = 0"
proof -
  have page: "host_page_size demo_host = 16384" "vm_unmap demo_host = (\<lambda>_ _. None)" "vm_map demo_host = (\<lambda>_ _ _. None)"
    by (simp_all add: demo_host_def)
  have "remdups_adj (sort [19, 16, 18, 17, 16 :: u32]) = [16, 17, 18, 19]" by (simp add: sort_key_def)
  then show ?thesis
    by (simp add: release_frames_def release_run_def BALLOON_PAGE_SIZE_def demo_filled_def page gm_release_def release_backed_def
        region_for_release_def region_contains_def region_ready_def checked_add_def fresh_region_def zero_span_def Let_def)
qed

theorem inflate_releases_runs_witness:
  "\<exists>m' n. release_frames demo_host demo_filled [19, 16, 18, 17, 16] = Ok (m', n) \<and> gm_bytes m' 65536 = 0 \<and>
     discards demo_filled m' (\<lambda>a. frame_of a \<in> unat ` set [19, 16, 18, 17, 16 :: u32])"
proof -
  have "host_page_size demo_host \<noteq> 0" by (simp add: demo_host_def)
  from inflate_releases_runs [OF demo_filled_wf this, of "[19, 16, 18, 17, 16]"] demo_inflate
  show ?thesis by blast
qed

end
