(* ===== verification/Psci_Smp.thy ===== *)
theory Psci_Smp
  imports Lighter_Prelude
begin

unbundle bit_operations_syntax

text \<open>
  Power states: the calls of \<^verbatim>\<open>psci.rs\<close> and the park of \<^verbatim>\<open>smp.rs\<close>, in which every secondary core's thread
  waits until some other core powers it on. A wait is its loop's passes, each under the core's lock;
  between two passes anything may happen.
\<close>

section \<open>Calls\<close>

datatype psci_call =
    PsciVersion
  | CpuOn u64 u64 u64
  | CpuOff
  | AffinityInfo u64 u32
  | CpuSuspend
  | SystemOff
  | SystemReset
  | PsciFeatures u32
  | MigrateInfoType
  | PsciNotSupported u32

datatype psci_return =
  RetSuccess | RetNotSupported | RetInvalidParams | RetDenied | RetAlreadyOn | RetOnPending
  | RetInternalFailure | RetNotPresent | RetDisabled | RetInvalidAddress

primrec psci_code :: "psci_return \<Rightarrow> int" where
  "psci_code RetSuccess = 0"
| "psci_code RetNotSupported = - 1"
| "psci_code RetInvalidParams = - 2"
| "psci_code RetDenied = - 3"
| "psci_code RetAlreadyOn = - 4"
| "psci_code RetOnPending = - 5"
| "psci_code RetInternalFailure = - 6"
| "psci_code RetNotPresent = - 7"
| "psci_code RetDisabled = - 8"
| "psci_code RetInvalidAddress = - 9"

definition as_reg :: "psci_return \<Rightarrow> u64" where
  "as_reg r = scast (of_int (psci_code r) :: u32)"

definition PSCI_VERSION :: u64 where "PSCI_VERSION = push_bit 16 1 OR 1"

definition PSCI_VERSION_ID :: u32 where "PSCI_VERSION_ID = 0x84000000"
definition CPU_SUSPEND_32 :: u32 where "CPU_SUSPEND_32 = 0x84000001"
definition CPU_SUSPEND_64 :: u32 where "CPU_SUSPEND_64 = 0xc4000001"
definition CPU_OFF_ID :: u32 where "CPU_OFF_ID = 0x84000002"
definition CPU_ON_32 :: u32 where "CPU_ON_32 = 0x84000003"
definition CPU_ON_64 :: u32 where "CPU_ON_64 = 0xc4000003"
definition AFFINITY_INFO_32 :: u32 where "AFFINITY_INFO_32 = 0x84000004"
definition AFFINITY_INFO_64 :: u32 where "AFFINITY_INFO_64 = 0xc4000004"
definition MIGRATE_INFO_TYPE_ID :: u32 where "MIGRATE_INFO_TYPE_ID = 0x84000006"
definition SYSTEM_OFF_ID :: u32 where "SYSTEM_OFF_ID = 0x84000008"
definition SYSTEM_RESET_ID :: u32 where "SYSTEM_RESET_ID = 0x84000009"
definition PSCI_FEATURES_ID :: u32 where "PSCI_FEATURES_ID = 0x8400000a"

lemmas psci_ids = PSCI_VERSION_ID_def CPU_SUSPEND_32_def CPU_SUSPEND_64_def CPU_OFF_ID_def CPU_ON_32_def CPU_ON_64_def
  AFFINITY_INFO_32_def AFFINITY_INFO_64_def MIGRATE_INFO_TYPE_ID_def SYSTEM_OFF_ID_def SYSTEM_RESET_ID_def PSCI_FEATURES_ID_def

definition from_function_id :: "u64 \<Rightarrow> u64 \<Rightarrow> u64 \<Rightarrow> u64 \<Rightarrow> psci_call" where
  "from_function_id x0 x1 x2 x3 =
     (let function_id = ucast x0 :: u32 in
      if function_id = PSCI_VERSION_ID then PsciVersion
      else if function_id = CPU_ON_32 \<or> function_id = CPU_ON_64 then CpuOn x1 x2 x3
      else if function_id = CPU_OFF_ID then CpuOff
      else if function_id = CPU_SUSPEND_32 \<or> function_id = CPU_SUSPEND_64 then CpuSuspend
      else if function_id = AFFINITY_INFO_32 \<or> function_id = AFFINITY_INFO_64 then AffinityInfo x1 (ucast x2)
      else if function_id = SYSTEM_OFF_ID then SystemOff
      else if function_id = SYSTEM_RESET_ID then SystemReset
      else if function_id = PSCI_FEATURES_ID then PsciFeatures (ucast x1)
      else if function_id = MIGRATE_INFO_TYPE_ID then MigrateInfoType
      else PsciNotSupported function_id)"

definition is_implemented :: "u32 \<Rightarrow> bool" where
  "is_implemented function_id =
     (case from_function_id (ucast function_id) 0 0 0 of PsciNotSupported _ \<Rightarrow> False | _ \<Rightarrow> True)"

datatype affinity_state = AffinityOn | AffinityOff | AffinityOnPending

primrec affinity_code :: "affinity_state \<Rightarrow> u64" where
  "affinity_code AffinityOn = 0"
| "affinity_code AffinityOff = 1"
| "affinity_code AffinityOnPending = 2"

section \<open>The park\<close>

record start_request =
  sr_entry_point :: u64
  sr_context_id :: u64

datatype cpu_state = CpuIsOff | CpuStarting start_request | CpuIsOn

record cpu_park =
  park_cpus :: "cpu_state list"
  park_shutdown :: bool
  park_created :: u32

definition park_new :: "u32 \<Rightarrow> cpu_park" where
  "park_new n =
     \<lparr>park_cpus = map (\<lambda>i. if i = 0 then CpuIsOn else CpuIsOff) [0 ..< unat n], park_shutdown = False, park_created = 0\<rparr>"

text \<open>A thread waits for its turn while this is false.\<close>

definition creation_turn :: "cpu_park \<Rightarrow> u32 \<Rightarrow> bool" where
  "creation_turn p index \<longleftrightarrow> park_created p = index"

definition finish_creation :: "cpu_park \<Rightarrow> u32 \<Rightarrow> cpu_park" where
  "finish_creation p index = p\<lparr>park_created := index + 1\<rparr>"

definition power_on :: "cpu_park \<Rightarrow> u32 \<Rightarrow> start_request \<Rightarrow> cpu_park \<times> psci_return" where
  "power_on p index request =
     (if length (park_cpus p) \<le> unat index then (p, RetInvalidParams)
      else case park_cpus p ! unat index of
        CpuIsOn \<Rightarrow> (p, RetAlreadyOn)
      | CpuStarting _ \<Rightarrow> (p, RetOnPending)
      | CpuIsOff \<Rightarrow> (p\<lparr>park_cpus := (park_cpus p)[unat index := CpuStarting request]\<rparr>, RetSuccess))"

definition power_off :: "cpu_park \<Rightarrow> u32 \<Rightarrow> cpu_park" where
  "power_off p index =
     (if length (park_cpus p) \<le> unat index then p else p\<lparr>park_cpus := (park_cpus p)[unat index := CpuIsOff]\<rparr>)"

definition is_on :: "cpu_park \<Rightarrow> u32 \<Rightarrow> bool option" where
  "is_on p index =
     (if length (park_cpus p) \<le> unat index then None else Some (park_cpus p ! unat index \<noteq> CpuIsOff))"

text \<open>One pass of \<^verbatim>\<open>wait_for_power_on\<close>: it returns without a request, returns with one, or waits again.\<close>

datatype wait_outcome = Gone | Begun start_request | WaitAgain

definition wait_pass :: "cpu_park \<Rightarrow> u32 \<Rightarrow> cpu_park \<times> wait_outcome" where
  "wait_pass p index =
     (if length (park_cpus p) \<le> unat index then (p, Gone)
      else if park_shutdown p then (p, Gone)
      else case park_cpus p ! unat index of
        CpuStarting request \<Rightarrow> (p\<lparr>park_cpus := (park_cpus p)[unat index := CpuIsOn]\<rparr>, Begun request)
      | _ \<Rightarrow> (p, WaitAgain))"

definition park_stop :: "cpu_park \<Rightarrow> cpu_park" where
  "park_stop p = p\<lparr>park_shutdown := True\<rparr>"

section \<open>The life of a park\<close>

datatype park_event = Asked u32 start_request | Started u32 start_request

text \<open>
  Any core may be asked on at any time and every waiting thread may take a pass at any time; a core that
  powers itself off is running; the machine stops at some point, or not; and the threads create their
  vCPUs when their turn comes. \<open>vs\<close> lists the cores in the order their vCPUs were created, which is
  the order the framework numbers them in.
\<close>

inductive park_life :: "u32 \<Rightarrow> cpu_park \<Rightarrow> park_event list \<Rightarrow> u32 list \<Rightarrow> bool" for n where
  boot: "park_life n (park_new n) [] []"
| asked: "park_life n p tr vs \<Longrightarrow> power_on p i req = (p', r) \<Longrightarrow>
    park_life n p' (if r = RetSuccess then tr @ [Asked i req] else tr) vs"
| passed: "park_life n p tr vs \<Longrightarrow> wait_pass p i = (p', w) \<Longrightarrow>
    park_life n p' (case w of Begun req \<Rightarrow> tr @ [Started i req] | _ \<Rightarrow> tr) vs"
| off: "park_life n p tr vs \<Longrightarrow> unat i < length (park_cpus p) \<Longrightarrow> park_cpus p ! unat i = CpuIsOn \<Longrightarrow> park_life n (power_off p i) tr vs"
| stopped: "park_life n p tr vs \<Longrightarrow> park_life n (park_stop p) tr vs"
| created: "park_life n p tr vs \<Longrightarrow> i < n \<Longrightarrow> i \<notin> set vs \<Longrightarrow> creation_turn p i \<Longrightarrow> park_life n (finish_creation p i) tr (vs @ [i])"

definition asked_of :: "u32 \<Rightarrow> park_event list \<Rightarrow> start_request list" where
  "asked_of i tr = concat (map (\<lambda>e. case e of Asked j r \<Rightarrow> if j = i then [r] else [] | Started _ _ \<Rightarrow> []) tr)"

definition started_of :: "u32 \<Rightarrow> park_event list \<Rightarrow> start_request list" where
  "started_of i tr = concat (map (\<lambda>e. case e of Started j r \<Rightarrow> if j = i then [r] else [] | Asked _ _ \<Rightarrow> []) tr)"

lemma trace_simps [simp]:
  "asked_of i (tr @ [Asked j r]) = asked_of i tr @ (if j = i then [r] else [])"
  "asked_of i (tr @ [Started j r]) = asked_of i tr"
  "started_of i (tr @ [Started j r]) = started_of i tr @ (if j = i then [r] else [])"
  "started_of i (tr @ [Asked j r]) = started_of i tr"
  "asked_of i [] = []" "started_of i [] = []"
  by (simp_all add: asked_of_def started_of_def)

definition pending_of :: "cpu_park \<Rightarrow> u32 \<Rightarrow> start_request list" where
  "pending_of p i =
     (if unat i < length (park_cpus p) then (case park_cpus p ! unat i of CpuStarting r \<Rightarrow> [r] | _ \<Rightarrow> []) else [])"

lemma pending_of_update:
  assumes "unat j < length (park_cpus p)"
  shows "pending_of (p\<lparr>park_cpus := (park_cpus p)[unat j := c]\<rparr>) i =
    (if i = j then (case c of CpuStarting r \<Rightarrow> [r] | _ \<Rightarrow> []) else pending_of p i)"
  using assms by (auto simp: pending_of_def nth_list_update word_unat_eq_iff)

definition delivered :: "cpu_park \<Rightarrow> park_event list \<Rightarrow> bool" where
  "delivered p tr \<longleftrightarrow> (\<forall>i. asked_of i tr = started_of i tr @ pending_of p i)"

lemma power_on_delivered:
  assumes "delivered p tr" "power_on p j req = (p', r)"
  shows "delivered p' (if r = RetSuccess then tr @ [Asked j req] else tr)"
  using assms by (auto simp: delivered_def power_on_def pending_of_update split: if_splits cpu_state.splits)
    (simp_all add: pending_of_def)

lemma wait_pass_delivered:
  assumes "delivered p tr" "wait_pass p j = (p', w)"
  shows "delivered p' (case w of Begun req \<Rightarrow> tr @ [Started j req] | _ \<Rightarrow> tr)"
  using assms by (auto simp: delivered_def wait_pass_def pending_of_update split: if_splits cpu_state.splits)
    (simp_all add: pending_of_def)


lemma power_off_delivered:
  "delivered p tr \<Longrightarrow> unat i < length (park_cpus p) \<Longrightarrow> park_cpus p ! unat i = CpuIsOn \<Longrightarrow> delivered (power_off p i) tr"
  by (auto simp: delivered_def power_off_def pending_of_update) (simp add: pending_of_def)

lemma park_life_delivered: "park_life n p tr vs \<Longrightarrow> delivered p tr"
proof (induction rule: park_life.induct)
  case boot
  show ?case by (auto simp: delivered_def pending_of_def park_new_def)
next
  case (asked p tr vs i req p' r)
  then show ?case using power_on_delivered by blast
next
  case (passed p tr vs i p' w)
  then show ?case using wait_pass_delivered by blast
next
  case (off p tr vs i)
  then show ?case using power_off_delivered by blast
qed (simp_all add: delivered_def pending_of_def park_stop_def finish_creation_def)

lemma park_created_kept:
  "power_on p i req = (p', r) \<Longrightarrow> park_created p' = park_created p"
  "wait_pass p i = (p', w) \<Longrightarrow> park_created p' = park_created p"
  "park_created (power_off p i) = park_created p" "park_created (park_stop p) = park_created p"
  by (auto simp: power_on_def wait_pass_def power_off_def park_stop_def split: if_splits cpu_state.splits)

lemma park_life_created:
  "park_life n p tr vs \<Longrightarrow> vs = map of_nat [0 ..< length vs] \<and> park_created p = of_nat (length vs) \<and> length vs \<le> unat n"
proof (induction rule: park_life.induct)
  case (created p tr vs i)
  then have i: "i = of_nat (length vs)" by (simp add: creation_turn_def)
  then have "of_nat (length vs) < n" using created(2) by simp
  moreover have "unat (of_nat (length vs) :: u32) = length vs"
    using created unat_lt_32 [of n] by (simp add: unat_of_nat)
  ultimately have "length vs < unat n" by (simp add: word_less_nat_alt)
  then show ?case using created i by (simp add: finish_creation_def)
qed (simp_all add: park_new_def park_created_kept)

text \<open>C29: Every core starts as it was asked, once, and where the device tree says. Over any interleaving of
  power-on calls, threads waiting, cores powering off and shutdown: the start requests a core has
  consumed are, in order, those that were answered with success, but for at most one it has not
  taken yet; a core that is asked on and waits gets that request at its next pass unless the machine
  stops, and after that every wait returns; a second request meanwhile is answered on-pending and
  one to a running core already-on. And vCPUs are created in the order of their cores, so the number
  the framework gives each is its core's index.\<close>

theorem cores_start_as_asked:
  assumes "park_life n p tr vs"
  shows "asked_of i tr = started_of i tr @ pending_of p i \<and> length (pending_of p i) \<le> 1 \<and>
    (\<forall>r. pending_of p i = [r] \<longrightarrow>
       snd (power_on p i req) = RetOnPending \<and> snd (wait_pass p i) = (if park_shutdown p then Gone else Begun r)) \<and>
    snd (wait_pass (park_stop p) i) = Gone \<and>
    (unat i < length (park_cpus p) \<longrightarrow> park_cpus p ! unat i = CpuIsOn \<longrightarrow> power_on p i req = (p, RetAlreadyOn)) \<and>
    (\<forall>k < length vs. vs ! k = of_nat k)"
proof (intro conjI allI impI)
  show "asked_of i tr = started_of i tr @ pending_of p i"
    using park_life_delivered [OF assms] by (simp add: delivered_def)
  show "length (pending_of p i) \<le> 1" by (simp add: pending_of_def split: cpu_state.splits)
  show "snd (power_on p i req) = RetOnPending" "snd (wait_pass p i) = (if park_shutdown p then Gone else Begun r)"
    if "pending_of p i = [r]" for r
    using that by (auto simp: pending_of_def power_on_def wait_pass_def split: if_splits cpu_state.splits)
  show "snd (wait_pass (park_stop p) i) = Gone" by (simp add: wait_pass_def park_stop_def)
  show "unat i < length (park_cpus p) \<Longrightarrow> park_cpus p ! unat i = CpuIsOn \<Longrightarrow> power_on p i req = (p, RetAlreadyOn)"
    by (simp add: power_on_def)
  show "vs ! k = of_nat k" if "k < length vs" for k
    using park_life_created [OF assms] that by (metis add_0 diff_zero length_map length_upt nth_map nth_upt)
qed

section \<open>The property at work\<close>

definition demo_request :: start_request where
  "demo_request = \<lparr>sr_entry_point = 0x40080000, sr_context_id = 7\<rparr>"

definition demo_park :: cpu_park where
  "demo_park = \<lparr>park_cpus = [CpuIsOn, CpuStarting demo_request], park_shutdown = False, park_created = 0\<rparr>"

lemma demo_park_life: "park_life 2 demo_park [Asked 1 demo_request] []"
proof -
  have "power_on (park_new 2) 1 demo_request = (demo_park, RetSuccess)"
    by (simp add: power_on_def park_new_def demo_park_def upt_rec)
  from park_life.asked [OF park_life.boot this] show ?thesis by simp
qed

theorem cores_start_as_asked_witness:
  "snd (wait_pass demo_park 1) = Begun demo_request \<and> snd (power_on demo_park 1 demo_request) = RetOnPending"
proof -
  have "pending_of demo_park 1 = [demo_request]" "\<not> park_shutdown demo_park" by (simp_all add: pending_of_def demo_park_def)
  then show ?thesis using cores_start_as_asked [OF demo_park_life, of 1 demo_request] by simp
qed

end
