(* ===== verification/Sysreg_Trap.thy ===== *)
theory Sysreg_Trap
  imports Lighter_Prelude
begin

unbundle bit_operations_syntax

text \<open>Trapped system-register accesses, \<^verbatim>\<open>sysreg.rs\<close>.\<close>

record sys_reg_access =
  sa_op0 :: u8
  sa_op1 :: u8
  sa_crn :: u8
  sa_crm :: u8
  sa_op2 :: u8
  sa_rt :: u8
  sa_is_read :: bool

definition sysreg_decode :: "u32 \<Rightarrow> sys_reg_access" where
  "sysreg_decode iss =
     \<lparr>sa_op0 = ucast (drop_bit 20 iss AND 0x3), sa_op1 = ucast (drop_bit 14 iss AND 0x7),
      sa_crn = ucast (drop_bit 10 iss AND 0xf), sa_crm = ucast (drop_bit 1 iss AND 0xf),
      sa_op2 = ucast (drop_bit 17 iss AND 0x7), sa_rt = ucast (drop_bit 5 iss AND 0x1f),
      sa_is_read = (iss AND 1 = 1)\<rparr>"

definition sysreg_encoding :: "sys_reg_access \<Rightarrow> u8 \<times> u8 \<times> u8 \<times> u8 \<times> u8" where
  "sysreg_encoding a = (sa_op0 a, sa_op1 a, sa_crn a, sa_crm a, sa_op2 a)"

definition is_known_raz_wi :: "sys_reg_access \<Rightarrow> bool" where
  "is_known_raz_wi a =
     (let (op0, op1, crn, crm, op2) = sysreg_encoding a in
      (op0 = 2 \<and> op1 = 0 \<and> crn = 1 \<and> op2 = 4 \<or> op0 = 2 \<and> op1 = 0 \<and> crn = 7 \<and> op2 = 6) \<or>
      (op0 = 2 \<and> op1 = 0 \<and> crn = 0) \<or> (op0 = 3 \<and> (op1 = 0 \<or> op1 = 3) \<and> crn = 9))"

datatype sys_reg_action = ReadAsZero | IgnoreWrite

text \<open>An unknown register is logged and answered the same way.\<close>

definition policy_for :: "sys_reg_access \<Rightarrow> sys_reg_action" where
  "policy_for a = (if sa_is_read a then ReadAsZero else IgnoreWrite)"

lemma sysreg_rt_bound: "unat (sa_rt (sysreg_decode iss)) < 32"
proof -
  have "unat (drop_bit 5 iss AND 0x1f) < 32"
    using word_and_le1 [of "drop_bit 5 iss" "0x1f"] by (simp add: word_le_nat_alt)
  then show ?thesis by (simp add: sysreg_decode_def unsigned_ucast_eq take_bit_nat_eq_self)
qed

end
