(* ===== verification/Vcpu_Run.thy ===== *)
theory Vcpu_Run
  imports Mmio_Bus Guest_Memory_Access Psci_Smp Sysreg_Trap
begin

text \<open>
  The run loop of one vCPU, \<^verbatim>\<open>vcpu.rs\<close>: every exit of the guest is decoded and served here, over the bus,
  guest memory and the park. The registers are those of \<^verbatim>\<open>lighter-hv\<close>; the framework's calls may fail,
  and which do is the parameter \<open>hv\<close>. What the guest and the other threads do while this core
  is inside the guest is a function on the state, given with each exit.
\<close>

section \<open>Registers\<close>

datatype reg = X nat | Pc | Fpcr | Fpsr | Cpsr

definition gpr :: "u8 \<Rightarrow> reg option" where
  "gpr index = (if 30 < index then None else Some (X (unat index)))"

record vcpu =
  v_id :: u64
  v_regs :: "reg \<Rightarrow> u64"
  v_mpidr :: u64
  v_vtimer_mask :: bool

record hv_calls =
  hv_get_fails :: "reg \<Rightarrow> int option"
  hv_set_fails :: "reg \<Rightarrow> int option"
  hv_get_mpidr_fails :: "int option"
  hv_set_mpidr_fails :: "int option"
  hv_vtimer_fails :: "int option"

datatype stop_reason = StopSystemOff | StopSystemReset | StopCpuOff | StopShutdown

datatype run_error =
    HypervisorError u64 int
  | UnhandledException u64 string u64 u64 u64
  | FaultErr u64 fault_error
  | UnknownExit u64
  | DemandMemory memory_error

record 'd run_context =
  cx_bus :: "'d bus_entry list"
  cx_memory :: guest_memory
  cx_park :: cpu_park
  cx_shutdown :: bool

definition get_reg :: "hv_calls \<Rightarrow> vcpu \<Rightarrow> reg \<Rightarrow> (run_error, u64) result" where
  "get_reg hv v r = (case hv_get_fails hv r of Some e \<Rightarrow> Err (HypervisorError (v_id v) e) | None \<Rightarrow> Ok (v_regs v r))"

definition set_reg :: "hv_calls \<Rightarrow> vcpu \<Rightarrow> reg \<Rightarrow> u64 \<Rightarrow> (run_error, vcpu) result" where
  "set_reg hv v r x =
     (case hv_set_fails hv r of Some e \<Rightarrow> Err (HypervisorError (v_id v) e) | None \<Rightarrow> Ok (v\<lparr>v_regs := (v_regs v)(r := x)\<rparr>))"

fun set_regs :: "hv_calls \<Rightarrow> vcpu \<Rightarrow> (reg \<times> u64) list \<Rightarrow> (run_error, vcpu) result" where
  "set_regs hv v [] = Ok v"
| "set_regs hv v ((r, x) # rest) = result_bind (set_reg hv v r x) (\<lambda>v'. set_regs hv v' rest)"

definition PSTATE_EL1H_DAIF_MASKED :: u64 where "PSTATE_EL1H_DAIF_MASKED = 0x3c5"

text \<open>A host that keeps \<^verbatim>\<open>MPIDR_EL1\<close> read-only is only warned about.\<close>

definition set_affinity :: "hv_calls \<Rightarrow> u32 \<Rightarrow> vcpu \<Rightarrow> (run_error, vcpu) result" where
  "set_affinity hv index v =
     (let mpidr = push_bit 31 1 OR ucast index in
      case hv_set_mpidr_fails hv of
        None \<Rightarrow> Ok (v\<lparr>v_mpidr := mpidr\<rparr>)
      | Some _ \<Rightarrow> (case hv_get_mpidr_fails hv of Some e \<Rightarrow> Err (HypervisorError (v_id v) e) | None \<Rightarrow> Ok v))"

definition prepare_boot :: "hv_calls \<Rightarrow> u32 \<Rightarrow> vcpu \<Rightarrow> u64 \<Rightarrow> u64 \<Rightarrow> (run_error, vcpu) result" where
  "prepare_boot hv index v entry dtb =
     result_bind (set_regs hv v [(Pc, entry), (X 0, dtb), (X 1, 0), (X 2, 0), (X 3, 0), (Cpsr, PSTATE_EL1H_DAIF_MASKED)])
       (set_affinity hv index)"

definition prepare_secondary :: "hv_calls \<Rightarrow> u32 \<Rightarrow> vcpu \<Rightarrow> start_request \<Rightarrow> (run_error, vcpu) result" where
  "prepare_secondary hv index v req =
     result_bind (set_regs hv v [(Pc, sr_entry_point req), (X 0, sr_context_id req), (X 1, 0), (X 2, 0), (X 3, 0),
         (Cpsr, PSTATE_EL1H_DAIF_MASKED)])
       (set_affinity hv index)"

section \<open>Exits\<close>

datatype hv_exit = Canceled | Exception hv_exception | VTimerActivated | UnknownReason

definition EC_DATA_ABORT_LOWER_EL :: u8 where "EC_DATA_ABORT_LOWER_EL = 0x24"
definition EC_INSN_ABORT_LOWER_EL :: u8 where "EC_INSN_ABORT_LOWER_EL = 0x20"
definition EC_HVC64 :: u8 where "EC_HVC64 = 0x16"
definition EC_SYSREG_TRAP :: u8 where "EC_SYSREG_TRAP = 0x18"
definition EC_BRK64 :: u8 where "EC_BRK64 = 0x3c"

lemmas ec_defs = EC_DATA_ABORT_LOWER_EL_def EC_INSN_ABORT_LOWER_EL_def EC_HVC64_def EC_SYSREG_TRAP_def EC_BRK64_def

text \<open>\<^verbatim>\<open>GuestMemory::resolve_demand_fault\<close>.\<close>

definition resolve_demand_fault :: "host \<Rightarrow> guest_memory \<Rightarrow> hv_exception \<Rightarrow> (memory_error, guest_memory \<times> bool) result" where
  "resolve_demand_fault h m e =
     (if exception_class e \<notin> {EC_DATA_ABORT_LOWER_EL, EC_INSN_ABORT_LOWER_EL} \<or>
         \<not> (4 \<le> exception_iss e AND 0x3f \<and> exception_iss e AND 0x3f \<le> 7)
      then Ok (m, False)
      else
        let gpa = ex_physical_address e in
        case find_index (\<lambda>r. r_demand r \<noteq> None \<and> region_contains r gpa 1) (gm_regions m) of
          None \<Rightarrow> Ok (m, False)
        | Some i \<Rightarrow>
            result_bind (prepare_demand_chunk h m i (unat (gpa - r_gpa (gm_regions m ! i)) div DEMAND_CHUNK)) (\<lambda>(m', _).
              Ok (m', True)))"

text \<open>A device's access has no error of its own; a panic of it is a panic here.\<close>

definition device_run :: "(memory_error, 'a) run \<Rightarrow> (run_error, 'a) run" where
  "device_run r = (case r of None \<Rightarrow> None | Some (Ok x) \<Rightarrow> Some (Ok x) | Some _ \<Rightarrow> Some Panic)"

definition step_past :: "hv_calls \<Rightarrow> vcpu \<Rightarrow> (run_error, vcpu) result" where
  "step_past hv v = result_bind (get_reg hv v Pc) (\<lambda>pc. set_reg hv v Pc (pc + 4))"

definition set_gpr :: "hv_calls \<Rightarrow> vcpu \<Rightarrow> u8 \<Rightarrow> u64 \<Rightarrow> (run_error, vcpu) result" where
  "set_gpr hv v index x = (case gpr index of None \<Rightarrow> Panic | Some r \<Rightarrow> set_reg hv v r x)"

definition stored_value :: "hv_calls \<Rightarrow> vcpu \<Rightarrow> u8 \<Rightarrow> (run_error, u64) result" where
  "stored_value hv v index = (if index = 31 then Ok 0 else case gpr index of None \<Rightarrow> Panic | Some r \<Rightarrow> get_reg hv v r)"

definition handle_mmio ::
  "(guest_memory, 'd) mmio_device \<Rightarrow> hv_calls \<Rightarrow> vcpu \<Rightarrow> 'd run_context \<Rightarrow> hv_exception \<Rightarrow> (run_error, vcpu \<times> 'd run_context) run" where
  "handle_mmio ops hv v cx e =
     (case fault_decode e of
        Err x \<Rightarrow> Some (Err (FaultErr (v_id v) x))
      | Panic \<Rightarrow> Some Panic
      | Ok f \<Rightarrow>
          if mf_is_write f
          then run_bind (Some (stored_value hv v (mf_reg f))) (\<lambda>x.
            run_bind (device_run (bus_write ops (cx_memory cx) (cx_bus cx) (mf_address f) (take (unat (mf_size f)) (to_le_bytes x))))
              (\<lambda>(m', es', _).
                run_bind (Some (step_past hv v)) (\<lambda>v'. Some (Ok (v', cx\<lparr>cx_memory := m', cx_bus := es'\<rparr>)))))
          else
            (let (es', bs, _) = bus_read ops (cx_memory cx) (cx_bus cx) (mf_address f) (unat (mf_size f));
                 raw = from_le_bytes (bs @ replicate (8 - unat (mf_size f)) 0) in
             run_bind (Some (if mf_reg f = 31 then Ok v else set_gpr hv v (mf_reg f) (extend_loaded_value f raw))) (\<lambda>v1.
               run_bind (Some (step_past hv v1)) (\<lambda>v2. Some (Ok (v2, cx\<lparr>cx_bus := es'\<rparr>))))))"

definition handle_sysreg_trap :: "hv_calls \<Rightarrow> vcpu \<Rightarrow> hv_exception \<Rightarrow> (run_error, vcpu) result" where
  "handle_sysreg_trap hv v e =
     (let access = sysreg_decode (exception_iss e) in
      result_bind (case policy_for access of
          ReadAsZero \<Rightarrow> if sa_rt access \<noteq> 31 then set_gpr hv v (sa_rt access) 0 else Ok v
        | IgnoreWrite \<Rightarrow> Ok v)
        (step_past hv))"

definition mpidr_to_index :: "u64 \<Rightarrow> u32" where
  "mpidr_to_index mpidr = ucast (mpidr AND 0xff)"

text \<open>The answer to a call, or why the loop stops.\<close>

definition psci_answer :: "u32 \<Rightarrow> cpu_park \<Rightarrow> psci_call \<Rightarrow> cpu_park \<times> (stop_reason + u64)" where
  "psci_answer index p call =
     (case call of
        PsciVersion \<Rightarrow> (p, Inr PSCI_VERSION)
      | PsciFeatures query \<Rightarrow> (p, Inr (if is_implemented query then as_reg RetSuccess else as_reg RetNotSupported))
      | MigrateInfoType \<Rightarrow> (p, Inr 2)
      | CpuOn target entry context_id \<Rightarrow>
          (let (p', r) = power_on p (mpidr_to_index target) \<lparr>sr_entry_point = entry, sr_context_id = context_id\<rparr> in (p', Inr (as_reg r)))
      | AffinityInfo target _ \<Rightarrow>
          (p, Inr (case is_on p (mpidr_to_index target) of
             Some True \<Rightarrow> affinity_code AffinityOn | Some False \<Rightarrow> affinity_code AffinityOff | None \<Rightarrow> as_reg RetInvalidParams))
      | CpuSuspend \<Rightarrow> (p, Inr (as_reg RetSuccess))
      | CpuOff \<Rightarrow> (power_off p index, Inl StopCpuOff)
      | SystemOff \<Rightarrow> (p, Inl StopSystemOff)
      | SystemReset \<Rightarrow> (p, Inl StopSystemReset)
      | PsciNotSupported _ \<Rightarrow> (p, Inr (as_reg RetNotSupported)))"

definition handle_hvc ::
  "hv_calls \<Rightarrow> u32 \<Rightarrow> vcpu \<Rightarrow> 'd run_context \<Rightarrow> (run_error, vcpu \<times> 'd run_context \<times> stop_reason option) result" where
  "handle_hvc hv index v cx =
     result_bind (get_reg hv v (X 0)) (\<lambda>x0. result_bind (get_reg hv v (X 1)) (\<lambda>x1.
     result_bind (get_reg hv v (X 2)) (\<lambda>x2. result_bind (get_reg hv v (X 3)) (\<lambda>x3.
       let (p', answer) = psci_answer index (cx_park cx) (from_function_id x0 x1 x2 x3); cx' = cx\<lparr>cx_park := p'\<rparr> in
       case answer of
         Inl stop \<Rightarrow> Ok (v, cx', Some stop)
       | Inr x \<Rightarrow> result_bind (set_reg hv v (X 0) x) (\<lambda>v'. Ok (v', cx', None))))))"

definition handle_vtimer :: "hv_calls \<Rightarrow> vcpu \<Rightarrow> (run_error, vcpu) result" where
  "handle_vtimer hv v =
     (case hv_vtimer_fails hv of Some e \<Rightarrow> Err (HypervisorError (v_id v) e) | None \<Rightarrow> Ok (v\<lparr>v_vtimer_mask := False\<rparr>))"

definition handle_exception ::
  "(guest_memory, 'd) mmio_device \<Rightarrow> hv_calls \<Rightarrow> u32 \<Rightarrow> vcpu \<Rightarrow> 'd run_context \<Rightarrow> hv_exception \<Rightarrow>
   (run_error, vcpu \<times> 'd run_context \<times> stop_reason option) run" where
  "handle_exception ops hv index v cx e =
     (let ec = exception_class e in
      if ec = EC_DATA_ABORT_LOWER_EL
      then run_bind (handle_mmio ops hv v cx e) (\<lambda>(v', cx'). Some (Ok (v', cx', None)))
      else if ec = EC_HVC64 then Some (handle_hvc hv index v cx)
      else if ec = EC_SYSREG_TRAP then run_bind (Some (handle_sysreg_trap hv v e)) (\<lambda>v'. Some (Ok (v', cx, None)))
      else
        let kind = (if ec = EC_INSN_ABORT_LOWER_EL then ''instruction abort'' else if ec = EC_BRK64 then ''breakpoint''
                    else ''exception'') in
        run_bind (Some (get_reg hv v Pc)) (\<lambda>pc.
          Some (Err (UnhandledException (v_id v) kind pc (ex_syndrome e) (ex_virtual_address e)))))"

section \<open>The loop\<close>

text \<open>One turn: the exit is served, and the loop goes on (\<open>None\<close>) or stops.\<close>

definition run_turn ::
  "(guest_memory, 'd) mmio_device \<Rightarrow> hv_calls \<Rightarrow> host \<Rightarrow> u32 \<Rightarrow> vcpu \<Rightarrow> 'd run_context \<Rightarrow> hv_exit \<Rightarrow>
   (run_error, vcpu \<times> 'd run_context \<times> stop_reason option) run" where
  "run_turn ops hv h index v cx exit =
     (case exit of
        Canceled \<Rightarrow> Some (Ok (v, cx, if cx_shutdown cx then Some StopShutdown else None))
      | VTimerActivated \<Rightarrow> run_bind (Some (handle_vtimer hv v)) (\<lambda>v'. Some (Ok (v', cx, None)))
      | UnknownReason \<Rightarrow> Some (Err (UnknownExit (v_id v)))
      | Exception e \<Rightarrow>
          (case resolve_demand_fault h (cx_memory cx) e of
             Err x \<Rightarrow> Some (Err (DemandMemory x))
           | Panic \<Rightarrow> Some Panic
           | Ok (m', True) \<Rightarrow> Some (Ok (v, cx\<lparr>cx_memory := m'\<rparr>, None))
           | Ok (m', False) \<Rightarrow> handle_exception ops hv index v (cx\<lparr>cx_memory := m'\<rparr>) e))"

text \<open>The loop over the exits the framework gives, each after the guest and the other threads have run;
  at the end of the list the core is still inside the guest.\<close>

fun vcpu_run ::
  "(guest_memory, 'd) mmio_device \<Rightarrow> hv_calls \<Rightarrow> host \<Rightarrow> u32 \<Rightarrow> vcpu \<Rightarrow> 'd run_context \<Rightarrow>
   ((vcpu \<times> 'd run_context \<Rightarrow> vcpu \<times> 'd run_context) \<times> (int + hv_exit)) list \<Rightarrow>
   (run_error, vcpu \<times> 'd run_context \<times> stop_reason option) run" where
  "vcpu_run ops hv h index v cx [] = Some (Ok (v, cx, if cx_shutdown cx then Some StopShutdown else None))"
| "vcpu_run ops hv h index v cx ((inside, exit) # exits) =
     (if cx_shutdown cx then Some (Ok (v, cx, Some StopShutdown))
      else
        let (v1, cx1) = inside (v, cx) in
        case exit of
          Inl x \<Rightarrow> Some (Err (HypervisorError (v_id v1) x))
        | Inr exit \<Rightarrow> run_bind (run_turn ops hv h index v1 cx1 exit) (\<lambda>(v2, cx2, stop).
            if stop \<noteq> None then Some (Ok (v2, cx2, stop)) else vcpu_run ops hv h index v2 cx2 exits))"

text \<open>A secondary core: passes of its wait, and a run for each start; \<open>others\<close> is what happens before a pass.\<close>

fun run_secondary ::
  "(guest_memory, 'd) mmio_device \<Rightarrow> hv_calls \<Rightarrow> host \<Rightarrow> u32 \<Rightarrow> vcpu \<Rightarrow> 'd run_context \<Rightarrow>
   (('d run_context \<Rightarrow> 'd run_context) \<times> ((vcpu \<times> 'd run_context \<Rightarrow> vcpu \<times> 'd run_context) \<times> (int + hv_exit)) list) list \<Rightarrow>
   (run_error, vcpu \<times> 'd run_context \<times> stop_reason option) run" where
  "run_secondary ops hv h index v cx [] = Some (Ok (v, cx, None))"
| "run_secondary ops hv h index v cx ((others, exits) # rest) =
     (let cx1 = others cx; (p', w) = wait_pass (cx_park cx1) index; cx2 = cx1\<lparr>cx_park := p'\<rparr> in
      case w of
        Gone \<Rightarrow> Some (Ok (v, cx2, Some StopShutdown))
      | WaitAgain \<Rightarrow> run_secondary ops hv h index v cx2 rest
      | Begun req \<Rightarrow>
          run_bind (Some (prepare_secondary hv index v req)) (\<lambda>v1.
            run_bind (vcpu_run ops hv h index v1 cx2 exits) (\<lambda>(v2, cx3, stop).
              if stop = Some StopCpuOff then run_secondary ops hv h index v2 cx3 rest
              else Some (Ok (v2, cx3, stop)))))"


section \<open>What a trap does\<close>

definition regs_work :: "hv_calls \<Rightarrow> bool" where
  "regs_work hv \<longleftrightarrow> hv_get_fails hv = (\<lambda>_. None) \<and> hv_set_fails hv = (\<lambda>_. None)"

lemma regs_work_simps:
  assumes "regs_work hv"
  shows "get_reg hv v r = Ok (v_regs v r)" "set_reg hv v r x = Ok (v\<lparr>v_regs := (v_regs v)(r := x)\<rparr>)"
    "step_past hv v = Ok (v\<lparr>v_regs := (v_regs v)(Pc := v_regs v Pc + 4)\<rparr>)"
  using assms by (simp_all add: regs_work_def get_reg_def set_reg_def step_past_def)

lemma gpr_below: "unat i < 32 \<Longrightarrow> i \<noteq> 31 \<Longrightarrow> gpr i = Some (X (unat i))"
proof -
  assume "unat i < 32" "i \<noteq> 31"
  then have "unat i \<noteq> unat (31 :: u8)" using word_unat_eq_iff by blast
  with \<open>unat i < 32\<close> show ?thesis by (simp add: gpr_def word_less_nat_alt)
qed

lemma set_gpr_below:
  "regs_work hv \<Longrightarrow> unat i < 32 \<Longrightarrow> i \<noteq> 31 \<Longrightarrow> set_gpr hv v i x = Ok (v\<lparr>v_regs := (v_regs v)(X (unat i) := x)\<rparr>)"
  by (simp add: set_gpr_def gpr_below regs_work_simps)

lemma stored_value_below:
  "regs_work hv \<Longrightarrow> unat i < 32 \<Longrightarrow> stored_value hv v i = Ok (if i = 31 then 0 else v_regs v (X (unat i)))"
  by (simp add: stored_value_def gpr_below regs_work_simps)

lemma fault_decode_fields: "fault_decode e = Ok f \<Longrightarrow> unat (mf_reg f) < 32 \<and> mf_address f = ex_physical_address e"
proof -
  assume ok: "fault_decode e = Ok f"
  have "unat (drop_bit 16 (exception_iss e) AND 0x1f) < 32"
    using word_and_le1 [of "drop_bit 16 (exception_iss e)" "0x1f"] by (simp add: word_le_nat_alt)
  then have "unat (ucast (drop_bit 16 (exception_iss e) AND 0x1f) :: u8) < 32"
    by (simp add: unsigned_ucast_eq take_bit_nat_eq_self)
  then show ?thesis using ok by (auto simp: fault_decode_def Let_def split: if_splits)
qed

text \<open>The registers a load leaves behind.\<close>

definition loaded :: "vcpu \<Rightarrow> mmio_fault \<Rightarrow> bytes \<Rightarrow> reg \<Rightarrow> u64" where
  "loaded v f bs =
     (if mf_reg f = 31 then v_regs v
      else (v_regs v)(X (unat (mf_reg f)) := extend_loaded_value f (from_le_bytes (bs @ replicate (8 - unat (mf_size f)) 0))))
     (Pc := v_regs v Pc + 4)"

lemma handle_mmio_load:
  assumes "regs_work hv" "fault_decode e = Ok f" "\<not> mf_is_write f"
    and "bus_read ops (cx_memory cx) (cx_bus cx) (ex_physical_address e) (unat (mf_size f)) = (es', bs, b)"
  shows "handle_mmio ops hv v cx e = Some (Ok (v\<lparr>v_regs := loaded v f bs\<rparr>, cx\<lparr>cx_bus := es'\<rparr>))"
  using assms fault_decode_fields [OF assms(2)]
  by (auto simp: handle_mmio_def loaded_def set_gpr_below regs_work_simps Let_def)

lemma handle_mmio_store:
  assumes "regs_work hv" "fault_decode e = Ok f" "mf_is_write f"
  shows "handle_mmio ops hv v cx e =
    run_bind (device_run (bus_write ops (cx_memory cx) (cx_bus cx) (ex_physical_address e)
        (take (unat (mf_size f)) (to_le_bytes (if mf_reg f = 31 then 0 else v_regs v (X (unat (mf_reg f))))))))
      (\<lambda>(m', es', _). Some (Ok (v\<lparr>v_regs := (v_regs v)(Pc := v_regs v Pc + 4)\<rparr>, cx\<lparr>cx_memory := m', cx_bus := es'\<rparr>)))"
  using assms fault_decode_fields [OF assms(2)]
  by (simp add: handle_mmio_def stored_value_below regs_work_simps)

lemma handle_sysreg_trap_result:
  assumes "regs_work hv"
  shows "handle_sysreg_trap hv v e = Ok (v\<lparr>v_regs :=
    (if sa_is_read (sysreg_decode (exception_iss e)) \<and> sa_rt (sysreg_decode (exception_iss e)) \<noteq> 31
     then (v_regs v)(X (unat (sa_rt (sysreg_decode (exception_iss e)))) := 0) else v_regs v)(Pc := v_regs v Pc + 4)\<rparr>)"
  using assms sysreg_rt_bound [of "exception_iss e"]
  by (simp add: handle_sysreg_trap_def policy_for_def set_gpr_below regs_work_simps Let_def)

lemma device_run_Ok: "device_run r = Some (Ok x) \<longleftrightarrow> r = Some (Ok x)"
  by (auto simp: device_run_def split: option.splits result.splits)

lemma handle_hvc_result:
  assumes "regs_work hv" "psci_answer index (cx_park cx) (from_function_id (v_regs v (X 0)) (v_regs v (X 1)) (v_regs v (X 2)) (v_regs v (X 3))) = (p, a)"
  shows "handle_hvc hv index v cx =
    Ok (case a of Inl s \<Rightarrow> (v, cx\<lparr>cx_park := p\<rparr>, Some s) | Inr x \<Rightarrow> (v\<lparr>v_regs := (v_regs v)(X 0 := x)\<rparr>, cx\<lparr>cx_park := p\<rparr>, None))"
  using assms by (cases a) (simp_all add: handle_hvc_def regs_work_simps)

end
