(* ===== verification/Vcpu_Traps.thy ===== *)
theory Vcpu_Traps
  imports Vcpu_Run Virtio_Transport
begin

text \<open>What the guest sees of a trap, from the exit to its registers, over the bus, memory and the park.\<close>

text \<open>A device access served: what it asked of the bus, and the registers after it.\<close>

definition mmio_served ::
  "(guest_memory, 'd) mmio_device \<Rightarrow> vcpu \<Rightarrow> 'd run_context \<Rightarrow> hv_exception \<Rightarrow> vcpu \<Rightarrow> 'd run_context \<Rightarrow> bool" where
  "mmio_served ops v cx e v' cx' \<longleftrightarrow>
     (\<exists>f. fault_decode e = Ok f \<and>
       (if mf_is_write f
        then v' = v\<lparr>v_regs := (v_regs v)(Pc := v_regs v Pc + 4)\<rparr> \<and>
          (\<exists>b. bus_write ops (cx_memory cx) (cx_bus cx) (ex_physical_address e)
            (take (unat (mf_size f)) (to_le_bytes (if mf_reg f = 31 then 0 else v_regs v (X (unat (mf_reg f)))))) =
            Some (Ok (cx_memory cx', cx_bus cx', b)))
        else cx_memory cx' = cx_memory cx \<and>
          (\<exists>bs b. bus_read ops (cx_memory cx) (cx_bus cx) (ex_physical_address e) (unat (mf_size f)) = (cx_bus cx', bs, b) \<and>
             v' = v\<lparr>v_regs := loaded v f bs\<rparr>)))"

lemma handle_mmio_served:
  assumes "regs_work hv" and mm: "handle_mmio ops hv v cx e = Some (Ok (v', cx'))"
  shows "mmio_served ops v cx e v' cx' \<and> cx_park cx' = cx_park cx"
proof -
  obtain f where f: "fault_decode e = Ok f" using mm by (cases "fault_decode e") (auto simp: handle_mmio_def)
  show ?thesis
  proof (cases "mf_is_write f")
    case True
    from mm [unfolded handle_mmio_store [OF assms(1) f True]] True f show ?thesis
      by (auto simp: device_run_Ok mmio_served_def)
  next
    case False
    obtain es' bs b where r: "bus_read ops (cx_memory cx) (cx_bus cx) (ex_physical_address e) (unat (mf_size f)) = (es', bs, b)"
      by (metis prod_cases3)
    from mm [unfolded handle_mmio_load [OF assms(1) f False r]] False r f show ?thesis
      by (auto simp: mmio_served_def)
  qed
qed

lemma handle_mmio_panics:
  assumes "regs_work hv" "handle_mmio ops hv v cx e = Some Panic"
  shows "\<exists>x r. bus_write ops (cx_memory cx) (cx_bus cx) (ex_physical_address e) x = Some r \<and> (\<forall>y. r \<noteq> Ok y)"
proof (cases "fault_decode e")
  case (Ok f)
  show ?thesis
  proof (cases "mf_is_write f")
    case True
    let ?w = "bus_write ops (cx_memory cx) (cx_bus cx) (ex_physical_address e)
        (take (unat (mf_size f)) (to_le_bytes (if mf_reg f = 31 then 0 else v_regs v (X (unat (mf_reg f))))))"
    have "device_run ?w = Some Panic"
      using assms(2) [unfolded handle_mmio_store [OF assms(1) Ok True]] by (auto simp: run_bind_Panic_iff)
    then have "\<exists>r. ?w = Some r \<and> (\<forall>y. r \<noteq> Ok y)" by (auto simp: device_run_def split: option.splits result.splits)
    then show ?thesis by blast
  next
    case False
    obtain es' bs b where "bus_read ops (cx_memory cx) (cx_bus cx) (ex_physical_address e) (unat (mf_size f)) = (es', bs, b)"
      by (metis prod_cases3)
    from handle_mmio_load [OF assms(1) Ok False this] assms(2) show ?thesis by simp
  qed
next
  case (Err x)
  then show ?thesis using assms(2) by (simp add: handle_mmio_def)
next
  case Panic
  then show ?thesis by (auto simp: fault_decode_def Let_def split: if_splits)
qed

text \<open>The cases of \<open>handle_exception\<close>.\<close>

lemma handle_exception_cases:
  assumes "regs_work hv"
  obtains (mmio) "exception_class e = EC_DATA_ABORT_LOWER_EL"
      "handle_exception ops hv index v cx e = run_bind (handle_mmio ops hv v cx e) (\<lambda>(v', cx'). Some (Ok (v', cx', None)))"
  | (hvc) p a where "exception_class e = EC_HVC64"
      "psci_answer index (cx_park cx) (from_function_id (v_regs v (X 0)) (v_regs v (X 1)) (v_regs v (X 2)) (v_regs v (X 3))) = (p, a)"
      "handle_exception ops hv index v cx e = Some (Ok (case a of Inl s \<Rightarrow> (v, cx\<lparr>cx_park := p\<rparr>, Some s)
        | Inr x \<Rightarrow> (v\<lparr>v_regs := (v_regs v)(X 0 := x)\<rparr>, cx\<lparr>cx_park := p\<rparr>, None)))"
  | (sysreg) v' where "exception_class e = EC_SYSREG_TRAP" "handle_sysreg_trap hv v e = Ok v'"
      "handle_exception ops hv index v cx e = Some (Ok (v', cx, None))"
  | (unhandled) x where "exception_class e \<notin> {EC_DATA_ABORT_LOWER_EL, EC_HVC64, EC_SYSREG_TRAP}"
      "handle_exception ops hv index v cx e = Some (Err x)"
proof -
  obtain p a where pa: "psci_answer index (cx_park cx) (from_function_id (v_regs v (X 0)) (v_regs v (X 1)) (v_regs v (X 2)) (v_regs v (X 3))) = (p, a)"
    by fastforce
  note r = handle_hvc_result [OF assms pa] handle_sysreg_trap_result [OF assms, of v e] regs_work_simps [OF assms]
  consider "exception_class e = EC_DATA_ABORT_LOWER_EL" | "exception_class e = EC_HVC64" | "exception_class e = EC_SYSREG_TRAP"
    | "exception_class e \<notin> {EC_DATA_ABORT_LOWER_EL, EC_HVC64, EC_SYSREG_TRAP}" by blast
  then show thesis
  proof cases
    case 1
    then show thesis by (intro mmio) (simp_all add: handle_exception_def Let_def)
  next
    case 2
    then show thesis by (intro hvc [OF _ pa]) (simp_all add: handle_exception_def Let_def r(1) ec_defs)
  next
    case 3
    then show thesis by (intro sysreg [OF _ r(2)]) (simp_all add: handle_exception_def Let_def r(2) ec_defs)
  next
    case 4
    then show thesis by (intro unhandled) (simp_all add: handle_exception_def Let_def r(3))
  qed
qed

text \<open>C30: A trap is served exactly. When the framework's register calls work, an exit that is handled is a device access, a
  hypercall or a system-register trap. A store passes the bus the low bytes of the register it names, zero for
  register 31; a load puts what the bus returned, extended as the access asks, in the register it
  names and nowhere for register 31; a trapped register reads as zero; each of these steps past
  the instruction and changes no other register. A hypercall answers in x0 and does not move the
  program counter. Nothing but a device's own write makes the loop panic.\<close>

theorem traps_served_exactly:
  assumes "regs_work hv"
  shows "case handle_exception ops hv index v cx e of
      None \<Rightarrow> exception_class e = EC_DATA_ABORT_LOWER_EL
    | Some (Ok (v', cx', stop)) \<Rightarrow>
        exception_class e = EC_DATA_ABORT_LOWER_EL \<and> stop = None \<and> cx_park cx' = cx_park cx \<and> mmio_served ops v cx e v' cx' \<or>
        exception_class e = EC_HVC64 \<and> cx_bus cx' = cx_bus cx \<and> cx_memory cx' = cx_memory cx \<and> v_regs v' Pc = v_regs v Pc \<and>
          (\<forall>n > 0. v_regs v' (X n) = v_regs v (X n)) \<and>
          (case psci_answer index (cx_park cx) (from_function_id (v_regs v (X 0)) (v_regs v (X 1)) (v_regs v (X 2)) (v_regs v (X 3))) of
             (p, Inl s) \<Rightarrow> cx_park cx' = p \<and> stop = Some s \<and> v' = v
           | (p, Inr x) \<Rightarrow> cx_park cx' = p \<and> stop = None \<and> v_regs v' (X 0) = x) \<or>
        exception_class e = EC_SYSREG_TRAP \<and> cx' = cx \<and> stop = None \<and> v_regs v' Pc = v_regs v Pc + 4 \<and>
          (\<forall>n < 31. v_regs v' (X n) = (if sa_is_read (sysreg_decode (exception_iss e)) \<and> n = unat (sa_rt (sysreg_decode (exception_iss e)))
             then 0 else v_regs v (X n)))
    | Some (Err x) \<Rightarrow> exception_class e \<notin> {EC_HVC64, EC_SYSREG_TRAP}
    | Some Panic \<Rightarrow> \<exists>bytes r. bus_write ops (cx_memory cx) (cx_bus cx) (ex_physical_address e) bytes = Some r \<and> (\<forall>y. r \<noteq> Ok y)"
proof (cases rule: handle_exception_cases [OF assms, where ops = ops and index = index and v = v and cx = cx and e = e, case_names mmio hvc sysreg unhandled])
  case mmio
  show ?thesis
  proof (cases "handle_mmio ops hv v cx e")
    case (Some r)
    show ?thesis
    proof (cases r)
      case (Ok x)
      then show ?thesis using mmio Some handle_mmio_served [OF assms, of ops v cx e] by (cases x) auto
    next
      case Panic
      then show ?thesis using mmio Some handle_mmio_panics [OF assms, of ops v cx e] by simp
    qed (use mmio Some in \<open>simp add: ec_defs\<close>)
  qed (use mmio in simp)
next
  case (hvc p a)
  then show ?thesis by (cases a) auto
next
  case (sysreg v')
  let ?a = "sysreg_decode (exception_iss e)"
  have "unat (sa_rt ?a) = 31 \<longleftrightarrow> sa_rt ?a = 31" by (simp add: word_unat_eq_iff)
  then have "v_regs v' Pc = v_regs v Pc + 4"
      "\<forall>n < 31. v_regs v' (X n) = (if sa_is_read ?a \<and> n = unat (sa_rt ?a) then 0 else v_regs v (X n))"
    using sysreg(2) unfolding handle_sysreg_trap_result [OF assms] by auto
  with sysreg show ?thesis by simp
next
  case (unhandled x)
  then show ?thesis by simp
qed


section \<open>Demand memory\<close>

lemma region_contains_one: "wf_region r \<Longrightarrow> region_contains r a 1 \<Longrightarrow> in_region r a"
  using region_contains_in(1) [of r a 1 0] by simp

lemma resolve_demand_fault_found:
  assumes wf: "wf_memory m" and r: "r \<in> set (gm_regions m)" "r_demand r \<noteq> None" "region_contains r (ex_physical_address e) 1"
    and ec: "exception_class e \<in> {EC_DATA_ABORT_LOWER_EL, EC_INSN_ABORT_LOWER_EL}"
    and tf: "4 \<le> exception_iss e AND 0x3f" "exception_iss e AND 0x3f \<le> 7"
  obtains (ready) m' where "resolve_demand_fault h m e = Ok (m', True)" "wf_memory m'" "gm_peek m' = gm_peek m"
      "\<forall>r \<in> set (gm_regions m'). \<not> unbacked r (ex_physical_address e)"
  | (failed) "\<forall>x. resolve_demand_fault h m e \<noteq> Ok x"
proof -
  let ?a = "ex_physical_address e" and ?P = "\<lambda>r. r_demand r \<noteq> None \<and> region_contains r (ex_physical_address e) 1"
  obtain i where i: "find_index ?P (gm_regions m) = Some i"
    using r by (cases "find_index ?P (gm_regions m)") auto
  then have il: "i < length (gm_regions m)" "r_demand (gm_regions m ! i) \<noteq> None" "region_contains (gm_regions m ! i) ?a 1"
    using find_index_Some [OF i] by auto
  then obtain d where d: "r_demand (gm_regions m ! i) = Some d" by auto
  let ?k = "unat (?a - r_gpa (gm_regions m ! i)) div DEMAND_CHUNK"
  have res: "resolve_demand_fault h m e = result_bind (prepare_demand_chunk h m i ?k) (\<lambda>(m', _). Ok (m', True))"
    using ec tf i by (simp add: resolve_demand_fault_def Let_def)
  show thesis
  proof (cases "prepare_demand_chunk h m i ?k")
    case (Ok x)
    obtain m' fresh where x: "x = (m', fresh)" by (cases x)
    note p = Ok [unfolded x]
    note v = prepare_demand_chunk_view [OF wf il(1) p]
    obtain d' where d': "r_demand (gm_regions m' ! i) = Some d'" "dem_ready d' = (dem_ready d)[?k := True]" "?k < length (dem_ready d)"
      using prepare_demand_chunk_ready [OF p il(1) d] by blast
    have len: "length (gm_regions m') = length (gm_regions m)" using v(2) map_eq_imp_length_eq by blast
    have geo: "geometry (gm_regions m' ! i) = geometry (gm_regions m ! i)"
      using v(2) il(1) len by (metis nth_map)
    have "wf_region (gm_regions m ! i)" using wf il(1) by (simp add: wf_memory_def)
    then have "in_region (gm_regions m ! i) ?a" using il(3) by (rule region_contains_one)
    then have here: "in_region (gm_regions m' ! i) ?a" and same: "r_gpa (gm_regions m' ! i) = r_gpa (gm_regions m ! i)"
      using geo by (simp_all add: geometry_def in_region_def)
    have "\<not> unbacked r' ?a" if r': "r' \<in> set (gm_regions m')" for r'
    proof
      assume u: "unbacked r' ?a"
      obtain j where j: "j < length (gm_regions m')" "r' = gm_regions m' ! j" using r' by (auto simp: in_set_conv_nth)
      have "regions_disjoint (gm_regions m')" using v(3) by (simp add: wf_memory_def)
      then have "j = i" using regions_disjointD [of "gm_regions m'" j i ?a] j here u il(1) len by (auto simp: unbacked_def)
      then show False using u d' j same by (auto simp: unbacked_def)
    qed
    then show thesis
      using ready [of m'] res p v(3) gm_peek_cong [OF v(2,1)] by simp
  qed (use failed res in auto)
qed

text \<open>A fault on demand memory is invisible. When the guest touches a chunk of demand RAM that has no
  backing yet, by data or by instruction, and the exit is served: the instruction is retried with
  every register as it was and no device sees the access; the chunk is backed, every byte of guest memory reads as it
  did, and memory stays well formed.\<close>

lemma demand_fault_retried:
  assumes "wf_memory (cx_memory cx)" "r \<in> set (gm_regions (cx_memory cx))" "r_demand r \<noteq> None" "region_contains r (ex_physical_address e) 1"
    and "exception_class e \<in> {EC_DATA_ABORT_LOWER_EL, EC_INSN_ABORT_LOWER_EL}"
    and "4 \<le> exception_iss e AND 0x3f" "exception_iss e AND 0x3f \<le> 7"
    and "run_turn ops hv h index v cx (Exception e) = Some (Ok (v', cx', stop))"
  shows "v' = v \<and> stop = None \<and> cx_bus cx' = cx_bus cx \<and> cx_park cx' = cx_park cx \<and> wf_memory (cx_memory cx') \<and>
    gm_peek (cx_memory cx') = gm_peek (cx_memory cx) \<and>
    (\<forall>r \<in> set (gm_regions (cx_memory cx')). \<not> unbacked r (ex_physical_address e))"
proof (cases rule: resolve_demand_fault_found [OF assms(1-7), where h = h, case_names ready failed])
  case (ready m')
  then show ?thesis using assms(8) by (auto simp: run_turn_def)
next
  case failed
  then show ?thesis using assms(8) by (auto simp: run_turn_def split: result.splits)
qed

section \<open>The properties at work\<close>

text \<open>A core that loads the magic number of the entropy device's window into x5, and the exit it takes.\<close>

definition demo_calls :: hv_calls where
  "demo_calls = \<lparr>hv_get_fails = (\<lambda>_. None), hv_set_fails = (\<lambda>_. None), hv_get_mpidr_fails = None, hv_set_mpidr_fails = None,
     hv_vtimer_fails = None\<rparr>"

definition demo_core :: vcpu where
  "demo_core = \<lparr>v_id = 0, v_regs = (\<lambda>_. 0), v_mpidr = 0, v_vtimer_mask = False\<rparr>"

definition demo_context :: "unit virtio_mmio run_context" where
  "demo_context = \<lparr>cx_bus = demo_bus, cx_memory = demo_memory 4096 [], cx_park = park_new 2, cx_shutdown = False\<rparr>"

definition demo_load :: hv_exception where
  "demo_load = \<lparr>ex_syndrome = 0x93850005, ex_virtual_address = 0, ex_physical_address = 201392128\<rparr>"

lemma demo_load_fault:
  "fault_decode demo_load = Ok \<lparr>mf_address = 201392128, mf_size = 4, mf_is_write = False, mf_reg = 5, mf_reg_is_64bit = False, mf_sign_extend = False\<rparr>"
  "exception_class demo_load = EC_DATA_ABORT_LOWER_EL"
  by (simp_all add: fault_decode_def exception_iss_def exception_class_def demo_load_def ec_defs)

lemma nat_le_4: "nat_le 4 n = [of_nat (n mod 256), of_nat (n div 256 mod 256), of_nat (n div 256 div 256 mod 256), of_nat (n div 256 div 256 div 256 mod 256)]"
  and replicate_4: "replicate 4 x = [x, x, x, x]"
proof -
  have four: "(4 :: nat) = Suc (Suc (Suc (Suc 0)))" by simp
  show "nat_le 4 n = [of_nat (n mod 256), of_nat (n div 256 mod 256), of_nat (n div 256 div 256 mod 256), of_nat (n div 256 div 256 div 256 mod 256)]"
    "replicate 4 x = [x, x, x, x]"
    by (simp_all only: four nat_le.simps replicate.simps)
qed

lemma demo_magic:
  "bus_read (vm_ops False (rng_device demo_pool) idle_guest) (demo_memory 4096 []) demo_bus 201392128 4 =
     (demo_bus, [0x76, 0x69, 0x72, 0x74], True)"
  by (simp add: bus_read_def bus_find_def demo_bus_def window_contains_def register_defs vm_ops_def mmio_read_def read_register_def
      to_le_bytes_def VIRTIO_MMIO_MAGIC_def upt_rec nat_le_4)

theorem traps_served_exactly_witness:
  "\<exists>v' cx'. handle_exception (vm_ops False (rng_device demo_pool) idle_guest) demo_calls 0 demo_core demo_context demo_load = Some (Ok (v', cx', None)) \<and>
     v_regs v' (X 5) = 0x74726976 \<and> v_regs v' Pc = 4"
proof -
  let ?ops = "vm_ops False (rng_device demo_pool) idle_guest"
  have w: "regs_work demo_calls" by (simp add: regs_work_def demo_calls_def)
  let ?f = "\<lparr>mf_address = 201392128, mf_size = 4, mf_is_write = False, mf_reg = 5, mf_reg_is_64bit = False, mf_sign_extend = False\<rparr>"
  have pa: "ex_physical_address demo_load = 201392128" by (simp add: demo_load_def)
  have b: "bus_read ?ops (cx_memory demo_context) (cx_bus demo_context) (ex_physical_address demo_load) (unat (mf_size ?f)) =
      (demo_bus, [0x76, 0x69, 0x72, 0x74], True)"
    using demo_magic by (simp add: demo_context_def pa)
  have "handle_mmio ?ops demo_calls demo_core demo_context demo_load =
      Some (Ok (demo_core\<lparr>v_regs := loaded demo_core ?f [0x76, 0x69, 0x72, 0x74]\<rparr>, demo_context\<lparr>cx_bus := demo_bus\<rparr>))"
    by (rule handle_mmio_load [OF w demo_load_fault(1) _ b]) simp
  then have h: "handle_exception ?ops demo_calls 0 demo_core demo_context demo_load =
      Some (Ok (demo_core\<lparr>v_regs := loaded demo_core ?f [0x76, 0x69, 0x72, 0x74]\<rparr>, demo_context\<lparr>cx_bus := demo_bus\<rparr>, None))"
    by (simp add: handle_exception_def demo_load_fault(2))
  have "mmio_served ?ops demo_core demo_context demo_load (demo_core\<lparr>v_regs := loaded demo_core ?f [0x76, 0x69, 0x72, 0x74]\<rparr>) (demo_context\<lparr>cx_bus := demo_bus\<rparr>)"
    using traps_served_exactly [OF w, where ops = ?ops and index = 0 and v = demo_core and cx = demo_context and e = demo_load] demo_load_fault(2) h
    by (simp add: ec_defs)
  moreover have "extend_loaded_value ?f (from_le_bytes ([0x76, 0x69, 0x72, 0x74] @ replicate 4 0)) = 0x74726976"
    by (simp add: extend_loaded_value_def from_le_bytes_def replicate_4)
  ultimately show ?thesis
    unfolding h by (simp add: loaded_def demo_core_def replicate_4)
qed


text \<open>A machine whose RAM is one demand chunk, not backed yet, and an instruction fetch from it.\<close>

definition demo_demand :: guest_memory where
  "demo_demand = \<lparr>gm_vm = True,
     gm_regions = [\<lparr>r_gpa = 65536, r_len = 262144, r_host = 1048576, r_deferred = None, r_demand = Some \<lparr>dem_ready = [False], dem_complete = False\<rparr>\<rparr>],
     gm_bytes = (\<lambda>_. 0)\<rparr>"

definition demo_fetch :: hv_exception where
  "demo_fetch = \<lparr>ex_syndrome = 0x82000006, ex_virtual_address = 0, ex_physical_address = 65600\<rparr>"

lemma demo_demand_wf: "wf_memory demo_demand"
  by (simp add: wf_memory_def demo_demand_def wf_region_def regions_disjoint_def DEMAND_CHUNK_def)

definition demo_waking :: "unit virtio_mmio run_context" where
  "demo_waking = demo_context\<lparr>cx_memory := demo_demand\<rparr>"

lemma demo_fetch_turn:
  "\<exists>cx'. run_turn (vm_ops False (rng_device demo_pool) idle_guest) demo_calls demo_host 0 demo_core demo_waking (Exception demo_fetch) =
     Some (Ok (demo_core, cx', None))"
proof -
  have "resolve_demand_fault demo_host demo_demand demo_fetch =
      result_bind (prepare_demand_chunk demo_host demo_demand 0 0) (\<lambda>(m', _). Ok (m', True))"
    by (simp add: resolve_demand_fault_def demo_fetch_def demo_demand_def exception_class_def exception_iss_def ec_defs
        region_contains_def region_ready_def checked_add_def DEMAND_CHUNK_def)
  moreover have "\<exists>m'. prepare_demand_chunk demo_host demo_demand 0 0 = Ok (m', True)"
    by (simp add: prepare_demand_chunk_def demo_demand_def Let_def) (simp add: demo_host_def)
  ultimately show ?thesis by (auto simp: run_turn_def demo_waking_def)
qed

lemma demand_fault_retried_witness:
  "\<exists>cx'. run_turn (vm_ops False (rng_device demo_pool) idle_guest) demo_calls demo_host 0 demo_core demo_waking (Exception demo_fetch) =
     Some (Ok (demo_core, cx', None)) \<and> gm_peek (cx_memory cx') = gm_peek demo_demand"
proof -
  let ?r = "gm_regions demo_demand ! 0"
  obtain cx' where t: "run_turn (vm_ops False (rng_device demo_pool) idle_guest) demo_calls demo_host 0 demo_core demo_waking (Exception demo_fetch) =
     Some (Ok (demo_core, cx', None))" using demo_fetch_turn by blast
  have m: "cx_memory demo_waking = demo_demand" by (simp add: demo_waking_def)
  have "gm_peek (cx_memory cx') = gm_peek (cx_memory demo_waking)"
  proof (rule demand_fault_retried [OF _ _ _ _ _ _ _ t, THEN conjunct2, THEN conjunct2, THEN conjunct2, THEN conjunct2, THEN conjunct2, THEN conjunct1])
    show "wf_memory (cx_memory demo_waking)" by (simp add: m demo_demand_wf)
    show "?r \<in> set (gm_regions (cx_memory demo_waking))" "r_demand ?r \<noteq> None" "region_contains ?r (ex_physical_address demo_fetch) 1"
      by (simp_all add: m demo_demand_def demo_fetch_def region_contains_def region_ready_def checked_add_def)
    show "exception_class demo_fetch \<in> {EC_DATA_ABORT_LOWER_EL, EC_INSN_ABORT_LOWER_EL}"
        "4 \<le> exception_iss demo_fetch AND 0x3f" "exception_iss demo_fetch AND 0x3f \<le> 7"
      by (simp_all add: demo_fetch_def exception_class_def exception_iss_def ec_defs)
  qed
  with t m show ?thesis by auto
qed

end
