(* ===== verification/Disk_Image.thy ===== *)
theory Disk_Image
  imports Guest_Memory_View
begin

text \<open>
  The host file behind a block device (\<^verbatim>\<open>virtio/disk.rs\<close>). The file's bytes are a function of the offset;
  the system calls on it are the host's: \<open>io k\<close> is its answer to the \<open>k\<close>-th call, either how many bytes it
  moved (at most what was offered, from the start of the spans in order) or an errno. A call that
  fails changes nothing. Offsets and lengths are numbers, with the overflow of a \<^verbatim>\<open>u64\<close> written where the source
  checks for it. A loop that the host interrupts for ever does not return: \<open>None\<close>.
\<close>

section \<open>State\<close>

datatype io_answer = Moved nat | Failed int

datatype io_error = Os int | InvalidInput | PermissionDenied | UnexpectedEof | WriteZero

definition EINTR :: int where "EINTR = 4"
definition ENOSPC :: int where "ENOSPC = 28"
definition SECTOR_SIZE :: nat where "SECTOR_SIZE = 512"
definition IOV_MAX :: nat where "IOV_MAX = 1024"
definition PUNCH_BLOCK :: nat where "PUNCH_BLOCK = 4096"
definition ZERO_CHUNK :: nat where "ZERO_CHUNK = 1048576"

record disk_wait =
  dw_operation :: string
  dw_since :: nat
  dw_retries :: u64

record disk =
  dk_file :: "nat \<Rightarrow> u8"
  dk_len :: nat
  dk_read_only :: bool
  dk_waiting :: "disk_wait option"
  dk_calls :: nat

text \<open>A span of memory a call reads from or writes to: where it starts and its length.\<close>

type_synonym iovec = "u64 \<times> nat"

definition iov_total :: "iovec list \<Rightarrow> nat" where
  "iov_total v = sum_list (map snd v)"

text \<open>The bytes a \<^verbatim>\<open>pwritev\<close> gathers, and the memory after a \<^verbatim>\<open>preadv\<close> has scattered some.\<close>

definition gather :: "(u64 \<Rightarrow> u8) \<Rightarrow> iovec list \<Rightarrow> bytes" where
  "gather f v = concat (map (\<lambda>(a, n). span_of f a n) v)"

fun scatter :: "(u64 \<Rightarrow> u8) \<Rightarrow> iovec list \<Rightarrow> bytes \<Rightarrow> u64 \<Rightarrow> u8" where
  "scatter f [] bs = f"
| "scatter f ((a, n) # v) bs = scatter (put_span f a (take n bs)) v (drop n bs)"

definition file_bytes :: "(nat \<Rightarrow> u8) \<Rightarrow> nat \<Rightarrow> nat \<Rightarrow> bytes" where
  "file_bytes g offset n = map g [offset ..< offset + n]"

definition put_file :: "(nat \<Rightarrow> u8) \<Rightarrow> nat \<Rightarrow> bytes \<Rightarrow> nat \<Rightarrow> u8" where
  "put_file g offset bs = (\<lambda>i. if offset \<le> i \<and> i < offset + length bs then bs ! (i - offset) else g i)"

definition called :: "disk \<Rightarrow> disk" where
  "called d = d\<lparr>dk_calls := Suc (dk_calls d)\<rparr>"

section \<open>Operations\<close>

text \<open>Opening: the length the host reports for the file, and what \<^verbatim>\<open>set_len\<close> answers. Preallocation
  under an environment variable changes no byte and is left out.\<close>

definition open_or_create ::
  "(nat \<Rightarrow> u8) \<Rightarrow> (io_error, nat) result \<Rightarrow> (io_error, unit) result \<Rightarrow> nat \<Rightarrow> bool \<Rightarrow> bool \<Rightarrow> (io_error, disk) result" where
  "open_or_create file opened set_len len ro grow =
     result_bind opened (\<lambda>actual.
       let d = \<lparr>dk_file = (\<lambda>i. if i < actual then file i else 0), dk_len = len, dk_read_only = ro, dk_waiting = None, dk_calls = 0\<rparr> in
       if actual = 0 \<and> \<not> ro then result_bind set_len (\<lambda>_. Ok d)
       else if grow \<and> \<not> ro \<and> actual < len then result_bind set_len (\<lambda>_. Ok d)
       else Ok (d\<lparr>dk_len := actual\<rparr>))"

fun advance :: "iovec list \<Rightarrow> nat \<Rightarrow> iovec list \<times> nat" where
  "advance [] n = ([], 0)"
| "advance ((a, l) # v) n =
     (if n < l then ((a + of_nat n, l - n) # v, 0)
      else let (v', k) = advance v (n - l) in ((a, l) # v', Suc k))"

definition capacity_sectors :: "disk \<Rightarrow> nat" where
  "capacity_sectors d = dk_len d div SECTOR_SIZE"

definition check_range :: "disk \<Rightarrow> nat \<Rightarrow> nat \<Rightarrow> bool" where
  "check_range d offset len \<longleftrightarrow> offset + len < 2 ^ 64 \<and> offset + len \<le> dk_len d"

partial_function (option) read_loop ::
  "(nat \<Rightarrow> io_answer) \<Rightarrow> disk \<Rightarrow> (u64 \<Rightarrow> u8) \<Rightarrow> nat \<Rightarrow> iovec list \<Rightarrow> nat \<Rightarrow> (disk \<times> (u64 \<Rightarrow> u8) \<times> (io_error, unit) result) option" where
  "read_loop io d f offset rest left =
     (if left = 0 then Some (d, f, Ok ())
      else
        let offered = take IOV_MAX rest; d' = called d in
        case io (dk_calls d) of
          Failed e \<Rightarrow> if e = EINTR then read_loop io d' f offset rest left else Some (d', f, Err (Os e))
        | Moved k \<Rightarrow>
            let n = min k (iov_total offered) in
            if n = 0 then Some (d', f, Err UnexpectedEof)
            else let (v, at) = advance rest n in
              read_loop io d' (scatter f offered (file_bytes (dk_file d) offset n)) (offset + n) (drop at v) (left - n))"

definition read_vectored_at ::
  "(nat \<Rightarrow> io_answer) \<Rightarrow> disk \<Rightarrow> (u64 \<Rightarrow> u8) \<Rightarrow> nat \<Rightarrow> iovec list \<Rightarrow> (disk \<times> (u64 \<Rightarrow> u8) \<times> (io_error, unit) result) option" where
  "read_vectored_at io d f offset v =
     (if \<not> check_range d offset (iov_total v) then Some (d, f, Err InvalidInput)
      else read_loop io d f offset v (iov_total v))"

partial_function (option) write_loop ::
  "(nat \<Rightarrow> io_answer) \<Rightarrow> disk \<Rightarrow> (u64 \<Rightarrow> u8) \<Rightarrow> nat \<Rightarrow> iovec list \<Rightarrow> nat \<Rightarrow> nat \<Rightarrow> (disk \<times> nat \<times> (io_error, unit) result) option" where
  "write_loop io d f offset rest left dn =
     (if left = 0 then Some (d, dn, Ok ())
      else
        let offered = take IOV_MAX rest; d' = called d in
        case io (dk_calls d) of
          Failed e \<Rightarrow> if e = EINTR then write_loop io d' f offset rest left dn else Some (d', dn, Err (Os e))
        | Moved k \<Rightarrow>
            let n = min k (iov_total offered) in
            if n = 0 then Some (d', dn, Err WriteZero)
            else let (v, at) = advance rest n in
              write_loop io (d'\<lparr>dk_file := put_file (dk_file d) offset (take n (gather f offered))\<rparr>) f
                (offset + n) (drop at v) (left - n) (dn + n))"

definition write_vectored_progress ::
  "(nat \<Rightarrow> io_answer) \<Rightarrow> disk \<Rightarrow> (u64 \<Rightarrow> u8) \<Rightarrow> nat \<Rightarrow> iovec list \<Rightarrow> nat \<Rightarrow> (disk \<times> nat \<times> (io_error, unit) result) option" where
  "write_vectored_progress io d f offset v dn =
     (if dk_read_only d then Some (d, dn, Err PermissionDenied)
      else if \<not> check_range d offset (iov_total v) then Some (d, dn, Err InvalidInput)
      else if iov_total v < dn then Some (d, dn, Err InvalidInput)
      else let (v', at) = advance v dn in write_loop io d f (offset + dn) (drop at v') (iov_total v - dn) dn)"

definition write_vectored_at ::
  "(nat \<Rightarrow> io_answer) \<Rightarrow> disk \<Rightarrow> (u64 \<Rightarrow> u8) \<Rightarrow> nat \<Rightarrow> iovec list \<Rightarrow> (disk \<times> nat \<times> (io_error, unit) result) option" where
  "write_vectored_at io d f offset v = write_vectored_progress io d f offset v 0"

definition disk_flush :: "(nat \<Rightarrow> io_answer) \<Rightarrow> disk \<Rightarrow> disk \<times> (io_error, unit) result" where
  "disk_flush io d =
     (if dk_read_only d then (d, Ok ())
      else case io (dk_calls d) of Moved _ \<Rightarrow> (called d, Ok ()) | Failed e \<Rightarrow> (called d, Err (Os e)))"

text \<open>The aligned interior of a discarded range; the rounding up is arithmetic on a \<^verbatim>\<open>u64\<close>.\<close>

definition punch_hole :: "(nat \<Rightarrow> io_answer) \<Rightarrow> disk \<Rightarrow> nat \<Rightarrow> nat \<Rightarrow> disk \<times> (io_error, unit) result" where
  "punch_hole io d offset len =
     (if dk_read_only d then (d, Err PermissionDenied)
      else if \<not> check_range d offset len then (d, Err InvalidInput)
      else
        let start = (offset + PUNCH_BLOCK - 1) div PUNCH_BLOCK * PUNCH_BLOCK mod 2 ^ 64;
            e = (offset + len) div PUNCH_BLOCK * PUNCH_BLOCK in
        if e \<le> start then (d, Ok ())
        else case io (dk_calls d) of
          Moved _ \<Rightarrow> ((called d)\<lparr>dk_file := put_file (dk_file d) start (replicate (e - start) 0)\<rparr>, Ok ())
        | Failed x \<Rightarrow> (called d, Err (Os x)))"

partial_function (option) zeroes_loop ::
  "(nat \<Rightarrow> io_answer) \<Rightarrow> disk \<Rightarrow> nat \<Rightarrow> nat \<Rightarrow> nat \<Rightarrow> (disk \<times> nat \<times> (io_error, unit) result) option" where
  "zeroes_loop io d offset len dn =
     (if len \<le> dn then Some (d, dn, Ok ())
      else Option.bind (write_vectored_progress io d (\<lambda>_. 0) (offset + dn) [(0, min ZERO_CHUNK (len - dn))] 0)
        (\<lambda>(d', progress, r).
          if r = Ok () then zeroes_loop io d' offset len (dn + progress) else Some (d', dn + progress, r)))"

definition write_zeroes_progress ::
  "(nat \<Rightarrow> io_answer) \<Rightarrow> disk \<Rightarrow> nat \<Rightarrow> nat \<Rightarrow> bool \<Rightarrow> nat \<Rightarrow> (disk \<times> nat \<times> (io_error, unit) result) option" where
  "write_zeroes_progress io d offset len may_unmap dn =
     (if \<not> check_range d offset len then Some (d, dn, Err InvalidInput)
      else if len < dn then Some (d, dn, Err InvalidInput)
      else if dn = 0 \<and> may_unmap \<and> 4096 dvd offset \<and> 4096 dvd len
      then (case punch_hole io d offset len of
              (d', Ok _) \<Rightarrow> Some (d', len, Ok ())
            | (d', _) \<Rightarrow> zeroes_loop io d' offset len dn)
      else zeroes_loop io d offset len dn)"

definition write_zeroes ::
  "(nat \<Rightarrow> io_answer) \<Rightarrow> disk \<Rightarrow> nat \<Rightarrow> nat \<Rightarrow> bool \<Rightarrow> (disk \<times> nat \<times> (io_error, unit) result) option" where
  "write_zeroes io d offset len may_unmap = write_zeroes_progress io d offset len may_unmap 0"

section \<open>Spans\<close>

lemma iov_total_simps [simp]: "iov_total [] = 0" "iov_total (x # v) = snd x + iov_total v" "iov_total (v @ w) = iov_total v + iov_total w"
  by (simp_all add: iov_total_def)

lemma length_span_of' [simp]: "length (span_of f a n) = n"
  by (simp add: span_of_def)

lemma gather_simps [simp]: "gather f [] = []" "gather f ((a, n) # v) = span_of f a n @ gather f v" "gather f (v @ w) = gather f v @ gather f w"
  by (simp_all add: gather_def)

lemma length_gather [simp]: "length (gather f v) = iov_total v"
  by (induction v) auto

lemma drop_span_of: "drop n (span_of f a l) = span_of f (a + of_nat n) (l - n)"
  by (rule nth_equalityI) (auto simp: span_of_def add.assoc)

definition advanced :: "iovec list \<Rightarrow> nat \<Rightarrow> iovec list" where
  "advanced v n = (let (v', at) = advance v n in drop at v')"

lemma advanced_simps [simp]:
  "advanced [] n = []"
  "advanced ((a, l) # v) n = (if n < l then (a + of_nat n, l - n) # v else advanced v (n - l))"
  by (auto simp: advanced_def split: prod.splits)

lemma advanced_total: "iov_total (advanced v n) = iov_total v - n"
  by (induction v arbitrary: n) auto

lemma gather_advanced: "gather f (advanced v n) = drop n (gather f v)"
  by (induction v arbitrary: n) (auto simp: drop_span_of)

lemma take_gather_offered: "n \<le> iov_total (take k v) \<Longrightarrow> take n (gather f (take k v)) = take n (gather f v)"
  by (metis append_take_drop_id gather_simps(3) length_gather append_Nil2 diff_is_0_eq take_0 take_append)

lemma scatter_empty [simp]: "scatter f v [] = f"
  by (induction v) (auto simp: put_span_def)

lemma scatter_offered: "length bs \<le> iov_total (take k v) \<Longrightarrow> scatter f (take k v) bs = scatter f v bs"
proof (induction v arbitrary: f k bs)
  case (Cons x v)
  show ?case
  proof (cases k)
    case (Suc k')
    then show ?thesis using Cons by (cases x) simp
  qed (use Cons.prems in simp)
qed simp

text \<open>Writing a span in two parts.\<close>

lemma put_span_append:
  assumes "length bs + length cs \<le> 2 ^ 64"
  shows "put_span f a (bs @ cs) = put_span (put_span f a bs) (a + of_nat (length bs)) cs"
proof (cases "cs = []")
  case False
  then have bs: "unat (of_nat (length bs) :: u64) = length bs" using assms by (cases cs) (simp_all add: unat_of_nat)
  show ?thesis
  proof
    fix x
    show "put_span f a (bs @ cs) x = put_span (put_span f a bs) (a + of_nat (length bs)) cs x"
    proof (cases "length bs \<le> unat (x - a)")
      case True
      then have "unat (x - (a + of_nat (length bs))) = unat (x - a) - length bs"
        using unat_sub_le [of "of_nat (length bs)" "x - a"] bs by (simp add: word_le_nat_alt diff_diff_eq)
      with True show ?thesis by (auto simp: put_span_def nth_append)
    next
      case False
      then have "unat (x - (a + of_nat (length bs))) = unat (x - a) + 2 ^ 64 - length bs"
        using bs unat_sub_if' [of "x - a" "of_nat (length bs)"] by (simp add: diff_diff_eq)
      with False assms show ?thesis by (auto simp: put_span_def nth_append)
    qed
  qed
qed (auto simp: put_span_def)

definition spans_fit :: "iovec list \<Rightarrow> bool" where
  "spans_fit v \<longleftrightarrow> (\<forall>x \<in> set v. snd x \<le> 2 ^ 64)"

lemma spans_fit_simps [simp]: "spans_fit []" "spans_fit (x # v) \<longleftrightarrow> snd x \<le> 2 ^ 64 \<and> spans_fit v"
  by (simp_all add: spans_fit_def)

lemma spans_fit_advanced: "spans_fit v \<Longrightarrow> spans_fit (advanced v n)"
  by (induction v arbitrary: n) auto

lemma scatter_append:
  assumes "spans_fit v" "length bs + length cs \<le> iov_total v"
  shows "scatter f v (bs @ cs) = scatter (scatter f v bs) (advanced v (length bs)) cs"
  using assms
proof (induction v arbitrary: f bs cs)
  case (Cons x v)
  obtain a l where x: "x = (a, l)" by (cases x)
  show ?case
  proof (cases "length bs < l")
    case True
    have "put_span f a (bs @ take (l - length bs) cs) = put_span (put_span f a bs) (a + of_nat (length bs)) (take (l - length bs) cs)"
      using Cons.prems(1) True by (intro put_span_append) (auto simp: x)
    with True show ?thesis by (simp add: x)
  next
    case False
    then show ?thesis using Cons.IH [of "drop l bs" cs "put_span f a (take l bs)"] Cons.prems by (simp add: x)
  qed
qed simp

section \<open>Files\<close>

lemma length_file_bytes [simp]: "length (file_bytes g offset n) = n"
  by (simp add: file_bytes_def)

lemma file_bytes_split: "k \<le> n \<Longrightarrow> file_bytes g offset n = file_bytes g offset k @ file_bytes g (offset + k) (n - k)"
  using upt_add_eq_append [of offset "offset + k" "n - k"] by (simp add: file_bytes_def flip: map_append)

lemma put_file_Nil [simp]: "put_file g offset [] = g"
  by (rule ext) (auto simp: put_file_def)

lemma put_file_append: "put_file g offset (bs @ cs) = put_file (put_file g offset bs) (offset + length bs) cs"
  by (rule ext) (auto simp: put_file_def nth_append diff_diff_left)

lemma put_file_outside: "i < offset \<or> offset + length bs \<le> i \<Longrightarrow> put_file g offset bs i = g i"
  by (auto simp: put_file_def)

lemma called_simps [simp]: "dk_file (called d) = dk_file d" "dk_len (called d) = dk_len d" "dk_read_only (called d) = dk_read_only d"
  "dk_waiting (called d) = dk_waiting d" "dk_calls (called d) = Suc (dk_calls d)"
  by (simp_all add: called_def)

text \<open>What of a disk a transfer leaves alone.\<close>

definition disk_shape :: "disk \<Rightarrow> nat \<times> bool \<times> disk_wait option" where
  "disk_shape d = (dk_len d, dk_read_only d, dk_waiting d)"

lemma disk_shape_simps [simp]: "disk_shape (called d) = disk_shape d" "disk_shape (d\<lparr>dk_file := g\<rparr>) = disk_shape d"
  by (simp_all add: disk_shape_def)

section \<open>Transfers\<close>

text \<open>One round of the transfer loops.\<close>

lemma moved_round:
  assumes "n \<le> iov_total (take IOV_MAX rest)"
  shows "gather f rest = take n (gather f (take IOV_MAX rest)) @ gather f (advanced rest n)"
  using assms by (simp add: take_gather_offered gather_advanced)

definition wrote :: "(u64 \<Rightarrow> u8) \<Rightarrow> disk \<Rightarrow> nat \<Rightarrow> iovec list \<Rightarrow> nat \<Rightarrow> disk \<times> nat \<times> (io_error, unit) result \<Rightarrow> bool" where
  "wrote f d offset rest dn y \<longleftrightarrow> (\<exists>n \<le> iov_total rest. fst (snd y) = dn + n \<and> disk_shape (fst y) = disk_shape d \<and>
     dk_file (fst y) = put_file (dk_file d) offset (take n (gather f rest)) \<and> snd (snd y) \<noteq> Panic \<and> (snd (snd y) = Ok () \<longrightarrow> n = iov_total rest))"

lemma write_loop_wrote:
  assumes "write_loop io d f offset rest left dn = Some y" "left = iov_total rest"
  shows "wrote f d offset rest dn y"
proof -
  have "left = iov_total rest \<longrightarrow> wrote f d offset rest dn y"
  proof (rule write_loop.raw_induct [where P = "\<lambda>io d f offset rest left dn y. left = iov_total rest \<longrightarrow> wrote f d offset rest dn y", OF _ assms(1)], rule impI)
    fix loop io d f offset rest left dn y
    assume IH: "\<And>io d f offset rest left dn y. loop io d f offset rest left dn = Some y \<Longrightarrow> left = iov_total rest \<longrightarrow> wrote f d offset rest dn y"
      and body: "(if left = 0 then Some (d, dn, Ok ())
        else let offered = take IOV_MAX rest; d' = called d in
          case io (dk_calls d) of
            Failed e \<Rightarrow> if e = EINTR then loop io d' f offset rest left dn else Some (d', dn, Err (Os e))
          | Moved k \<Rightarrow> let n = min k (iov_total offered) in
              if n = 0 then Some (d', dn, Err WriteZero)
              else let (v, at) = advance rest n in
                loop io (d'\<lparr>dk_file := put_file (dk_file d) offset (take n (gather f offered))\<rparr>) f (offset + n) (drop at v) (left - n) (dn + n)) = Some y"
      and left: "left = iov_total rest"
    show "wrote f d offset rest dn y"
    proof (cases "left = 0")
      case False
      show ?thesis
      proof (cases "io (dk_calls d)")
        case (Failed e)
        then show ?thesis
          using body False left IH [of io "called d" f offset rest left dn y] by (auto simp: wrote_def Let_def split: if_splits)
      next
        case (Moved k)
        let ?n = "min k (iov_total (take IOV_MAX rest))"
        show ?thesis
        proof (cases "?n = 0")
          case nz: False
          let ?d = "(called d)\<lparr>dk_file := put_file (dk_file d) offset (take ?n (gather f (take IOV_MAX rest)))\<rparr>"
          have "loop io ?d f (offset + ?n) (advanced rest ?n) (left - ?n) (dn + ?n) = Some y"
            using body False Moved nz by (simp add: Let_def advanced_def case_prod_unfold)
          from IH [OF this] left have "wrote f ?d (offset + ?n) (advanced rest ?n) (dn + ?n) y" by (simp add: advanced_total)
          then obtain m where m: "m \<le> iov_total rest - ?n" "fst (snd y) = dn + ?n + m" "disk_shape (fst y) = disk_shape d"
              "dk_file (fst y) = put_file (dk_file ?d) (offset + ?n) (take m (gather f (advanced rest ?n)))"
              "snd (snd y) \<noteq> Panic" "snd (snd y) = Ok () \<longrightarrow> m = iov_total rest - ?n"
            unfolding wrote_def advanced_total by auto
          have le: "?n \<le> iov_total rest" using iov_total_simps(3) [of "take IOV_MAX rest" "drop IOV_MAX rest"] by simp
          have "take (?n + m) (gather f rest) = take ?n (gather f (take IOV_MAX rest)) @ take m (gather f (advanced rest ?n))"
            using le by (subst moved_round [of ?n rest f]) simp_all
          then have "dk_file (fst y) = put_file (dk_file d) offset (take (?n + m) (gather f rest))"
            using m(4) by (simp add: put_file_append)
          with m le show ?thesis unfolding wrote_def by (intro exI [of _ "?n + m"]) auto
        qed (use body False Moved in \<open>auto simp: wrote_def\<close>)
      qed
    qed (use body left length_gather [of f rest] in \<open>auto simp: wrote_def simp del: length_gather\<close>)
  qed
  then show ?thesis using assms(2) by simp
qed

definition fetched :: "(u64 \<Rightarrow> u8) \<Rightarrow> disk \<Rightarrow> nat \<Rightarrow> iovec list \<Rightarrow> disk \<times> (u64 \<Rightarrow> u8) \<times> (io_error, unit) result \<Rightarrow> bool" where
  "fetched f d offset rest y \<longleftrightarrow> (\<exists>n \<le> iov_total rest. disk_shape (fst y) = disk_shape d \<and> dk_file (fst y) = dk_file d \<and>
     fst (snd y) = scatter f rest (file_bytes (dk_file d) offset n) \<and> snd (snd y) \<noteq> Panic \<and> (snd (snd y) = Ok () \<longrightarrow> n = iov_total rest))"

lemma read_loop_fetched:
  assumes "read_loop io d f offset rest left = Some y" "left = iov_total rest" "spans_fit rest"
  shows "fetched f d offset rest y"
proof -
  have "left = iov_total rest \<longrightarrow> spans_fit rest \<longrightarrow> fetched f d offset rest y"
  proof (rule read_loop.raw_induct [where P = "\<lambda>io d f offset rest left y. left = iov_total rest \<longrightarrow> spans_fit rest \<longrightarrow> fetched f d offset rest y", OF _ assms(1)], intro impI)
    fix loop io d f offset rest left y
    assume IH: "\<And>io d f offset rest left y. loop io d f offset rest left = Some y \<Longrightarrow> left = iov_total rest \<longrightarrow> spans_fit rest \<longrightarrow> fetched f d offset rest y"
      and body: "(if left = 0 then Some (d, f, Ok ())
        else let offered = take IOV_MAX rest; d' = called d in
          case io (dk_calls d) of
            Failed e \<Rightarrow> if e = EINTR then loop io d' f offset rest left else Some (d', f, Err (Os e))
          | Moved k \<Rightarrow> let n = min k (iov_total offered) in
              if n = 0 then Some (d', f, Err UnexpectedEof)
              else let (v, at) = advance rest n in
                loop io d' (scatter f offered (file_bytes (dk_file d) offset n)) (offset + n) (drop at v) (left - n)) = Some y"
      and left: "left = iov_total rest" and fit: "spans_fit rest"
    show "fetched f d offset rest y"
    proof (cases "left = 0")
      case False
      show ?thesis
      proof (cases "io (dk_calls d)")
        case (Failed e)
        then show ?thesis
          using body False left fit IH [of io "called d" f offset rest left y]
          by (auto simp: fetched_def Let_def file_bytes_def intro: exI [of _ 0] split: if_splits)
      next
        case (Moved k)
        let ?n = "min k (iov_total (take IOV_MAX rest))"
        show ?thesis
        proof (cases "?n = 0")
          case nz: False
          let ?f = "scatter f (take IOV_MAX rest) (file_bytes (dk_file d) offset ?n)"
          have "loop io (called d) ?f (offset + ?n) (advanced rest ?n) (left - ?n) = Some y"
            using body False Moved nz by (simp add: Let_def advanced_def case_prod_unfold)
          from IH [OF this] left fit have "fetched ?f (called d) (offset + ?n) (advanced rest ?n) y"
            by (simp add: advanced_total spans_fit_advanced)
          then obtain m where m: "m \<le> iov_total rest - ?n" "disk_shape (fst y) = disk_shape d" "dk_file (fst y) = dk_file d"
              "fst (snd y) = scatter ?f (advanced rest ?n) (file_bytes (dk_file d) (offset + ?n) m)"
              "snd (snd y) \<noteq> Panic" "snd (snd y) = Ok () \<longrightarrow> m = iov_total rest - ?n"
            unfolding fetched_def advanced_total by auto
          have le: "?n \<le> iov_total rest" using iov_total_simps(3) [of "take IOV_MAX rest" "drop IOV_MAX rest"] by simp
          have "scatter f rest (file_bytes (dk_file d) offset (?n + m)) = scatter ?f (advanced rest ?n) (file_bytes (dk_file d) (offset + ?n) m)"
            using m(1) le scatter_append [OF fit, of "file_bytes (dk_file d) offset ?n" "file_bytes (dk_file d) (offset + ?n) m"]
            by (simp add: file_bytes_split [of ?n "?n + m"] scatter_offered)
          with m le show ?thesis unfolding fetched_def by (intro exI [of _ "?n + m"]) auto
        qed (use body False Moved in \<open>auto simp: fetched_def file_bytes_def intro: exI [of _ 0]\<close>)
      qed
    qed (use body left in \<open>auto simp: fetched_def file_bytes_def\<close>)
  qed
  then show ?thesis using assms(2,3) by simp
qed

text \<open>Resuming: a transfer that starts behind the bytes of an earlier attempt.\<close>

lemma write_progress_extends:
  assumes "write_vectored_progress io d f offset v dn = Some (d', dn', r)" "dn \<le> iov_total v"
  shows "dn \<le> dn' \<and> dn' \<le> iov_total v \<and> disk_shape d' = disk_shape d \<and> r \<noteq> Panic \<and> (r = Ok () \<longrightarrow> dn' = iov_total v) \<and>
    dk_file d' = put_file (dk_file d) (offset + dn) (take (dn' - dn) (drop dn (gather f v)))"
proof (cases "dk_read_only d \<or> \<not> check_range d offset (iov_total v)")
  case False
  then have "write_loop io d f (offset + dn) (advanced v dn) (iov_total v - dn) dn = Some (d', dn', r)"
    using assms by (simp add: write_vectored_progress_def advanced_def case_prod_unfold Let_def)
  from write_loop_wrote [OF this] show ?thesis
    using assms(2) by (auto simp: wrote_def advanced_total gather_advanced)
qed (use assms in \<open>auto simp: write_vectored_progress_def split: if_splits\<close>)

text \<open>Discarding zeroes whole blocks inside the range and nothing else.\<close>

lemma punch_hole_inside:
  assumes "punch_hole io d offset len = (d', r)" "dk_len d < 2 ^ 63"
  shows "disk_shape d' = disk_shape d \<and> r \<noteq> Panic \<and>
    (\<exists>s n. (n = 0 \<or> offset \<le> s \<and> s + n \<le> offset + len) \<and> dk_file d' = put_file (dk_file d) s (replicate n 0) \<and>
      (r = Ok () \<and> 4096 dvd offset \<and> 4096 dvd len \<longrightarrow> n = len \<and> (n = 0 \<or> s = offset)))"
proof (cases "dk_read_only d \<or> \<not> check_range d offset len")
  case False
  let ?s = "(4095 + offset) div 4096 * 4096" and ?e = "(offset + len) div 4096 * 4096"
  have b: "offset + len \<le> dk_len d" using False by (simp add: check_range_def)
  then have "?s < 2 ^ 64" using assms(2) by (simp add: algebra_simps)
  then have s: "?s mod 2 ^ 64 = ?s" by simp
  have al: "?s = offset \<and> ?e = offset + len" if "4096 dvd offset" "4096 dvd len" using that by (auto elim!: dvdE)
  have in1: "offset \<le> ?s" "?e \<le> offset + len" by simp_all
  show ?thesis
  proof (cases "?e \<le> ?s")
    case True
    then have "d' = d" "r = Ok ()" using assms(1) False s by (simp_all add: punch_hole_def PUNCH_BLOCK_def Let_def)
    moreover have "len = 0" if "4096 dvd offset" "4096 dvd len" using True al [OF that] by simp
    ultimately show ?thesis by (intro conjI exI [of _ offset] exI [of _ 0]) auto
  next
    case gap: False
    show ?thesis
    proof (cases "io (dk_calls d)")
      case (Moved k)
      then have "d' = (called d)\<lparr>dk_file := put_file (dk_file d) ?s (replicate (?e - ?s) 0)\<rparr>" "r = Ok ()"
        using assms(1) False s gap by (auto simp: punch_hole_def PUNCH_BLOCK_def Let_def)
      then show ?thesis using in1 al gap by (intro conjI exI [of _ ?s] exI [of _ "?e - ?s"]) auto
    next
      case (Failed x)
      then have "d' = called d" "r = Err (Os x)"
        using assms(1) False s gap by (auto simp: punch_hole_def PUNCH_BLOCK_def Let_def)
      then show ?thesis by (intro conjI exI [of _ offset] exI [of _ 0]) auto
    qed
  qed
next
  case True
  then have "d' = d" "r \<noteq> Ok ()" "r \<noteq> Panic" using assms(1) by (auto simp: punch_hole_def split: if_splits)
  then show ?thesis by (intro conjI exI [of _ offset] exI [of _ 0]) auto
qed

lemma gather_zeroes: "gather (\<lambda>_. 0) [(0, n)] = replicate n 0"
  by (simp add: span_of_def map_replicate_const)

definition zeroed :: "disk \<Rightarrow> nat \<Rightarrow> nat \<Rightarrow> nat \<Rightarrow> disk \<times> nat \<times> (io_error, unit) result \<Rightarrow> bool" where
  "zeroed d offset len dn y \<longleftrightarrow> dn \<le> fst (snd y) \<and> fst (snd y) \<le> len \<and> disk_shape (fst y) = disk_shape d \<and> snd (snd y) \<noteq> Panic \<and>
     (snd (snd y) = Ok () \<longrightarrow> fst (snd y) = len) \<and>
     dk_file (fst y) = put_file (dk_file d) (offset + dn) (replicate (fst (snd y) - dn) 0)"

lemma zeroed_step:
  assumes "write_vectored_progress io d (\<lambda>_. 0) (offset + dn) [(0, n)] 0 = Some (d1, k, r)" "dn + n \<le> len"
  shows "k \<le> n" "r = Ok () \<Longrightarrow> k = n" "r \<noteq> Ok () \<Longrightarrow> zeroed d offset len dn (d1, dn + k, r)"
    "zeroed d1 offset len (dn + k) y \<Longrightarrow> zeroed d offset len dn y"
proof -
  have e: "k \<le> n \<and> disk_shape d1 = disk_shape d \<and> r \<noteq> Panic \<and> (r = Ok () \<longrightarrow> k = n) \<and>
      dk_file d1 = put_file (dk_file d) (offset + dn) (replicate k 0)"
    using write_progress_extends [OF assms(1)] unfolding gather_zeroes by (auto simp: min_def)
  then show "k \<le> n" "r = Ok () \<Longrightarrow> k = n" "r \<noteq> Ok () \<Longrightarrow> zeroed d offset len dn (d1, dn + k, r)"
    using assms(2) by (auto simp: zeroed_def)
  assume z: "zeroed d1 offset len (dn + k) y"
  then have "replicate (fst (snd y) - dn) (0 :: u8) = replicate k 0 @ replicate (fst (snd y) - (dn + k)) 0"
    by (simp add: zeroed_def flip: replicate_add)
  then have "put_file (dk_file d) (offset + dn) (replicate (fst (snd y) - dn) 0) =
      put_file (dk_file d1) (offset + (dn + k)) (replicate (fst (snd y) - (dn + k)) 0)"
    using e by (simp add: put_file_append add.assoc)
  with z e show "zeroed d offset len dn y" by (simp add: zeroed_def)
qed

lemma zeroes_loop_zeroed:
  assumes "zeroes_loop io d offset len dn = Some y" "dn \<le> len"
  shows "zeroed d offset len dn y"
proof -
  have "dn \<le> len \<longrightarrow> zeroed d offset len dn y"
  proof (rule zeroes_loop.raw_induct [where P = "\<lambda>io d offset len dn y. dn \<le> len \<longrightarrow> zeroed d offset len dn y", OF _ assms(1)], rule impI)
    fix loop io d offset len dn y
    assume IH: "\<And>io d offset len dn y. loop io d offset len dn = Some y \<Longrightarrow> dn \<le> len \<longrightarrow> zeroed d offset len dn y"
      and body: "(if len \<le> dn then Some (d, dn, Ok ())
        else Option.bind (write_vectored_progress io d (\<lambda>_. 0) (offset + dn) [(0, min ZERO_CHUNK (len - dn))] 0)
          (\<lambda>(d', progress, r). if r = Ok () then loop io d' offset len (dn + progress) else Some (d', dn + progress, r))) = Some y"
      and le: "dn \<le> len"
    show "zeroed d offset len dn y"
    proof (cases "len \<le> dn")
      case False
      let ?n = "min ZERO_CHUNK (len - dn)"
      obtain d1 k r where w: "write_vectored_progress io d (\<lambda>_. 0) (offset + dn) [(0, ?n)] 0 = Some (d1, k, r)"
          and rest: "(if r = Ok () then loop io d1 offset len (dn + k) else Some (d1, dn + k, r)) = Some y"
        using body False by (auto simp: bind_eq_Some_conv)
      have fit: "dn + ?n \<le> len" using le by simp
      show ?thesis
        using IH [of io d1 offset len "dn + k" y] rest zeroed_step [OF w fit] fit by (cases "r = Ok ()") auto
    qed (use body le in \<open>auto simp: zeroed_def\<close>)
  qed
  then show ?thesis using assms(2) by simp
qed

lemma write_zeroes_zeroed:
  assumes "write_zeroes_progress io d offset len may_unmap dn = Some y" "dn \<le> len" "dk_len d < 2 ^ 63"
  shows "zeroed d offset len dn y"
proof -
  have shift: "zeroed d1 offset len dn y \<Longrightarrow> disk_shape d1 = disk_shape d \<Longrightarrow> dk_file d1 = dk_file d \<Longrightarrow> zeroed d offset len dn y" for d1
    by (simp add: zeroed_def)
  show ?thesis
  proof (cases "check_range d offset len")
    case True
    show ?thesis
    proof (cases "dn = 0 \<and> may_unmap \<and> 4096 dvd offset \<and> 4096 dvd len")
      case punched: True
      obtain d' r where p: "punch_hole io d offset len = (d', r)" by fastforce
      show ?thesis
      proof (cases "r = Ok ()")
        case ok: True
        then have "y = (d', len, Ok ())" using assms(1,2) True punched p by (simp add: write_zeroes_progress_def)
        then show ?thesis using punch_hole_inside [OF p assms(3)] ok punched by (auto simp: zeroed_def)
      next
        case False
        have "zeroes_loop io d' offset len dn = Some y"
          using assms(1,2) True punched p False by (cases r) (simp_all add: write_zeroes_progress_def)
        moreover have "dk_file d' = dk_file d" "disk_shape d' = disk_shape d"
          using p False by (auto simp: punch_hole_def Let_def split: if_splits io_answer.splits)
        ultimately show ?thesis using shift zeroes_loop_zeroed [of io d' offset len dn y] assms(2) by simp
      qed
    next
      case False
      then have "zeroes_loop io d offset len dn = Some y" using assms(1,2) True by (auto simp: write_zeroes_progress_def)
      then show ?thesis using zeroes_loop_zeroed assms(2) by simp
    qed
  qed (use assms in \<open>auto simp: write_zeroes_progress_def zeroed_def\<close>)
qed

section \<open>The loops return\<close>

text \<open>The host does not interrupt for ever.\<close>

definition gets_through :: "(nat \<Rightarrow> io_answer) \<Rightarrow> bool" where
  "gets_through io \<longleftrightarrow> (\<forall>k. \<exists>j \<ge> k. io j \<noteq> Failed EINTR)"

lemma next_answer:
  assumes "gets_through io"
  obtains m where "io (k + m) \<noteq> Failed EINTR" "\<forall>i < m. io (k + i) = Failed EINTR"
proof -
  obtain j where "k \<le> j" "io j \<noteq> Failed EINTR" using assms by (auto simp: gets_through_def)
  then have "\<exists>m. io (k + m) \<noteq> Failed EINTR" by (intro exI [of _ "j - k"]) simp
  then obtain m where "io (k + m) \<noteq> Failed EINTR" "\<forall>i < m. io (k + i) = Failed EINTR"
    using exists_least_iff [of "\<lambda>m. io (k + m) \<noteq> Failed EINTR"] by auto
  then show thesis by (rule that)
qed

lemma write_loop_interrupted:
  "left \<noteq> 0 \<Longrightarrow> \<forall>i < m. io (dk_calls d + i) = Failed EINTR \<Longrightarrow>
   write_loop io d f offset rest left dn = write_loop io (d\<lparr>dk_calls := dk_calls d + m\<rparr>) f offset rest left dn"
proof (induction m arbitrary: d)
  case (Suc m)
  have "io (dk_calls d) = Failed EINTR" using Suc.prems(2) by (metis add.right_neutral zero_less_Suc)
  then have "write_loop io d f offset rest left dn = write_loop io (called d) f offset rest left dn"
    using Suc.prems(1) by (subst write_loop.simps) simp
  also have "\<dots> = write_loop io ((called d)\<lparr>dk_calls := dk_calls (called d) + m\<rparr>) f offset rest left dn"
    using Suc.prems by (intro Suc.IH) auto
  finally show ?case by (simp add: called_def)
qed simp

lemma write_loop_returns:
  assumes "gets_through io"
  shows "left = iov_total rest \<Longrightarrow> \<exists>y. write_loop io d f offset rest left dn = Some y"
proof (induction left arbitrary: d offset rest dn rule: less_induct)
  case (less left)
  show ?case
  proof (cases "left = 0")
    case False
    obtain m where m: "io (dk_calls d + m) \<noteq> Failed EINTR" "\<forall>i < m. io (dk_calls d + i) = Failed EINTR"
      using next_answer [OF assms] by blast
    let ?d = "d\<lparr>dk_calls := dk_calls d + m\<rparr>" and ?n = "\<lambda>k. min k (iov_total (take IOV_MAX rest))"
    have "\<exists>y. write_loop io ?d f offset rest left dn = Some y"
    proof (cases "io (dk_calls d + m)")
      case (Moved k)
      have "\<exists>y. write_loop io d' f o' (advanced rest (?n k)) (left - ?n k) dn' = Some y" if "?n k \<noteq> 0" for d' o' dn'
        using less.IH [of "left - ?n k" "advanced rest (?n k)"] that False less.prems by (simp add: advanced_total)
      then show ?thesis
        using Moved False by (subst write_loop.simps) (simp add: Let_def advanced_def case_prod_unfold)
    next
      case (Failed e)
      then show ?thesis using m(1) False by (subst write_loop.simps) simp
    qed
    then show ?thesis using write_loop_interrupted [OF False m(2)] by simp
  qed (subst write_loop.simps, simp)
qed

lemma read_loop_interrupted:
  "left \<noteq> 0 \<Longrightarrow> \<forall>i < m. io (dk_calls d + i) = Failed EINTR \<Longrightarrow>
   read_loop io d f offset rest left = read_loop io (d\<lparr>dk_calls := dk_calls d + m\<rparr>) f offset rest left"
proof (induction m arbitrary: d)
  case (Suc m)
  have "io (dk_calls d) = Failed EINTR" using Suc.prems(2) by (metis add.right_neutral zero_less_Suc)
  then have "read_loop io d f offset rest left = read_loop io (called d) f offset rest left"
    using Suc.prems(1) by (subst read_loop.simps) simp
  also have "\<dots> = read_loop io ((called d)\<lparr>dk_calls := dk_calls (called d) + m\<rparr>) f offset rest left"
    using Suc.prems by (intro Suc.IH) auto
  finally show ?case by (simp add: called_def)
qed simp

lemma read_loop_returns:
  assumes "gets_through io"
  shows "left = iov_total rest \<Longrightarrow> \<exists>y. read_loop io d f offset rest left = Some y"
proof (induction left arbitrary: d f offset rest rule: less_induct)
  case (less left)
  show ?case
  proof (cases "left = 0")
    case False
    obtain m where m: "io (dk_calls d + m) \<noteq> Failed EINTR" "\<forall>i < m. io (dk_calls d + i) = Failed EINTR"
      using next_answer [OF assms] by blast
    let ?d = "d\<lparr>dk_calls := dk_calls d + m\<rparr>" and ?n = "\<lambda>k. min k (iov_total (take IOV_MAX rest))"
    have "\<exists>y. read_loop io ?d f offset rest left = Some y"
    proof (cases "io (dk_calls d + m)")
      case (Moved k)
      have "\<exists>y. read_loop io d' f' o' (advanced rest (?n k)) (left - ?n k) = Some y" if "?n k \<noteq> 0" for d' f' o'
        using less.IH [of "left - ?n k" "advanced rest (?n k)"] that False less.prems by (simp add: advanced_total)
      then show ?thesis
        using Moved False by (subst read_loop.simps) (simp add: Let_def advanced_def case_prod_unfold)
    next
      case (Failed e)
      then show ?thesis using m(1) False by (subst read_loop.simps) simp
    qed
    then show ?thesis using read_loop_interrupted [OF False m(2)] by simp
  qed (subst read_loop.simps, simp)
qed

lemma write_progress_returns:
  assumes "gets_through io"
  shows "\<exists>d' dn' r. write_vectored_progress io d f offset v dn = Some (d', dn', r)"
proof -
  have "\<exists>y. write_loop io d f (offset + dn) (advanced v dn) (iov_total v - dn) dn = Some y"
    by (rule write_loop_returns [OF assms]) (simp add: advanced_total)
  then show ?thesis by (auto simp: write_vectored_progress_def advanced_def case_prod_unfold Let_def)
qed

lemma zeroes_loop_returns:
  assumes "gets_through io"
  shows "\<exists>y. zeroes_loop io d offset len dn = Some y"
proof (induction "len - dn" arbitrary: d dn rule: less_induct)
  case less
  show ?case
  proof (cases "len \<le> dn")
    case False
    let ?n = "min ZERO_CHUNK (len - dn)"
    obtain d1 k r where w: "write_vectored_progress io d (\<lambda>_. 0) (offset + dn) [(0, ?n)] 0 = Some (d1, k, r)"
      using write_progress_returns [OF assms] by blast
    have "dn + ?n \<le> len" "0 < ?n" using False by (simp_all add: ZERO_CHUNK_def)
    then have "\<exists>y. zeroes_loop io d1 offset len (dn + k) = Some y" if "r = Ok ()"
      using less.hyps [of "dn + k" d1] zeroed_step(2) [OF w _ that, of len] False by simp
    then show ?thesis using False w by (subst zeroes_loop.simps) simp
  qed (subst zeroes_loop.simps, simp)
qed

lemma write_zeroes_returns:
  assumes "gets_through io"
  shows "\<exists>y. write_zeroes_progress io d offset len may_unmap dn = Some y"
proof -
  obtain d' r where p: "punch_hole io d offset len = (d', r)" by fastforce
  show ?thesis
    using zeroes_loop_returns [OF assms, of d offset len dn] zeroes_loop_returns [OF assms, of d' offset len dn]
    by (cases r) (auto simp: write_zeroes_progress_def p)
qed

text \<open>C39: A write to the image that fails part-way is resumed without losing or repeating a byte. If the
  first \<open>dn\<close> bytes of the data are in place from earlier attempts, an attempt returns unless the host interrupts it for
  ever, however short its transfers are; the bytes in place are then the first \<open>dn'\<close> of the data,
  at least as many as before, and nothing else of the file has changed; and when the attempt succeeds
  they are all of the data.\<close>

theorem disk_write_resumes:
  assumes "gets_through io" "dn \<le> iov_total v" "dk_file d = put_file g offset (take dn (gather f v))"
  shows "\<exists>d' dn' r. write_vectored_progress io d f offset v dn = Some (d', dn', r) \<and> dn \<le> dn' \<and> dn' \<le> iov_total v \<and>
    dk_file d' = put_file g offset (take dn' (gather f v)) \<and> disk_shape d' = disk_shape d \<and> r \<noteq> Panic \<and>
    (r = Ok () \<longrightarrow> dk_file d' = put_file g offset (gather f v))"
proof -
  obtain d' dn' r where w: "write_vectored_progress io d f offset v dn = Some (d', dn', r)"
    using write_progress_returns [OF assms(1)] by blast
  note e = write_progress_extends [OF w assms(2)]
  then have "take dn' (gather f v) = take dn (gather f v) @ take (dn' - dn) (drop dn (gather f v))"
    using take_add [of dn "dn' - dn" "gather f v"] by simp
  then have "dk_file d' = put_file g offset (take dn' (gather f v))"
    using e assms(2,3) by (simp add: put_file_append)
  with w e show ?thesis by (intro exI [of _ d'] exI [of _ dn'] exI [of _ r]) auto
qed

section \<open>The property at work\<close>

text \<open>A host that interrupts, writes three bytes, fills up, and after that writes what it is given.\<close>

definition demo_io :: "nat \<Rightarrow> io_answer" where
  "demo_io k = (if k = 0 then Failed EINTR else if k = 1 then Moved 3 else if k = 2 then Failed ENOSPC else Moved 4096)"

definition demo_disk :: disk where
  "demo_disk = \<lparr>dk_file = (\<lambda>_. 0), dk_len = 8192, dk_read_only = False, dk_waiting = None, dk_calls = 0\<rparr>"

lemma demo_io_through: "gets_through demo_io"
  unfolding gets_through_def
proof
  fix k
  show "\<exists>j \<ge> k. demo_io j \<noteq> Failed EINTR" by (intro exI [of _ "Suc k"]) (simp add: demo_io_def ENOSPC_def EINTR_def)
qed

theorem disk_write_resumes_witness:
  "\<exists>d' dn' r. write_vectored_progress demo_io demo_disk (\<lambda>a. ucast a) 512 [(65, 2), (70, 4)] 0 = Some (d', dn', r) \<and>
     dk_file d' = put_file (\<lambda>_. 0) 512 (take dn' [65, 66, 70, 71, 72, 73])"
proof -
  have "gather (\<lambda>a. ucast a) [(65, 2), (70, 4)] = [65, 66, 70, 71, 72, 73 :: u8]"
    by (simp add: span_of_def upt_rec)
  with disk_write_resumes [OF demo_io_through, of 0 "[(65, 2), (70, 4)]" demo_disk "\<lambda>_. 0" 512 "\<lambda>a. ucast a"]
  show ?thesis by (fastforce simp: demo_disk_def)
qed

end
