(* ===== verification/Virtio_Block.thy ===== *)
theory Virtio_Block
  imports Disk_Image Virtio_Drain
begin

text \<open>
  The block device of \<^verbatim>\<open>virtio/block.rs\<close> over the image of \<^verbatim>\<open>Disk_Image\<close>: parsing a request, performing it,
  holding it back when the host disk is full, letting independent reads pass, and retrying. \<open>clk k\<close> is
  the \<open>k\<close>-th reading of the clock, in milliseconds. Memory is seen as everywhere in the devices: an access is
  checked against the regions, and the backing of a demand region, which appears at first touch, reads
  as zero. Offsets that \<^verbatim>\<open>prepare\<close> has checked are numbers. Tracing is left out.
\<close>

section \<open>Requests\<close>

definition T_IN :: u32 where "T_IN = 0"
definition T_OUT :: u32 where "T_OUT = 1"
definition T_FLUSH :: u32 where "T_FLUSH = 4"
definition T_GET_ID :: u32 where "T_GET_ID = 8"
definition T_DISCARD :: u32 where "T_DISCARD = 11"
definition T_WRITE_ZEROES :: u32 where "T_WRITE_ZEROES = 13"

definition S_OK :: u8 where "S_OK = 0"
definition S_IOERR :: u8 where "S_IOERR = 1"
definition S_UNSUPP :: u8 where "S_UNSUPP = 2"

definition F_SEG_MAX :: u64 where "F_SEG_MAX = push_bit 2 1"
definition F_RO :: u64 where "F_RO = push_bit 5 1"
definition F_BLK_SIZE :: u64 where "F_BLK_SIZE = push_bit 6 1"
definition F_FLUSH :: u64 where "F_FLUSH = push_bit 9 1"
definition F_DISCARD :: u64 where "F_DISCARD = push_bit 13 1"
definition F_WRITE_ZEROES :: u64 where "F_WRITE_ZEROES = push_bit 14 1"
definition F_MQ :: u64 where "F_MQ = push_bit 12 1"

definition BLK_HEADER_LEN :: u32 where "BLK_HEADER_LEN = 16"
definition MAX_TRANSFER :: nat where "MAX_TRANSFER = 4194304"
definition MAX_DISCARD_SECTORS :: u32 where "MAX_DISCARD_SECTORS = 4194304"
definition BLK_ID :: bytes where "BLK_ID = [108, 105, 103, 104, 116, 101, 114, 45, 98, 108, 107]"
definition RETRY_INTERVAL :: nat where "RETRY_INTERVAL = 3000"

lemmas block_consts = T_IN_def T_OUT_def T_FLUSH_def T_GET_ID_def T_DISCARD_def T_WRITE_ZEROES_def S_OK_def S_IOERR_def
  S_UNSUPP_def BLK_HEADER_LEN_def SECTOR_SIZE_def MAX_TRANSFER_def MAX_DISCARD_SECTORS_def

datatype operation =
    Read nat "descriptor list"
  | Write nat "descriptor list" nat
  | Flush
  | GetId "descriptor list"
  | Discard nat nat
  | Zero nat nat bool nat

text \<open>\<^verbatim>\<open>body[1..body.len() - 1]\<close>; a chain that \<^verbatim>\<open>prepare\<close> accepts has at least two descriptors.\<close>

definition data_part :: "descriptor list \<Rightarrow> descriptor list" where
  "data_part ds = butlast (tl ds)"

definition body_len :: "descriptor list \<Rightarrow> nat" where
  "body_len ds = sum_list (map (\<lambda>d. unat (d_len d)) (data_part ds))"

fun mutation_range :: "operation \<Rightarrow> (nat \<times> nat) option" where
  "mutation_range (Write offset body dn) = Some (offset, offset + body_len body)"
| "mutation_range (Discard offset len) = Some (offset, offset + len)"
| "mutation_range (Zero offset len unmap dn) = Some (offset, offset + len)"
| "mutation_range _ = None"

fun may_pass :: "operation \<Rightarrow> operation \<Rightarrow> bool" where
  "may_pass (GetId body) earlier = True"
| "may_pass (Read offset body) earlier =
     (let e = offset + body_len body in
      case mutation_range earlier of
        None \<Rightarrow> True
      | Some (lo, hi) \<Rightarrow> offset = e \<or> hi \<le> lo \<or> e \<le> lo \<or> hi \<le> offset)"
| "may_pass _ earlier = False"

fun op_name :: "operation \<Rightarrow> string" where
  "op_name (Read _ _) = ''read''"
| "op_name (Write _ _ _) = ''write''"
| "op_name Flush = ''flush''"
| "op_name (GetId _) = ''get-id''"
| "op_name (Discard _ _) = ''discard''"
| "op_name (Zero _ _ _ _) = ''write-zeroes''"

text \<open>\<^verbatim>\<open>matches!(operation, Read | Id)\<close>.\<close>

fun reads_only :: "operation \<Rightarrow> bool" where
  "reads_only (Read _ _) = True"
| "reads_only (GetId _) = True"
| "reads_only _ = False"

record request =
  rq_queue :: u16
  rq_head :: u16
  rq_status :: descriptor
  rq_op :: operation

record blk_pending =
  pd_request :: request
  pd_since :: nat
  pd_deadline :: nat
  pd_retries :: u64

record block =
  bk_disk :: disk
  bk_read_only :: bool
  bk_acked :: u64
  bk_queues :: nat
  bk_pending :: "blk_pending option"
  bk_backlog :: "request list"
  bk_retained :: "nat list"
  bk_clock :: nat

definition block_new :: "disk \<Rightarrow> nat \<Rightarrow> block" where
  "block_new d queues =
     \<lparr>bk_disk = d, bk_read_only = dk_read_only d, bk_acked = 0, bk_queues = max 1 (min 32 queues), bk_pending = None,
      bk_backlog = [], bk_retained = replicate 32 0, bk_clock = 0\<rparr>"

definition blk_now :: "(nat \<Rightarrow> nat) \<Rightarrow> block \<Rightarrow> block \<times> nat" where
  "blk_now clk b = (b\<lparr>bk_clock := Suc (bk_clock b)\<rparr>, clk (bk_clock b))"

definition reachable :: "guest_memory \<Rightarrow> u64 \<Rightarrow> nat \<Rightarrow> bool" where
  "reachable mem a n = is_ok_and (region_for_release mem a (of_nat n)) (\<lambda>_. True)"

section \<open>Parsing\<close>

definition read_header :: "guest_memory \<Rightarrow> u64 \<Rightarrow> (u32 \<times> u64) option" where
  "read_header mem a =
     (case result_ok (read_u32 mem a) of None \<Rightarrow> None | Some kind \<Rightarrow>
      (case result_ok (read_u64 mem (a + 8)) of None \<Rightarrow> None | Some sector \<Rightarrow> Some (kind, sector)))"

definition prepare_transfer :: "block \<Rightarrow> u32 \<Rightarrow> nat \<Rightarrow> descriptor list \<Rightarrow> u8 + operation" where
  "prepare_transfer b kind offset ds =
     (if 2 ^ 64 \<le> offset + body_len ds \<or> dk_len (bk_disk b) < offset + body_len ds then Inl S_IOERR
      else if kind = T_IN then Inr (Read offset ds)
      else if bk_read_only b then Inl S_IOERR
      else Inr (Write offset ds 0))"

definition prepare_range :: "block \<Rightarrow> u32 \<Rightarrow> descriptor list \<Rightarrow> guest_memory \<Rightarrow> u8 + operation" where
  "prepare_range b kind ds mem =
     (if bk_acked b AND (if kind = T_DISCARD then F_DISCARD else F_WRITE_ZEROES) = 0 then Inl S_UNSUPP
      else if bk_read_only b then Inl S_IOERR
      else case data_part ds of
        [seg] \<Rightarrow>
          if is_write_only seg \<or> d_len seg \<noteq> 16 \<or> \<not> reachable mem (d_addr seg) 16 then Inl S_IOERR
          else (case (result_ok (read_u64 mem (d_addr seg)), result_ok (read_u32 mem (d_addr seg + 8)), result_ok (read_u32 mem (d_addr seg + 12))) of
             (Some sector, Some sectors, Some flags) \<Rightarrow>
               let offset = unat sector * SECTOR_SIZE; len = unat sectors * SECTOR_SIZE in
               if 2 ^ 64 \<le> offset then Inl S_IOERR
               else if MAX_DISCARD_SECTORS < sectors \<or> 2 ^ 64 \<le> offset + len \<or> dk_len (bk_disk b) < offset + len then Inl S_IOERR
               else if flags AND NOT (of_bool (kind = T_WRITE_ZEROES)) \<noteq> 0 then Inl S_UNSUPP
               else if kind = T_DISCARD then Inr (Discard offset len)
               else Inr (Zero offset len (flags AND 1 \<noteq> 0) 0)
           | _ \<Rightarrow> Inl S_IOERR)
      | _ \<Rightarrow> Inl S_IOERR)"

definition prepare :: "block \<Rightarrow> descriptor list \<Rightarrow> guest_memory \<Rightarrow> u8 + operation" where
  "prepare b ds mem =
     (case ds of
        [] \<Rightarrow> Inl S_IOERR
      | hdr # _ \<Rightarrow>
          if length ds < 2 \<or> is_write_only hdr \<or> d_len hdr < BLK_HEADER_LEN \<or> \<not> reachable mem (d_addr hdr) 16 then Inl S_IOERR
          else case read_header mem (d_addr hdr) of
            None \<Rightarrow> Inl S_IOERR
          | Some (kind, sector) \<Rightarrow>
              let offset = unat sector * SECTOR_SIZE in
              if 2 ^ 64 \<le> offset then Inl S_IOERR
              else if kind = T_IN \<or> kind = T_OUT then prepare_transfer b kind offset ds
              else if kind = T_FLUSH then Inr Flush
              else if kind = T_GET_ID then Inr (GetId ds)
              else if kind = T_DISCARD \<or> kind = T_WRITE_ZEROES then prepare_range b kind ds mem
              else Inl S_UNSUPP)"

section \<open>Performing\<close>

fun blk_spans :: "guest_memory \<Rightarrow> bool \<Rightarrow> descriptor list \<Rightarrow> iovec list option" where
  "blk_spans mem writable [] = Some []"
| "blk_spans mem writable (d # ds) =
     (if is_write_only d \<noteq> writable then None
      else if MAX_TRANSFER < unat (d_len d) then None
      else if \<not> reachable mem (d_addr d) (unat (d_len d)) then None
      else map_option (Cons (d_addr d, unat (d_len d))) (blk_spans mem writable ds))"

definition get_id :: "guest_memory \<Rightarrow> descriptor list \<Rightarrow> guest_memory \<times> u8 \<times> u32" where
  "get_id mem body =
     (case body of
        [] \<Rightarrow> (mem, S_IOERR, 0)
      | target # _ \<Rightarrow>
          if \<not> is_write_only target then (mem, S_IOERR, 0)
          else
            let len = min (unat (d_len target)) 20; n = min (length BLK_ID) len; ident = take n BLK_ID @ replicate (20 - n) 0 in
            case gm_poke mem (d_addr target) (take len ident) of
              Ok mem' \<Rightarrow> (mem', S_OK, of_nat len)
            | _ \<Rightarrow> (mem, S_IOERR, 0))"

definition with_count :: "u32 \<Rightarrow> (io_error, unit) result \<Rightarrow> (io_error, u32) result" where
  "with_count n r = (case r of Ok _ \<Rightarrow> Ok n | Err e \<Rightarrow> Err e | Panic \<Rightarrow> Panic)"

fun perform ::
  "(nat \<Rightarrow> io_answer) \<Rightarrow> disk \<Rightarrow> operation \<Rightarrow> guest_memory \<Rightarrow> (disk \<times> operation \<times> guest_memory \<times> (io_error, u32) result) option" where
  "perform io d (Read offset body) mem =
     (case blk_spans mem True (data_part body) of
        None \<Rightarrow> Some (d, Read offset body, mem, Err InvalidInput)
      | Some v \<Rightarrow> map_option (\<lambda>(d', f, r). (d', Read offset body, mem\<lparr>gm_bytes := f\<rparr>, with_count (of_nat (iov_total v)) r))
          (read_vectored_at io d (gm_bytes mem) offset v))"
| "perform io d (Write offset body dn) mem =
     (case blk_spans mem False (data_part body) of
        None \<Rightarrow> Some (d, Write offset body dn, mem, Err InvalidInput)
      | Some v \<Rightarrow> map_option (\<lambda>(d', dn', r). (d', Write offset body dn', mem, with_count 0 r))
          (write_vectored_progress io d (gm_bytes mem) offset v dn))"
| "perform io d Flush mem = (let (d', r) = disk_flush io d in Some (d', Flush, mem, with_count 0 r))"
| "perform io d (GetId body) mem =
     (let (mem', status, written) = get_id mem (data_part body) in
      Some (d, GetId body, mem', if status = S_OK then Ok written else Err InvalidInput))"
| "perform io d (Discard offset len) mem =
     (let (d', r) = punch_hole io d offset len in Some (d', Discard offset len, mem, with_count 0 r))"
| "perform io d (Zero offset len unmap dn) mem =
     map_option (\<lambda>(d', dn', r). (d', Zero offset len unmap dn', mem, with_count 0 r))
       (write_zeroes_progress io d offset len unmap dn)"

section \<open>Submitting and completing\<close>

definition blk_complete :: "virtqueue \<Rightarrow> guest_memory \<Rightarrow> u16 \<Rightarrow> descriptor \<Rightarrow> u8 \<times> u32 \<Rightarrow> (memory_error, virtqueue \<times> guest_memory) result" where
  "blk_complete q mem h st res = push_used q (ignore mem (gm_poke mem (d_addr st) [fst res])) h (snd res + 1)"

definition can_pass :: "block \<Rightarrow> operation \<Rightarrow> bool" where
  "can_pass b op \<longleftrightarrow>
     (case bk_pending b of None \<Rightarrow> True | Some p \<Rightarrow> may_pass op (rq_op (pd_request p))) \<and>
     list_all (\<lambda>r. may_pass op (rq_op r)) (bk_backlog b)"

definition let_go :: "block \<Rightarrow> request \<Rightarrow> block" where
  "let_go b req = (let i = unat (rq_queue req) in b\<lparr>bk_retained := (bk_retained b)[i := bk_retained b ! i - 1]\<rparr>)"

text \<open>The disk has no call that panics, so a \<open>Panic\<close> of \<open>perform\<close> does not arise.\<close>

definition submit ::
  "(nat \<Rightarrow> io_answer) \<Rightarrow> (nat \<Rightarrow> nat) \<Rightarrow> block \<Rightarrow> request \<Rightarrow> guest_memory \<Rightarrow> (block \<times> guest_memory \<times> (request \<times> u8 \<times> u32) option) option" where
  "submit io clk b req mem =
     (if bk_pending b \<noteq> None \<and> \<not> can_pass b (rq_op req) then Some (b\<lparr>bk_backlog := bk_backlog b @ [req]\<rparr>, mem, None)
      else case perform io (bk_disk b) (rq_op req) mem of
        None \<Rightarrow> None
      | Some (d', op', mem', r) \<Rightarrow>
          let req' = req\<lparr>rq_op := op'\<rparr>; b1 = b\<lparr>bk_disk := d'\<rparr> in
          (case r of
             Ok written \<Rightarrow> Some (let_go b1 req', mem', Some (req', S_OK, written))
           | Err e \<Rightarrow>
               if e = Os ENOSPC \<and> \<not> reads_only op'
               then let (b2, now) = blk_now clk b1 in
                 Some (b2\<lparr>bk_disk := d'\<lparr>dk_waiting := Some \<lparr>dw_operation = op_name op', dw_since = now, dw_retries = 0\<rparr>\<rparr>,
                         bk_pending := Some \<lparr>pd_request = req', pd_since = now, pd_deadline = now + RETRY_INTERVAL, pd_retries = 0\<rparr>\<rparr>,
                       mem', None)
               else Some (let_go b1 req', mem', Some (req', S_IOERR, 0))
           | Panic \<Rightarrow> None))"

definition status_descriptor :: "descriptor list \<Rightarrow> guest_memory \<Rightarrow> descriptor option" where
  "status_descriptor ds mem =
     (if ds \<noteq> [] \<and> 2 \<le> length ds \<and> is_write_only (last ds) \<and> 1 \<le> d_len (last ds) \<and> reachable mem (d_addr (last ds)) 1
      then Some (last ds) else None)"

partial_function (option) process_queue ::
  "(nat \<Rightarrow> io_answer) \<Rightarrow> (nat \<Rightarrow> nat) \<Rightarrow> u16 \<Rightarrow> block \<Rightarrow> virtqueue \<Rightarrow> guest_memory \<Rightarrow> bool \<Rightarrow>
   (memory_error, block \<times> virtqueue \<times> guest_memory \<times> bool) run" where
  "process_queue io clk index b q mem used =
     (if unat (qsize q) \<le> bk_retained b ! unat index then Some (Ok (b, q, mem, used))
      else run_bind (Some (pop q mem)) (\<lambda>(q1, oc). case oc of
        None \<Rightarrow> Some (Ok (b, q1, mem, used))
      | Some c \<Rightarrow>
          (case status_descriptor (chain_descs mem c) mem of
             None \<Rightarrow> run_bind (Some (push_used q1 mem (head c) 0)) (\<lambda>(q2, mem2). process_queue io clk index b q2 mem2 True)
           | Some st \<Rightarrow>
               (case prepare b (chain_descs mem c) mem of
                  Inl code \<Rightarrow> run_bind (Some (blk_complete q1 mem (head c) st (code, 0))) (\<lambda>(q2, mem2).
                    process_queue io clk index b q2 mem2 True)
                | Inr op \<Rightarrow>
                    Option.bind (submit io clk (b\<lparr>bk_retained := (bk_retained b)[unat index := Suc (bk_retained b ! unat index)]\<rparr>)
                        \<lparr>rq_queue = index, rq_head = head c, rq_status = st, rq_op = op\<rparr> mem) (\<lambda>(b', mem1, outcome).
                      case outcome of
                        None \<Rightarrow> process_queue io clk index b' q1 mem1 used
                      | Some (_, res) \<Rightarrow> run_bind (Some (blk_complete q1 mem1 (head c) st res)) (\<lambda>(q2, mem2).
                          process_queue io clk index b' q2 mem2 True))))))"

text \<open>Completing on the queue a request came from; a queue that is not there is an index out of bounds.\<close>

definition complete_on :: "virtqueue list \<Rightarrow> guest_memory \<Rightarrow> request \<Rightarrow> u8 \<times> u32 \<Rightarrow> (memory_error, virtqueue list \<times> guest_memory) result" where
  "complete_on qs mem req res =
     (let i = unat (rq_queue req) in
      if length qs \<le> i then Panic
      else result_bind (blk_complete (qs ! i) mem (rq_head req) (rq_status req) res) (\<lambda>(q', mem'). Ok (qs[i := q'], mem')))"

fun resubmit ::
  "(nat \<Rightarrow> io_answer) \<Rightarrow> (nat \<Rightarrow> nat) \<Rightarrow> block \<Rightarrow> virtqueue list \<Rightarrow> guest_memory \<Rightarrow> serviced \<Rightarrow> request list \<Rightarrow>
   (memory_error, block \<times> virtqueue list \<times> guest_memory \<times> serviced) run" where
  "resubmit io clk b qs mem s [] = Some (Ok (b, qs, mem, s))"
| "resubmit io clk b qs mem s (req # rs) =
     Option.bind (submit io clk b req mem) (\<lambda>(b', mem1, outcome).
       case outcome of
         None \<Rightarrow> resubmit io clk b' qs mem1 s rs
       | Some (req', res) \<Rightarrow> run_bind (Some (complete_on qs mem1 req' res)) (\<lambda>(qs', mem2).
           resubmit io clk b' qs' mem2 (serviced_and s (serviced_queue (rq_queue req'))) rs))"

definition retry_result :: "(io_error, u32) result \<Rightarrow> u8 \<times> u32" where
  "retry_result r = (case r of Ok written \<Rightarrow> (S_OK, written) | _ \<Rightarrow> (S_IOERR, 0))"

definition blk_retry ::
  "(nat \<Rightarrow> io_answer) \<Rightarrow> (nat \<Rightarrow> nat) \<Rightarrow> block \<Rightarrow> virtqueue list \<Rightarrow> guest_memory \<Rightarrow> nat \<Rightarrow>
   (memory_error, block \<times> virtqueue list \<times> guest_memory \<times> serviced) run" where
  "blk_retry io clk b qs mem now =
     (case bk_pending b of
        None \<Rightarrow> Some (Ok (b, qs, mem, 0))
      | Some p \<Rightarrow>
          if now < pd_deadline p then Some (Ok (b, qs, mem, 0))
          else Option.bind (perform io (bk_disk b) (rq_op (pd_request p)) mem) (\<lambda>(d', op', mem1, r).
            let req = (pd_request p)\<lparr>rq_op := op'\<rparr>; retries = pd_retries p + 1 in
            if r = Err (Os ENOSPC)
            then let (b1, t) = blk_now clk b in
              Some (Ok (b1\<lparr>bk_disk := d'\<lparr>dk_waiting := Some \<lparr>dw_operation = op_name op', dw_since = pd_since p, dw_retries = retries\<rparr>\<rparr>,
                          bk_pending := Some (p\<lparr>pd_request := req, pd_retries := retries, pd_deadline := max t now + RETRY_INTERVAL\<rparr>)\<rparr>,
                        qs, mem1, 0))
            else run_bind (Some (complete_on qs mem1 req (retry_result r))) (\<lambda>(qs1, mem2).
              run_bind (resubmit io clk
                  (let_go (b\<lparr>bk_disk := d'\<lparr>dk_waiting := None\<rparr>, bk_pending := None, bk_backlog := []\<rparr>) req)
                  qs1 mem2 (serviced_queue (rq_queue req)) (bk_backlog b)) (\<lambda>(b2, qs2, mem3, s).
                Some (Ok (b2\<lparr>bk_pending := map_option (\<lambda>p. p\<lparr>pd_deadline := max (pd_deadline p) (now + RETRY_INTERVAL)\<rparr>) (bk_pending b2)\<rparr>,
                          qs2, mem3, s))))))"

section \<open>The device\<close>

definition blk_features :: "block \<Rightarrow> u64" where
  "blk_features b =
     COMMON_FEATURES OR F_SEG_MAX OR F_BLK_SIZE OR F_FLUSH OR F_DISCARD OR F_WRITE_ZEROES OR
     (if bk_read_only b then F_RO else 0) OR (if 1 < bk_queues b then F_MQ else 0)"

definition blk_config :: "block \<Rightarrow> bytes" where
  "blk_config b =
     to_le_bytes (of_nat (capacity_sectors (bk_disk b)) :: u64) @ replicate 4 0 @ to_le_bytes (ucast MAX_QUEUE_SIZE - 2 :: u32) @ replicate 4 0 @
     to_le_bytes (512 :: u32) @ replicate 10 0 @ to_le_bytes (of_nat (bk_queues b) :: u16) @
     to_le_bytes MAX_DISCARD_SECTORS @ to_le_bytes (1 :: u32) @ to_le_bytes (1 :: u32) @
     to_le_bytes MAX_DISCARD_SECTORS @ to_le_bytes (1 :: u32) @ [1, 0, 0, 0]"

definition blk_config_read :: "block \<Rightarrow> u64 \<Rightarrow> nat \<Rightarrow> bytes" where
  "blk_config_read b offset n =
     map (\<lambda>i. let config = blk_config b in if unat offset + i < length config then config ! (unat offset + i) else 0) [0 ..< n]"

definition blk_notify ::
  "(nat \<Rightarrow> io_answer) \<Rightarrow> (nat \<Rightarrow> nat) \<Rightarrow> block \<Rightarrow> u16 \<Rightarrow> virtqueue list \<Rightarrow> guest_memory \<Rightarrow>
   (memory_error, block \<times> virtqueue list \<times> guest_memory \<times> serviced) run" where
  "blk_notify io clk b index qs mem =
     (if bk_queues b \<le> unat index \<or> length qs \<le> unat index then Some (Ok (b, qs, mem, 0))
      else run_bind (process_queue io clk index b (qs ! unat index) mem False) (\<lambda>(b', q', mem', used).
        Some (Ok (b', qs[unat index := q'], mem', serviced_queue_if index used))))"

definition blk_reset :: "block \<Rightarrow> block" where
  "blk_reset b =
     b\<lparr>bk_acked := 0, bk_pending := None, bk_backlog := [], bk_retained := map (\<lambda>_. 0) (bk_retained b),
       bk_disk := (bk_disk b)\<lparr>dk_waiting := None\<rparr>\<rparr>"

definition block_device :: "(nat \<Rightarrow> io_answer) \<Rightarrow> (nat \<Rightarrow> nat) \<Rightarrow> block virtio_device" where
  "block_device io clk =
     \<lparr>vd_type = 2, vd_features = blk_features, vd_ack_features = (\<lambda>b f. b\<lparr>bk_acked := f\<rparr>), vd_queue_count = bk_queues,
      vd_queue_max_size_of = (\<lambda>_ _. MAX_QUEUE_SIZE), vd_shm_regions = (\<lambda>_. []), vd_config_read = blk_config_read,
      vd_config_write = (\<lambda>b _ _. b), vd_activate = (\<lambda>b. b), vd_notify = blk_notify io clk,
      vd_retry_deadline = (\<lambda>b. map_option pd_deadline (bk_pending b)), vd_retry_deferred = blk_retry io clk,
      vd_reset = blk_reset\<rparr>"

section \<open>What an operation touches\<close>

lemma blk_spans_total:
  "blk_spans mem w ds = Some v \<Longrightarrow> iov_total v = sum_list (map (\<lambda>d. unat (d_len d)) ds) \<and> spans_fit v"
  by (induction ds arbitrary: v) (auto simp: MAX_TRANSFER_def split: if_splits)

lemma body_spans: "blk_spans mem w (data_part body) = Some v \<Longrightarrow> iov_total v = body_len body \<and> spans_fit v"
  by (simp add: blk_spans_total body_len_def)

lemma with_count_iff [simp]: "with_count n r = Ok k \<longleftrightarrow> r = Ok () \<and> k = n" "with_count n r = Panic \<longleftrightarrow> r = Panic"
    "with_count n r = Err e \<longleftrightarrow> r = Err e"
  by (cases r; auto simp: with_count_def)+

definition outside :: "(nat \<times> nat) option \<Rightarrow> nat \<Rightarrow> bool" where
  "outside rng i \<longleftrightarrow> (case rng of None \<Rightarrow> True | Some (lo, hi) \<Rightarrow> i < lo \<or> hi \<le> i)"

text \<open>The frame of an operation: what it leaves as it was, whether it succeeds, fails or stops half-way.\<close>

definition framed :: "operation \<Rightarrow> disk \<Rightarrow> disk \<times> operation \<times> guest_memory \<times> (io_error, u32) result \<Rightarrow> bool" where
  "framed op d y \<longleftrightarrow> disk_shape (fst y) = disk_shape d \<and> (\<forall>i. outside (mutation_range op) i \<longrightarrow> dk_file (fst y) i = dk_file d i) \<and>
     mutation_range (fst (snd y)) = mutation_range op \<and> reads_only (fst (snd y)) = reads_only op \<and> snd (snd (snd y)) \<noteq> Panic"

lemma write_stays_inside:
  assumes "write_vectored_progress io d f offset v dn = Some (d', dn', r)"
  shows "disk_shape d' = disk_shape d \<and> r \<noteq> Panic \<and> (\<forall>i. i < offset \<or> offset + iov_total v \<le> i \<longrightarrow> dk_file d' i = dk_file d i)"
proof (cases "dn \<le> iov_total v")
  case True
  from write_progress_extends [OF assms True] show ?thesis by (auto simp: put_file_def)
next
  case False
  then show ?thesis using assms by (auto simp: write_vectored_progress_def split: if_splits)
qed

lemma zeroes_stay_inside:
  assumes "write_zeroes_progress io d offset len unmap dn = Some (d', dn', r)" "dk_len d < 2 ^ 63"
  shows "disk_shape d' = disk_shape d \<and> r \<noteq> Panic \<and> (\<forall>i. i < offset \<or> offset + len \<le> i \<longrightarrow> dk_file d' i = dk_file d i)"
proof (cases "dn \<le> len")
  case True
  from write_zeroes_zeroed [OF assms(1) True assms(2)] show ?thesis by (auto simp: zeroed_def put_file_def)
next
  case False
  then show ?thesis using assms by (auto simp: write_zeroes_progress_def split: if_splits)
qed

lemma punch_stays_inside:
  assumes "punch_hole io d offset len = (d', r)" "dk_len d < 2 ^ 63"
  shows "disk_shape d' = disk_shape d \<and> r \<noteq> Panic \<and> (\<forall>i. i < offset \<or> offset + len \<le> i \<longrightarrow> dk_file d' i = dk_file d i)"
proof -
  obtain s n where "disk_shape d' = disk_shape d" "r \<noteq> Panic" "n = 0 \<or> offset \<le> s \<and> s + n \<le> offset + len"
      "dk_file d' = put_file (dk_file d) s (replicate n 0)"
    using punch_hole_inside [OF assms] by blast
  then show ?thesis by (cases "n = 0") (auto simp: put_file_outside)
qed

text \<open>A read that is served delivers the bytes of the image; one that is not leaves the image as it was.\<close>

definition read_delivers :: "(nat \<Rightarrow> u8) \<Rightarrow> operation \<Rightarrow> guest_memory \<Rightarrow> guest_memory \<Rightarrow> bool" where
  "read_delivers g op m m' \<longleftrightarrow> (case op of
     Read offset body \<Rightarrow> (case blk_spans m True (data_part body) of
        None \<Rightarrow> False
      | Some v \<Rightarrow> m' = m\<lparr>gm_bytes := scatter (gm_bytes m) v (file_bytes g offset (body_len body))\<rparr>)
   | _ \<Rightarrow> False)"

lemma perform_read:
  assumes "perform io d (Read offset body) mem = Some (d', op', mem', r)"
  shows "op' = Read offset body \<and> disk_shape d' = disk_shape d \<and> dk_file d' = dk_file d \<and> r \<noteq> Panic \<and>
    (\<forall>n. r = Ok n \<longrightarrow> read_delivers (dk_file d) (Read offset body) mem mem')"
proof (cases "blk_spans mem True (data_part body)")
  case (Some v)
  note t = body_spans [OF Some]
  obtain f r' where run: "read_vectored_at io d (gm_bytes mem) offset v = Some (d', f, r')"
      and out: "op' = Read offset body" "mem' = mem\<lparr>gm_bytes := f\<rparr>" "r = with_count (of_nat (iov_total v)) r'"
    using assms Some by auto
  have "fetched (gm_bytes mem) d offset v (d', f, r')"
  proof (cases "check_range d offset (iov_total v)")
    case True
    then show ?thesis using run t read_loop_fetched by (simp add: read_vectored_at_def)
  next
    case False
    then show ?thesis using run by (auto simp: read_vectored_at_def fetched_def file_bytes_def intro: exI [of _ 0])
  qed
  then show ?thesis using out t Some by (auto simp: fetched_def read_delivers_def)
qed (use assms in auto)

lemma perform_framed:
  assumes "perform io d op mem = Some y" "dk_len d < 2 ^ 63"
  shows "framed op d y"
proof (cases op)
  case (Read offset body)
  obtain d' op' mem' r where y: "y = (d', op', mem', r)" by (cases y)
  show ?thesis using perform_read assms(1) unfolding Read y by (fastforce simp: framed_def)
next
  case (Write offset body dn)
  show ?thesis
  proof (cases "blk_spans mem False (data_part body)")
    case (Some v)
    then obtain d' dn' r where w: "write_vectored_progress io d (gm_bytes mem) offset v dn = Some (d', dn', r)"
        and "y = (d', Write offset body dn', mem, with_count 0 r)"
      using assms(1) Write by auto
    then show ?thesis
      using write_stays_inside [OF w] body_spans [OF Some] by (auto simp: framed_def Write outside_def)
  qed (use assms Write in \<open>auto simp: framed_def\<close>)
next
  case Flush
  then show ?thesis using assms(1) by (auto simp: framed_def disk_flush_def with_count_def split: if_splits io_answer.splits)
next
  case (GetId body)
  then show ?thesis using assms(1) by (auto simp: framed_def split: prod.splits if_splits)
next
  case (Discard offset len)
  then obtain d' r where p: "punch_hole io d offset len = (d', r)" "y = (d', Discard offset len, mem, with_count 0 r)"
    using assms(1) by (auto split: prod.splits)
  then show ?thesis using punch_stays_inside [OF p(1) assms(2)] by (auto simp: framed_def Discard outside_def)
next
  case (Zero offset len unmap dn)
  then obtain d' dn' r where z: "write_zeroes_progress io d offset len unmap dn = Some (d', dn', r)"
      "y = (d', Zero offset len unmap dn', mem, with_count 0 r)"
    using assms(1) by auto
  then show ?thesis using zeroes_stay_inside [OF z(1) assms(2)] by (auto simp: framed_def Zero outside_def)
qed

section \<open>The loops\<close>

definition admit :: "block \<Rightarrow> u16 \<Rightarrow> block" where
  "admit b index = b\<lparr>bk_retained := (bk_retained b)[unat index := Suc (bk_retained b ! unat index)]\<rparr>"

lemma blk_complete_config: "blk_complete q mem h st res = Ok (q', mem') \<Longrightarrow> queue_config q' = queue_config q"
  unfolding blk_complete_def by (rule push_used_config)

lemma complete_on_config: "complete_on qs mem req res = Ok (qs', mem') \<Longrightarrow> map queue_config qs' = map queue_config qs"
  by (auto simp: complete_on_def Let_def map_update blk_complete_config split: if_splits intro!: list_update_same_conv [THEN iffD2])

text \<open>Whatever each submission keeps, emptying a queue keeps.\<close>

lemma process_queue_keeps:
  assumes run: "process_queue io clk index b q mem used = Some (Ok (b', q', mem', used'))" and start: "P b"
    and step: "\<And>b ds mem op st h b1 mem1 outcome. P b \<Longrightarrow> prepare b ds mem = Inr op \<Longrightarrow> bk_retained b ! unat index < unat (qsize q) \<Longrightarrow>
      submit io clk (admit b index) \<lparr>rq_queue = index, rq_head = h, rq_status = st, rq_op = op\<rparr> mem = Some (b1, mem1, outcome) \<Longrightarrow> P b1"
  shows "P b' \<and> queue_config q' = queue_config q"
proof -
  let ?S = "\<lambda>io clk index n. \<forall>b ds mem op st h b1 mem1 outcome. P b \<longrightarrow> prepare b ds mem = Inr op \<longrightarrow> bk_retained b ! unat index < n \<longrightarrow>
      submit io clk (admit b index) \<lparr>rq_queue = index, rq_head = h, rq_status = st, rq_op = op\<rparr> mem = Some (b1, mem1, outcome) \<longrightarrow> P b1"
  let ?R = "\<lambda>io clk index b q y. ?S io clk index (unat (qsize q)) \<longrightarrow> P b \<longrightarrow> P (fst y) \<and> queue_config (fst (snd y)) = queue_config q"
  have "\<forall>y. Ok (b', q', mem', used') = (Ok y :: (memory_error, _) result) \<longrightarrow> ?R io clk index b q y"
  proof (rule process_queue.raw_induct [where P = "\<lambda>io clk index b q mem used r. \<forall>y. r = Ok y \<longrightarrow> ?R io clk index b q y", OF _ run], intro allI impI)
    fix loop io clk index b q mem used r y
    assume IH: "\<And>io clk index b q mem used r. loop io clk index b q mem used = Some r \<Longrightarrow> \<forall>y. r = Ok y \<longrightarrow> ?R io clk index b q y"
      and body: "(if unat (qsize q) \<le> bk_retained b ! unat index then Some (Ok (b, q, mem, used))
        else run_bind (Some (pop q mem)) (\<lambda>(q1, oc). case oc of
          None \<Rightarrow> Some (Ok (b, q1, mem, used))
        | Some c \<Rightarrow>
          (case status_descriptor (chain_descs mem c) mem of
             None \<Rightarrow> run_bind (Some (push_used q1 mem (head c) 0)) (\<lambda>(q2, mem2). loop io clk index b q2 mem2 True)
           | Some st \<Rightarrow>
               (case prepare b (chain_descs mem c) mem of
                  Inl code \<Rightarrow> run_bind (Some (blk_complete q1 mem (head c) st (code, 0))) (\<lambda>(q2, mem2). loop io clk index b q2 mem2 True)
                | Inr op \<Rightarrow>
                    Option.bind (submit io clk (b\<lparr>bk_retained := (bk_retained b)[unat index := Suc (bk_retained b ! unat index)]\<rparr>)
                        \<lparr>rq_queue = index, rq_head = head c, rq_status = st, rq_op = op\<rparr> mem) (\<lambda>(b', mem1, outcome).
                      case outcome of
                        None \<Rightarrow> loop io clk index b' q1 mem1 used
                      | Some (_, res) \<Rightarrow> run_bind (Some (blk_complete q1 mem1 (head c) st res)) (\<lambda>(q2, mem2).
                          loop io clk index b' q2 mem2 True)))))) = Some r"
      and r: "r = Ok y" and S: "?S io clk index (unat (qsize q))" and b: "P b"
    have go: "P (fst y) \<and> queue_config (fst (snd y)) = queue_config q"
      if "loop io clk index b1 q1 mem1 u = Some (Ok y)" "queue_config q1 = queue_config q" "P b1" for b1 q1 mem1 u
    proof -
      have "qsize q1 = qsize q" using that(2) by (simp add: queue_config_def)
      then show ?thesis using IH [OF that(1)] that(2,3) S by simp
    qed
    show "P (fst y) \<and> queue_config (fst (snd y)) = queue_config q"
    proof (cases "unat (qsize q) \<le> bk_retained b ! unat index")
      case room: False
      obtain q1 oc where p: "pop q mem = Ok (q1, oc)" using body r room by (cases "pop q mem") auto
      note c1 = pop_config [OF p]
      show ?thesis
      proof (cases oc)
        case None
        then show ?thesis using body r room p c1 b by auto
      next
        case (Some c)
        show ?thesis
        proof (cases "status_descriptor (chain_descs mem c) mem")
          case None
          then obtain q2 mem2 where x: "push_used q1 mem (head c) 0 = Ok (q2, mem2)" "loop io clk index b q2 mem2 True = Some (Ok y)"
            using body r room p Some by auto
          show ?thesis using go [OF x(2)] push_used_config [OF x(1)] c1 b by simp
        next
          case st: (Some st)
          show ?thesis
          proof (cases "prepare b (chain_descs mem c) mem")
            case (Inl code)
            then obtain q2 mem2 where x: "blk_complete q1 mem (head c) st (code, 0) = Ok (q2, mem2)" "loop io clk index b q2 mem2 True = Some (Ok y)"
              using body r room p Some st by auto
            show ?thesis using go [OF x(2)] blk_complete_config [OF x(1)] c1 b by simp
          next
            case (Inr op)
            then obtain b1 mem1 outcome where sub: "submit io clk (admit b index) \<lparr>rq_queue = index, rq_head = head c, rq_status = st, rq_op = op\<rparr> mem = Some (b1, mem1, outcome)"
                and rest: "(case outcome of None \<Rightarrow> loop io clk index b1 q1 mem1 used
                  | Some (_, res) \<Rightarrow> run_bind (Some (blk_complete q1 mem1 (head c) st res)) (\<lambda>(q2, mem2). loop io clk index b1 q2 mem2 True)) = Some (Ok y)"
              using body r room p Some st by (auto simp: bind_eq_Some_conv admit_def)
            have b1: "P b1" using S b Inr room sub by (meson not_le)
            show ?thesis
            proof (cases outcome)
              case None
              then show ?thesis using rest go c1 b1 by simp
            next
              case (Some a)
              then obtain q2 mem2 where x: "blk_complete q1 mem1 (head c) st (snd a) = Ok (q2, mem2)" "loop io clk index b1 q2 mem2 True = Some (Ok y)"
                using rest by (auto split: prod.splits)
              show ?thesis using go [OF x(2)] blk_complete_config [OF x(1)] c1 b1 by simp
            qed
          qed
        qed
      qed
    qed (use body r b in auto)
  qed
  then have "?R io clk index b q (b', q', mem', used')" by blast
  moreover have "?S io clk index (unat (qsize q))" using step by blast
  ultimately show ?thesis using start by simp
qed

lemma resubmit_keeps:
  assumes "resubmit io clk b qs mem s rs = Some (Ok (b', qs', mem', s'))" "P b rs"
    and "\<And>b req rs mem b1 mem1 outcome. P b (req # rs) \<Longrightarrow> submit io clk b req mem = Some (b1, mem1, outcome) \<Longrightarrow> P b1 rs"
  shows "P b' [] \<and> map queue_config qs' = map queue_config qs"
  using assms(1,2)
proof (induction rs arbitrary: b qs mem s)
  case (Cons req rs)
  obtain b1 mem1 outcome where sub: "submit io clk b req mem = Some (b1, mem1, outcome)"
    using Cons.prems(1) by (auto simp: bind_eq_Some_conv)
  have b1: "P b1 rs" using assms(3) Cons.prems(2) sub by blast
  show ?case
  proof (cases outcome)
    case None
    then show ?thesis using Cons.IH [OF _ b1] Cons.prems(1) sub by auto
  next
    case (Some a)
    obtain qs1 mem2 where c: "complete_on qs mem1 (fst a) (snd a) = Ok (qs1, mem2)"
        and r: "resubmit io clk b1 qs1 mem2 (serviced_and s (serviced_queue (rq_queue (fst a)))) rs = Some (Ok (b', qs', mem', s'))"
      using Cons.prems(1) sub Some by (auto split: prod.splits)
    then show ?thesis using Cons.IH [OF r b1] complete_on_config [OF c] by simp
  qed
qed simp

section \<open>The device's laws\<close>

definition offering :: "block \<Rightarrow> bool \<times> nat" where
  "offering b = (bk_read_only b, bk_queues b)"

lemma offering_simps [simp]:
  "offering (b\<lparr>bk_retained := r\<rparr>) = offering b" "offering (let_go b req) = offering b" "offering (admit b index) = offering b"
  by (simp_all add: offering_def let_go_def admit_def Let_def)

lemma submit_offering: "submit io clk b req mem = Some (b1, mem1, outcome) \<Longrightarrow> offering b1 = offering b"
  by (auto simp: submit_def Let_def offering_def let_go_def blk_now_def split: if_splits option.splits prod.splits result.splits)

lemma blk_notify_laws:
  assumes "blk_notify io clk b index qs mem = Some (Ok (b', qs', mem', s))"
  shows "map queue_config qs' = map queue_config qs \<and> offering b' = offering b"
proof (cases "bk_queues b \<le> unat index \<or> length qs \<le> unat index")
  case False
  then obtain q' used where run: "process_queue io clk index b (qs ! unat index) mem False = Some (Ok (b', q', mem', used))"
      and "qs' = qs[unat index := q']"
    using assms by (auto simp: blk_notify_def)
  moreover have "offering b' = offering b \<and> queue_config q' = queue_config (qs ! unat index)"
    by (rule process_queue_keeps [OF run]) (auto dest: submit_offering)
  ultimately show ?thesis using False by (simp add: map_update list_update_same_conv)
qed (use assms in \<open>auto simp: blk_notify_def\<close>)

lemma blk_retry_laws:
  assumes "blk_retry io clk b qs mem now = Some (Ok (b', qs', mem', s))"
  shows "map queue_config qs' = map queue_config qs \<and> offering b' = offering b"
proof (cases "bk_pending b")
  case (Some p)
  show ?thesis
  proof (cases "now < pd_deadline p")
    case False
    obtain d1 op1 mem1 r where pf: "perform io (bk_disk b) (rq_op (pd_request p)) mem = Some (d1, op1, mem1, r)"
      using assms Some False by (auto simp: blk_retry_def bind_eq_Some_conv)
    show ?thesis
    proof (cases "r = Err (Os ENOSPC)")
      case True
      then show ?thesis using assms Some False pf by (auto simp: blk_retry_def Let_def blk_now_def offering_def)
    next
      case full: False
      let ?req = "(pd_request p)\<lparr>rq_op := op1\<rparr>"
      let ?b = "let_go (b\<lparr>bk_disk := d1\<lparr>dk_waiting := None\<rparr>, bk_pending := None, bk_backlog := []\<rparr>) ?req"
      obtain qs1 mem2 b2 qs2 where c: "complete_on qs mem1 ?req (retry_result r) = Ok (qs1, mem2)"
          and rs: "resubmit io clk ?b qs1 mem2 (serviced_queue (rq_queue ?req)) (bk_backlog b) = Some (Ok (b2, qs', mem', s))"
          and b': "offering b' = offering b2"
        using assms Some False pf full by (auto simp: blk_retry_def Let_def offering_def)
      have "offering b2 = offering b \<and> map queue_config qs' = map queue_config qs1"
      proof (rule resubmit_keeps [OF rs, where P = "\<lambda>b1 _. offering b1 = offering b"])
        show "offering ?b = offering b" by (simp add: offering_def let_go_def Let_def)
      qed (auto dest: submit_offering)
      then show ?thesis using complete_on_config [OF c] b' by simp
    qed
  qed (use assms Some in \<open>auto simp: blk_retry_def\<close>)
qed (use assms in \<open>auto simp: blk_retry_def\<close>)

lemma blk_features_offering: "offering b' = offering b \<Longrightarrow> blk_features b' = blk_features b"
  by (simp add: offering_def blk_features_def)

interpretation blkd: virtio_device_laws "block_device io clk" for io clk
proof
  fix d i qs mem d' qs' mem' s
  assume "vd_notify (block_device io clk) d i qs mem = Some (Ok (d', qs', mem', s))"
  then have n: "blk_notify io clk d i qs mem = Some (Ok (d', qs', mem', s))" by (simp add: block_device_def)
  show "map queue_config qs' = map queue_config qs" using blk_notify_laws [OF n] by simp
  show "vd_features (block_device io clk) d' = vd_features (block_device io clk) d"
    using blk_features_offering [of d' d] blk_notify_laws [OF n] by (simp add: block_device_def)
next
  fix d qs mem now d' qs' mem' s
  assume "vd_retry_deferred (block_device io clk) d qs mem now = Some (Ok (d', qs', mem', s))"
  then have r: "blk_retry io clk d qs mem now = Some (Ok (d', qs', mem', s))" by (simp add: block_device_def)
  show "map queue_config qs' = map queue_config qs \<and> vd_features (block_device io clk) d' = vd_features (block_device io clk) d"
    using blk_features_offering [of d' d] blk_retry_laws [OF r] by (simp add: block_device_def)
qed (simp_all add: block_device_def blk_features_def blk_reset_def)

end
