(* ===== verification/Virtio_Block_Order.thy ===== *)
theory Virtio_Block_Order
  imports Virtio_Block "HOL-Library.Sublist"
begin

text \<open>
  The order of a block device's requests. A request that finds the host disk full waits, later requests wait
  behind it, and reads that touch nothing the waiting ones will change may pass. The life of the
  device is a step relation whose steps are the calls of \<^verbatim>\<open>submit\<close> and of the timer's retry, with a log beside the device's
  state: the image after each finished write, flush, discard or zeroing (\<open>hist\<close>), the ranges of all of these that have been
  accepted, in order (\<open>adm\<close>), and the reads that were served, each with its place in that order.
\<close>

section \<open>The life of the device\<close>

definition ordered :: "operation \<Rightarrow> bool" where
  "ordered op \<longleftrightarrow> \<not> reads_only op"

definition ranges :: "operation list \<Rightarrow> (nat \<times> nat) option list" where
  "ranges ops = map mutation_range (filter ordered ops)"

definition retained_ops :: "block \<Rightarrow> operation list" where
  "retained_ops b = (case bk_pending b of None \<Rightarrow> [] | Some p \<Rightarrow> [rq_op (pd_request p)]) @ map rq_op (bk_backlog b)"

text \<open>What of a device bears on the order.\<close>

definition core :: "block \<Rightarrow> (nat \<Rightarrow> u8) \<times> nat \<times> operation option \<times> operation list" where
  "core b = (dk_file (bk_disk b), dk_len (bk_disk b), map_option (\<lambda>p. rq_op (pd_request p)) (bk_pending b), map rq_op (bk_backlog b))"

type_synonym served = "nat \<times> operation \<times> guest_memory \<times> guest_memory"

definition log_hist :: "block \<Rightarrow> operation \<Rightarrow> 'o option \<Rightarrow> (nat \<Rightarrow> u8) list \<Rightarrow> (nat \<Rightarrow> u8) list" where
  "log_hist b op outcome hist = (if outcome \<noteq> None \<and> ordered op then hist @ [dk_file (bk_disk b)] else hist)"

fun is_read :: "operation \<Rightarrow> bool" where
  "is_read (Read _ _) = True"
| "is_read _ = False"

definition log_reads :: "nat \<Rightarrow> operation \<Rightarrow> guest_memory \<Rightarrow> guest_memory \<Rightarrow> (request \<times> u8 \<times> u32) option \<Rightarrow> served list \<Rightarrow> served list" where
  "log_reads k op mem mem1 outcome reads =
     (case outcome of
        Some (req, code, n) \<Rightarrow> if is_read op \<and> code = S_OK then reads @ [(k, op, mem, mem1)] else reads
      | None \<Rightarrow> reads)"

definition place_of :: "block \<Rightarrow> (nat \<Rightarrow> u8) list \<Rightarrow> nat" where
  "place_of b hist = length hist - 1 + length (ranges (retained_ops b))"

inductive block_life ::
  "(nat \<Rightarrow> io_answer) \<Rightarrow> (nat \<Rightarrow> nat) \<Rightarrow> block \<Rightarrow> request list \<Rightarrow> (nat \<Rightarrow> u8) list \<Rightarrow> (nat \<times> nat) option list \<Rightarrow> served list \<Rightarrow> bool"
  for io clk where
  idle: "bk_pending b = None \<Longrightarrow> bk_backlog b = [] \<Longrightarrow> dk_len (bk_disk b) < 2 ^ 63 \<Longrightarrow> block_life io clk b [] [dk_file (bk_disk b)] [] []"
| unrelated: "block_life io clk b todo hist adm reads \<Longrightarrow> core b' = core b \<Longrightarrow> block_life io clk b' todo hist adm reads"
| arrives: "block_life io clk b [] hist adm reads \<Longrightarrow> block_life io clk b [req] hist (adm @ ranges [rq_op req]) reads"
| submitted: "block_life io clk b (req # todo) hist adm reads \<Longrightarrow> submit io clk b req mem = Some (b1, mem1, outcome) \<Longrightarrow>
    block_life io clk b1 todo (log_hist b1 (rq_op req) outcome hist) adm (log_reads (place_of b hist) (rq_op req) mem mem1 outcome reads)"
| retry_waits: "block_life io clk b [] hist adm reads \<Longrightarrow> bk_pending b = Some p \<Longrightarrow>
    perform io (bk_disk b) (rq_op (pd_request p)) mem = Some (d', op', mem1, Err (Os ENOSPC)) \<Longrightarrow>
    block_life io clk (b\<lparr>bk_disk := d', bk_pending := Some (p\<lparr>pd_request := (pd_request p)\<lparr>rq_op := op'\<rparr>\<rparr>)\<rparr>) [] hist adm reads"
| retry_ends: "block_life io clk b [] hist adm reads \<Longrightarrow> bk_pending b = Some p \<Longrightarrow>
    perform io (bk_disk b) (rq_op (pd_request p)) mem = Some (d', op', mem1, r) \<Longrightarrow> r \<noteq> Err (Os ENOSPC) \<Longrightarrow>
    block_life io clk (b\<lparr>bk_disk := d', bk_pending := None, bk_backlog := []\<rparr>) (bk_backlog b) (hist @ [dk_file d']) adm reads"

section \<open>Passing\<close>

definition clear_of :: "operation \<Rightarrow> (nat \<times> nat) option \<Rightarrow> bool" where
  "clear_of op rng \<longleftrightarrow> (case op of Read offset body \<Rightarrow> \<forall>i. offset \<le> i \<and> i < offset + body_len body \<longrightarrow> outside rng i | _ \<Rightarrow> True)"

lemma may_pass_clear: "may_pass op earlier \<Longrightarrow> clear_of op (mutation_range earlier)"
  by (cases op) (auto simp: clear_of_def outside_def Let_def split: option.splits)

lemma may_pass_reads: "may_pass op earlier \<Longrightarrow> reads_only op"
  by (cases op) auto

lemma read_delivers_cong:
  assumes "read_delivers g op m m'" "clear_of op rng" "\<And>i. outside rng i \<Longrightarrow> g' i = g i"
  shows "read_delivers g' op m m'"
proof (cases op)
  case (Read offset body)
  have "file_bytes g' offset (body_len body) = file_bytes g offset (body_len body)"
    using assms(2,3) by (auto simp: file_bytes_def clear_of_def Read)
  then show ?thesis using assms(1) by (cases "blk_spans m True (data_part body)") (simp_all add: read_delivers_def Read)
qed (use assms in \<open>auto simp: read_delivers_def\<close>)

text \<open>What a submission does: it holds the request back behind the waiting one, performs it and waits with it, or
  performs it and answers.\<close>

lemma submit_cases:
  assumes "submit io clk b req mem = Some (b1, mem1, outcome)" "dk_len (bk_disk b) < 2 ^ 63"
  obtains (held) "bk_pending b \<noteq> None" "outcome = None" "core b1 = core (b\<lparr>bk_backlog := bk_backlog b @ [req]\<rparr>)"
  | (waits) d' op' p where "bk_pending b \<noteq> None \<longrightarrow> can_pass b (rq_op req)" "outcome = None" "ordered (rq_op req)"
      "core b1 = core (b\<lparr>bk_disk := d', bk_pending := Some p\<rparr>)" "rq_op (pd_request p) = op'"
      "framed (rq_op req) (bk_disk b) (d', op', mem1, Err (Os ENOSPC))"
  | (answered) d' op' res code n r where "bk_pending b \<noteq> None \<longrightarrow> can_pass b (rq_op req)" "outcome = Some (res, code, n)"
      "core b1 = core (b\<lparr>bk_disk := d'\<rparr>)" "framed (rq_op req) (bk_disk b) (d', op', mem1, r)"
      "is_read (rq_op req) \<and> code = S_OK \<longrightarrow> read_delivers (dk_file (bk_disk b)) (rq_op req) mem mem1"
proof (cases "bk_pending b \<noteq> None \<and> \<not> can_pass b (rq_op req)")
  case True
  then show ?thesis using assms(1) held by (auto simp: submit_def)
next
  case pass: False
  obtain d' op' m r where pf: "perform io (bk_disk b) (rq_op req) mem = Some (d', op', m, r)"
    using assms(1) pass by (auto simp: submit_def split: option.splits)
  note fr = perform_framed [OF pf assms(2)]
  have ro: "reads_only op' = reads_only (rq_op req)" and np: "r \<noteq> Panic" using fr by (simp_all add: framed_def)
  let ?b = "let_go (b\<lparr>bk_disk := d'\<rparr>) (req\<lparr>rq_op := op'\<rparr>)"
  have lg: "core ?b = core (b\<lparr>bk_disk := d'\<rparr>)" by (simp add: core_def let_go_def Let_def)
  have rd: "read_delivers (dk_file (bk_disk b)) (rq_op req) mem m" if "is_read (rq_op req)" "r = Ok n" for n
    using that perform_read [of io "bk_disk b"] pf by (cases "rq_op req") auto
  show ?thesis
  proof (cases r)
    case (Ok w)
    then have "b1 = ?b" "mem1 = m" "outcome = Some (req\<lparr>rq_op := op'\<rparr>, S_OK, w)"
      using assms(1) pass pf by (auto simp: submit_def Let_def)
    then show ?thesis using answered [of _ _ _ d' op' r] fr lg rd Ok pass by blast
  next
    case (Err e)
    show ?thesis
    proof (cases "e = Os ENOSPC \<and> \<not> reads_only op'")
      case True
      then have "outcome = None" "mem1 = m" and
          b1: "core b1 = core (b\<lparr>bk_disk := d', bk_pending := Some \<lparr>pd_request = req\<lparr>rq_op := op'\<rparr>, pd_since = 0, pd_deadline = 0, pd_retries = 0\<rparr>\<rparr>)"
        using assms(1) pass pf Err by (auto simp: submit_def Let_def core_def blk_now_def)
      then show ?thesis
        using waits [OF _ _ _ b1 refl] fr ro pass True Err by (auto simp: ordered_def)
    next
      case False
      then have "b1 = ?b" "mem1 = m" "outcome = Some (req\<lparr>rq_op := op'\<rparr>, S_IOERR, 0)"
        using assms(1) pass pf Err by (auto simp: submit_def Let_def)
      then show ?thesis using answered [of _ _ _ d' op' r] fr lg pass by (auto simp: S_OK_def S_IOERR_def)
    qed
  qed (use np in simp)
qed

section \<open>The invariant\<close>

definition reads_ok :: "(nat \<Rightarrow> u8) \<Rightarrow> (nat \<Rightarrow> u8) list \<Rightarrow> (nat \<times> nat) option list \<Rightarrow> served list \<Rightarrow> bool" where
  "reads_ok g hist adm reads \<longleftrightarrow> (\<forall>(k, op, m, m') \<in> set reads. k \<le> length adm \<and>
     (if k < length hist then read_delivers (hist ! k) op m m'
      else read_delivers g op m m' \<and> (\<forall>j < k. length hist \<le> Suc j \<longrightarrow> clear_of op (adm ! j))))"

definition hist_ok :: "(nat \<Rightarrow> u8) \<Rightarrow> (nat \<times> nat) option \<Rightarrow> (nat \<Rightarrow> u8) list \<Rightarrow> (nat \<times> nat) option list \<Rightarrow> bool" where
  "hist_ok g rng hist adm \<longleftrightarrow> hist \<noteq> [] \<and> length hist \<le> Suc (length adm) \<and>
     (\<forall>i. outside rng i \<longrightarrow> g i = last hist i) \<and>
     (\<forall>j. Suc j < length hist \<longrightarrow> (\<forall>i. outside (adm ! j) i \<longrightarrow> (hist ! Suc j) i = (hist ! j) i))"

definition waiting_range :: "block \<Rightarrow> (nat \<times> nat) option" where
  "waiting_range b = (case bk_pending b of None \<Rightarrow> None | Some p \<Rightarrow> mutation_range (rq_op (pd_request p)))"

definition order_inv :: "block \<Rightarrow> request list \<Rightarrow> (nat \<Rightarrow> u8) list \<Rightarrow> (nat \<times> nat) option list \<Rightarrow> served list \<Rightarrow> bool" where
  "order_inv b todo hist adm reads \<longleftrightarrow> (bk_pending b = None \<longrightarrow> bk_backlog b = []) \<and>
     (\<forall>p. bk_pending b = Some p \<longrightarrow> ordered (rq_op (pd_request p))) \<and> dk_len (bk_disk b) < 2 ^ 63 \<and>
     drop (length hist - 1) adm = ranges (retained_ops b @ map rq_op todo) \<and>
     hist_ok (dk_file (bk_disk b)) (waiting_range b) hist adm \<and> reads_ok (dk_file (bk_disk b)) hist adm reads"

lemma ranges_simps [simp]: "ranges [] = []" "ranges (op # ops) = (if ordered op then mutation_range op # ranges ops else ranges ops)"
    "ranges (xs @ ys) = ranges xs @ ranges ys"
  by (simp_all add: ranges_def)

lemma core_eq:
  assumes "core b' = core b"
  shows "dk_file (bk_disk b') = dk_file (bk_disk b)" "dk_len (bk_disk b') = dk_len (bk_disk b)" "retained_ops b' = retained_ops b"
    "waiting_range b' = waiting_range b" "bk_pending b' = None \<longleftrightarrow> bk_pending b = None" "bk_backlog b' = [] \<longleftrightarrow> bk_backlog b = []"
    "(\<forall>p. bk_pending b' = Some p \<longrightarrow> ordered (rq_op (pd_request p))) \<longleftrightarrow> (\<forall>p. bk_pending b = Some p \<longrightarrow> ordered (rq_op (pd_request p)))"
proof -
  have f: "dk_file (bk_disk b') = dk_file (bk_disk b)" "dk_len (bk_disk b') = dk_len (bk_disk b)"
      "map_option (\<lambda>p. rq_op (pd_request p)) (bk_pending b') = map_option (\<lambda>p. rq_op (pd_request p)) (bk_pending b)"
      "map rq_op (bk_backlog b') = map rq_op (bk_backlog b)"
    using assms by (simp_all add: core_def)
  then show "dk_file (bk_disk b') = dk_file (bk_disk b)" "dk_len (bk_disk b') = dk_len (bk_disk b)" "bk_pending b' = None \<longleftrightarrow> bk_pending b = None"
      "bk_backlog b' = [] \<longleftrightarrow> bk_backlog b = []"
    by (auto simp: map_option_case split: option.splits)
  show "retained_ops b' = retained_ops b" "waiting_range b' = waiting_range b"
      "(\<forall>p. bk_pending b' = Some p \<longrightarrow> ordered (rq_op (pd_request p))) \<longleftrightarrow> (\<forall>p. bk_pending b = Some p \<longrightarrow> ordered (rq_op (pd_request p)))"
    using f(3,4) by (cases "bk_pending b'"; cases "bk_pending b"; simp add: retained_ops_def waiting_range_def)+
qed

lemma order_inv_core:
  assumes "core b' = core b"
  shows "order_inv b' todo hist adm reads = order_inv b todo hist adm reads"
  unfolding order_inv_def by (simp only: core_eq [OF assms])

lemma reads_ok_more: "reads_ok g hist adm reads \<Longrightarrow> reads_ok g hist (adm @ later) reads"
  by (fastforce simp: reads_ok_def nth_append)

lemma hist_ok_more: "hist_ok g rng hist adm \<Longrightarrow> hist_ok g rng hist (adm @ later)"
  by (auto simp: hist_ok_def nth_append)

lemma drop_front: "drop n xs = y # ys \<Longrightarrow> n < length xs \<and> xs ! n = y \<and> drop (Suc n) xs = ys"
  by (metis Cons_nth_drop_Suc drop_eq_Nil list.distinct(1) list.inject not_le)

text \<open>Performing the first unfinished operation, whose range is \<open>rng\<close>: while it waits, and when it ends.\<close>

lemma front_waits:
  assumes "\<And>i. outside rng i \<Longrightarrow> g' i = g i" "drop (length hist - 1) adm = rng # later" "hist_ok g None hist adm \<or> hist_ok g rng hist adm" "reads_ok g hist adm reads"
  shows "hist_ok g' rng hist adm" "reads_ok g' hist adm reads"
proof -
  have n: "length hist - 1 < length adm" "adm ! (length hist - 1) = rng"
    using drop_front [OF assms(2)] by simp_all
  show "hist_ok g' rng hist adm" using assms(1,3) by (auto simp: hist_ok_def outside_def)
  show "reads_ok g' hist adm reads" unfolding reads_ok_def
  proof (clarify)
    fix k op m m' assume x: "(k, op, m, m') \<in> set reads"
    then have k: "k \<le> length adm" "k < length hist \<Longrightarrow> read_delivers (hist ! k) op m m'"
        "\<not> k < length hist \<Longrightarrow> read_delivers g op m m'" "\<not> k < length hist \<Longrightarrow> \<forall>j < k. length hist \<le> Suc j \<longrightarrow> clear_of op (adm ! j)"
      using assms(4) by (auto simp: reads_ok_def)
    have "read_delivers g' op m m'" if "\<not> k < length hist"
    proof (rule read_delivers_cong [OF k(3) [OF that] _ assms(1)])
      show "clear_of op rng" using k(4) [OF that] that n assms(3) by (cases hist) (auto simp: hist_ok_def)
    qed
    then show "k \<le> length adm \<and> (if k < length hist then read_delivers (hist ! k) op m m'
      else read_delivers g' op m m' \<and> (\<forall>j < k. length hist \<le> Suc j \<longrightarrow> clear_of op (adm ! j)))"
      using k by auto
  qed
qed

lemma front_ends:
  assumes "hist_ok g rng hist adm" "reads_ok g hist adm reads" "drop (length hist - 1) adm = rng # later"
  shows "hist_ok g None (hist @ [g]) adm" "reads_ok g (hist @ [g]) adm reads" "drop (length (hist @ [g]) - 1) adm = later"
proof -
  have ne: "hist \<noteq> []" using assms(1) by (simp add: hist_ok_def)
  have n: "length hist - 1 < length adm" "adm ! (length hist - 1) = rng"
    using drop_front [OF assms(3)] by simp_all
  show "drop (length (hist @ [g]) - 1) adm = later"
    using drop_front [OF assms(3)] ne by simp
  have "((hist @ [g]) ! Suc j) i = ((hist @ [g]) ! j) i" if j: "Suc j < length (hist @ [g])" "outside (adm ! j) i" for i j
  proof (cases "Suc j < length hist")
    case False
    then have "j = length hist - 1" using j(1) ne by simp
    then show ?thesis using assms(1) j(2) n(2) ne by (simp add: hist_ok_def nth_append last_conv_nth)
  qed (use assms(1) j(2) in \<open>simp add: hist_ok_def nth_append\<close>)
  then show "hist_ok g None (hist @ [g]) adm"
    using n(1) unfolding hist_ok_def by simp
  show "reads_ok g (hist @ [g]) adm reads"
    using assms(2) by (fastforce simp: reads_ok_def nth_append)
qed

lemma front_step:
  assumes inv: "order_inv b todo hist adm reads" and front: "retained_ops b @ map rq_op todo = op # ops" "ordered op"
    and fr: "framed op (bk_disk b) (d', op', m, r)" and w: "waiting_range b = None \<or> waiting_range b = mutation_range op"
  shows "hist_ok (dk_file d') (mutation_range op) hist adm" "reads_ok (dk_file d') hist adm reads"
    "hist_ok (dk_file d') None (hist @ [dk_file d']) adm" "reads_ok (dk_file d') (hist @ [dk_file d']) adm reads"
    "drop (length hist - 1) adm = mutation_range op # ranges ops" "drop (length (hist @ [dk_file d']) - 1) adm = ranges ops"
    "dk_len d' < 2 ^ 63" "mutation_range op' = mutation_range op" "ordered op'"
proof -
  have "drop (length hist - 1) adm = ranges (op # ops)"
    using inv front(1) by (simp only: order_inv_def) 
  then show d: "drop (length hist - 1) adm = mutation_range op # ranges ops" using front(2) by simp
  have h: "hist_ok (dk_file (bk_disk b)) None hist adm \<or> hist_ok (dk_file (bk_disk b)) (mutation_range op) hist adm"
      and r: "reads_ok (dk_file (bk_disk b)) hist adm reads"
    using inv w by (auto simp: order_inv_def)
  have f: "outside (mutation_range op) i \<Longrightarrow> dk_file d' i = dk_file (bk_disk b) i" for i using fr by (simp add: framed_def)
  show wt: "hist_ok (dk_file d') (mutation_range op) hist adm" "reads_ok (dk_file d') hist adm reads"
    using front_waits [of "mutation_range op" "dk_file d'" "dk_file (bk_disk b)", OF f d h r] by blast+
  show "hist_ok (dk_file d') None (hist @ [dk_file d']) adm" "reads_ok (dk_file d') (hist @ [dk_file d']) adm reads"
      "drop (length (hist @ [dk_file d']) - 1) adm = ranges ops"
    by (rule front_ends [OF wt d])+
  show "dk_len d' < 2 ^ 63" "mutation_range op' = mutation_range op" "ordered op'"
    using fr inv front(2) by (simp_all add: framed_def order_inv_def ordered_def disk_shape_def)
qed

lemma passing_only_reads: "can_pass b op \<Longrightarrow> bk_pending b \<noteq> None \<Longrightarrow> \<not> ordered op"
  by (auto simp: can_pass_def ordered_def dest: may_pass_reads)

text \<open>A read that passes: its place in the order is behind everything retained, and it touches none of it.\<close>

lemma passing_read_ok:
  assumes inv: "order_inv b (req # todo) hist adm reads" and pass: "bk_pending b \<noteq> None \<longrightarrow> can_pass b (rq_op req)"
    and rd: "read_delivers (dk_file (bk_disk b)) (rq_op req) mem mem1"
  shows "reads_ok (dk_file (bk_disk b)) hist adm (reads @ [(place_of b hist, rq_op req, mem, mem1)])"
proof -
  let ?n = "length hist - 1" and ?R = "ranges (retained_ops b)"
  have ne: "hist \<noteq> []" and le: "?n \<le> length adm" and old: "reads_ok (dk_file (bk_disk b)) hist adm reads"
    using inv by (auto simp: order_inv_def hist_ok_def)
  have d: "drop ?n adm = ?R @ ranges (map rq_op (req # todo))" using inv by (simp add: order_inv_def)
  have "length adm - ?n = length (?R @ ranges (map rq_op (req # todo)))" unfolding d [symmetric] by simp
  then have k: "place_of b hist \<le> length adm" using le by (simp add: place_of_def)
  have at: "adm ! j = ?R ! (j - ?n)" "j - ?n < length ?R" if "?n \<le> j" "j < place_of b hist" for j
  proof -
    show l: "j - ?n < length ?R" using that by (auto simp: place_of_def)
    have "adm ! j = drop ?n adm ! (j - ?n)" using that(1) le by simp
    then show "adm ! j = ?R ! (j - ?n)" unfolding d using l by (simp add: nth_append)
  qed
  have "clear_of (rq_op req) (adm ! j)" if j: "?n \<le> j" "j < place_of b hist" for j
  proof -
    have "adm ! j \<in> set ?R" using at [OF j] by simp
    then obtain op where op: "op \<in> set (retained_ops b)" "adm ! j = mutation_range op" by (auto simp: ranges_def)
    then have "bk_pending b \<noteq> None" using inv by (auto simp: retained_ops_def order_inv_def split: option.splits)
    then have "may_pass (rq_op req) op"
      using op(1) pass by (auto simp: retained_ops_def can_pass_def list_all_iff split: option.splits)
    then show ?thesis using op(2) may_pass_clear by simp
  qed
  moreover have "read_delivers (hist ! place_of b hist) (rq_op req) mem mem1" if "place_of b hist < length hist"
  proof -
    have "?R = []" using that ne by (cases hist) (auto simp: place_of_def)
    then have pn: "bk_pending b = None" using inv by (cases "bk_pending b") (auto simp: retained_ops_def order_inv_def)
    have "last hist = hist ! place_of b hist" using \<open>?R = []\<close> ne by (simp add: place_of_def last_conv_nth)
    moreover have "dk_file (bk_disk b) = last hist"
      using inv pn by (auto simp: order_inv_def hist_ok_def waiting_range_def outside_def)
    ultimately show ?thesis using rd by simp
  qed
  ultimately show ?thesis using old k rd by (auto simp: reads_ok_def)
qed

lemma submitted_inv:
  assumes inv: "order_inv b (req # todo) hist adm reads" and sub: "submit io clk b req mem = Some (b1, mem1, outcome)"
  shows "order_inv b1 todo (log_hist b1 (rq_op req) outcome hist) adm (log_reads (place_of b hist) (rq_op req) mem mem1 outcome reads)"
proof -
  have len: "dk_len (bk_disk b) < 2 ^ 63" using inv by (simp add: order_inv_def)
  have alone: "retained_ops b = []" "waiting_range b = None" "bk_backlog b = []" "bk_pending b = None"
    if o: "ordered (rq_op req)" "bk_pending b \<noteq> None \<longrightarrow> can_pass b (rq_op req)"
  proof -
    show pn: "bk_pending b = None" using o passing_only_reads by blast
    then show "bk_backlog b = []" "waiting_range b = None" "retained_ops b = []"
      using inv by (simp_all add: retained_ops_def waiting_range_def order_inv_def)
  qed
  show ?thesis using sub len
  proof (cases rule: submit_cases)
    case held
    let ?b = "b\<lparr>bk_backlog := bk_backlog b @ [req]\<rparr>"
    have "order_inv ?b todo hist adm reads"
      using inv held(1) by (auto simp: order_inv_def retained_ops_def waiting_range_def)
    then show ?thesis using order_inv_core [OF held(3)] held(2) by (simp add: log_hist_def log_reads_def)
  next
    case (waits d' op' p)
    note al = alone [OF waits(3,1)]
    have front: "retained_ops b @ map rq_op (req # todo) = rq_op req # map rq_op todo" by (simp add: al)
    note fs = front_step [OF inv front waits(3,6) disjI1 [OF al(2)]]
    have "order_inv (b\<lparr>bk_disk := d', bk_pending := Some p\<rparr>) todo hist adm reads"
      using fs waits(5) al(3) by (simp add: order_inv_def retained_ops_def waiting_range_def)
    then show ?thesis using order_inv_core [OF waits(4)] waits(2) by (simp add: log_hist_def log_reads_def)
  next
    case (answered d' op' res code n r)
    have img: "dk_file (bk_disk b1) = dk_file d'" using core_eq(1) [OF answered(3)] by simp
    show ?thesis
    proof (cases "ordered (rq_op req)")
      case True
      note al = alone [OF True answered(1)]
      have front: "retained_ops b @ map rq_op (req # todo) = rq_op req # map rq_op todo" by (simp add: al)
      note fs = front_step [OF inv front True answered(4) disjI1 [OF al(2)]]
      have "order_inv (b\<lparr>bk_disk := d'\<rparr>) todo (hist @ [dk_file d']) adm reads"
        using fs al by (simp add: order_inv_def retained_ops_def waiting_range_def)
      moreover have "\<not> is_read (rq_op req)" using True by (cases "rq_op req") (simp_all add: ordered_def)
      ultimately show ?thesis
        using order_inv_core [OF answered(3)] True answered(2) img by (simp add: log_hist_def log_reads_def)
    next
      case False
      then have "mutation_range (rq_op req) = None" by (cases "rq_op req") (simp_all add: ordered_def)
      then have same: "dk_file d' = dk_file (bk_disk b)" "dk_len d' = dk_len (bk_disk b)"
        using answered(4) by (auto simp: framed_def outside_def disk_shape_def)
      let ?r = "if is_read (rq_op req) \<and> code = S_OK then reads @ [(place_of b hist, rq_op req, mem, mem1)] else reads"
      have "reads_ok (dk_file (bk_disk b)) hist adm ?r"
        using passing_read_ok [OF inv answered(1), of mem mem1] answered(5) inv by (simp add: order_inv_def)
      then have "order_inv (b\<lparr>bk_disk := d'\<rparr>) todo hist adm ?r"
        using inv False same by (simp add: order_inv_def retained_ops_def waiting_range_def)
      then show ?thesis
        using order_inv_core [OF answered(3)] False answered(2) by (simp add: log_hist_def log_reads_def)
    qed
  qed
qed

lemma life_order_inv: "block_life io clk b todo hist adm reads \<Longrightarrow> order_inv b todo hist adm reads"
proof (induction rule: block_life.induct)
  case (idle b)
  then show ?case by (simp add: order_inv_def hist_ok_def reads_ok_def retained_ops_def)
next
  case (unrelated b todo hist adm reads b')
  then show ?case using order_inv_core [OF unrelated.hyps(2)] by simp
next
  case (arrives b hist adm reads req)
  then have "length hist - 1 \<le> length adm" by (auto simp: order_inv_def hist_ok_def)
  with arrives.IH show ?case by (auto simp: order_inv_def intro: hist_ok_more reads_ok_more)
next
  case (submitted b req todo hist adm reads mem b1 mem1 outcome)
  show ?case by (rule submitted_inv [OF submitted.IH submitted.hyps(2)])
next
  case (retry_waits b hist adm reads p mem d' op' mem1)
  have o: "ordered (rq_op (pd_request p))" and len: "dk_len (bk_disk b) < 2 ^ 63"
    using retry_waits.IH retry_waits.hyps(2) by (simp_all add: order_inv_def)
  have front: "retained_ops b @ map rq_op [] = rq_op (pd_request p) # map rq_op (bk_backlog b)" and
      w: "waiting_range b = mutation_range (rq_op (pd_request p))"
    using retry_waits.hyps(2) by (simp_all add: retained_ops_def waiting_range_def)
  show ?case
    using front_step [OF retry_waits.IH front o perform_framed [OF retry_waits.hyps(3) len] disjI2 [OF w]]
    by (simp add: order_inv_def retained_ops_def waiting_range_def)
next
  case (retry_ends b hist adm reads p mem d' op' mem1 r)
  have o: "ordered (rq_op (pd_request p))" and len: "dk_len (bk_disk b) < 2 ^ 63"
    using retry_ends.IH retry_ends.hyps(2) by (simp_all add: order_inv_def)
  have front: "retained_ops b @ map rq_op [] = rq_op (pd_request p) # map rq_op (bk_backlog b)" and
      w: "waiting_range b = mutation_range (rq_op (pd_request p))"
    using retry_ends.hyps(2) by (simp_all add: retained_ops_def waiting_range_def)
  show ?case
    using front_step [OF retry_ends.IH front o perform_framed [OF retry_ends.hyps(3) len] disjI2 [OF w]]
    by (simp add: order_inv_def retained_ops_def waiting_range_def)
qed

section \<open>The calls are steps of this life\<close>

definition continues ::
  "(nat \<Rightarrow> io_answer) \<Rightarrow> (nat \<Rightarrow> nat) \<Rightarrow> (nat \<Rightarrow> u8) list \<Rightarrow> (nat \<times> nat) option list \<Rightarrow> served list \<Rightarrow> block \<Rightarrow> request list \<Rightarrow> bool" where
  "continues io clk hist adm reads b todo \<longleftrightarrow>
     (\<exists>h a r. block_life io clk b todo h a r \<and> prefix hist h \<and> prefix adm a \<and> prefix reads r)"

lemma prefix_log: "prefix hist h \<Longrightarrow> prefix hist (log_hist b op outcome h)" "prefix reads r \<Longrightarrow> prefix reads (log_reads k op mem mem1 outcome r)"
  by (auto simp: log_hist_def log_reads_def split: option.splits)

lemma continues_core: "continues io clk hist adm reads b todo \<Longrightarrow> core b' = core b \<Longrightarrow> continues io clk hist adm reads b' todo"
  unfolding continues_def using unrelated by blast

lemma continues_arrives: "continues io clk hist adm reads b [] \<Longrightarrow> continues io clk hist adm reads b [req]"
  unfolding continues_def using arrives by (metis prefix_prefix)

lemma continues_submitted:
  "continues io clk hist adm reads b (req # todo) \<Longrightarrow> submit io clk b req mem = Some (b1, mem1, outcome) \<Longrightarrow> continues io clk hist adm reads b1 todo"
proof -
  assume c: "continues io clk hist adm reads b (req # todo)" and sub: "submit io clk b req mem = Some (b1, mem1, outcome)"
  obtain h a r where l: "block_life io clk b (req # todo) h a r" "prefix hist h" "prefix adm a" "prefix reads r"
    using c by (auto simp: continues_def)
  show ?thesis
    unfolding continues_def using submitted [OF l(1) sub] prefix_log(1) [OF l(2)] l(3) prefix_log(2) [OF l(4)] by blast
qed

lemma notify_continues:
  assumes "block_life io clk b [] hist adm reads" "blk_notify io clk b index qs mem = Some (Ok (b', qs', mem', s))"
  shows "continues io clk hist adm reads b' []"
proof -
  have start: "continues io clk hist adm reads b []" using assms(1) by (auto simp: continues_def)
  show ?thesis
  proof (cases "bk_queues b \<le> unat index \<or> length qs \<le> unat index")
    case False
    then obtain q' used where run: "process_queue io clk index b (qs ! unat index) mem False = Some (Ok (b', q', mem', used))"
      using assms(2) by (auto simp: blk_notify_def)
    have "continues io clk hist adm reads b1 []"
      if "continues io clk hist adm reads b []" "submit io clk (admit b index) req mem = Some (b1, mem1, outcome)" for b req mem b1 mem1 outcome
    proof -
      have "continues io clk hist adm reads (admit b index) []"
        by (rule continues_core [OF that(1)]) (simp add: core_def admit_def)
      then show ?thesis using continues_submitted [OF continues_arrives that(2)] by blast
    qed
    then show ?thesis
      using process_queue_keeps [OF run, where P = "\<lambda>b. continues io clk hist adm reads b []"] start by blast
  qed (use assms(2) start in \<open>auto simp: blk_notify_def\<close>)
qed

lemma retry_continues:
  assumes life: "block_life io clk b [] hist adm reads" and call: "blk_retry io clk b qs mem now = Some (Ok (b', qs', mem', s))"
  shows "continues io clk hist adm reads b' []"
proof (cases "bk_pending b")
  case (Some p)
  show ?thesis
  proof (cases "now < pd_deadline p")
    case False
    obtain d1 op1 mem1 r where pf: "perform io (bk_disk b) (rq_op (pd_request p)) mem = Some (d1, op1, mem1, r)"
      using call Some False by (auto simp: blk_retry_def bind_eq_Some_conv)
    show ?thesis
    proof (cases "r = Err (Os ENOSPC)")
      case True
      let ?b = "b\<lparr>bk_disk := d1, bk_pending := Some (p\<lparr>pd_request := (pd_request p)\<lparr>rq_op := op1\<rparr>\<rparr>)\<rparr>"
      have "block_life io clk ?b [] hist adm reads" using retry_waits [OF life Some] pf True by blast
      moreover have "core b' = core ?b" using call Some False pf True by (auto simp: blk_retry_def Let_def blk_now_def core_def)
      ultimately have "block_life io clk b' [] hist adm reads" by (rule unrelated)
      then show ?thesis by (auto simp: continues_def)
    next
      case ends: False
      let ?req = "(pd_request p)\<lparr>rq_op := op1\<rparr>"
      let ?b = "let_go (b\<lparr>bk_disk := d1\<lparr>dk_waiting := None\<rparr>, bk_pending := None, bk_backlog := []\<rparr>) ?req"
      obtain qs1 mem2 b2 where rs: "resubmit io clk ?b qs1 mem2 (serviced_queue (rq_queue ?req)) (bk_backlog b) = Some (Ok (b2, qs', mem', s))"
          and b': "core b' = core b2"
        using call Some False pf ends by (auto simp: blk_retry_def Let_def core_def option.map_comp comp_def)
      have "block_life io clk (b\<lparr>bk_disk := d1, bk_pending := None, bk_backlog := []\<rparr>) (bk_backlog b) (hist @ [dk_file d1]) adm reads"
        by (rule retry_ends [OF life Some pf ends])
      then have "continues io clk hist adm reads (b\<lparr>bk_disk := d1, bk_pending := None, bk_backlog := []\<rparr>) (bk_backlog b)"
        unfolding continues_def by (intro exI [of _ "hist @ [dk_file d1]"] exI [of _ adm] exI [of _ reads]) simp
      then have "continues io clk hist adm reads ?b (bk_backlog b)"
        by (rule continues_core) (simp add: core_def let_go_def Let_def)
      then have "continues io clk hist adm reads b2 []"
        using resubmit_keeps [OF rs, where P = "continues io clk hist adm reads"] continues_submitted by blast
      then show ?thesis using b' by (rule continues_core)
    qed
  qed (use call Some life in \<open>auto simp: blk_retry_def continues_def\<close>)
qed (use call life in \<open>auto simp: blk_retry_def continues_def\<close>)

text \<open>C8: Reads are served as if the requests had been taken one at a time, in the order they arrived. However the host
  fills up and recovers, and whatever reads pass the waiting requests: the writes, flushes, discards
  and zeroings that are not finished are the last of those accepted, in the order they were accepted;
  each finished one changed the image inside its range only; and every read that was answered
  with success has put into the guest's buffers the bytes of the image as it stood after exactly the
  requests accepted before it, or, while some of these are still waiting, the bytes they will leave there.\<close>

theorem reads_in_order:
  assumes "block_life io clk b [] hist adm reads"
  shows "drop (length hist - 1) adm = ranges (retained_ops b) \<and>
    (\<forall>j. Suc j < length hist \<longrightarrow> (\<forall>i. outside (adm ! j) i \<longrightarrow> (hist ! Suc j) i = (hist ! j) i)) \<and>
    (\<forall>(k, op, m, m') \<in> set reads. if k < length hist then read_delivers (hist ! k) op m m'
       else read_delivers (dk_file (bk_disk b)) op m m' \<and> (\<forall>j < k. length hist \<le> Suc j \<longrightarrow> clear_of op (adm ! j)))"
proof -
  have inv: "order_inv b [] hist adm reads" by (rule life_order_inv [OF assms])
  then have "hist_ok (dk_file (bk_disk b)) (waiting_range b) hist adm" "reads_ok (dk_file (bk_disk b)) hist adm reads"
      "drop (length hist - 1) adm = ranges (retained_ops b)"
    by (simp_all add: order_inv_def)
  then show ?thesis unfolding hist_ok_def reads_ok_def by (fastforce split: prod.splits)
qed

text \<open>The device's two entry points are runs of these steps. From a device at rest, a notification of a queue and a
  retry by the timer, whatever the rings and the guest's memory hold, only ever take a request from a
  queue and submit it, attempt the waiting one, or submit the held ones again in order; so the log goes on where it was.\<close>

lemma block_calls_are_steps:
  assumes "block_life io clk b [] hist adm reads"
    and "blk_notify io clk b index qs mem = Some (Ok (b', qs', mem', s)) \<or> blk_retry io clk b qs mem now = Some (Ok (b', qs', mem', s))"
  shows "\<exists>h a r. block_life io clk b' [] h a r \<and> prefix hist h \<and> prefix adm a \<and> prefix reads r"
  using assms notify_continues retry_continues by (auto simp: continues_def)

section \<open>How much is held\<close>

definition held_requests :: "block \<Rightarrow> request list" where
  "held_requests b = (case bk_pending b of None \<Rightarrow> [] | Some p \<Rightarrow> [pd_request p]) @ bk_backlog b"

definition from_queue :: "nat \<Rightarrow> request \<Rightarrow> bool" where
  "from_queue i req \<longleftrightarrow> unat (rq_queue req) = i"

definition counted :: "block \<Rightarrow> request list \<Rightarrow> bool" where
  "counted b todo \<longleftrightarrow> length (bk_retained b) = 32 \<and> list_all (\<lambda>r. unat (rq_queue r) < 32) (held_requests b @ todo) \<and>
     (\<forall>i < 32. bk_retained b ! i = length (filter (from_queue i) (held_requests b @ todo)))"

lemma counted_let_go:
  assumes "length (bk_retained b) = 32" "unat (rq_queue req) < 32" "rq_queue req' = rq_queue req"
    and "\<forall>i < 32. bk_retained b ! i = length (filter (from_queue i) (req # rs))"
  shows "length (bk_retained (let_go b req')) = 32 \<and> (\<forall>i < 32. bk_retained (let_go b req') ! i = length (filter (from_queue i) rs))"
  using assms by (auto simp: let_go_def Let_def nth_list_update from_queue_def)

lemma perform_kind: "perform io d op mem = Some (d', op', m, r) \<Longrightarrow> reads_only op' = reads_only op"
  by (cases op) (auto split: option.splits prod.splits)

lemma submit_counted:
  assumes c: "counted b (req # todo)" and sub: "submit io clk b req mem = Some (b1, mem1, outcome)"
    and inv: "bk_pending b = None \<longrightarrow> bk_backlog b = []"
  shows "counted b1 todo \<and> (bk_pending b1 = None \<longrightarrow> bk_backlog b1 = [])"
proof (cases "bk_pending b \<noteq> None \<and> \<not> can_pass b (rq_op req)")
  case True
  then have "b1 = b\<lparr>bk_backlog := bk_backlog b @ [req]\<rparr>" using sub by (auto simp: submit_def)
  then show ?thesis using c True by (auto simp: counted_def held_requests_def)
next
  case False
  obtain d' op' m r where pf: "perform io (bk_disk b) (rq_op req) mem = Some (d', op', m, r)"
    using sub False by (auto simp: submit_def split: option.splits)
  let ?b = "b\<lparr>bk_disk := d'\<rparr>" and ?req = "req\<lparr>rq_op := op'\<rparr>"
  consider (answered) "b1 = let_go ?b ?req" | (waits) "bk_retained b1 = bk_retained b" "held_requests b1 = ?req # bk_backlog b" "bk_pending b = None" "bk_pending b1 \<noteq> None"
  proof (cases "\<exists>e. r = Err e \<and> e = Os ENOSPC \<and> \<not> reads_only op'")
    case True
    then have "\<not> reads_only (rq_op req)" using perform_kind [OF pf] by simp
    then have "bk_pending b = None" using False passing_only_reads unfolding ordered_def by blast
    then show thesis using True sub False pf waits by (auto simp: submit_def Let_def blk_now_def held_requests_def)
  next
    case no: False
    then show thesis using answered sub False pf by (auto simp: submit_def Let_def split: result.splits if_splits)
  qed
  then show ?thesis
  proof cases
    case answered
    have "list_all (\<lambda>r. unat (rq_queue r) < 32) (held_requests b @ todo)" "unat (rq_queue req) < 32"
      using c by (simp_all add: counted_def)
    moreover have "\<forall>i < 32. bk_retained ?b ! i = length (filter (from_queue i) (req # held_requests b @ todo))"
      using c by (auto simp: counted_def)
    ultimately have "length (bk_retained b1) = 32 \<and> (\<forall>i < 32. bk_retained b1 ! i = length (filter (from_queue i) (held_requests b @ todo)))"
      unfolding answered using c by (intro counted_let_go [of _ req]) (simp_all add: counted_def)
    moreover have "held_requests b1 = held_requests b" by (simp add: answered held_requests_def let_go_def Let_def)
    ultimately show ?thesis using c inv answered by (simp add: counted_def let_go_def Let_def)
  next
    case waits
    have "bk_backlog b = []" using inv waits(3) by simp
    moreover have "held_requests b = []" using inv waits(3) by (simp add: held_requests_def)
    moreover have "from_queue i ?req = from_queue i req" for i by (simp add: from_queue_def)
    ultimately have "counted b1 todo" using c waits by (simp add: counted_def)
    then show ?thesis using waits(4) by blast
  qed
qed

lemma submit_lets_go:
  assumes "submit io clk b req mem = Some (b1, mem1, outcome)"
  shows "length (bk_retained b1) = length (bk_retained b) \<and> (\<forall>i < length (bk_retained b). bk_retained b1 ! i \<le> bk_retained b ! i)"
proof -
  have "bk_retained b1 = bk_retained b \<or> (\<exists>r. bk_retained b1 = bk_retained (let_go b r))"
    using assms by (auto simp: submit_def Let_def let_go_def blk_now_def split: if_splits option.splits prod.splits result.splits)
  moreover have "bk_retained (let_go b r) ! i \<le> bk_retained b ! i" if "i < length (bk_retained b)" for r i
    using that by (cases "i = unat (rq_queue r)") (simp_all add: let_go_def Let_def)
  moreover have "length (bk_retained (let_go b r)) = length (bk_retained b)" for r by (simp add: let_go_def Let_def)
  ultimately show ?thesis by auto
qed

definition queued_behind :: "block \<Rightarrow> bool" where
  "queued_behind b \<longleftrightarrow> (bk_pending b = None \<longrightarrow> bk_backlog b = [])"

text \<open>The count that an admission makes before it submits.\<close>

lemma admit_counted:
  assumes "counted b []" "unat index < 32" "rq_queue req = index"
  shows "counted (admit b index) [req]"
  using assms by (auto simp: counted_def admit_def held_requests_def nth_list_update from_queue_def)

lemma notify_counted:
  assumes "counted b []" "queued_behind b" "bk_queues b \<le> 32" "blk_notify io clk b index qs mem = Some (Ok (b', qs', mem', s))"
  shows "counted b' [] \<and> queued_behind b' \<and>
    (\<forall>i < 32. bk_retained b' ! i \<le> (if i = unat index \<and> i < length qs then max (bk_retained b ! i) (unat (qsize (qs ! i))) else bk_retained b ! i))"
proof (cases "bk_queues b \<le> unat index \<or> length qs \<le> unat index")
  case False
  let ?q = "qs ! unat index" and ?cap = "\<lambda>i. if i = unat index then max (bk_retained b ! i) (unat (qsize (qs ! i))) else bk_retained b ! i"
  let ?P = "\<lambda>x. counted x [] \<and> queued_behind x \<and> (\<forall>i < 32. bk_retained x ! i \<le> ?cap i)"
  have ix: "unat index < 32" using False assms(3) by simp
  obtain q' used where run: "process_queue io clk index b ?q mem False = Some (Ok (b', q', mem', used))"
    using False assms(4) by (auto simp: blk_notify_def)
  have "?P b'"
  proof (rule process_queue_keeps [OF run, THEN conjunct1])
    show "?P b" using assms(1,2) by auto
  next
    fix x ds mem op st h x1 mem1 outcome
    let ?req = "\<lparr>rq_queue = index, rq_head = h, rq_status = st, rq_op = op\<rparr>"
    assume x: "?P x" and room: "bk_retained x ! unat index < unat (qsize ?q)"
      and sub: "submit io clk (admit x index) ?req mem = Some (x1, mem1, outcome)"
    have l: "length (bk_retained x) = 32" using x by (simp add: counted_def)
    have "counted (admit x index) [?req]" using x ix by (intro admit_counted) auto
    then have "counted x1 [] \<and> queued_behind x1"
      using submit_counted [OF _ sub] x by (simp add: queued_behind_def admit_def)
    moreover have "bk_retained x1 ! i \<le> ?cap i" if "i < 32" for i
    proof -
      have "bk_retained x1 ! i \<le> bk_retained (admit x index) ! i" using submit_lets_go [OF sub] that l by (simp add: admit_def)
      also have "\<dots> \<le> ?cap i" using x room that l ix by (auto simp: admit_def nth_list_update)
      finally show ?thesis .
    qed
    ultimately show "?P x1" by blast
  qed
  then show ?thesis using False by auto
qed (use assms in \<open>auto simp: blk_notify_def\<close>)

lemma retry_counted:
  assumes "counted b []" "queued_behind b" "blk_retry io clk b qs mem now = Some (Ok (b', qs', mem', s))"
  shows "counted b' [] \<and> queued_behind b' \<and> (\<forall>i < 32. bk_retained b' ! i \<le> bk_retained b ! i)"
proof (cases "bk_pending b")
  case (Some p)
  show ?thesis
  proof (cases "now < pd_deadline p")
    case False
    obtain d1 op1 mem1 r where pf: "perform io (bk_disk b) (rq_op (pd_request p)) mem = Some (d1, op1, mem1, r)"
      using assms(3) Some False by (auto simp: blk_retry_def bind_eq_Some_conv)
    let ?req = "(pd_request p)\<lparr>rq_op := op1\<rparr>"
    have fq: "from_queue i ?req = from_queue i (pd_request p)" for i by (simp add: from_queue_def)
    show ?thesis
    proof (cases "r = Err (Os ENOSPC)")
      case True
      then have "bk_retained b' = bk_retained b" "held_requests b' = ?req # bk_backlog b" "queued_behind b'"
        using assms(3) Some False pf by (auto simp: blk_retry_def Let_def blk_now_def held_requests_def queued_behind_def)
      then show ?thesis using assms(1) Some by (simp add: counted_def held_requests_def fq)
    next
      case ends: False
      let ?b = "let_go (b\<lparr>bk_disk := d1\<lparr>dk_waiting := None\<rparr>, bk_pending := None, bk_backlog := []\<rparr>) ?req"
      let ?P = "\<lambda>x rs. counted x rs \<and> queued_behind x \<and> (\<forall>i < 32. bk_retained x ! i \<le> bk_retained b ! i)"
      obtain qs1 mem2 b2 where rs: "resubmit io clk ?b qs1 mem2 (serviced_queue (rq_queue ?req)) (bk_backlog b) = Some (Ok (b2, qs', mem', s))"
          and b': "bk_retained b' = bk_retained b2" "held_requests b' = held_requests b2" "queued_behind b' = queued_behind b2"
        using assms(3) Some False pf ends by (auto simp: blk_retry_def Let_def held_requests_def queued_behind_def split: option.splits)
      have c: "length (bk_retained b) = 32" "list_all (\<lambda>r. unat (rq_queue r) < 32) (bk_backlog b)" "unat (rq_queue (pd_request p)) < 32"
          "\<forall>i < 32. bk_retained b ! i = length (filter (from_queue i) (pd_request p # bk_backlog b))"
        using assms(1) Some by (auto simp: counted_def held_requests_def)
      have "length (bk_retained ?b) = 32 \<and> (\<forall>i < 32. bk_retained ?b ! i = length (filter (from_queue i) (bk_backlog b)))"
        using c by (intro counted_let_go [of _ "pd_request p"]) simp_all
      moreover have "held_requests ?b = []" "queued_behind ?b" by (simp_all add: held_requests_def let_go_def Let_def queued_behind_def)
      ultimately have start: "?P ?b (bk_backlog b)" using c by (auto simp: counted_def)
      have "?P b2 []"
      proof (rule resubmit_keeps [OF rs, where P = ?P, OF start, THEN conjunct1])
        fix x req rs mem x1 mem1 outcome
        assume x: "?P x (req # rs)" and sub: "submit io clk x req mem = Some (x1, mem1, outcome)"
        have "counted x1 rs \<and> queued_behind x1" using submit_counted [of x req rs, OF _ sub] x unfolding queued_behind_def by blast
        moreover have "bk_retained x1 ! i \<le> bk_retained b ! i" if "i < 32" for i
        proof -
          have "bk_retained x1 ! i \<le> bk_retained x ! i" using submit_lets_go [OF sub] x that by (simp add: counted_def)
          also have "\<dots> \<le> bk_retained b ! i" using x that by simp
          finally show ?thesis .
        qed
        ultimately show "?P x1 rs" by blast
      qed
      then show ?thesis unfolding counted_def b' by blast
    qed
  qed (use assms Some in \<open>auto simp: blk_retry_def\<close>)
qed (use assms in \<open>auto simp: blk_retry_def\<close>)

text \<open>C38: The device holds no more than the rings offered. Its counters say exactly how many of the requests it holds came from each
  queue, so none of them ever underflows; a notification admits requests of that queue only while
  fewer are held than the ring has entries, and a retry by the timer only lets go; and requests are queued
  only behind one that waits for the host.\<close>

theorem held_requests_bounded:
  assumes "counted b []" "queued_behind b" "bk_queues b \<le> 32"
  shows "(\<forall>index b' qs' mem' s. blk_notify io clk b index qs mem = Some (Ok (b', qs', mem', s)) \<longrightarrow>
      counted b' [] \<and> queued_behind b' \<and>
      (\<forall>i < 32. bk_retained b' ! i \<le>
        (if i = unat index \<and> i < length qs then max (bk_retained b ! i) (unat (qsize (qs ! i))) else bk_retained b ! i))) \<and>
    (\<forall>now b' qs' mem' s. blk_retry io clk b qs mem now = Some (Ok (b', qs', mem', s)) \<longrightarrow>
      counted b' [] \<and> queued_behind b' \<and> (\<forall>i < 32. bk_retained b' ! i \<le> bk_retained b ! i))"
  using notify_counted [OF assms] retry_counted [OF assms(1,2)] by blast

section \<open>The properties at work\<close>

text \<open>A host that is full at the first call and moves what it is offered from then on; a flush that waits, and
  a read of one byte that passes it.\<close>

definition full_then_free :: "nat \<Rightarrow> io_answer" where
  "full_then_free k = (if k = 0 then Failed ENOSPC else Moved 4096)"

definition demo_block :: block where
  "demo_block = block_new (demo_disk\<lparr>dk_file := (\<lambda>i. of_nat i)\<rparr>) 1"

definition demo_desc :: "u64 \<Rightarrow> u32 \<Rightarrow> u16 \<Rightarrow> descriptor" where
  "demo_desc a n fl = \<lparr>d_addr = a, d_len = n, d_flags = fl, d_next = 0\<rparr>"

definition demo_ds :: "descriptor list" where
  "demo_ds = [demo_desc 4096 16 0, demo_desc 8192 1 2, demo_desc 8200 1 2]"

definition blk_request :: "operation \<Rightarrow> request" where
  "blk_request op = \<lparr>rq_queue = 0, rq_head = 0, rq_status = demo_desc 8200 1 2, rq_op = op\<rparr>"

definition waiting_block :: "nat \<Rightarrow> block" where
  "waiting_block calls = demo_block\<lparr>bk_clock := 1, bk_disk := demo_disk\<lparr>dk_file := (\<lambda>i. of_nat i), dk_calls := calls,
      dk_waiting := Some \<lparr>dw_operation = ''flush'', dw_since = 7, dw_retries = 0\<rparr>\<rparr>,
    bk_pending := Some \<lparr>pd_request = blk_request Flush, pd_since = 7, pd_deadline = 3007, pd_retries = 0\<rparr>\<rparr>"

lemma demo_flush_waits:
  "io 0 = Failed ENOSPC \<Longrightarrow> submit io (\<lambda>_. 7) demo_block (blk_request Flush) m = Some (waiting_block 1, m, None)"
  by (simp add: submit_def demo_block_def block_new_def demo_disk_def disk_flush_def with_count_def blk_request_def called_def
      blk_now_def waiting_block_def RETRY_INTERVAL_def)

lemma demo_waiting_life:
  assumes "io 0 = Failed ENOSPC"
  shows "block_life io (\<lambda>_. 7) (waiting_block 1) [] [\<lambda>i. of_nat i] [None] []"
proof -
  have "block_life io (\<lambda>_. 7) demo_block [] [dk_file (bk_disk demo_block)] [] []"
    by (rule idle) (simp_all add: demo_block_def block_new_def demo_disk_def)
  from submitted [OF arrives [OF this] demo_flush_waits [of io, OF assms]] show ?thesis
    by (simp add: log_hist_def log_reads_def blk_request_def ordered_def demo_block_def block_new_def)
qed

lemma demo_read_passes:
  "\<exists>b1 m1 req. submit full_then_free (\<lambda>_. 7) (waiting_block 1) (blk_request (Read 513 demo_ds)) (demo_memory 4096 []) = Some (b1, m1, Some (req, S_OK, 1))"
proof -
  have spans: "blk_spans (demo_memory 4096 []) True (data_part demo_ds) = Some [(8192, 1)]"
    by (simp add: data_part_def demo_ds_def demo_desc_def is_write_only_def desc_flag_defs MAX_TRANSFER_def reachable_def demo_memory_def memory_eval)
  have loop: "\<exists>f. read_loop full_then_free (bk_disk (waiting_block 1)) (gm_bytes (demo_memory 4096 [])) 513 [(8192, 1)] 1 =
      Some (called (bk_disk (waiting_block 1)), f, Ok ())"
    by (subst read_loop.simps, subst read_loop.simps) (simp add: waiting_block_def full_then_free_def IOV_MAX_def)
  have pass: "can_pass (waiting_block 1) (Read 513 demo_ds)" by (simp add: can_pass_def waiting_block_def blk_request_def demo_block_def block_new_def)
  have range: "check_range (bk_disk (waiting_block 1)) 513 1" by (simp add: check_range_def waiting_block_def demo_disk_def)
  show ?thesis
    using loop pass range by (auto simp: submit_def blk_request_def spans read_vectored_at_def with_count_def Let_def)
qed

theorem reads_in_order_witness:
  "\<exists>b reads m'. block_life full_then_free (\<lambda>_. 7) b [] [\<lambda>i. of_nat i] [None] reads \<and>
     reads = [(1, Read 513 demo_ds, demo_memory 4096 [], m')] \<and> read_delivers (dk_file (bk_disk b)) (Read 513 demo_ds) (demo_memory 4096 []) m'"
proof -
  obtain b1 m1 req where sub: "submit full_then_free (\<lambda>_. 7) (waiting_block 1) (blk_request (Read 513 demo_ds)) (demo_memory 4096 []) = Some (b1, m1, Some (req, S_OK, 1))"
    using demo_read_passes by blast
  have "full_then_free 0 = Failed ENOSPC" by (simp add: full_then_free_def)
  note w = demo_waiting_life [of full_then_free, OF this]
  have "place_of (waiting_block 1) [\<lambda>i. of_nat i] = 1"
    by (simp add: place_of_def retained_ops_def waiting_block_def blk_request_def ordered_def demo_block_def block_new_def)
  then have life: "block_life full_then_free (\<lambda>_. 7) b1 [] [\<lambda>i. of_nat i] [None] [(1, Read 513 demo_ds, demo_memory 4096 [], m1)]"
    using submitted [OF arrives [OF w, of "blk_request (Read 513 demo_ds)"] sub]
    by (simp add: log_hist_def log_reads_def blk_request_def ordered_def)
  from reads_in_order [OF this] show ?thesis using life by auto
qed

lemma block_calls_are_steps_witness:
  "\<exists>b' qs' mem' s h a r. blk_retry (\<lambda>_. Failed ENOSPC) (\<lambda>_. 7) (waiting_block 1) [] (demo_memory 4096 []) 3010 = Some (Ok (b', qs', mem', s)) \<and>
     block_life (\<lambda>_. Failed ENOSPC) (\<lambda>_. 7) b' [] h a r \<and> prefix [None] a"
proof -
  have "\<exists>b' qs' mem' s. blk_retry (\<lambda>_. Failed ENOSPC) (\<lambda>_. 7) (waiting_block 1) [] (demo_memory 4096 []) 3010 = Some (Ok (b', qs', mem', s))"
    by (simp add: blk_retry_def waiting_block_def blk_request_def disk_flush_def with_count_def demo_disk_def Let_def blk_now_def demo_block_def)
  then obtain b' qs' mem' s where r: "blk_retry (\<lambda>_. Failed ENOSPC) (\<lambda>_. 7) (waiting_block 1) [] (demo_memory 4096 []) 3010 = Some (Ok (b', qs', mem', s))"
    by blast
  from block_calls_are_steps [OF demo_waiting_life disjI2 [OF this]] r show ?thesis by blast
qed

theorem held_requests_bounded_witness:
  "\<exists>b' qs' mem' s. blk_retry (\<lambda>_. Failed ENOSPC) (\<lambda>_. 7) (admit (waiting_block 1) 0) [] (demo_memory 4096 []) 3010 = Some (Ok (b', qs', mem', s)) \<and>
     bk_retained b' ! 0 \<le> 1 \<and> counted b' []"
proof -
  let ?b = "admit (waiting_block 1) 0"
  have c: "counted ?b []" "queued_behind ?b" "bk_queues ?b \<le> 32" "bk_retained ?b ! 0 = 1"
    by (auto simp: counted_def admit_def waiting_block_def demo_block_def block_new_def held_requests_def blk_request_def from_queue_def
        queued_behind_def nth_list_update)
  have "\<exists>b' qs' mem' s. blk_retry (\<lambda>_. Failed ENOSPC) (\<lambda>_. 7) ?b [] (demo_memory 4096 []) 3010 = Some (Ok (b', qs', mem', s))"
    by (simp add: blk_retry_def waiting_block_def blk_request_def disk_flush_def with_count_def demo_disk_def Let_def blk_now_def demo_block_def admit_def)
  with held_requests_bounded [OF c(1-3), of "\<lambda>_. Failed ENOSPC" "\<lambda>_. 7" "[]" "demo_memory 4096 []"] c(4) show ?thesis
    by (metis zero_less_numeral)
qed

end
