(* ===== verification/Memory_Ramp.thy ===== *)
theory Memory_Ramp
  imports Virtio_Balloon Guest_Layout
begin

text \<open>
  The balloon's ramp, \<^verbatim>\<open>memory_policy.rs\<close>: the arithmetic that moves the target a step a poll, the state
  that holds it back, and what the host's own numbers say of its pressure. An \<^verbatim>\<open>Instant\<close> is a number of
  milliseconds, and a difference of two is never negative, as \<^verbatim>\<open>duration_since\<close> has it; the level kept
  as the number of a \<^verbatim>\<open>Pressure\<close> is the \<^verbatim>\<open>Pressure\<close> itself.
\<close>

datatype pressure = Normal | Warn | Critical

text \<open>What \<^verbatim>\<open>on_pressure\<close> reads from the dispatch source.\<close>

definition DISPATCH_MEMORYPRESSURE_WARN :: u64 where "DISPATCH_MEMORYPRESSURE_WARN = 2"
definition DISPATCH_MEMORYPRESSURE_CRITICAL :: u64 where "DISPATCH_MEMORYPRESSURE_CRITICAL = 4"

definition on_pressure :: "u64 \<Rightarrow> pressure" where
  "on_pressure event =
     (if event AND DISPATCH_MEMORYPRESSURE_CRITICAL \<noteq> 0 then Critical
      else if event AND DISPATCH_MEMORYPRESSURE_WARN \<noteq> 0 then Warn
      else Normal)"

definition WARN_FRACTION :: u64 where "WARN_FRACTION = 4"
definition CRITICAL_FRACTION :: u64 where "CRITICAL_FRACTION = 2"
definition WARN_STEP_FRACTION :: u64 where "WARN_STEP_FRACTION = 32"
definition CRITICAL_STEP_FRACTION :: u64 where "CRITICAL_STEP_FRACTION = 16"
definition COMPRESSING_BYTES_PER_POLL :: u64 where "COMPRESSING_BYTES_PER_POLL = 0x4000000"
definition STEP_MIN_BYTES :: u64 where "STEP_MIN_BYTES = 0x2000000"
definition STEP_FRACTION :: u64 where "STEP_FRACTION = 256"
definition STEER_CAP_FRACTION :: u64 where "STEER_CAP_FRACTION = 8"
definition GUEST_RESERVE_FRACTION :: u64 where "GUEST_RESERVE_FRACTION = 16"
definition QUIET_POLLS_BEFORE_DEFLATE :: u32 where "QUIET_POLLS_BEFORE_DEFLATE = 5"
definition WARM_GAIN_PRESSED :: u32 where "WARM_GAIN_PRESSED = 8"
definition WARM_GAIN_CRITICAL :: u32 where "WARM_GAIN_CRITICAL = 20"
definition HOLD_PATIENCE :: nat where "HOLD_PATIENCE = 5000"
definition PRESSURE_MEMORY :: nat where "PRESSURE_MEMORY = 60000"
definition OVERCOMMITTED_COMPRESSOR_FRACTION :: u64 where "OVERCOMMITTED_COMPRESSOR_FRACTION = 4"
definition OVERCOMMITTED_SWAP_FRACTION :: u64 where "OVERCOMMITTED_SWAP_FRACTION = 8"
definition OVERCOMMITTED_RELEASE_FRACTION_NUM :: u64 where "OVERCOMMITTED_RELEASE_FRACTION_NUM = 5"

lemmas ramp_consts = WARN_FRACTION_def CRITICAL_FRACTION_def WARN_STEP_FRACTION_def CRITICAL_STEP_FRACTION_def
  COMPRESSING_BYTES_PER_POLL_def STEP_MIN_BYTES_def STEP_FRACTION_def STEER_CAP_FRACTION_def GUEST_RESERVE_FRACTION_def
  QUIET_POLLS_BEFORE_DEFLATE_def BALLOON_PAGE_SIZE_def

section \<open>The steering rule, as arithmetic\<close>

definition as_pages :: "u64 \<Rightarrow> u32" where
  "as_pages bs = ucast (min (bs div BALLOON_PAGE_SIZE) 0xFFFFFFFF)"

definition warm_gain :: "pressure \<Rightarrow> bool \<Rightarrow> bool \<Rightarrow> u32" where
  "warm_gain level is_pressed compressing =
     (if level = Critical then WARM_GAIN_CRITICAL
      else if is_pressed \<or> compressing then WARM_GAIN_PRESSED
      else 1)"

definition cap_pages :: "pressure \<Rightarrow> u64 \<Rightarrow> u32" where
  "cap_pages level tot =
     as_pages (tot div (case level of Warn \<Rightarrow> WARN_FRACTION | Critical \<Rightarrow> CRITICAL_FRACTION | Normal \<Rightarrow> STEER_CAP_FRACTION))"

definition steer :: "u32 \<Rightarrow> u64 \<Rightarrow> u32 \<Rightarrow> u64 \<Rightarrow> pressure \<Rightarrow> bool \<Rightarrow> u32" where
  "steer pages compressed quiet_for tot level shrunk =
     (let cap = cap_pages level tot;
          reserve = as_pages (tot - tot div GUEST_RESERVE_FRACTION);
          small = as_pages (max (tot div STEP_FRACTION) STEP_MIN_BYTES);
          step_up = (case level of
              Warn \<Rightarrow> as_pages (tot div WARN_STEP_FRACTION)
            | Critical \<Rightarrow> as_pages (tot div CRITICAL_STEP_FRACTION)
            | Normal \<Rightarrow> small);
          pages' = (if shrunk then min pages cap else min pages reserve) in
      if level \<noteq> Normal \<or> COMPRESSING_BYTES_PER_POLL \<le> compressed
      then (if cap \<le> pages' then pages' else min (saturating_add pages' step_up) cap)
      else if QUIET_POLLS_BEFORE_DEFLATE \<le> quiet_for then saturating_sub pages' small
      else pages')"

section \<open>The ramp and what holds it\<close>

record compression_state =
  cs_pages :: u32
  cs_guest_short :: bool
  cs_healthy_since :: "nat option"
  cs_inflation :: "(u32 \<times> nat) option"
  cs_last_total :: u64
  cs_quiet_polls :: u32
  cs_hold_reported :: bool
  cs_releasing :: bool
  cs_host_free :: "u64 option"
  cs_host_room :: "u64 option"
  cs_overcommitted :: bool
  cs_swapped_out :: "u64 option"
  cs_swapping_until :: "nat option"
  cs_pressure_until :: "nat option"
  cs_critical_until :: "nat option"
  cs_stall_some :: u32
  cs_stall_full :: u32

definition compression_default :: compression_state where
  "compression_default =
     \<lparr>cs_pages = 0, cs_guest_short = False, cs_healthy_since = None, cs_inflation = None, cs_last_total = 0,
      cs_quiet_polls = 0, cs_hold_reported = False, cs_releasing = False, cs_host_free = None, cs_host_room = None,
      cs_overcommitted = False, cs_swapped_out = None, cs_swapping_until = None, cs_pressure_until = None,
      cs_critical_until = None, cs_stall_some = 0, cs_stall_full = 0\<rparr>"

definition held :: "compression_state \<Rightarrow> nat \<Rightarrow> bool" where
  "held c now \<longleftrightarrow>
     cs_guest_short c \<or> (case cs_healthy_since c of None \<Rightarrow> True | Some since \<Rightarrow> now - since < HOLD_PATIENCE)"

definition pressed :: "compression_state \<Rightarrow> pressure \<Rightarrow> nat \<Rightarrow> bool" where
  "pressed c level now \<longleftrightarrow>
     level \<noteq> Normal \<or> cs_overcommitted c \<or> (case cs_pressure_until c of None \<Rightarrow> False | Some until \<Rightarrow> now < until)"

definition critical :: "compression_state \<Rightarrow> pressure \<Rightarrow> nat \<Rightarrow> bool" where
  "critical c level now \<longleftrightarrow>
     level = Critical \<or> (case cs_critical_until c of None \<Rightarrow> False | Some until \<Rightarrow> now < until)"

definition level_changed :: "compression_state \<Rightarrow> pressure \<Rightarrow> pressure \<Rightarrow> nat \<Rightarrow> compression_state" where
  "level_changed c previous level now =
     (let c1 = c\<lparr>cs_quiet_polls := 0\<rparr>;
          c2 = (if level \<noteq> Normal then c1\<lparr>cs_pressure_until := Some (now + PRESSURE_MEMORY)\<rparr> else c1) in
      if level = Critical \<or> previous = Critical then c2\<lparr>cs_critical_until := Some (now + PRESSURE_MEMORY)\<rparr> else c2)"

section \<open>The host's numbers\<close>

text \<open>The fields of \<^verbatim>\<open>vm_statistics64\<close> the sample reads, the host's page size and RAM, and the swap in use and
  in total; \<open>None\<close> is a call that failed.\<close>

record vm_statistics64 =
  vs_free_count :: u32
  vs_wire_count :: u32
  vs_purgeable_count :: u32
  vs_compressions :: u64
  vs_swapouts :: u64
  vs_compressor_page_count :: u32
  vs_internal_page_count :: u32

record host_memory =
  hm_page :: u64
  hm_ram :: u64

record host_sample =
  hs_compressed :: u64
  hs_swapped_out :: u64
  hs_free :: u64
  hs_room :: u64
  hs_compressor :: u64
  hs_swap_used :: u64
  hs_swap_total :: u64
  hs_ram :: u64

text \<open>\<^verbatim>\<open>HostMemory::new\<close>, with what \<^verbatim>\<open>sysconf\<close> (signed, and negative on failure) and \<^verbatim>\<open>sysctl_u64\<close> answer.\<close>

definition host_memory_new :: "int \<Rightarrow> u64 option \<Rightarrow> host_memory" where
  "host_memory_new page memsize =
     \<lparr>hm_page = of_int (max page 4096), hm_ram = (case memsize of Some n \<Rightarrow> n | None \<Rightarrow> 0)\<rparr>"

definition swap_usage :: "(u64 \<times> u64) option \<Rightarrow> u64 \<times> u64" where
  "swap_usage usage = (case usage of Some (used, tot) \<Rightarrow> (used, tot) | None \<Rightarrow> (0, 0))"

definition sample_host :: "host_memory \<Rightarrow> vm_statistics64 option \<Rightarrow> (u64 \<times> u64) option \<Rightarrow> host_sample option" where
  "sample_host hm answer usage =
     (case answer of
        None \<Rightarrow> None
      | Some stats \<Rightarrow>
          let (swap_used, swap_total) = swap_usage usage;
              used = saturating_sub (ucast (vs_internal_page_count stats)) (ucast (vs_purgeable_count stats))
                       + ucast (vs_wire_count stats) + ucast (vs_compressor_page_count stats) in
          Some \<lparr>hs_compressed = vs_compressions stats * hm_page hm, hs_swapped_out = vs_swapouts stats * hm_page hm,
                hs_free = ucast (vs_free_count stats) * hm_page hm, hs_room = saturating_sub (hm_ram hm) (used * hm_page hm),
                hs_compressor = ucast (vs_compressor_page_count stats) * hm_page hm,
                hs_swap_used = swap_used, hs_swap_total = swap_total, hs_ram = hm_ram hm\<rparr>)"

text \<open>\<^verbatim>\<open>observe\<close>: the part that moves \<^verbatim>\<open>CompressionState\<close>, which is all of it.\<close>

definition overcommit_line :: "compression_state \<Rightarrow> host_sample \<Rightarrow> u64 \<Rightarrow> u64" where
  "overcommit_line c s fraction =
     (let on = hs_ram s div fraction in
      if cs_overcommitted c then on - on div OVERCOMMITTED_RELEASE_FRACTION_NUM else on)"

definition observe :: "compression_state \<Rightarrow> host_sample \<Rightarrow> nat \<Rightarrow> compression_state" where
  "observe c s now =
     (let c1 = c\<lparr>cs_host_free := Some (hs_free s), cs_host_room := Some (hs_room s)\<rparr>;
          c2 = (if (case cs_swapped_out c1 of None \<Rightarrow> False | Some before \<Rightarrow> before < hs_swapped_out s)
                then c1\<lparr>cs_swapping_until := Some (now + PRESSURE_MEMORY)\<rparr> else c1);
          c3 = c2\<lparr>cs_swapped_out := Some (hs_swapped_out s)\<rparr>;
          moving = (case cs_swapping_until c3 of None \<Rightarrow> False | Some until \<Rightarrow> now < until);
          compressor_full = (0 < hs_ram s \<and> overcommit_line c3 s OVERCOMMITTED_COMPRESSOR_FRACTION < hs_compressor s);
          swapping = (moving \<and> 0 < hs_ram s \<and> overcommit_line c3 s OVERCOMMITTED_SWAP_FRACTION < hs_swap_used s) in
      c3\<lparr>cs_overcommitted := (compressor_full \<or> swapping)\<rparr>)"

section \<open>Where the rule takes the ramp\<close>

lemma unat_as_pages: "unat (as_pages b) = min (unat b div 4096) 4294967295"
proof -
  have "unat (min (b div 4096) (0xFFFFFFFF :: u64)) = min (unat b div 4096) 4294967295"
    by (simp add: min_def word_le_nat_alt unat_div)
  then show ?thesis
    unfolding as_pages_def BALLOON_PAGE_SIZE_def by (simp add: unsigned_ucast_eq take_bit_eq_mod)
qed

lemma as_pages_mono: "a \<le> b \<Longrightarrow> as_pages a \<le> as_pages b"
  by (simp add: word_le_nat_alt unat_as_pages div_le_mono min.coboundedI1)

lemma unat_saturating_add_32: "unat (saturating_add a (b :: u32)) = min (unat a + unat b) 4294967295"
  by (simp add: unat_saturating_add)

definition guest_reserve :: "u64 \<Rightarrow> u32" where
  "guest_reserve tot = as_pages (tot - tot div GUEST_RESERVE_FRACTION)"

definition small_step :: "u64 \<Rightarrow> u32" where
  "small_step tot = as_pages (max (tot div STEP_FRACTION) STEP_MIN_BYTES)"

definition step_up :: "pressure \<Rightarrow> u64 \<Rightarrow> u32" where
  "step_up level tot = (case level of
      Warn \<Rightarrow> as_pages (tot div WARN_STEP_FRACTION)
    | Critical \<Rightarrow> as_pages (tot div CRITICAL_STEP_FRACTION)
    | Normal \<Rightarrow> small_step tot)"

lemma cap_le_reserve: "cap_pages level tot \<le> guest_reserve tot"
  unfolding cap_pages_def guest_reserve_def
proof (rule as_pages_mono)
  have "tot div k \<le> tot - tot div GUEST_RESERVE_FRACTION" if "k = 2 \<or> k = 4 \<or> k = 8" for k :: u64
  proof -
    have "unat tot div 16 \<le> unat tot" by simp
    then have "unat (tot - tot div 16) = unat tot - unat tot div 16"
      by (simp add: unat_sub word_le_nat_alt unat_div)
    moreover have "unat tot div 2 \<le> unat tot - unat tot div 16" "unat tot div 4 \<le> unat tot - unat tot div 16"
      "unat tot div 8 \<le> unat tot - unat tot div 16"
      by linarith+
    ultimately show ?thesis
      using that by (auto simp: word_le_nat_alt unat_div GUEST_RESERVE_FRACTION_def)
  qed
  then show "tot div (case level of Warn \<Rightarrow> WARN_FRACTION | Critical \<Rightarrow> CRITICAL_FRACTION | Normal \<Rightarrow> STEER_CAP_FRACTION)
      \<le> tot - tot div GUEST_RESERVE_FRACTION"
    by (cases level) (auto simp: ramp_consts)
qed

lemma steer_up:
  assumes "level \<noteq> Normal \<or> COMPRESSING_BYTES_PER_POLL \<le> compressed"
  shows "steer p compressed q tot level False =
    (let p' = min p (guest_reserve tot) in
     if cap_pages level tot \<le> p' then p' else min (saturating_add p' (step_up level tot)) (cap_pages level tot))"
  using assms by (auto simp: steer_def guest_reserve_def step_up_def small_step_def Let_def split: pressure.splits)

text \<open>The ramp never passes the guest's reserve, and moves by no more than a step a poll once it is under it.\<close>

lemma steer_le_reserve: "steer p compressed q tot level shrunk \<le> guest_reserve tot"
proof -
  have "saturating_sub a b \<le> a" for a b :: u32
    by (simp add: word_le_nat_alt unat_saturating_sub)
  then show ?thesis
    using cap_le_reserve [of level tot]
    by (auto simp: steer_def guest_reserve_def [symmetric] Let_def min_def intro: order_trans split: if_splits)
qed

lemma steer_shrunk: "steer p compressed q tot level True \<le> cap_pages level tot"
proof -
  have "saturating_sub a b \<le> a" for a b :: u32
    by (simp add: word_le_nat_alt unat_saturating_sub)
  then show ?thesis
    by (auto simp: steer_def Let_def min_def intro: order_trans split: if_splits)
qed

lemma step_up_ratio:
  assumes "level = Normal \<or> 0x100000 \<le> tot"
  shows "unat (cap_pages level tot) \<le> (if level = Normal then 33 else 9) * unat (step_up level tot)"
proof -
  have w: "min (t div 4) 4294967295 \<le> 9 * min (t div 32) (4294967295 :: nat)"
    "min (t div 2) 4294967295 \<le> 9 * min (t div 16) (4294967295 :: nat)" if "256 \<le> t" for t
    using that by linarith+
  have n: "min (t div 8) 4294967295 \<le> 33 * min (max (t div 256) 8192) (4294967295 :: nat)" for t
    by linarith
  have d: "unat tot div 4 div 4096 = unat tot div 4096 div 4" "unat tot div 2 div 4096 = unat tot div 4096 div 2"
    "unat tot div 8 div 4096 = unat tot div 4096 div 8" "unat tot div 32 div 4096 = unat tot div 4096 div 32"
    "unat tot div 16 div 4096 = unat tot div 4096 div 16" "unat tot div 256 div 4096 = unat tot div 4096 div 256"
    by (simp_all add: div_mult2_eq [symmetric] mult.commute)
  have m: "max a 33554432 div 4096 = max (a div 4096) (8192 :: nat)" for a
    by (auto simp: max_def)
  have u: "unat (max (tot div 256) 0x2000000 :: u64) = max (unat tot div 256) 33554432"
    by (simp add: max_def word_le_nat_alt unat_div)
  show ?thesis
  proof (cases level)
    case Normal
    then show ?thesis
      using n [of "unat tot div 4096"]
      by (simp add: cap_pages_def step_up_def small_step_def unat_as_pages unat_div ramp_consts d u m)
  next
    case Warn
    then show ?thesis
      using w(1) [of "unat tot div 4096"] assms
      by (simp add: cap_pages_def step_up_def unat_as_pages unat_div ramp_consts d word_le_nat_alt)
  next
    case Critical
    then show ?thesis
      using w(2) [of "unat tot div 4096"] assms
      by (simp add: cap_pages_def step_up_def unat_as_pages unat_div ramp_consts d word_le_nat_alt)
  qed
qed

lemma steer_up_progress:
  assumes "level \<noteq> Normal \<or> COMPRESSING_BYTES_PER_POLL \<le> compressed"
  shows "min (unat (min p (guest_reserve tot)) + unat (step_up level tot)) (unat (cap_pages level tot))
    \<le> unat (steer p compressed q tot level False)"
proof -
  have "unat (cap_pages level tot) \<le> 4294967295" using unat_lt_32 [of "cap_pages level tot"] by simp
  then show ?thesis
    by (simp add: steer_up [OF assms] Let_def word_le_nat_alt min_def unat_saturating_add_32)
qed

end
