(* ===== verification/Memory_Range.thy ===== *)
theory Memory_Range
  imports Virtio_Mem_Blocks Memory_Ramp
begin

text \<open>
  How a line from the guest sizes its range, \<^verbatim>\<open>size_range\<close> of \<^verbatim>\<open>memory_policy.rs\<close>, and what its decisions
  promise: growth within the range, the ceiling and the host's pace, shrinks that leave the headroom and
  are not taken back by the next line.
\<close>

definition HEADROOM_FRACTION :: u64 where "HEADROOM_FRACTION = 4"
definition HEADROOM_MIN :: u64 where "HEADROOM_MIN = 0x40000000"
definition GROW_STEP_MIN :: u64 where "GROW_STEP_MIN = 0x10000000"

definition headroom :: "u64 \<Rightarrow> u64" where
  "headroom tot = max (tot div HEADROOM_FRACTION) HEADROOM_MIN"

definition saturating_mul :: "'a::len word \<Rightarrow> 'a word \<Rightarrow> 'a word" where
  "saturating_mul a b = (if unat a * unat b < 2 ^ LENGTH('a) then a * b else - 1)"

record guest_line =
  gl_spare_mib :: u64
  gl_avail_mib :: u64

definition guest_line_default :: guest_line where
  "guest_line_default = \<lparr>gl_spare_mib = 0, gl_avail_mib = 0\<rparr>"

datatype pace = Free | Step | Hold

datatype sizing = Resize u64 | Wait | Pass

datatype demand_kind = Need | Room | NoDemand

record mem_range =
  rg_plugged :: u64
  rg_requested :: u64
  rg_total :: u64
  rg_region :: u64
  rg_held :: bool
  rg_floor :: u64
  rg_ceiling :: u64
  rg_pace :: pace

definition grow_to :: "mem_range \<Rightarrow> u64 \<Rightarrow> sizing" where
  "grow_to r wanted =
     (let paced = (case rg_pace r of
          Free \<Rightarrow> wanted
        | Step \<Rightarrow> min wanted (saturating_add (rg_plugged r) GROW_STEP_MIN)
        | Hold \<Rightarrow> rg_plugged r);
          target = min (min (saturating_mul (div_ceil paced BLOCK_SIZE) BLOCK_SIZE) (rg_region r)) (rg_ceiling r) in
      if rg_plugged r < target then Resize target else Wait)"

definition size_range :: "mem_range \<Rightarrow> guest_line \<Rightarrow> demand_kind \<Rightarrow> sizing" where
  "size_range r line d =
     (if rg_plugged r < rg_requested r then Wait
      else
        let room = headroom (rg_total r);
            avail = push_bit 20 (gl_avail_mib line) in
        if d = Need \<or> d = Room then grow_to r (saturating_add (rg_plugged r) room)
        else if avail < room \<and> rg_plugged r < rg_region r then grow_to r (rg_plugged r + (room - avail))
        else if rg_requested r < rg_plugged r then Wait
        else
          let spare = push_bit 20 (gl_spare_mib line);
              keep = room + room div 2;
              give = min (min spare (saturating_sub avail keep)) (rg_plugged r - rg_floor r) div BLOCK_SIZE * BLOCK_SIZE in
          if rg_floor r < rg_plugged r \<and> BLOCK_SIZE \<le> spare \<and> \<not> rg_held r \<and> 0 < give
          then Resize (saturating_sub (rg_plugged r) give)
          else Pass)"

section \<open>In natural numbers\<close>

lemma unat_saturating_mul: "unat (saturating_mul a (b :: u64)) = min (unat a * unat b) 18446744073709551615"
  by (simp add: saturating_mul_def unat_mult_lem [symmetric] unsigned_minus_1_eq_mask mask_eq_exp_minus_1)

lemma unat_headroom: "unat (headroom tot) = max (unat tot div 4) 1073741824"
  by (simp add: headroom_def HEADROOM_FRACTION_def HEADROOM_MIN_def max_def word_le_nat_alt unat_div)

lemma unat_mib: "unat m < 4294967296 \<Longrightarrow> unat (push_bit 20 (m :: u64)) = unat m * 1048576"
  by (simp add: push_bit_eq_mult unat_word_ariths)

lemma ceil_div:
  fixes k n :: nat
  assumes "0 < k"
  shows "(n + (k - 1)) div k = (if n mod k = 0 then n div k else n div k + 1)"
proof -
  have n: "n = k * (n div k) + n mod k" "n mod k < k" using assms by simp_all
  show ?thesis
  proof (cases "n mod k = 0")
    case True
    then show ?thesis using n assms by (intro div_nat_eqI) auto
  next
    case False
    have e: "k * (n div k + 1) = k * (n div k) + k" "k * Suc (n div k + 1) = k * (n div k) + k + k"
      by (simp_all only: add_mult_distrib2 mult_Suc_right mult_1_right)
    have "k * (n div k + 1) \<le> n + (k - 1)" "n + (k - 1) < k * Suc (n div k + 1)"
      unfolding e using n False assms by linarith+
    then show ?thesis using False by (simp add: div_nat_eqI)
  qed
qed

lemma ceil_bounds:
  fixes k n :: nat
  assumes "0 < k"
  shows "n \<le> (n + (k - 1)) div k * k" "(n + (k - 1)) div k * k < n + k"
proof -
  have "(n + (k - 1)) div k * k + (n + (k - 1)) mod k = n + (k - 1)" by simp
  moreover have "(n + (k - 1)) mod k < k" using assms by simp
  ultimately show "n \<le> (n + (k - 1)) div k * k" "(n + (k - 1)) div k * k < n + k" using assms by linarith+
qed

lemma dvd_less_step:
  fixes k a b :: nat
  assumes "k dvd a" "k dvd b" "a < b + k"
  shows "a \<le> b"
proof -
  obtain i j where "a = k * i" "b = k * j" using assms(1,2) by (auto elim!: dvdE)
  then have "k * i < k * Suc j" using assms(3) by simp
  then have "i < Suc j" by (simp only: mult_less_cancel1)
  then show ?thesis by (simp add: \<open>a = k * i\<close> \<open>b = k * j\<close> less_Suc_eq_le)
qed

lemma unat_div_ceil_block: "unat (div_ceil x BLOCK_SIZE) = (unat x + 134217727) div bs"
proof -
  have m: "x mod BLOCK_SIZE = 0 \<longleftrightarrow> unat x mod bs = 0"
    by (metis BLOCK_SIZE_nat unat_mod unsigned_eq_0_iff)
  have "unat (x div BLOCK_SIZE + 1) = unat x div bs + 1"
  proof -
    have "unat x div bs < bs * bs" using unat_lt_64 [of x] by linarith
    then show ?thesis by (subst unat_add_no_wrap) (simp_all add: unat_div)
  qed
  then show ?thesis using ceil_div [of bs "unat x"] by (simp add: div_ceil_def m unat_div)
qed

text \<open>What sizing is told: whole blocks, within the range, and a line of two 32-bit counts of MiB.\<close>

definition range_ok :: "mem_range \<Rightarrow> bool" where
  "range_ok r \<longleftrightarrow>
     bs dvd unat (rg_plugged r) \<and> bs dvd unat (rg_region r) \<and> rg_plugged r \<le> rg_region r \<and>
     bs dvd unat (rg_floor r) \<and> (rg_ceiling r = - 1 \<or> bs dvd unat (rg_ceiling r)) \<and>
     rg_plugged r \<le> rg_total r \<and> unat (rg_total r) < 2 ^ 62"

definition line_ok :: "guest_line \<Rightarrow> bool" where
  "line_ok line \<longleftrightarrow> unat (gl_spare_mib line) < 2 ^ 32 \<and> unat (gl_avail_mib line) < 2 ^ 32"

lemma grow_to_sound:
  assumes ok: "range_ok r" and g: "grow_to r w = Resize t"
  shows "rg_plugged r < t \<and> t \<le> rg_region r \<and> t \<le> rg_ceiling r \<and> bs dvd unat t \<and> rg_pace r \<noteq> Hold \<and>
    (rg_pace r = Step \<longrightarrow> unat t \<le> unat (rg_plugged r) + 268435456) \<and> unat t < unat w + bs"
proof -
  define paced where "paced = (case rg_pace r of Free \<Rightarrow> w | Step \<Rightarrow> min w (saturating_add (rg_plugged r) GROW_STEP_MIN)
    | Hold \<Rightarrow> rg_plugged r)"
  define up where "up = (unat paced + 134217727) div bs * bs"
  have t: "t = min (min (saturating_mul (div_ceil paced BLOCK_SIZE) BLOCK_SIZE) (rg_region r)) (rg_ceiling r)"
    and lt: "rg_plugged r < t"
    using g by (auto simp: grow_to_def Let_def paced_def split: if_splits)
  have ub: "unat (saturating_mul (div_ceil paced BLOCK_SIZE) BLOCK_SIZE) = min up 18446744073709551615"
    by (simp add: unat_saturating_mul unat_div_ceil_block up_def)
  have reg: "unat (rg_region r) \<le> 18446744073709551615" "bs dvd unat (rg_region r)"
    using ok unat_lt_64 [of "rg_region r"] by (auto simp: range_ok_def)
  have umin: "unat (min a b) = min (unat a) (unat b)" for a b :: u64
    by (simp add: min_def word_le_nat_alt)
  have ut: "unat t = min (min up (unat (rg_region r))) (unat (rg_ceiling r))"
    using reg by (simp add: t umin ub min.assoc [symmetric])
  have upm: "bs dvd up" "up < unat paced + bs"
    using ceil_bounds [of bs "unat paced"] by (simp_all add: up_def)
  have c1: "rg_ceiling r = - 1 \<Longrightarrow> unat (rg_ceiling r) = 18446744073709551615"
    by (simp add: unsigned_minus_1_eq_mask mask_eq_exp_minus_1)
  have cm: "unat t = min up (unat (rg_region r)) \<or> (unat t = unat (rg_ceiling r) \<and> rg_ceiling r \<noteq> - 1)"
    using c1 reg(1) unfolding ut by (cases "rg_ceiling r = - 1") (simp_all, linarith)
  have "bs dvd unat t"
    using cm
  proof
    assume "unat t = min up (unat (rg_region r))"
    then show ?thesis using upm(1) reg(2) by (simp add: min_def)
  next
    assume "unat t = unat (rg_ceiling r) \<and> rg_ceiling r \<noteq> - 1"
    then show ?thesis using ok by (simp add: range_ok_def)
  qed
  moreover have "t \<le> rg_region r" "t \<le> rg_ceiling r" by (simp_all add: t min.coboundedI1)
  moreover have "unat t \<le> up" by (simp add: ut)
  moreover have pm: "bs dvd unat (rg_plugged r)" "unat (rg_plugged r) < unat t"
    using ok lt by (simp_all add: range_ok_def word_less_nat_alt)
  moreover have "rg_pace r \<noteq> Hold"
  proof
    assume "rg_pace r = Hold"
    then have "up < unat (rg_plugged r) + bs" using upm(2) by (simp add: paced_def)
    then have "up \<le> unat (rg_plugged r)" by (rule dvd_less_step [OF upm(1) pm(1)])
    with \<open>unat t \<le> up\<close> pm(2) show False by simp
  qed
  moreover have "unat t \<le> unat (rg_plugged r) + 268435456" if "rg_pace r = Step"
  proof -
    have "unat paced \<le> unat (rg_plugged r) + 268435456"
      using that by (simp add: paced_def umin unat_saturating_add GROW_STEP_MIN_def)
    then have "up < unat (rg_plugged r) + 268435456 + bs" using upm(2) by linarith
    moreover have "bs dvd unat (rg_plugged r) + 268435456" using pm(1) by (rule dvd_add) simp
    ultimately have "up \<le> unat (rg_plugged r) + 268435456" using dvd_less_step [OF upm(1)] by blast
    with \<open>unat t \<le> up\<close> show ?thesis by simp
  qed
  moreover have "unat t < unat w + bs"
  proof -
    have "unat paced \<le> unat w"
      using \<open>rg_pace r \<noteq> Hold\<close> by (cases "rg_pace r") (simp_all add: paced_def umin)
    then show ?thesis using upm(2) \<open>unat t \<le> up\<close> by linarith
  qed
  ultimately show ?thesis using lt by simp
qed

lemma size_range_shrink:
  assumes ok: "range_ok r" "line_ok line" and s: "size_range r line d = Resize t" "\<not> rg_plugged r < t"
  shows "rg_floor r \<le> t \<and> t < rg_plugged r \<and> bs dvd unat t \<and> d = NoDemand \<and> rg_requested r = rg_plugged r \<and> \<not> rg_held r \<and>
    unat (rg_plugged r) - unat t \<le> unat (gl_spare_mib line) * 1048576 \<and>
    unat (headroom (rg_total r)) + unat (headroom (rg_total r)) div 2 + (unat (rg_plugged r) - unat t)
      \<le> unat (gl_avail_mib line) * 1048576"
proof -
  define room where "room = headroom (rg_total r)"
  define give where "give = min (min (push_bit 20 (gl_spare_mib line)) (saturating_sub (push_bit 20 (gl_avail_mib line)) (room + room div 2)))
    (rg_plugged r - rg_floor r) div BLOCK_SIZE * BLOCK_SIZE"
  have g: "\<not> grow_to r w = Resize t" for w
    using grow_to_sound [OF ok(1), of w t] s(2) by blast
  have c: "d = NoDemand" "rg_requested r = rg_plugged r" "rg_floor r < rg_plugged r" "\<not> rg_held r" "0 < give"
      "t = saturating_sub (rg_plugged r) give"
    using s(1) g by (auto simp: size_range_def Let_def give_def room_def split: if_splits) (cases d; simp)+
  have rm: "unat (room + room div 2) = unat room + unat room div 2"
  proof -
    have "unat room < 2 ^ 62" using ok(1) by (simp add: room_def unat_headroom range_ok_def max_def, linarith)
    then have "unat room + unat (room div 2) < 2 ^ LENGTH(64)" by (simp add: unat_div)
    then show ?thesis by (simp add: unat_add_no_wrap unat_div)
  qed
  have umin: "unat (min a b) = min (unat a) (unat b)" for a b :: u64
    by (simp add: min_def word_le_nat_alt)
  let ?m = "min (min (push_bit 20 (gl_spare_mib line)) (saturating_sub (push_bit 20 (gl_avail_mib line)) (room + room div 2)))
    (rg_plugged r - rg_floor r)"
  have mt: "unat give = unat ?m div bs * bs"
  proof -
    have "unat ?m div bs * bs \<le> unat ?m" by simp
    also have "\<dots> < 2 ^ 64" using unat_lt_64 [of ?m] by simp
    finally show ?thesis unfolding give_def by (simp add: unat_word_ariths unat_div)
  qed
  have le: "unat give \<le> unat ?m" unfolding mt by simp
  have um: "unat ?m = min (min (unat (gl_spare_mib line) * 1048576) (unat (gl_avail_mib line) * 1048576 - (unat room + unat room div 2)))
      (unat (rg_plugged r) - unat (rg_floor r))"
    using ok(2) c(3) unfolding line_ok_def
    by (simp only: umin unat_saturating_sub rm) (simp add: unat_mib unat_sub)
  have g3: "unat give \<le> unat (gl_spare_mib line) * 1048576"
      "unat give \<le> unat (gl_avail_mib line) * 1048576 - (unat room + unat room div 2)"
      "unat give \<le> unat (rg_plugged r) - unat (rg_floor r)"
    using le unfolding um by simp_all
  have fl: "unat (rg_floor r) < unat (rg_plugged r)" "0 < unat give"
    using c(3,5) by (simp_all add: word_less_nat_alt)
  have ut: "unat t = unat (rg_plugged r) - unat give" by (simp add: c(6) unat_saturating_sub)
  have "bs dvd unat t" unfolding ut mt
    using ok(1) by (intro dvd_diff_nat) (simp_all add: range_ok_def)
  moreover have "rg_floor r \<le> t" "t < rg_plugged r"
    unfolding word_le_nat_alt word_less_nat_alt ut using g3(3) fl by linarith+
  moreover have "unat (rg_plugged r) - unat t = unat give" using ut g3(3) by linarith
  moreover have "unat room + unat room div 2 + unat give \<le> unat (gl_avail_mib line) * 1048576"
    using g3(2) fl(2) by linarith
  ultimately show ?thesis using c(1,2,4) g3(1) by (simp add: room_def)
qed

lemma size_range_grows:
  "size_range r line d = Resize t \<Longrightarrow> rg_plugged r < t \<Longrightarrow> \<exists>w. grow_to r w = Resize t"
  by (auto simp: size_range_def Let_def word_le_nat_alt word_less_nat_alt unat_saturating_sub split: if_splits)

text \<open>C28: What a line may do to the range. Growth asks for whole blocks, stays within the range and the ceiling a
  stalled growth left, is at most 256 MiB while the Mac is under pressure and nothing at all at a hold. A
  shrink gives back whole blocks, no more than the line offers, never under the floor, only once the last
  offer has settled and no growth was recent; and when the guest has carried it out, the next line, with
  the available memory less what was given back, does not plug any of it in again, whatever the pace.\<close>

theorem size_range_sound:
  assumes "range_ok r" "line_ok line" and s: "size_range r line d = Resize t"
  shows "bs dvd unat t \<and> t \<le> rg_region r \<and>
    (if rg_plugged r < t
     then t \<le> rg_ceiling r \<and> rg_pace r \<noteq> Hold \<and> (rg_pace r = Step \<longrightarrow> unat t \<le> unat (rg_plugged r) + 268435456)
     else rg_floor r \<le> t \<and> t < rg_plugged r \<and> rg_requested r = rg_plugged r \<and> \<not> rg_held r \<and> d = NoDemand \<and>
       unat (rg_plugged r) - unat t \<le> unat (gl_spare_mib line) * 1048576 \<and>
       (\<forall>line' pc t'. unat (gl_avail_mib line') * 1048576 + (unat (rg_plugged r) - unat t) = unat (gl_avail_mib line) * 1048576 \<longrightarrow>
          line_ok line' \<longrightarrow>
          size_range (r\<lparr>rg_plugged := t, rg_requested := t, rg_total := rg_total r - (rg_plugged r - t), rg_pace := pc\<rparr>) line' NoDemand
            = Resize t' \<longrightarrow> t' < t))"
proof (cases "rg_plugged r < t")
  case True
  then show ?thesis using size_range_grows [OF s] grow_to_sound [OF assms(1)] by auto
next
  case False
  note sh = size_range_shrink [OF assms False]
  have "t' < t" if a: "unat (gl_avail_mib line') * 1048576 + (unat (rg_plugged r) - unat t) = unat (gl_avail_mib line) * 1048576"
      "line_ok line'"
      "size_range (r\<lparr>rg_plugged := t, rg_requested := t, rg_total := rg_total r - (rg_plugged r - t), rg_pace := pc\<rparr>) line' NoDemand = Resize t'"
    for line' pc t'
  proof -
    let ?r = "r\<lparr>rg_plugged := t, rg_requested := t, rg_total := rg_total r - (rg_plugged r - t), rg_pace := pc\<rparr>"
    have le: "rg_total r - (rg_plugged r - t) \<le> rg_total r"
    proof -
      have "unat (rg_plugged r - t) = unat (rg_plugged r) - unat t" using sh by (intro unat_sub less_imp_le) simp
      then have "rg_plugged r - t \<le> rg_total r" using assms(1) by (simp add: word_le_nat_alt range_ok_def, linarith)
      then show ?thesis by (simp add: word_le_nat_alt [of "rg_total r - _"] unat_sub)
    qed
    then have "unat (headroom (rg_total r - (rg_plugged r - t))) \<le> unat (headroom (rg_total r))"
      by (simp add: unat_headroom word_le_nat_alt div_le_mono max.coboundedI1)
    then have "headroom (rg_total ?r) \<le> push_bit 20 (gl_avail_mib line')"
      using sh a(1,2) by (simp add: word_le_nat_alt unat_mib line_ok_def)
    then obtain g where g: "t' = saturating_sub t g" "0 < g" "rg_floor r < t"
      using a(3) by (auto simp: size_range_def Let_def not_less split: if_splits)
    then have "0 < unat t" "0 < unat g" by (auto simp: word_less_nat_alt)
    then show ?thesis by (simp add: g(1) word_less_nat_alt unat_saturating_sub)
  qed
  then show ?thesis using False sh assms(1) by (auto simp: range_ok_def word_le_nat_alt word_less_nat_alt)
qed

definition demo_line_range :: mem_range where
  "demo_line_range = \<lparr>rg_plugged = 0x100000000, rg_requested = 0x100000000, rg_total = 0x180000000, rg_region = 0x200000000,
     rg_held = False, rg_floor = 0, rg_ceiling = - 1, rg_pace = Free\<rparr>"

theorem size_range_sound_witness:
  "size_range demo_line_range \<lparr>gl_spare_mib = 1024, gl_avail_mib = 4096\<rparr> NoDemand = Resize 0xC0000000 \<and>
   bs dvd unat (0xC0000000 :: u64) \<and> (0xC0000000 :: u64) < rg_plugged demo_line_range"
proof -
  let ?line = "\<lparr>gl_spare_mib = 1024, gl_avail_mib = 4096\<rparr> :: guest_line"
  have s: "size_range demo_line_range ?line NoDemand = Resize 0xC0000000" by code_simp
  have "range_ok demo_line_range" "line_ok ?line"
    by (simp_all add: range_ok_def line_ok_def demo_line_range_def)
  from size_range_sound [OF this s] s show ?thesis
    by (simp add: demo_line_range_def)
qed

end
