(* ===== verification/Memory_Policy.thy ===== *)
theory Memory_Policy
  imports Memory_Range Virtio_Mmio
begin

text \<open>
  The memory policy, \<^verbatim>\<open>Steering\<close> of \<^verbatim>\<open>memory_policy.rs\<close>: the balloon and the range as one state, and what
  moves them, the guest's lines, the host's pressure levels and the poll. The balloon and the range are
  the devices behind their transports, whose configuration interrupt tells the guest of a new target.
  Each reading of \<^verbatim>\<open>Instant::now\<close> is one value of \<open>en_inst\<close>, counted by \<open>sg_reads\<close>, as the range's own
  clock is \<open>en_clk\<close>. The mutexes are held for whole operations, which here are steps. A message to the
  guest's agent is a call that is recorded; its thread's end is a step of its own.
\<close>

definition UNPLUG_FLOOR_HOLD :: nat where "UNPLUG_FLOOR_HOLD = 600000"
definition PLUG_CEILING_HOLD_MS :: u64 where "PLUG_CEILING_HOLD_MS = 600000"
definition PRESSED_GROW_EVERY :: nat where "PRESSED_GROW_EVERY = 2000"
definition RELEASE_STEP_FRACTION :: u64 where "RELEASE_STEP_FRACTION = 32"
definition STALL_FULL_HURRY :: u32 where "STALL_FULL_HURRY = 1000"
definition INFLATION_STALL :: nat where "INFLATION_STALL = 3000"
definition STALL_PROGRESS_BYTES :: u64 where "STALL_PROGRESS_BYTES = 0x400000"
definition WARM_GAIN_REFRESH :: nat where "WARM_GAIN_REFRESH = 60000"
definition STEP_MIB :: u64 where "STEP_MIB = 8192"

datatype agent_call = SayGain u32 | AskReclaim u64

text \<open>What the process is given: its clocks, the text of \<^verbatim>\<open>LIGHTER_RECLAIM_AHEAD\<close> and the number of
  \<^verbatim>\<open>LIGHTER_WARM_GAIN\<close>.\<close>

record policy_env =
  en_inst :: "nat \<Rightarrow> nat"
  en_clk :: "nat \<Rightarrow> u64"
  en_reclaim_ahead :: "string option"
  en_warm_gain :: "u32 option"

record steering =
  sg_balloon :: "balloon virtio_mmio"
  sg_ram_bytes :: u64
  sg_mem :: "mem_state virtio_mmio option"
  sg_last_line :: guest_line
  sg_unplug_floor :: "(u64 \<times> nat) option"
  sg_plug_ceiling :: "(u64 \<times> u64) option"
  sg_grew_pressed :: "nat option"
  sg_reclaiming :: bool
  sg_warm_gain :: "(u32 \<times> nat) option"
  sg_saying_gain :: bool
  sg_level :: pressure
  sg_compression :: compression_state
  sg_guest_pages :: u32
  sg_reads :: nat
  sg_calls :: "agent_call list"

definition steering_new :: "balloon virtio_mmio \<Rightarrow> u64 \<Rightarrow> mem_state virtio_mmio option \<Rightarrow> steering" where
  "steering_new transport ram_bytes mem =
     \<lparr>sg_balloon = transport, sg_ram_bytes = ram_bytes, sg_mem = mem, sg_last_line = guest_line_default,
      sg_unplug_floor = None, sg_plug_ceiling = None, sg_grew_pressed = None, sg_reclaiming = False, sg_warm_gain = None,
      sg_saying_gain = False, sg_level = Normal, sg_compression = compression_default, sg_guest_pages = 0, sg_reads = 0,
      sg_calls = []\<rparr>"

definition instant_now :: "policy_env \<Rightarrow> steering \<Rightarrow> steering \<times> nat" where
  "instant_now e s = (s\<lparr>sg_reads := Suc (sg_reads s)\<rparr>, en_inst e (sg_reads s))"

definition steering_enabled :: "string option \<Rightarrow> bool" where
  "steering_enabled var = (case var of None \<Rightarrow> True | Some v \<Rightarrow> v \<noteq> ''0'')"

definition reclaim_ahead_enabled :: "policy_env \<Rightarrow> bool" where
  "reclaim_ahead_enabled e = (case en_reclaim_ahead e of None \<Rightarrow> True | Some v \<Rightarrow> v \<noteq> ''0'')"

definition target_pages :: "steering \<Rightarrow> u32" where
  "target_pages s = bl_target (vm_device (sg_balloon s))"

definition actual_pages :: "steering \<Rightarrow> u32" where
  "actual_pages s = bl_actual (vm_device (sg_balloon s))"

definition steering_total :: "steering \<Rightarrow> u64" where
  "steering_total s = (case sg_mem s of None \<Rightarrow> sg_ram_bytes s | Some v \<Rightarrow> total_bytes (vm_device v))"

section \<open>Publishing the balloon's target\<close>

definition policy_apply :: "policy_env \<Rightarrow> steering \<Rightarrow> steering" where
  "policy_apply e s =
     (let actual = actual_pages s;
          (s1, now) = instant_now e s;
          c = sg_compression s1;
          hold = held c now;
          c1 = (if hold then c\<lparr>cs_pages := min (cs_pages c) actual\<rparr> else c);
          c2 = (if hold \<noteq> cs_hold_reported c1 then c1\<lparr>cs_hold_reported := hold\<rparr> else c1);
          s2 = s1\<lparr>sg_compression := c2\<rparr>;
          wanted = max (cs_pages c2) (sg_guest_pages s2);
          pages = (if wanted < actual
                   then case cs_host_free c2 of
                          Some free \<Rightarrow> max wanted (saturating_sub actual (as_pages (max (free div 2) STEP_MIN_BYTES)))
                        | None \<Rightarrow> wanted
                   else wanted) in
      if pages = target_pages s2 then s2
      else
        let t = sg_balloon s2 in
        s2\<lparr>sg_balloon := notify_config_change (t\<lparr>vm_device := set_target_pages (vm_device t) pages\<rparr>)\<rparr>)"

section \<open>Sizing the range\<close>

text \<open>\<^verbatim>\<open>MemControl\<close>: an offer, which tells the guest when it differs, and the readings of the range's clock.\<close>

definition control_request :: "policy_env \<Rightarrow> mem_state virtio_mmio \<Rightarrow> u64 \<Rightarrow> mem_state virtio_mmio" where
  "control_request e v n =
     (let (d, _, told) = mem_request (en_clk e) (vm_device v) n;
          v1 = v\<lparr>vm_device := d\<rparr> in
      if told then notify_config_change v1 else v1)"

definition control_read :: "(mem_state \<Rightarrow> mem_state \<times> 'a) \<Rightarrow> mem_state virtio_mmio \<Rightarrow> mem_state virtio_mmio \<times> 'a" where
  "control_read f v = (let (d, x) = f (vm_device v) in (v\<lparr>vm_device := d\<rparr>, x))"

definition pace_now :: "policy_env \<Rightarrow> steering \<Rightarrow> steering \<times> pace" where
  "pace_now e s =
     (let (s1, now) = instant_now e s;
          c = sg_compression s1 in
      if \<not> pressed c (sg_level s1) now then (s1, Free)
      else if critical c (sg_level s1) now then (s1, Hold)
      else case sg_grew_pressed s1 of
             None \<Rightarrow> (s1, Step)
           | Some at \<Rightarrow>
               let (s2, later) = instant_now e s1 in
               (s2, if later - at < PRESSED_GROW_EVERY then Hold else Step))"

definition room_for :: "policy_env \<Rightarrow> steering \<Rightarrow> u64 \<Rightarrow> steering \<times> bool" where
  "room_for e s amount =
     (let (s1, now) = instant_now e s;
          c = sg_compression s1;
          room = (case cs_host_room c of Some r \<Rightarrow> r | None \<Rightarrow> 0) in
      (s1, \<not> pressed c (sg_level s1) now \<and> saturating_mul amount 2 \<le> room))"

definition take_floor :: "policy_env \<Rightarrow> steering \<Rightarrow> u64 \<Rightarrow> steering \<times> u64" where
  "take_floor e s plugged =
     (case sg_unplug_floor s of
        None \<Rightarrow> (s, 0)
      | Some (at, since) \<Rightarrow>
          if at < plugged then (s\<lparr>sg_unplug_floor := None\<rparr>, 0)
          else
            let (s1, now) = instant_now e s in
            if UNPLUG_FLOOR_HOLD \<le> now - since then (s1\<lparr>sg_unplug_floor := None\<rparr>, 0) else (s1, at))"

definition take_ceiling ::
  "policy_env \<Rightarrow> steering \<Rightarrow> mem_state virtio_mmio \<Rightarrow> u64 \<Rightarrow> steering \<times> mem_state virtio_mmio \<times> u64" where
  "take_ceiling e s v plugged =
     (case sg_plug_ceiling s of
        None \<Rightarrow> (s, v, - 1)
      | Some (at, since) \<Rightarrow>
          if plugged < at then (s\<lparr>sg_plug_ceiling := None\<rparr>, v, - 1)
          else
            let (v1, now) = control_read (monotonic_ms (en_clk e)) v in
            if PLUG_CEILING_HOLD_MS \<le> saturating_sub now since then (s\<lparr>sg_plug_ceiling := None\<rparr>, v1, - 1)
            else (s, v1, at))"

definition line_demand :: "policy_env \<Rightarrow> steering \<Rightarrow> mem_state \<Rightarrow> bool \<Rightarrow> bool \<Rightarrow> steering \<times> demand_kind" where
  "line_demand e s st need release =
     (if need then (s, Need)
      else if release then
        (let (s1, room) = room_for e s (headroom (total_bytes st)) in (s1, if room then Room else NoDemand))
      else (s, NoDemand))"

definition size_locked :: "policy_env \<Rightarrow> steering \<Rightarrow> guest_line \<Rightarrow> bool \<Rightarrow> bool \<Rightarrow> steering \<times> bool" where
  "size_locked e s line need release =
     (case sg_mem s of
        None \<Rightarrow> (s, False)
      | Some v \<Rightarrow>
          let s1 = s\<lparr>sg_last_line := line\<rparr>;
              st = vm_device v;
              plugged = ms_plugged st;
              (s2, pc) = pace_now e s1;
              (s3, d) = line_demand e s2 st need release;
              (s4, floor_at) = take_floor e s3 plugged;
              (s5, v1, ceiling_at) = take_ceiling e s4 v plugged;
              (v2, hold) = control_read (mem_held (en_clk e)) v1;
              decision = size_range
                \<lparr>rg_plugged = plugged, rg_requested = requested_bytes st, rg_total = total_bytes st, rg_region = ms_region st,
                 rg_held = hold, rg_floor = floor_at, rg_ceiling = ceiling_at, rg_pace = pc\<rparr> line d in
          case decision of
            Resize target \<Rightarrow>
              let s6 = (if pc = Step \<and> plugged < target
                        then let (s', now) = instant_now e s5 in s'\<lparr>sg_grew_pressed := Some now\<rparr>
                        else s5) in
              (s6\<lparr>sg_mem := Some (control_request e v2 target)\<rparr>, True)
          | Wait \<Rightarrow> (s5\<lparr>sg_mem := Some v2\<rparr>, True)
          | Pass \<Rightarrow> (s5\<lparr>sg_mem := Some v2\<rparr>, False))"

definition guest_sizes :: "policy_env \<Rightarrow> steering \<Rightarrow> guest_line \<Rightarrow> bool \<Rightarrow> bool \<Rightarrow> steering \<times> bool" where
  "guest_sizes e s line need release = size_locked e s line need release"

definition range_out :: "steering \<Rightarrow> bool" where
  "range_out s = (case sg_mem s of None \<Rightarrow> True | Some v \<Rightarrow> ms_plugged (vm_device v) = 0)"

definition resize_again :: "policy_env \<Rightarrow> steering \<Rightarrow> steering" where
  "resize_again e s =
     (case sg_mem s of
        None \<Rightarrow> s
      | Some v \<Rightarrow>
          let (v1, stuck) = control_read (mem_stuck (en_clk e)) v in
          if stuck then
            (let plugged = ms_plugged (vm_device v1);
                 (s1, now) = instant_now e s in
             s1\<lparr>sg_unplug_floor := Some (plugged, now), sg_mem := Some (control_request e v1 plugged)\<rparr>)
          else
            let (v2, stalled) = control_read (plug_stalled (en_clk e)) v1 in
            if stalled then
              (let plugged = ms_plugged (vm_device v2);
                   (v3, ms) = control_read (monotonic_ms (en_clk e)) v2 in
               s\<lparr>sg_plug_ceiling := Some (plugged, ms), sg_mem := Some (control_request e v3 plugged)\<rparr>)
            else
              let (v3, hold) = control_read (mem_held (en_clk e)) v2;
                  s1 = s\<lparr>sg_mem := Some v3\<rparr>;
                  line = sg_last_line s1 in
              if \<not> hold \<and> 0 < gl_spare_mib line then fst (size_locked e s1 line False False) else s1)"

section \<open>What the guest says\<close>

definition guest_stall :: "steering \<Rightarrow> u32 \<Rightarrow> u32 \<Rightarrow> steering" where
  "guest_stall s some full =
     s\<lparr>sg_compression := (sg_compression s)\<lparr>cs_stall_some := some, cs_stall_full := full\<rparr>\<rparr>"

definition guest_short :: "policy_env \<Rightarrow> steering \<Rightarrow> bool \<Rightarrow> bool \<Rightarrow> nat \<Rightarrow> steering" where
  "guest_short e s short withdraw now =
     (let c = sg_compression s;
          before = held c now;
          c1 = (if short then c\<lparr>cs_healthy_since := None\<rparr>
                else if cs_healthy_since c = None \<or> cs_guest_short c then c\<lparr>cs_healthy_since := Some now\<rparr>
                else c);
          differs = (cs_guest_short c1 \<noteq> short);
          c2 = c1\<lparr>cs_guest_short := short\<rparr>;
          c3 = (if withdraw then c2\<lparr>cs_releasing := True\<rparr>
                else if \<not> short then c2\<lparr>cs_releasing := False\<rparr>
                else c2);
          s1 = s\<lparr>sg_compression := c3\<rparr> in
      if differs \<or> withdraw \<or> before \<noteq> held c3 now then policy_apply e s1 else s1)"

definition guest_demand :: "policy_env \<Rightarrow> steering \<Rightarrow> bool \<Rightarrow> bool \<Rightarrow> steering" where
  "guest_demand e s need release =
     (let (s1, now) = instant_now e s;
          normal = (\<not> pressed (sg_compression s1) (sg_level s1) now);
          short = (need \<or> (release \<and> normal)) in
      guest_short e s1 short short now)"

definition inflation_stalled :: "policy_env \<Rightarrow> steering \<Rightarrow> nat \<Rightarrow> steering" where
  "inflation_stalled e s now =
     (let target = target_pages s;
          actual = actual_pages s;
          progress = ucast (STALL_PROGRESS_BYTES div BALLOON_PAGE_SIZE) :: u32;
          c = sg_compression s;
          (c1, stalled) =
            (if target \<le> actual then (c\<lparr>cs_inflation := None\<rparr>, False)
             else case cs_inflation c of
                    Some (seen, since) \<Rightarrow>
                      if saturating_sub actual seen < progress
                      then (c, \<not> cs_guest_short c \<and> INFLATION_STALL \<le> now - since)
                      else (c\<lparr>cs_inflation := Some (actual, now)\<rparr>, False)
                  | None \<Rightarrow> (c\<lparr>cs_inflation := Some (actual, now)\<rparr>, False));
          s1 = s\<lparr>sg_compression := c1\<rparr> in
      if stalled then guest_short e s1 True False now else s1)"

definition guest_offers :: "policy_env \<Rightarrow> steering \<Rightarrow> u64 \<Rightarrow> bool \<Rightarrow> steering" where
  "guest_offers e s spare_mib release =
     (let tot = steering_total s;
          cap = ucast (min ((tot - tot div GUEST_RESERVE_FRACTION) div BALLOON_PAGE_SIZE) 0xFFFFFFFF) :: u32;
          actual = actual_pages s;
          pages =
            (if release then Some 0
             else if spare_mib < 64 then (if sg_guest_pages s \<le> actual then None else Some actual)
             else
               let wanted = ucast (min (min (ucast actual + push_bit 20 (min spare_mib STEP_MIB) div BALLOON_PAGE_SIZE) (ucast cap))
                              (0xFFFFFFFF :: u64)) :: u32 in
               Some (max wanted (sg_guest_pages s))) in
      case pages of
        None \<Rightarrow> s
      | Some n \<Rightarrow> if n \<noteq> sg_guest_pages s then policy_apply e (s\<lparr>sg_guest_pages := n\<rparr>) else s\<lparr>sg_guest_pages := n\<rparr>)"

text \<open>One line of 32 bytes from the agent, and the end of a connection; \<open>live\<close> counts the connections.\<close>

definition line_word :: "bytes \<Rightarrow> nat \<Rightarrow> u32" where
  "line_word buf i = from_le_bytes (slice_at i 4 buf)"

definition memory_line :: "policy_env \<Rightarrow> steering \<Rightarrow> bytes \<Rightarrow> steering" where
  "memory_line e s buf =
     (let spare_mib = ucast (line_word buf 0);
          flags = line_word buf 12;
          release = (flags AND 1 \<noteq> 0);
          need = (flags AND 2 \<noteq> 0);
          s1 = guest_stall s (line_word buf 16) (line_word buf 20);
          s2 = guest_demand e s1 need release;
          line = \<lparr>gl_spare_mib = spare_mib, gl_avail_mib = ucast (line_word buf 4)\<rparr>;
          (s3, taken) = guest_sizes e s2 line need release in
      if release \<or> need then guest_offers e s3 0 True
      else if \<not> taken \<and> range_out s3 then guest_offers e s3 spare_mib False
      else s3)"

definition memory_gone :: "policy_env \<Rightarrow> u32 \<Rightarrow> steering \<Rightarrow> u32 \<times> steering" where
  "memory_gone e live s =
     (live - 1, if live = 1 then guest_offers e (guest_demand e s True False) 0 True else s)"

definition make_whole :: "policy_env \<Rightarrow> steering \<Rightarrow> steering" where
  "make_whole e s =
     (case sg_mem s of
        None \<Rightarrow> s
      | Some _ \<Rightarrow>
          let s1 = guest_offers e s 0 True in
          fst (size_locked e s1 (sg_last_line s1) False False))"

section \<open>What the host says\<close>

definition say_gain :: "policy_env \<Rightarrow> steering \<Rightarrow> u32 \<Rightarrow> steering" where
  "say_gain e s gain =
     (let (s1, fresh) = (case sg_warm_gain s of
            None \<Rightarrow> (s, False)
          | Some (g, at) \<Rightarrow>
              if g \<noteq> gain then (s, False)
              else let (s', now) = instant_now e s in (s', now - at < WARM_GAIN_REFRESH)) in
      if fresh \<or> sg_saying_gain s1 then s1
      else s1\<lparr>sg_saying_gain := True, sg_calls := sg_calls s1 @ [SayGain gain]\<rparr>)"

definition ask_reclaim :: "policy_env \<Rightarrow> steering \<Rightarrow> u64 \<Rightarrow> steering" where
  "ask_reclaim e s mib =
     (if \<not> reclaim_ahead_enabled e then s
      else if mib = 0 \<or> sg_reclaiming s then s
      else s\<lparr>sg_reclaiming := True, sg_calls := sg_calls s @ [AskReclaim mib]\<rparr>)"

text \<open>The end of either thread, whether it was never spawned, the agent answered, or it did not.\<close>

definition gain_said :: "policy_env \<Rightarrow> steering \<Rightarrow> u32 \<Rightarrow> bool \<Rightarrow> steering" where
  "gain_said e s gain answered =
     (let s1 = (if answered then let (s', now) = instant_now e s in s'\<lparr>sg_warm_gain := Some (gain, now)\<rparr> else s) in
      s1\<lparr>sg_saying_gain := False\<rparr>)"

definition reclaim_answered :: "steering \<Rightarrow> steering" where
  "reclaim_answered s = s\<lparr>sg_reclaiming := False\<rparr>"

text \<open>The poll, in two halves: what it notes of the guest's size, of quiet and of pressure, with the gain to say
  and the level to steer by; then the move of the ramp.\<close>

definition poll_notes ::
  "compression_state \<Rightarrow> pressure \<Rightarrow> u64 \<Rightarrow> u64 \<Rightarrow> nat \<Rightarrow> compression_state \<times> bool \<times> u32 \<times> pressure" where
  "poll_notes c level tot compressed now =
     (let shrunk = (tot < cs_last_total c);
          c1 = c\<lparr>cs_last_total := tot\<rparr>;
          c2 = c1\<lparr>cs_quiet_polls := (if compressed = 0 then saturating_add (cs_quiet_polls c1) 1 else 0)\<rparr>;
          gain = warm_gain level (pressed c2 level now) (cs_quiet_polls c2 < QUIET_POLLS_BEFORE_DEFLATE) in
      if level = Normal \<and> pressed c2 level now
      then (c2\<lparr>cs_quiet_polls := 0\<rparr>, shrunk, gain, Warn)
      else (c2, shrunk, gain, level))"

definition ramp_poll :: "policy_env \<Rightarrow> steering \<Rightarrow> u64 \<Rightarrow> steering \<times> u32" where
  "ramp_poll e s compressed =
     (let (s1, now) = instant_now e s;
          tot = steering_total s1;
          (c, shrunk, gain, level) = poll_notes (sg_compression s1) (sg_level s1) tot compressed now in
      if cs_releasing c then
        (let step0 = as_pages (max (tot div RELEASE_STEP_FRACTION) STEP_MIN_BYTES);
             step = (if STALL_FULL_HURRY \<le> cs_stall_full c then saturating_mul step0 2 else step0);
             pages = saturating_sub (cs_pages c) step;
             c1 = c\<lparr>cs_pages := pages\<rparr> in
         (s1\<lparr>sg_compression := (if pages = 0 then c1\<lparr>cs_releasing := False\<rparr> else c1)\<rparr>, gain))
      else if \<not> held c now then
        (let before = cs_pages c;
             pages = steer before compressed (cs_quiet_polls c) tot level shrunk;
             s2 = s1\<lparr>sg_compression := c\<lparr>cs_pages := pages\<rparr>\<rparr> in
         (if before < pages \<and> level \<noteq> Normal
          then ask_reclaim e s2 (drop_bit 20 (ucast (pages - before) * BALLOON_PAGE_SIZE))
          else s2, gain))
      else (s1\<lparr>sg_compression := c\<rparr>, gain))"

definition steering_steer :: "policy_env \<Rightarrow> steering \<Rightarrow> u64 \<Rightarrow> steering" where
  "steering_steer e s compressed =
     (let (s1, gain) = ramp_poll e s compressed in
      policy_apply e (say_gain e s1 (case en_warm_gain e of Some g \<Rightarrow> g | None \<Rightarrow> gain)))"

definition levels_pressure :: "policy_env \<Rightarrow> steering \<Rightarrow> pressure \<Rightarrow> steering" where
  "levels_pressure e s level =
     (let previous = sg_level s;
          s1 = s\<lparr>sg_level := level\<rparr>;
          s2 = (if previous \<noteq> level
                then let (s', now) = instant_now e s1 in
                     s'\<lparr>sg_compression := level_changed (sg_compression s') previous level now\<rparr>
                else s1) in
      policy_apply e s2)"

definition steering_observe :: "policy_env \<Rightarrow> steering \<Rightarrow> host_sample \<Rightarrow> steering" where
  "steering_observe e s sample =
     (let (s1, now) = instant_now e s in s1\<lparr>sg_compression := observe (sg_compression s1) sample now\<rparr>)"

text \<open>One turn of the policy's thread, with the trimmed text of the pressure test file if there is one, the last
  sample, and what the host answers now.\<close>

definition trim_level :: "string \<Rightarrow> pressure option" where
  "trim_level txt =
     (if txt = ''normal'' then Some Normal else if txt = ''warn'' then Some Warn
      else if txt = ''critical'' then Some Critical else None)"

definition policy_turn ::
  "policy_env \<Rightarrow> steering \<Rightarrow> string option \<Rightarrow> host_sample option \<Rightarrow> host_sample option \<Rightarrow> steering \<times> host_sample option" where
  "policy_turn e s test prev answer =
     (let (s1, now) = instant_now e s;
          s2 = inflation_stalled e s1 now;
          s3 = (case Option.bind test trim_level of None \<Rightarrow> s2 | Some level \<Rightarrow> levels_pressure e s2 level);
          s4 = resize_again e s3 in
      case answer of
        None \<Rightarrow> (s4, prev)
      | Some sample \<Rightarrow>
          let s5 = steering_observe e s4 sample;
              s6 = (case prev of
                  None \<Rightarrow> s5
                | Some before \<Rightarrow> steering_steer e s5 (saturating_sub (hs_compressed sample) (hs_compressed before))) in
          (s6, Some sample))"

text \<open>\<^verbatim>\<open>start\<close>: the state at first, with the fixed target of \<^verbatim>\<open>LIGHTER_BALLOON_TEST_MIB\<close> if it holds a number.\<close>

definition policy_start :: "policy_env \<Rightarrow> balloon virtio_mmio \<Rightarrow> u64 \<Rightarrow> mem_state virtio_mmio option \<Rightarrow> u64 option \<Rightarrow> steering" where
  "policy_start e transport ram_bytes mem test_mib =
     (let s = steering_new transport ram_bytes mem in
      case test_mib of
        None \<Rightarrow> s
      | Some mib \<Rightarrow>
          policy_apply e (s\<lparr>sg_compression := (sg_compression s)\<lparr>cs_pages := ucast (push_bit 20 mib div BALLOON_PAGE_SIZE)\<rparr>\<rparr>))"

end
