(* ===== verification/Memory_Policy_Laws.thy ===== *)
theory Memory_Policy_Laws
  imports Memory_Policy
begin

text \<open>
  What the memory policy promises over any run of it: the guest's lines, the host's levels and samples, the
  ends of its threads and what the guest does to its balloon and its range, in any order.
\<close>

section \<open>What an operation leaves alone\<close>

text \<open>The part of the state that sizing the range moves, and the part the pace is decided from.\<close>

definition sizing_part :: "steering \<Rightarrow> mem_state virtio_mmio option \<times> guest_line \<times> (u64 \<times> nat) option \<times> (u64 \<times> u64) option \<times> nat option" where
  "sizing_part s = (sg_mem s, sg_last_line s, sg_unplug_floor s, sg_plug_ceiling s, sg_grew_pressed s)"

definition pressure_part :: "steering \<Rightarrow> pressure \<times> nat option \<times> nat option" where
  "pressure_part s = (sg_level s, cs_pressure_until (sg_compression s), cs_critical_until (sg_compression s))"

definition balloon_only :: "steering \<Rightarrow> steering \<Rightarrow> bool" where
  "balloon_only s s' \<longleftrightarrow> sizing_part s' = sizing_part s \<and> pressure_part s' = pressure_part s \<and> sg_reads s \<le> sg_reads s'"

lemmas part_defs = balloon_only_def sizing_part_def pressure_part_def

lemma balloon_only_refl [simp]: "balloon_only s s"
  by (simp add: balloon_only_def)

lemma balloon_only_trans: "balloon_only s t \<Longrightarrow> balloon_only t u \<Longrightarrow> balloon_only s u"
  by (auto simp: balloon_only_def)

lemma apply_balloon_only: "balloon_only s (policy_apply e s)"
  by (simp add: policy_apply_def Let_def instant_now_def part_defs split: option.splits)

lemma instant_balloon_only: "instant_now e s = (s', now) \<Longrightarrow> balloon_only s s'"
  by (auto simp: instant_now_def part_defs)

lemma apply_compression_only:
  assumes "cs_pressure_until c = cs_pressure_until (sg_compression s)" "cs_critical_until c = cs_critical_until (sg_compression s)"
  shows "balloon_only s (if b then policy_apply e (s\<lparr>sg_compression := c\<rparr>) else s\<lparr>sg_compression := c\<rparr>)"
proof -
  have c: "balloon_only s (s\<lparr>sg_compression := c\<rparr>)" using assms by (simp add: part_defs)
  show ?thesis using c balloon_only_trans [OF c apply_balloon_only] by simp
qed

lemma short_balloon_only: "balloon_only s (guest_short e s short withdraw now)"
  unfolding guest_short_def Let_def by (rule apply_compression_only) simp_all

lemma demand_balloon_only: "balloon_only s (guest_demand e s need release)"
  unfolding guest_demand_def Let_def
  by (simp add: instant_now_def, rule balloon_only_trans [OF _ short_balloon_only]) (simp add: part_defs)

lemma offers_balloon_only: "balloon_only s (guest_offers e s spare release)"
proof -
  have "balloon_only s (s\<lparr>sg_guest_pages := n\<rparr>)" for n by (simp add: part_defs)
  then show ?thesis
    unfolding guest_offers_def Let_def
    by (auto intro: balloon_only_trans [OF _ apply_balloon_only] split: option.splits)
qed

lemma stall_balloon_only: "balloon_only s (guest_stall s some full)"
  by (simp add: guest_stall_def part_defs)

lemma stalled_balloon_only: "balloon_only s (inflation_stalled e s now)"
  unfolding inflation_stalled_def Let_def
  by (auto intro!: balloon_only_trans [OF _ short_balloon_only] split: prod.splits option.splits if_splits)
    (auto simp: part_defs)

lemma gain_balloon_only: "balloon_only s (say_gain e s gain)"
  by (auto simp: say_gain_def Let_def instant_now_def part_defs split: option.splits prod.splits if_splits)

lemma reclaim_balloon_only: "balloon_only s (ask_reclaim e s mib)"
  by (simp add: ask_reclaim_def part_defs)

lemma poll_notes_keeps:
  assumes "poll_notes c level tot compressed now = (c', shrunk, gain, level')"
  shows "cs_pages c' = cs_pages c \<and> cs_releasing c' = cs_releasing c \<and> cs_guest_short c' = cs_guest_short c \<and>
    cs_healthy_since c' = cs_healthy_since c \<and> cs_pressure_until c' = cs_pressure_until c \<and>
    cs_critical_until c' = cs_critical_until c \<and> cs_last_total c' = tot \<and> cs_overcommitted c' = cs_overcommitted c \<and>
    cs_host_free c' = cs_host_free c \<and>
    shrunk = (tot < cs_last_total c) \<and> (level' = level \<or> level = Normal \<and> level' = Warn)"
  using assms unfolding poll_notes_def Let_def by (simp split: if_splits) auto

lemma ramp_balloon_only: "balloon_only s (fst (ramp_poll e s compressed))"
proof -
  have "balloon_only s (s\<lparr>sg_reads := Suc (sg_reads s), sg_compression := c\<rparr>)"
    if "cs_pressure_until c = cs_pressure_until (sg_compression s)" "cs_critical_until c = cs_critical_until (sg_compression s)" for c
    using that by (simp add: part_defs)
  then show ?thesis
    by (auto simp: ramp_poll_def Let_def instant_now_def dest!: poll_notes_keeps
        intro: balloon_only_trans [OF _ reclaim_balloon_only] split: prod.splits)
qed

lemma steer_balloon_only: "balloon_only s (steering_steer e s compressed)"
proof -
  obtain s1 gain where r: "ramp_poll e s compressed = (s1, gain)" by fastforce
  then have "balloon_only s s1" using ramp_balloon_only [of s e compressed] by simp
  then show ?thesis
    using balloon_only_trans [OF balloon_only_trans [OF _ gain_balloon_only] apply_balloon_only] by (simp add: steering_steer_def r)
qed

lemma observe_balloon_only: "balloon_only s (steering_observe e s sample)"
  by (simp add: steering_observe_def observe_def Let_def instant_now_def part_defs)

lemmas balloon_only_ops = apply_balloon_only short_balloon_only demand_balloon_only offers_balloon_only stall_balloon_only
  stalled_balloon_only gain_balloon_only steer_balloon_only observe_balloon_only

section \<open>The top of the range\<close>

text \<open>The most of the range the guest has or may take: what it has plugged, or what it was offered if that is more.\<close>

definition offer_top :: "mem_state \<Rightarrow> nat" where
  "offer_top d = max (unat (ms_requested d)) (unat (ms_plugged d))"

definition range_top :: "steering \<Rightarrow> nat" where
  "range_top s = (case sg_mem s of None \<Rightarrow> 0 | Some v \<Rightarrow> offer_top (vm_device v))"

definition device_ok :: "mem_state \<Rightarrow> bool" where
  "device_ok d \<longleftrightarrow> mem_ok d \<and> unat (ms_base d) + unat (ms_region d) < 2 ^ 62"

definition policy_ok :: "steering \<Rightarrow> bool" where
  "policy_ok s \<longleftrightarrow>
     (case sg_mem s of None \<Rightarrow> True | Some v \<Rightarrow> device_ok (vm_device v)) \<and> line_ok (sg_last_line s) \<and>
     (case sg_unplug_floor s of None \<Rightarrow> True | Some (at, _) \<Rightarrow> bs dvd unat at) \<and>
     (case sg_plug_ceiling s of None \<Rightarrow> True | Some (at, _) \<Rightarrow> bs dvd unat at)"

text \<open>A device whose account is the same: only its clock was read.\<close>

definition same_range :: "mem_state \<Rightarrow> mem_state \<Rightarrow> bool" where
  "same_range d d' \<longleftrightarrow> (\<exists>r. d' = d\<lparr>ms_reads := r\<rparr>)"

lemma same_range_refl [simp]: "same_range d d"
  unfolding same_range_def by (rule exI [of _ "ms_reads d"]) simp

lemma same_range_trans: "same_range a b \<Longrightarrow> same_range b c \<Longrightarrow> same_range a c"
  by (auto simp: same_range_def)

lemma same_range_facts:
  "same_range d d' \<Longrightarrow> device_ok d' = device_ok d \<and> offer_top d' = offer_top d \<and> ms_plugged d' = ms_plugged d \<and>
     requested_bytes d' = requested_bytes d \<and> total_bytes d' = total_bytes d"
  by (auto simp: same_range_def device_ok_def mem_ok_def held_in_def offer_top_def requested_bytes_def total_bytes_def)

lemma control_read_same:
  assumes "control_read f v = (v', x)" "\<And>d. same_range d (fst (f d))"
  shows "same_range (vm_device v) (vm_device v')"
  using assms(1) assms(2) [of "vm_device v"] by (auto simp: control_read_def split: prod.splits)

lemma clock_reads_same:
  "same_range d (fst (monotonic_ms clk d))" "same_range d (fst (mem_held clk d))"
  "same_range d (fst (mem_stuck clk d))" "same_range d (fst (plug_stalled clk d))"
  by (auto simp: same_range_def monotonic_ms_def mem_held_def mem_stuck_def plug_stalled_def Let_def)
    (metis mem_state.surjective mem_state.update_convs(11))+

lemma control_request_top:
  assumes "device_ok (vm_device v)"
  shows "device_ok (vm_device (control_request e v n)) \<and>
    ms_plugged (vm_device (control_request e v n)) = ms_plugged (vm_device v) \<and>
    offer_top (vm_device (control_request e v n)) \<le> max (offer_top (vm_device v)) (unat n)"
proof -
  have r: "mem_round (min n (ms_region d)) \<le> ms_region d" "mem_round (min n (ms_region d)) \<le> n" for d
    using mem_round_le [of "min n (ms_region d)"] by (meson min.cobounded1 min.cobounded2 order_trans)+
  show ?thesis
    using assms r [of "vm_device v"]
    by (auto simp: control_request_def mem_request_def set_requested_bytes_def monotonic_ms_def Let_def device_ok_def mem_ok_def
        held_in_def offer_top_def notify_config_change_def word_le_nat_alt)
qed

lemma mem_ok_dvd: "mem_ok d \<Longrightarrow> bs dvd unat (ms_plugged d) \<and> bs dvd unat (ms_region d) \<and> ms_plugged d \<le> ms_region d"
  using held_le [of d] by (simp add: mem_ok_def word_le_nat_alt)

section \<open>One decision\<close>

text \<open>The state after a decision, as far as later decisions see it: the readings it made, and either the range's
  top no higher, or, at the pace of a step, at most 256 MiB higher with the moment noted.\<close>

definition sized :: "policy_env \<Rightarrow> steering \<Rightarrow> steering \<Rightarrow> bool" where
  "sized e s s' \<longleftrightarrow>
     policy_ok s' \<and> pressure_part s' = pressure_part s \<and> sg_reads s \<le> sg_reads s' \<and>
     (range_top s' \<le> range_top s \<and> sg_grew_pressed s' = sg_grew_pressed s \<or>
      (\<exists>i j. sg_reads s \<le> i \<and> i \<le> j \<and> j < sg_reads s' \<and>
         (let now = en_inst e i in
          \<not> pressed (sg_compression s) (sg_level s) now \<or>
          \<not> critical (sg_compression s) (sg_level s) now \<and> range_top s' \<le> range_top s + 268435456 \<and>
            sg_grew_pressed s' = Some (en_inst e j) \<and>
            (case sg_grew_pressed s of None \<Rightarrow> True
             | Some at \<Rightarrow> \<exists>k. i \<le> k \<and> k \<le> j \<and> PRESSED_GROW_EVERY \<le> en_inst e k - at))))"

text \<open>What a pace says of the state it was read in; \<open>n\<close> counts the readings since.\<close>

definition pace_fits :: "policy_env \<Rightarrow> steering \<Rightarrow> pace \<Rightarrow> nat \<Rightarrow> bool" where
  "pace_fits e s pc n \<longleftrightarrow> sg_reads s < n \<and>
     (pc = Free \<longrightarrow> \<not> pressed (sg_compression s) (sg_level s) (en_inst e (sg_reads s))) \<and>
     (pc = Step \<longrightarrow> \<not> critical (sg_compression s) (sg_level s) (en_inst e (sg_reads s)) \<and>
       (\<forall>at. sg_grew_pressed s = Some at \<longrightarrow>
          Suc (sg_reads s) < n \<and> PRESSED_GROW_EVERY \<le> en_inst e (Suc (sg_reads s)) - at))"

lemma pace_fits_mono: "pace_fits e s pc m \<Longrightarrow> m \<le> n \<Longrightarrow> pace_fits e s pc n"
  by (auto simp: pace_fits_def)

lemma pace_now_cases:
  assumes "pace_now e s = (s', pc)"
  obtains n where "s' = s\<lparr>sg_reads := n\<rparr>" "pace_fits e s pc n"
proof -
  have "\<exists>n. s' = s\<lparr>sg_reads := n\<rparr> \<and> pace_fits e s pc n"
    using assms by (auto simp: pace_now_def pace_fits_def instant_now_def Let_def not_less split: if_splits option.splits)
  with that show thesis by blast
qed

lemma line_demand_keeps:
  assumes "line_demand e s st need release = (s', d)"
  obtains n where "s' = s\<lparr>sg_reads := n\<rparr>" "sg_reads s \<le> n"
proof -
  have "\<exists>n. s' = s\<lparr>sg_reads := n\<rparr> \<and> sg_reads s \<le> n"
    using assms by (cases s) (auto simp: line_demand_def room_for_def instant_now_def Let_def split: if_splits)
  with that show thesis by blast
qed

lemma take_floor_keeps:
  assumes "policy_ok s" "take_floor e s plugged = (s', at)"
  obtains n f where "bs dvd unat at" "sg_reads s \<le> n" "s' = s\<lparr>sg_reads := n, sg_unplug_floor := f\<rparr>"
    "f = None \<or> f = sg_unplug_floor s"
proof -
  have "\<exists>n f. bs dvd unat at \<and> sg_reads s \<le> n \<and> s' = s\<lparr>sg_reads := n, sg_unplug_floor := f\<rparr> \<and> (f = None \<or> f = sg_unplug_floor s)"
    using assms by (cases s) (auto simp: take_floor_def instant_now_def Let_def policy_ok_def split: option.splits if_splits)
  with that show thesis by blast
qed

lemma take_ceiling_keeps:
  assumes "policy_ok s" "take_ceiling e s v plugged = (s', v', at)"
  obtains c where "at = - 1 \<or> bs dvd unat at" "s' = s\<lparr>sg_plug_ceiling := c\<rparr>" "c = None \<or> c = sg_plug_ceiling s"
    "same_range (vm_device v) (vm_device v')"
proof -
  have "\<exists>c. (at = - 1 \<or> bs dvd unat at) \<and> s' = s\<lparr>sg_plug_ceiling := c\<rparr> \<and> (c = None \<or> c = sg_plug_ceiling s) \<and>
      same_range (vm_device v) (vm_device v')"
    using assms control_read_same [OF _ clock_reads_same(1)]
    by (cases s) (auto simp: take_ceiling_def Let_def policy_ok_def split: option.splits if_splits prod.splits)
  with that show thesis by blast
qed

text \<open>The inputs of a decision, and the state it is made in.\<close>

lemma size_locked_decision:
  assumes ok: "policy_ok s" "line_ok line" and v: "sg_mem s = Some v"
    and run: "size_locked e s line need release = (s', b)"
  obtains n f c v2 d r pc where "range_ok r" "rg_plugged r = ms_plugged (vm_device v)" "rg_pace r = pc"
    "f = None \<or> f = sg_unplug_floor s" "c = None \<or> c = sg_plug_ceiling s" "same_range (vm_device v) (vm_device v2)"
    "s' = (let s5 = s\<lparr>sg_last_line := line, sg_reads := n, sg_unplug_floor := f, sg_plug_ceiling := c\<rparr> in
       case size_range r line d of
         Resize t \<Rightarrow> (if pc = Step \<and> ms_plugged (vm_device v) < t
                        then s5\<lparr>sg_reads := Suc n, sg_grew_pressed := Some (en_inst e n)\<rparr>
                        else s5)\<lparr>sg_mem := Some (control_request e v2 t)\<rparr>
       | _ \<Rightarrow> s5\<lparr>sg_mem := Some v2\<rparr>)"
    "pace_fits e s pc n"
proof -
  define d0 where "d0 = vm_device v"
  have d0: "mem_ok d0" "unat (ms_base d0) + unat (ms_region d0) < 2 ^ 62"
    using ok(1) v by (simp_all add: policy_ok_def d0_def device_ok_def)
  obtain s2 pc where pc: "pace_now e (s\<lparr>sg_last_line := line\<rparr>) = (s2, pc)" by fastforce
  obtain n2 where "s2 = s\<lparr>sg_last_line := line\<rparr>\<lparr>sg_reads := n2\<rparr>" "pace_fits e (s\<lparr>sg_last_line := line\<rparr>) pc n2"
    by (rule pace_now_cases [OF pc])
  then have n2: "s2 = s\<lparr>sg_last_line := line, sg_reads := n2\<rparr>" and p: "pace_fits e s pc n2"
    by (simp_all add: pace_fits_def)
  obtain s3 d where dm: "line_demand e s2 d0 need release = (s3, d)" by fastforce
  obtain n3 where "s3 = s2\<lparr>sg_reads := n3\<rparr>" "sg_reads s2 \<le> n3"
    by (rule line_demand_keeps [OF dm])
  with n2 have n3: "s3 = s\<lparr>sg_last_line := line, sg_reads := n3\<rparr>" "n2 \<le> n3" by simp_all
  obtain s4 fl where fl: "take_floor e s3 (ms_plugged d0) = (s4, fl)" by fastforce
  have ok3: "policy_ok s3" using ok by (simp add: policy_ok_def n3)
  obtain n f where nf: "bs dvd unat fl" "sg_reads s3 \<le> n" "s4 = s3\<lparr>sg_reads := n, sg_unplug_floor := f\<rparr>"
      "f = None \<or> f = sg_unplug_floor s3"
    by (rule take_floor_keeps [OF ok3 fl])
  then have n: "bs dvd unat fl" "n3 \<le> n" "s4 = s\<lparr>sg_last_line := line, sg_reads := n, sg_unplug_floor := f\<rparr>"
    and f: "f = None \<or> f = sg_unplug_floor s"
    by (simp_all add: n3)
  have ok4: "policy_ok s4" using ok f by (auto simp: policy_ok_def n(3))
  obtain s5 v1 ce where ce: "take_ceiling e s4 v (ms_plugged d0) = (s5, v1, ce)" by (metis prod_cases3)
  obtain c where "ce = - 1 \<or> bs dvd unat ce" "s5 = s4\<lparr>sg_plug_ceiling := c\<rparr>" "c = None \<or> c = sg_plug_ceiling s4"
      "same_range (vm_device v) (vm_device v1)"
    by (rule take_ceiling_keeps [OF ok4 ce])
  then have c: "ce = - 1 \<or> bs dvd unat ce" "s5 = s\<lparr>sg_last_line := line, sg_reads := n, sg_unplug_floor := f, sg_plug_ceiling := c\<rparr>"
      "c = None \<or> c = sg_plug_ceiling s" "same_range d0 (vm_device v1)"
    by (simp_all add: n(3) d0_def)
  obtain v2 hold where hd: "control_read (mem_held (en_clk e)) v1 = (v2, hold)" by fastforce
  have v2: "same_range d0 (vm_device v2)"
    using control_read_same [OF hd clock_reads_same(2)] c(4) same_range_trans by blast
  define r where "r = \<lparr>rg_plugged = ms_plugged d0, rg_requested = requested_bytes d0, rg_total = total_bytes d0, rg_region = ms_region d0,
    rg_held = hold, rg_floor = fl, rg_ceiling = ce, rg_pace = pc\<rparr>"
  have "unat (total_bytes d0) = unat (ms_base d0) + unat (ms_plugged d0)"
    using d0 mem_ok_dvd [OF d0(1)] unfolding total_bytes_def by (intro unat_add_no_wrap) (simp add: word_le_nat_alt)
  then have "range_ok r"
    using d0 mem_ok_dvd [OF d0(1)] n(1) c(1) by (simp add: range_ok_def r_def word_le_nat_alt)
  moreover have "s' = (let s5 = s\<lparr>sg_last_line := line, sg_reads := n, sg_unplug_floor := f, sg_plug_ceiling := c\<rparr> in
       case size_range r line d of
         Resize t \<Rightarrow> (if pc = Step \<and> ms_plugged d0 < t
                        then s5\<lparr>sg_reads := Suc n, sg_grew_pressed := Some (en_inst e n)\<rparr>
                        else s5)\<lparr>sg_mem := Some (control_request e v2 t)\<rparr>
       | _ \<Rightarrow> s5\<lparr>sg_mem := Some v2\<rparr>)"
    using run v pc dm fl ce hd
    by (auto simp: size_locked_def Let_def d0_def [symmetric] r_def [symmetric] c(2) instant_now_def split: sizing.splits if_splits)
  moreover have "rg_plugged r = ms_plugged (vm_device v)" "rg_pace r = pc" by (simp_all add: r_def d0_def)
  moreover have "pace_fits e s pc n" using pace_fits_mono [OF p, of n] n3(2) n(2) by simp
  ultimately show thesis
    using that [of r pc f c v2 n d] f c(3) v2 unfolding d0_def by blast
qed

lemma size_locked_sized:
  assumes ok: "policy_ok s" "line_ok line" and run: "size_locked e s line need release = (s', b)"
  shows "sized e s s'"
proof (cases "sg_mem s")
  case None
  then show ?thesis using ok run by (simp add: size_locked_def sized_def)
next
  case (Some v)
  define d0 where "d0 = vm_device v"
  obtain r pc f c v2 n d where r: "range_ok r" "rg_plugged r = ms_plugged (vm_device v)" "rg_pace r = pc"
    "f = None \<or> f = sg_unplug_floor s" "c = None \<or> c = sg_plug_ceiling s" "same_range (vm_device v) (vm_device v2)"
    and s': "s' = (let s5 = s\<lparr>sg_last_line := line, sg_reads := n, sg_unplug_floor := f, sg_plug_ceiling := c\<rparr> in
       case size_range r line d of
         Resize t \<Rightarrow> (if pc = Step \<and> ms_plugged (vm_device v) < t
                        then s5\<lparr>sg_reads := Suc n, sg_grew_pressed := Some (en_inst e n)\<rparr>
                        else s5)\<lparr>sg_mem := Some (control_request e v2 t)\<rparr>
       | _ \<Rightarrow> s5\<lparr>sg_mem := Some v2\<rparr>)"
    and p: "pace_fits e s pc n"
    by (rule size_locked_decision [OF ok Some run])
  have d0: "device_ok d0" using ok(1) Some by (simp add: policy_ok_def d0_def)
  note v2 = same_range_facts [OF r(6), folded d0_def]
  have n: "sg_reads s < n" using p by (simp add: pace_fits_def)
  have okn: "policy_ok (s\<lparr>sg_last_line := line, sg_reads := m, sg_unplug_floor := f, sg_plug_ceiling := c, sg_mem := Some w\<rparr>)"
    if "device_ok (vm_device w)" for m w
    using ok r(4,5) that by (auto simp: policy_ok_def)
  have top: "range_top s = offer_top d0" by (simp add: range_top_def Some d0_def)
  show ?thesis
  proof (cases "size_range r line d")
    case (Resize t)
    have d2: "device_ok (vm_device v2)" using v2 d0 by simp
    note cr = control_request_top [OF d2, of e t]
    have pl: "ms_plugged d0 = rg_plugged r" by (simp add: r(2) d0_def)
    have same: "sized e s s'" if "s' = s\<lparr>sg_last_line := line, sg_reads := n, sg_unplug_floor := f, sg_plug_ceiling := c,
        sg_mem := Some (control_request e v2 t)\<rparr>" "t \<le> rg_plugged r \<or> pc = Free"
    proof (cases "pc = Free")
      case True
      then have "\<not> pressed (sg_compression s) (sg_level s) (en_inst e (sg_reads s))" using p by (simp add: pace_fits_def)
      then show ?thesis
        using okn [of "control_request e v2 t" n] cr n
        by (simp add: that(1) sized_def pressure_part_def Let_def) (blast intro: order_refl)
    next
      case False
      then have "offer_top (vm_device (control_request e v2 t)) \<le> offer_top d0"
        using cr v2 that(2) pl by (auto simp: offer_top_def word_le_nat_alt)
      then show ?thesis
        using okn [of "control_request e v2 t" n] cr n
        by (simp add: that(1) sized_def pressure_part_def range_top_def Some d0_def)
    qed
    show ?thesis
    proof (cases "rg_plugged r < t \<and> pc \<noteq> Free")
      case True
      then obtain w where "grow_to r w = Resize t" using size_range_grows [OF Resize] by blast
      note g = grow_to_sound [OF r(1) this]
      then have step: "pc = Step" using True r(3) by (cases pc) auto
      have e': "s' = s\<lparr>sg_last_line := line, sg_reads := Suc n, sg_unplug_floor := f, sg_plug_ceiling := c,
          sg_grew_pressed := Some (en_inst e n), sg_mem := Some (control_request e v2 t)\<rparr>"
        using True step pl by (simp add: s' Resize Let_def r(2))
      have "offer_top (vm_device (control_request e v2 t)) \<le> offer_top d0 + 268435456"
        using cr v2 g step r(3) pl by (auto simp: offer_top_def)
      moreover have "policy_ok s'"
        using okn [of "control_request e v2 t" "Suc n"] cr by (simp add: e' policy_ok_def)
      moreover have "case sg_grew_pressed s of None \<Rightarrow> True
          | Some at \<Rightarrow> \<exists>k. sg_reads s \<le> k \<and> k \<le> n \<and> PRESSED_GROW_EVERY \<le> en_inst e k - at"
        using p step unfolding pace_fits_def
        by (auto split: option.split intro!: exI [of _ "Suc (sg_reads s)"])
      ultimately show ?thesis
        using n p step unfolding sized_def
        by (intro conjI disjI2 exI [of _ "sg_reads s"] exI [of _ n])
          (simp_all add: e' pressure_part_def range_top_def Some d0_def pace_fits_def Let_def)
    next
      case False
      then show ?thesis
        using same by (cases "pc = Step") (auto simp: s' Resize Let_def r(2) not_less)
    qed
  qed (use n v2 d0 okn [of v2 n] in \<open>simp_all add: s' sized_def pressure_part_def range_top_def Some d0_def\<close>)
qed

end
