(* ===== verification/Memory_Policy_Run.thy ===== *)
theory Memory_Policy_Run
  imports Memory_Policy_Laws
begin

text \<open>
  Runs of the memory policy: any order of the guest's lines, levels, polls, containers starting, threads of
  the agent ending, and the guest working on its balloon and its range. The host's pressure bounds how
  far the range can grow in such a run.
\<close>

section \<open>Steps\<close>

inductive policy_step :: "policy_env \<Rightarrow> host \<Rightarrow> steering \<Rightarrow> steering \<Rightarrow> bool" for e h where
  line: "policy_step e h s (memory_line e s buf)"
| gone: "policy_step e h s (snd (memory_gone e live s))"
| whole: "policy_step e h s (make_whole e s)"
| level: "policy_step e h s (levels_pressure e s l)"
| turn: "policy_step e h s (fst (policy_turn e s test prev answer))"
| gain: "policy_step e h s (gain_said e s g answered)"
| reclaim: "policy_step e h s (reclaim_answered s)"
| balloon: "policy_step e h s (s\<lparr>sg_balloon := t\<rparr>)"
| request: "sg_mem s = Some v \<Longrightarrow> mem_handle h (en_clk e) (vm_device v) req mem = Ok (vm_device v', mem', k, st) \<Longrightarrow>
    policy_step e h s (s\<lparr>sg_mem := Some v'\<rparr>)"
| backing: "sg_mem s = Some v \<Longrightarrow> backing_ready (vm_device v) n = Ok (vm_device v') \<Longrightarrow> policy_step e h s (s\<lparr>sg_mem := Some v'\<rparr>)"
| reset: "sg_mem s = Some v \<Longrightarrow> vm_device v' = mem_reset (en_clk e) (vm_device v) \<Longrightarrow> policy_step e h s (s\<lparr>sg_mem := Some v'\<rparr>)"

inductive policy_run :: "policy_env \<Rightarrow> host \<Rightarrow> steering \<Rightarrow> steering \<Rightarrow> bool" for e h where
  start: "policy_run e h s s"
| then_step: "policy_run e h s t \<Longrightarrow> policy_step e h t u \<Longrightarrow> policy_run e h s u"

section \<open>The moves a step is made of\<close>

inductive moves :: "policy_env \<Rightarrow> steering \<Rightarrow> steering \<Rightarrow> bool" for e where
  by_balloon: "balloon_only s t \<Longrightarrow> moves e s t"
| by_sizing: "sized e s t \<Longrightarrow> moves e s t"
| by_level: "t = s\<lparr>sg_level := l, sg_reads := Suc (sg_reads s),
      sg_compression := level_changed (sg_compression s) prev l (en_inst e (sg_reads s))\<rparr> \<Longrightarrow> moves e s t"
| by_guest: "sg_mem s = Some v \<Longrightarrow> device_ok (vm_device v') \<Longrightarrow> offer_top (vm_device v') \<le> offer_top (vm_device v) \<Longrightarrow>
    moves e s (s\<lparr>sg_mem := Some v'\<rparr>)"
| one_then: "moves e s t \<Longrightarrow> moves e t u \<Longrightarrow> moves e s u"

lemma balloon_only_ok: "balloon_only s t \<Longrightarrow> policy_ok t = policy_ok s"
  by (simp add: balloon_only_def sizing_part_def policy_ok_def)

lemma moves_ok: "moves e s t \<Longrightarrow> policy_ok s \<Longrightarrow> policy_ok t"
proof (induction rule: moves.induct)
  case (by_guest s v v')
  then show ?case by (simp add: policy_ok_def)
qed (simp_all add: balloon_only_ok sized_def, simp add: policy_ok_def)

lemma moves_reads: "moves e s t \<Longrightarrow> sg_reads s \<le> sg_reads t"
  by (induction rule: moves.induct) (auto simp: balloon_only_def sized_def)

lemma size_locked_moves: "policy_ok s \<Longrightarrow> line_ok line \<Longrightarrow> moves e s (fst (size_locked e s line need release))"
  using size_locked_sized by (metis by_sizing prod.collapse)

lemma memory_line_moves:
  assumes "policy_ok s"
  shows "moves e s (memory_line e s buf)"
proof -
  define line where "line = \<lparr>gl_spare_mib = ucast (line_word buf 0), gl_avail_mib = ucast (line_word buf 4)\<rparr>"
  have l: "line_ok line" using unat_lt_32 by (simp add: line_ok_def line_def)
  define s2 where "s2 = guest_demand e (guest_stall s (line_word buf 16) (line_word buf 20)) (line_word buf 12 AND 2 \<noteq> 0) (line_word buf 12 AND 1 \<noteq> 0)"
  have m2: "moves e s s2"
    unfolding s2_def by (rule by_balloon, rule balloon_only_trans [OF stall_balloon_only demand_balloon_only])
  obtain s3 taken where t: "guest_sizes e s2 line (line_word buf 12 AND 2 \<noteq> 0) (line_word buf 12 AND 1 \<noteq> 0) = (s3, taken)" by fastforce
  have "moves e s2 s3"
    using size_locked_sized [OF moves_ok [OF m2 assms] l] t by (auto simp: guest_sizes_def intro: by_sizing)
  then have m3: "moves e s s3" using m2 one_then by blast
  have "\<exists>f. memory_line e s buf = s3 \<or> memory_line e s buf = guest_offers e s3 (fst f) (snd f)"
    using t by (auto simp: memory_line_def Let_def line_def s2_def)
  then show ?thesis using m3 one_then [OF m3 by_balloon [OF offers_balloon_only]] by auto
qed

lemma make_whole_moves:
  assumes "policy_ok s"
  shows "moves e s (make_whole e s)"
proof (cases "sg_mem s")
  case (Some v)
  have b: "balloon_only s (guest_offers e s 0 True)" by (rule offers_balloon_only)
  then have ok: "policy_ok (guest_offers e s 0 True)" using assms balloon_only_ok by blast
  then have "line_ok (sg_last_line (guest_offers e s 0 True))" by (simp add: policy_ok_def)
  from one_then [OF by_balloon [OF b] size_locked_moves [OF ok this]] show ?thesis
    by (simp add: make_whole_def Some Let_def)
qed (simp add: make_whole_def by_balloon)

lemma levels_moves: "moves e s (levels_pressure e s l)"
proof (cases "sg_level s = l")
  case True
  then have e: "s\<lparr>sg_level := l\<rparr> = s" by (cases s) simp
  have "levels_pressure e s l = policy_apply e s" using True unfolding levels_pressure_def Let_def e by simp
  then show ?thesis by (simp only: by_balloon [OF apply_balloon_only])
next
  case False
  have "moves e s (s\<lparr>sg_level := l, sg_reads := Suc (sg_reads s),
      sg_compression := level_changed (sg_compression s) (sg_level s) l (en_inst e (sg_reads s))\<rparr>)"
    by (rule by_level) simp
  from one_then [OF this by_balloon [OF apply_balloon_only]] False show ?thesis
    by (simp add: levels_pressure_def Let_def instant_now_def)
qed

lemma plugged_le_top: "unat (ms_plugged d) \<le> offer_top d"
  by (simp add: offer_top_def)

lemma resize_again_sized:
  assumes ok: "policy_ok s"
  shows "sized e s (resize_again e s)"
proof (cases "sg_mem s")
  case None
  then show ?thesis using ok by (simp add: resize_again_def sized_def)
next
  case (Some v)
  obtain v1 stuck where v1: "control_read (mem_stuck (en_clk e)) v = (v1, stuck)" by fastforce
  obtain v2 stalled where v2: "control_read (plug_stalled (en_clk e)) v1 = (v2, stalled)" by fastforce
  obtain v3 ms where v3: "control_read (monotonic_ms (en_clk e)) v2 = (v3, ms)" by fastforce
  obtain v4 hold where v4: "control_read (mem_held (en_clk e)) v2 = (v4, hold)" by fastforce
  have same: "same_range (vm_device v) (vm_device v1)" "same_range (vm_device v) (vm_device v2)"
      "same_range (vm_device v) (vm_device v3)" "same_range (vm_device v) (vm_device v4)"
    using control_read_same [OF v1 clock_reads_same(3)] control_read_same [OF v2 clock_reads_same(4)]
      control_read_same [OF v3 clock_reads_same(1)] control_read_same [OF v4 clock_reads_same(2)] same_range_trans by blast+
  have d: "device_ok (vm_device v)" using ok Some by (simp add: policy_ok_def)
  then have dv: "bs dvd unat (ms_plugged (vm_device v))" using mem_ok_dvd by (simp add: device_ok_def)
  have returned: "device_ok (vm_device (control_request e w (ms_plugged (vm_device v)))) \<and>
      offer_top (vm_device (control_request e w (ms_plugged (vm_device v)))) \<le> offer_top (vm_device v)"
    if "same_range (vm_device v) (vm_device w)" for w
    using control_request_top [of w e "ms_plugged (vm_device v)"] same_range_facts [OF that] d plugged_le_top [of "vm_device v"]
    by (simp add: max_absorb1)
  let ?s4 = "s\<lparr>sg_mem := Some v4\<rparr>"
  have s4: "policy_ok ?s4" "range_top ?s4 = range_top s"
    using ok same_range_facts [OF same(4)] d by (auto simp: policy_ok_def range_top_def Some)
  have "sized e s (if \<not> hold \<and> 0 < gl_spare_mib (sg_last_line ?s4) then fst (size_locked e ?s4 (sg_last_line ?s4) False False) else ?s4)"
  proof (cases "\<not> hold \<and> 0 < gl_spare_mib (sg_last_line ?s4)")
    case True
    have "line_ok (sg_last_line ?s4)" using ok by (simp add: policy_ok_def)
    from size_locked_sized [OF s4(1) this surjective_pairing, of e False False] show ?thesis
      using True s4(2) by (simp add: sized_def pressure_part_def)
  next
    case False
    then show ?thesis unfolding if_not_P [OF False] using s4 by (simp add: sized_def pressure_part_def)
  qed
  then show ?thesis
    using v1 v2 v3 v4 returned [OF same(1)] returned [OF same(3)] same_range_facts [OF same(1)] same_range_facts [OF same(2)] ok dv Some
    by (auto simp: resize_again_def Let_def instant_now_def sized_def pressure_part_def range_top_def policy_ok_def)
qed

lemma turn_moves:
  assumes "policy_ok s"
  shows "moves e s (fst (policy_turn e s test prev answer))"
proof -
  define s2 where "s2 = inflation_stalled e (s\<lparr>sg_reads := Suc (sg_reads s)\<rparr>) (en_inst e (sg_reads s))"
  define s3 where "s3 = (case Option.bind test trim_level of None \<Rightarrow> s2 | Some level \<Rightarrow> levels_pressure e s2 level)"
  have "balloon_only s (s\<lparr>sg_reads := Suc (sg_reads s)\<rparr>)" by (simp add: part_defs)
  from balloon_only_trans [OF this stalled_balloon_only] have m2: "moves e s s2"
    unfolding s2_def by (rule by_balloon)
  have "moves e s2 s3"
    unfolding s3_def using levels_moves by (auto simp: by_balloon split: option.splits)
  with m2 have m3: "moves e s s3" by (rule one_then)
  have m4: "moves e s (resize_again e s3)"
    using one_then [OF m3 by_sizing [OF resize_again_sized [OF moves_ok [OF m3 assms]]]] .
  have "policy_turn e s test prev answer =
      (case answer of
         None \<Rightarrow> (resize_again e s3, prev)
       | Some sample \<Rightarrow>
           (case prev of
              None \<Rightarrow> steering_observe e (resize_again e s3) sample
            | Some before \<Rightarrow> steering_steer e (steering_observe e (resize_again e s3) sample)
                (saturating_sub (hs_compressed sample) (hs_compressed before)), Some sample))"
    by (simp only: policy_turn_def Let_def instant_now_def s3_def s2_def prod.case)
  then have "balloon_only (resize_again e s3) (fst (policy_turn e s test prev answer))"
    by (auto intro: observe_balloon_only balloon_only_trans [OF observe_balloon_only steer_balloon_only] split: option.splits)
  then show ?thesis using one_then [OF m4 by_balloon] by blast
qed

lemma mem_handle_top:
  assumes ok: "mem_ok d" and r: "mem_handle h clk d req mem = Ok (d', mem', k, st)"
  shows "offer_top d' \<le> offer_top d \<and> ms_base d' = ms_base d \<and> ms_region d' = ms_region d"
proof -
  have req: "unat (requested_bytes d) \<le> unat (ms_requested d)" by (simp add: requested_bytes_def min_def word_le_nat_alt)
  have less: "unat (ms_plugged d - of_nat (unat (n :: u16)) * BLOCK_SIZE) \<le> unat (ms_plugged d)"
    if "\<not> list_ex (\<lambda>b. \<not> b) (slice_at first (unat n) (ms_blocks d))" "first + unat n \<le> length (ms_blocks d)" for first n
  proof -
    let ?bl = "fill_span first (unat n) False (ms_blocks d)"
    have "may_unplug d first (unat n)" using that(1) unfolding in_slice [OF that(2)] may_unplug_def by blast
    from mem_ok_unplugged [OF ok that(2) this]
    have "unat (ms_plugged d - of_nat (unat n) * BLOCK_SIZE) = bs * length (filter (\<lambda>b. b) ?bl)"
      by (simp add: mem_ok_def held_in_def)
    moreover have "length (filter (\<lambda>b. b) ?bl) \<le> held_in d"
      using filter_fill_span [OF that(2), of "\<lambda>b. b" False] by (simp add: held_in_def)
    ultimately show ?thesis using ok by (simp add: mem_ok_def)
  qed
  show ?thesis
    using r req by (auto simp: mem_handle_def Let_def monotonic_ms_def offer_top_def word_le_nat_alt not_less mem_wire_consts
      split: option.splits if_splits) (simp add: less [simplified] max.coboundedI2)
qed

lemma step_moves:
  assumes "policy_ok s" "policy_step e h s t"
  shows "moves e s t"
  using assms(2)
proof cases
  case line
  then show ?thesis using memory_line_moves [OF assms(1)] by simp
next
  case (gone live)
  have "balloon_only s (snd (memory_gone e live s))"
    using balloon_only_trans [OF demand_balloon_only offers_balloon_only] by (simp add: memory_gone_def)
  then show ?thesis by (simp add: gone by_balloon)
next
  case whole
  then show ?thesis using make_whole_moves [OF assms(1)] by simp
next
  case level
  then show ?thesis using levels_moves by simp
next
  case turn
  then show ?thesis using turn_moves [OF assms(1)] by simp
next
  case (gain g answered)
  have "balloon_only s t" by (simp add: gain gain_said_def instant_now_def Let_def part_defs)
  then show ?thesis by (rule by_balloon)
next
  case reclaim
  have "balloon_only s t" by (simp add: reclaim reclaim_answered_def part_defs)
  then show ?thesis by (rule by_balloon)
next
  case (balloon b)
  have "balloon_only s t" by (simp add: balloon part_defs)
  then show ?thesis by (rule by_balloon)
next
  case (request v req mem v' mem' k st)
  have d: "device_ok (vm_device v)" using assms(1) request(2) by (simp add: policy_ok_def)
  then have m: "mem_ok (vm_device v)" by (simp add: device_ok_def)
  show ?thesis
    unfolding request(1) using d mem_handle_top [OF m request(3)] mem_handle_ok [OF m request(3)]
    by (intro by_guest [OF request(2)]) (simp_all add: device_ok_def)
next
  case (backing v n v')
  have d: "device_ok (vm_device v)" using assms(1) backing(2) by (simp add: policy_ok_def)
  have v': "vm_device v' = vm_device v\<lparr>ms_available := n\<rparr>" "n \<le> ms_region (vm_device v)" "ms_available (vm_device v) \<le> n"
    using backing(3) by (auto simp: backing_ready_def split: if_splits)
  show ?thesis
    unfolding backing(1) using d v'(2,3)
    by (intro by_guest [OF backing(2)])
      (auto simp: v'(1) device_ok_def mem_ok_def held_in_def offer_top_def word_le_nat_alt intro: order_trans)
next
  case (reset v v')
  have d: "device_ok (vm_device v)" using assms(1) reset(2) by (simp add: policy_ok_def)
  then show ?thesis
    unfolding reset(1)
    by (intro by_guest [OF reset(2)])
      (simp_all add: reset(3) mem_reset_def monotonic_ms_def device_ok_def mem_ok_def held_in_def offer_top_def filter_empty_conv)
qed

lemma run_moves:
  assumes "policy_run e h s t" "policy_ok s"
  shows "moves e s t"
  using assms
proof (induction rule: policy_run.induct)
  case (start s)
  show ?case by (simp add: by_balloon)
next
  case (then_step s t u)
  then show ?case using one_then step_moves moves_ok by meson
qed

section \<open>A minute of pressure\<close>

text \<open>The bound on the range's top since the pressure began at the reading \<open>i0\<close>: \<open>k\<close> growths so far, none at Critical,
  each at most 256 MiB and two seconds after the one before.\<close>

definition paced :: "policy_env \<Rightarrow> nat \<Rightarrow> bool \<Rightarrow> nat \<Rightarrow> steering \<Rightarrow> bool" where
  "paced e i0 crit m s \<longleftrightarrow>
     policy_ok s \<and> i0 < sg_reads s \<and>
     (\<exists>w \<ge> en_inst e i0 + PRESSURE_MEMORY. cs_pressure_until (sg_compression s) = Some w) \<and>
     (crit \<longrightarrow> (\<exists>w \<ge> en_inst e i0 + PRESSURE_MEMORY. cs_critical_until (sg_compression s) = Some w)) \<and>
     (\<exists>k. range_top s \<le> m + 268435456 * k \<and>
        (k = 0 \<or> \<not> crit \<and> (\<exists>i < sg_reads s. sg_grew_pressed s = Some (en_inst e i) \<and> en_inst e i0 + PRESSED_GROW_EVERY * (k - 1) \<le> en_inst e i)))"

lemma sized_growths:
  assumes z: "sized e s t" and mono: "mono (en_inst e)"
    and until: "\<forall>i < sg_reads t. en_inst e i < en_inst e i0 + PRESSURE_MEMORY" and p: "paced e i0 crit m s"
  shows "\<exists>k. range_top t \<le> m + 268435456 * k \<and> (k = 0 \<or> \<not> crit \<and>
      (\<exists>i < sg_reads t. sg_grew_pressed t = Some (en_inst e i) \<and> en_inst e i0 + PRESSED_GROW_EVERY * (k - 1) \<le> en_inst e i))"
proof -
  have le: "sg_reads s \<le> sg_reads t" using z by (simp add: sized_def)
  obtain k where k: "range_top s \<le> m + 268435456 * k" "k = 0 \<or> \<not> crit \<and>
      (\<exists>i < sg_reads s. sg_grew_pressed s = Some (en_inst e i) \<and> en_inst e i0 + PRESSED_GROW_EVERY * (k - 1) \<le> en_inst e i)"
    using p by (auto simp: paced_def)
  show ?thesis
  proof (cases "range_top t \<le> range_top s \<and> sg_grew_pressed t = sg_grew_pressed s")
    case True
    moreover have "k = 0 \<or> \<not> crit \<and>
        (\<exists>i < sg_reads t. sg_grew_pressed s = Some (en_inst e i) \<and> en_inst e i0 + PRESSED_GROW_EVERY * (k - 1) \<le> en_inst e i)"
      using k(2) le by (meson less_le_trans)
    ultimately show ?thesis using k(1) by (intro exI [of _ k]) auto
  next
    case False
    then obtain i j where ij: "sg_reads s \<le> i" "i \<le> j" "j < sg_reads t"
        and g: "\<not> pressed (sg_compression s) (sg_level s) (en_inst e i) \<or>
          \<not> critical (sg_compression s) (sg_level s) (en_inst e i) \<and> range_top t \<le> range_top s + 268435456 \<and>
            sg_grew_pressed t = Some (en_inst e j) \<and>
            (case sg_grew_pressed s of None \<Rightarrow> True
             | Some at \<Rightarrow> \<exists>k. i \<le> k \<and> k \<le> j \<and> PRESSED_GROW_EVERY \<le> en_inst e k - at)"
      using z by (auto simp: sized_def Let_def)
    have "en_inst e i < en_inst e i0 + PRESSURE_MEMORY" using until ij by auto
    then have pr: "pressed (sg_compression s) (sg_level s) (en_inst e i)"
      and cr: "crit \<Longrightarrow> critical (sg_compression s) (sg_level s) (en_inst e i)"
      using p by (auto simp: paced_def pressed_def critical_def)
    have i0: "i0 < sg_reads s" using p by (simp add: paced_def)
    have "en_inst e i0 + PRESSED_GROW_EVERY * k \<le> en_inst e j"
    proof (cases "k = 0")
      case True
      then show ?thesis using i0 ij mono by (simp add: mono_def)
    next
      case nz: False
      then obtain i' where i': "sg_grew_pressed s = Some (en_inst e i')" "en_inst e i0 + PRESSED_GROW_EVERY * (k - 1) \<le> en_inst e i'"
        using k(2) by blast
      then obtain l where "l \<le> j" "PRESSED_GROW_EVERY \<le> en_inst e l - en_inst e i'" using g pr by auto
      moreover from this have "en_inst e l \<le> en_inst e j" using mono by (simp add: mono_def)
      moreover have "PRESSED_GROW_EVERY * k = PRESSED_GROW_EVERY * (k - 1) + PRESSED_GROW_EVERY" using nz by (cases k) simp_all
      ultimately show ?thesis using i'(2) by (simp add: PRESSED_GROW_EVERY_def)
    qed
    moreover have "range_top t \<le> m + 268435456 * Suc k" using g pr k(1) by simp
    moreover have "\<not> crit" using g pr cr by blast
    ultimately show ?thesis using g pr ij by (intro exI [of _ "Suc k"]) auto
  qed
qed

lemma moves_paced:
  assumes "moves e s t" "mono (en_inst e)" "\<forall>i < sg_reads t. en_inst e i < en_inst e i0 + PRESSURE_MEMORY" "paced e i0 crit m s"
  shows "paced e i0 crit m t"
  using assms
proof (induction rule: moves.induct)
  case (by_balloon s t)
  then have "sg_reads s \<le> sg_reads t" "policy_ok t = policy_ok s" "range_top t = range_top s" "sg_grew_pressed t = sg_grew_pressed s"
      "cs_pressure_until (sg_compression t) = cs_pressure_until (sg_compression s)"
      "cs_critical_until (sg_compression t) = cs_critical_until (sg_compression s)"
    by (simp_all add: balloon_only_ok part_defs range_top_def)
  then show ?case using by_balloon(4) unfolding paced_def by (auto intro: less_le_trans)
next
  case (by_sizing s t)
  then have "policy_ok t" "sg_reads s \<le> sg_reads t"
      "cs_pressure_until (sg_compression t) = cs_pressure_until (sg_compression s)"
      "cs_critical_until (sg_compression t) = cs_critical_until (sg_compression s)"
    by (simp_all add: sized_def pressure_part_def)
  moreover have "\<exists>k. range_top t \<le> m + 268435456 * k \<and> (k = 0 \<or> \<not> crit \<and>
      (\<exists>i < sg_reads t. sg_grew_pressed t = Some (en_inst e i) \<and> en_inst e i0 + PRESSED_GROW_EVERY * (k - 1) \<le> en_inst e i))"
    by (rule sized_growths [OF by_sizing])
  ultimately show ?case using by_sizing(4) unfolding paced_def by auto
next
  case (by_level t s l prev)
  have "i0 < sg_reads s" using by_level(4) by (simp add: paced_def)
  then have "en_inst e i0 \<le> en_inst e (sg_reads s)" using by_level(2) by (simp add: mono_def)
  then show ?case
    using by_level(4) unfolding by_level(1) paced_def
    by (auto simp: level_changed_def Let_def policy_ok_def range_top_def intro: less_SucI)
next
  case (by_guest s v v')
  then show ?case unfolding paced_def by (auto simp: policy_ok_def range_top_def intro: order_trans)
next
  case (one_then s t u)
  then show ?case using moves_reads [OF one_then(2)] by (meson less_le_trans)
qed

lemma moves_paced_from:
  assumes "policy_ok s0" "sg_level s0 \<noteq> l" "l \<noteq> Normal"
  shows "paced e (sg_reads s0) (l = Critical) (range_top s0) (levels_pressure e s0 l)"
proof -
  define s1 where "s1 = s0\<lparr>sg_level := l, sg_reads := Suc (sg_reads s0),
      sg_compression := level_changed (sg_compression s0) (sg_level s0) l (en_inst e (sg_reads s0))\<rparr>"
  have "levels_pressure e s0 l = policy_apply e s1"
    using assms(2) by (simp add: levels_pressure_def Let_def instant_now_def s1_def)
  moreover have "paced e (sg_reads s0) (l = Critical) (range_top s0) s1"
    using assms unfolding paced_def
    by (auto simp: s1_def level_changed_def Let_def policy_ok_def range_top_def intro!: exI [of _ 0])
  moreover have "balloon_only s1 (policy_apply e s1)" by (rule apply_balloon_only)
  ultimately show ?thesis
    unfolding paced_def part_defs by (auto simp: range_top_def policy_ok_def intro: less_le_trans)
qed

text \<open>C24: For a minute after the Mac reports Critical the guest does not grow. Whatever happens in that minute,
  lines asking for memory, containers starting, levels bouncing, the guest plugging what it was
  offered, neither what the guest has plugged nor what it is offered of its range ever exceeds what
  the larger of the two was when Critical was reported.\<close>

theorem critical_stops_growth:
  assumes "policy_ok s0" "mono (en_inst e)" "sg_level s0 \<noteq> Critical"
    and run: "policy_run e h (levels_pressure e s0 Critical) s"
    and minute: "\<forall>i < sg_reads s. en_inst e i < en_inst e (sg_reads s0) + 60000"
  shows "range_top s \<le> range_top s0"
proof -
  have p: "paced e (sg_reads s0) True (range_top s0) (levels_pressure e s0 Critical)"
    using moves_paced_from [OF assms(1,3), of e] by simp
  then have "policy_ok (levels_pressure e s0 Critical)" by (simp add: paced_def)
  from moves_paced [OF run_moves [OF run this] assms(2) _ p] minute show ?thesis
    by (auto simp: paced_def PRESSURE_MEMORY_def)
qed

text \<open>C25: While the Mac is under pressure the guest grows by at most 256 MiB every two seconds. In the minute after a
  level other than Normal is reported, whatever asks for memory and however often, the top of the range
  after a time \<open>t\<close> is at most 256 MiB times one more than the whole number of two-second intervals in
  \<open>t\<close> above where it was.\<close>

theorem pressure_paces_growth:
  assumes "policy_ok s0" "mono (en_inst e)" "sg_level s0 \<noteq> l" "l \<noteq> Normal"
    and run: "policy_run e h (levels_pressure e s0 l) s"
    and minute: "\<forall>i < sg_reads s. en_inst e i < en_inst e (sg_reads s0) + 60000"
  shows "range_top s \<le> range_top s0 + 268435456 * (1 + (en_inst e (sg_reads s) - en_inst e (sg_reads s0)) div 2000)"
proof -
  have p: "paced e (sg_reads s0) (l = Critical) (range_top s0) (levels_pressure e s0 l)"
    using moves_paced_from [OF assms(1,3,4), of e] by simp
  then have "policy_ok (levels_pressure e s0 l)" by (simp add: paced_def)
  from moves_paced [OF run_moves [OF run this] assms(2) _ p] minute
  obtain k where k: "range_top s \<le> range_top s0 + 268435456 * k"
      "k = 0 \<or> (\<exists>i < sg_reads s. en_inst e (sg_reads s0) + 2000 * (k - 1) \<le> en_inst e i)"
    by (auto simp: paced_def PRESSURE_MEMORY_def PRESSED_GROW_EVERY_def)
  have "k \<le> 1 + (en_inst e (sg_reads s) - en_inst e (sg_reads s0)) div 2000"
  proof (cases "k = 0")
    case False
    then obtain i where "i < sg_reads s" "en_inst e (sg_reads s0) + 2000 * (k - 1) \<le> en_inst e i" using k(2) by blast
    moreover from this have "en_inst e i \<le> en_inst e (sg_reads s)" using assms(2) by (simp add: mono_def)
    ultimately have "2000 * (k - 1) \<le> en_inst e (sg_reads s) - en_inst e (sg_reads s0)" by linarith
    then have "k - 1 \<le> (en_inst e (sg_reads s) - en_inst e (sg_reads s0)) div 2000" by linarith
    then show ?thesis by linarith
  qed simp
  then show ?thesis using k(1) by (meson add_left_mono le_trans mult_le_mono2)
qed

text \<open>C37: The policy's state stays well formed. Through lines of the guest, levels of the host, polls, and whatever the guest
  asks of its range: the range holds whole blocks inside it, what is plugged is exactly the blocks held, the offer is
  within the range, and no floor or ceiling the policy remembers splits a block.\<close>

theorem policy_well_formed:
  assumes "policy_run e h s t" "policy_ok s"
  shows "policy_ok t \<and> (\<forall>v. sg_mem t = Some v \<longrightarrow> ms_requested (vm_device v) \<le> ms_region (vm_device v) \<and>
    unat (ms_plugged (vm_device v)) = 134217728 * held_in (vm_device v))"
proof -
  have "policy_ok t" by (rule moves_ok [OF run_moves [OF assms] assms(2)])
  then show ?thesis by (auto simp: policy_ok_def device_ok_def mem_ok_def)
qed

section \<open>A guest of one gigabyte that asks for more under Warn and at Critical\<close>

definition demo_env :: policy_env where
  "demo_env = \<lparr>en_inst = (\<lambda>i. 100 * i), en_clk = (\<lambda>_. 7), en_reclaim_ahead = None, en_warm_gain = None\<rparr>"

definition demo_steering :: steering where
  "demo_steering = steering_new (vm_new (balloon_device demo_host) balloon_new) 0x40000000
     (Some (vm_new (mem_device demo_host (\<lambda>_. 7)) (mem_new 0x40000000 0x100000000 0x40000000 0)))"

definition demo_need :: bytes where
  "demo_need = replicate 12 0 @ [2, 0, 0, 0] @ replicate 16 0"

lemma demo_steering_ok: "policy_ok demo_steering"
  by (simp add: policy_ok_def demo_steering_def steering_new_def vm_new_def device_ok_def mem_ok_def held_in_def mem_new_def
      filter_empty_conv guest_line_default_def line_ok_def mem_round_def BLOCK_SIZE_def)

lemma demo_clock: "mono (en_inst demo_env)" "en_inst demo_env i = 100 * i"
  by (simp_all add: demo_env_def mono_def)

lemma demo_line_run: "policy_run demo_env h (levels_pressure demo_env demo_steering l) (memory_line demo_env (levels_pressure demo_env demo_steering l) demo_need)"
  by (rule policy_run.then_step [OF policy_run.start policy_step.line])

lemma demo_device [simp]: "vm_device (vm_new dev d) = d" "vm_device (notify_config_change v) = vm_device v"
  by (simp_all add: vm_new_def notify_config_change_def)

lemma demo_words: "line_word demo_need 0 = 0" "line_word demo_need 4 = 0" "line_word demo_need 12 = 2" "line_word demo_need 16 = 0"
    "line_word demo_need 20 = 0"
  by code_simp+

lemma demo_critical: "levels_pressure demo_env demo_steering Critical = demo_steering\<lparr>sg_level := Critical, sg_reads := 2,
    sg_compression := compression_default\<lparr>cs_pressure_until := Some 60000, cs_critical_until := Some 60000, cs_hold_reported := True\<rparr>\<rparr>"
  by (simp add: levels_pressure_def level_changed_def policy_apply_def instant_now_def held_def target_pages_def actual_pages_def
      demo_steering_def steering_new_def demo_env_def compression_default_def balloon_new_def PRESSURE_MEMORY_def)

lemmas demo_line_eval = memory_line_def guest_stall_def guest_demand_def guest_short_def policy_apply_def guest_sizes_def size_locked_def
  pace_now_def line_demand_def take_floor_def take_ceiling_def control_read_def mem_held_def guest_offers_def instant_now_def
  held_def pressed_def critical_def target_pages_def actual_pages_def steering_total_def demo_words
  demo_steering_def steering_new_def demo_env_def compression_default_def balloon_new_def mem_new_def total_bytes_def
  requested_bytes_def mem_round_def BLOCK_SIZE_def Let_def size_range_def headroom_def HEADROOM_FRACTION_def HEADROOM_MIN_def

lemma demo_critical_reads: "sg_reads (memory_line demo_env (levels_pressure demo_env demo_steering Critical) demo_need) = 5"
  unfolding demo_critical by (simp add: demo_line_eval grow_to_def div_ceil_def saturating_mul_def)

lemma demo_warn: "levels_pressure demo_env demo_steering Warn = demo_steering\<lparr>sg_level := Warn, sg_reads := 2,
    sg_compression := compression_default\<lparr>cs_pressure_until := Some 60000, cs_hold_reported := True\<rparr>\<rparr>"
  by (simp add: levels_pressure_def level_changed_def policy_apply_def instant_now_def held_def target_pages_def actual_pages_def
      demo_steering_def steering_new_def demo_env_def compression_default_def balloon_new_def PRESSURE_MEMORY_def)

lemma demo_warn_line:
  "sg_reads (memory_line demo_env (levels_pressure demo_env demo_steering Warn) demo_need) = 6"
  "range_top (memory_line demo_env (levels_pressure demo_env demo_steering Warn) demo_need) = 268435456"
  unfolding demo_warn
  by (simp_all add: demo_line_eval grow_to_def div_ceil_def saturating_mul_def saturating_add_def GROW_STEP_MIN_def
      control_request_def mem_request_def set_requested_bytes_def monotonic_ms_def range_top_def offer_top_def min_def)

theorem critical_stops_growth_witness:
  "range_top (memory_line demo_env (levels_pressure demo_env demo_steering Critical) demo_need) \<le> range_top demo_steering"
  by (intro critical_stops_growth [OF demo_steering_ok demo_clock(1) _ demo_line_run])
    (simp_all add: demo_critical_reads demo_clock(2), simp add: demo_steering_def steering_new_def)

theorem pressure_paces_growth_witness:
  "range_top (memory_line demo_env (levels_pressure demo_env demo_steering Warn) demo_need) = 268435456 \<and>
   range_top (memory_line demo_env (levels_pressure demo_env demo_steering Warn) demo_need) \<le> range_top demo_steering + 268435456"
proof -
  let ?s = "memory_line demo_env (levels_pressure demo_env demo_steering Warn) demo_need"
  have "sg_level demo_steering \<noteq> Warn" by (simp add: demo_steering_def steering_new_def)
  from pressure_paces_growth [OF demo_steering_ok demo_clock(1) this _ demo_line_run]
  have "range_top ?s \<le> range_top demo_steering + 268435456 *
      (1 + (en_inst demo_env (sg_reads ?s) - en_inst demo_env (sg_reads demo_steering)) div 2000)"
    by (simp add: demo_warn_line(1) demo_clock(2))
  then show ?thesis by (simp add: demo_warn_line demo_clock(2))
qed

theorem policy_well_formed_witness:
  "policy_ok (memory_line demo_env demo_steering demo_need)"
proof -
  have "policy_run demo_env demo_host demo_steering (memory_line demo_env demo_steering demo_need)"
    by (rule policy_run.then_step [OF policy_run.start policy_step.line])
  from policy_well_formed [OF this demo_steering_ok] show ?thesis by blast
qed

end
