(* ===== verification/Memory_Balloon.thy ===== *)
theory Memory_Balloon
  imports Memory_Policy_Run
begin

text \<open>
  What the policy asks of the balloon: how a target is published, that a guest that is short is never squeezed,
  that a level's cap is reached and a balloon asked for is given back.
\<close>

section \<open>Publishing a target\<close>

text \<open>The pages \<^verbatim>\<open>apply\<close> decides on, for a ramp at \<open>ramp\<close>.\<close>

definition applied_pages :: "steering \<Rightarrow> u32 \<Rightarrow> u32" where
  "applied_pages s ramp =
     (let wanted = max ramp (sg_guest_pages s); actual = actual_pages s in
      if wanted < actual
      then case cs_host_free (sg_compression s) of
             Some free \<Rightarrow> max wanted (saturating_sub actual (as_pages (max (free div 2) STEP_MIN_BYTES)))
           | None \<Rightarrow> wanted
      else wanted)"

definition held_ramp :: "policy_env \<Rightarrow> steering \<Rightarrow> u32" where
  "held_ramp e s = (if held (sg_compression s) (en_inst e (sg_reads s)) then min (cs_pages (sg_compression s)) (actual_pages s)
     else cs_pages (sg_compression s))"

lemma apply_effects:
  "sg_compression (policy_apply e s) = (sg_compression s)\<lparr>cs_pages := held_ramp e s,
     cs_hold_reported := held (sg_compression s) (en_inst e (sg_reads s))\<rparr>"
  "sg_balloon (policy_apply e s) =
     (let pages = applied_pages s (held_ramp e s); t = sg_balloon s in
      if pages = target_pages s then t else notify_config_change (t\<lparr>vm_device := set_target_pages (vm_device t) pages\<rparr>))"
  "sg_ram_bytes (policy_apply e s) = sg_ram_bytes s" "sg_guest_pages (policy_apply e s) = sg_guest_pages s"
  "sg_level (policy_apply e s) = sg_level s" "sg_mem (policy_apply e s) = sg_mem s" "sg_reads (policy_apply e s) = Suc (sg_reads s)"
proof -
  define c where "c = (if held (sg_compression s) (en_inst e (sg_reads s)) then (sg_compression s)\<lparr>cs_pages := min (cs_pages (sg_compression s)) (actual_pages s)\<rparr> else sg_compression s)"
  define c' where "c' = (if held (sg_compression s) (en_inst e (sg_reads s)) \<noteq> cs_hold_reported c then c\<lparr>cs_hold_reported := held (sg_compression s) (en_inst e (sg_reads s))\<rparr> else c)"
  have c': "c' = (sg_compression s)\<lparr>cs_pages := held_ramp e s, cs_hold_reported := held (sg_compression s) (en_inst e (sg_reads s))\<rparr>"
    by (cases "sg_compression s") (auto simp: c'_def c_def held_ramp_def)
  define pg where "pg = (if max (cs_pages c') (sg_guest_pages s) < actual_pages s
    then case cs_host_free c' of
           Some free \<Rightarrow> max (max (cs_pages c') (sg_guest_pages s)) (saturating_sub (actual_pages s) (as_pages (max (free div 2) STEP_MIN_BYTES)))
         | None \<Rightarrow> max (cs_pages c') (sg_guest_pages s)
    else max (cs_pages c') (sg_guest_pages s))"
  have pg: "pg = applied_pages s (cs_pages c')"
  proof -
    have "cs_host_free c' = cs_host_free (sg_compression s)" by (simp add: c')
    then show ?thesis by (simp only: pg_def applied_pages_def Let_def)
  qed
  have fields: "sg_compression (s\<lparr>sg_reads := n\<rparr>) = sg_compression s"
      "sg_guest_pages (s\<lparr>sg_reads := n, sg_compression := k\<rparr>) = sg_guest_pages s"
      "sg_balloon (s\<lparr>sg_reads := n, sg_compression := k\<rparr>) = sg_balloon s" for n k
    by simp_all
  have "policy_apply e s =
      (let s2 = s\<lparr>sg_reads := Suc (sg_reads s), sg_compression := c'\<rparr> in
       if pg = target_pages s then s2
       else s2\<lparr>sg_balloon := notify_config_change ((sg_balloon s)\<lparr>vm_device := set_target_pages (vm_device (sg_balloon s)) pg\<rparr>)\<rparr>)"
    by (simp only: policy_apply_def instant_now_def Let_def c'_def c_def pg_def prod.case target_pages_def fields)
  note a = this [unfolded pg]
  show "sg_compression (policy_apply e s) = (sg_compression s)\<lparr>cs_pages := held_ramp e s,
       cs_hold_reported := held (sg_compression s) (en_inst e (sg_reads s))\<rparr>"
    and "sg_balloon (policy_apply e s) =
     (let pages = applied_pages s (held_ramp e s); t = sg_balloon s in
      if pages = target_pages s then t else notify_config_change (t\<lparr>vm_device := set_target_pages (vm_device t) pages\<rparr>))"
    unfolding a Let_def by (simp_all add: c')
  show "sg_ram_bytes (policy_apply e s) = sg_ram_bytes s" "sg_guest_pages (policy_apply e s) = sg_guest_pages s"
    "sg_level (policy_apply e s) = sg_level s" "sg_mem (policy_apply e s) = sg_mem s" "sg_reads (policy_apply e s) = Suc (sg_reads s)"
    unfolding a Let_def by simp_all
qed

lemma apply_target: "target_pages (policy_apply e s) = applied_pages s (held_ramp e s)"
  by (simp add: target_pages_def [of "policy_apply e s"] apply_effects Let_def notify_config_change_def set_target_pages_def)
    (simp add: target_pages_def)

lemma applied_bounds:
  "max ramp (sg_guest_pages s) \<le> applied_pages s ramp"
  "applied_pages s ramp \<le> max (max ramp (sg_guest_pages s)) (actual_pages s)"
  "cs_host_free (sg_compression s) = Some free \<Longrightarrow>
     unat (actual_pages s) \<le> unat (applied_pages s ramp) + max (unat free div 2) 33554432 div 4096"
proof -
  show "max ramp (sg_guest_pages s) \<le> applied_pages s ramp"
    by (auto simp: applied_pages_def Let_def le_max_iff_disj split: option.split)
  have "saturating_sub (actual_pages s) x \<le> actual_pages s" for x
    by (simp add: word_le_nat_alt unat_saturating_sub)
  then show "applied_pages s ramp \<le> max (max ramp (sg_guest_pages s)) (actual_pages s)"
    by (auto simp: applied_pages_def Let_def le_max_iff_disj split: option.split)
  assume f: "cs_host_free (sg_compression s) = Some free"
  have st: "unat (max (free div 2) STEP_MIN_BYTES) = max (unat free div 2) 33554432"
    by (simp add: STEP_MIN_BYTES_def max_def word_le_nat_alt unat_div)
  have sub: "unat (actual_pages s) - unat (as_pages (max (free div 2) STEP_MIN_BYTES)) \<le> unat (max w (saturating_sub (actual_pages s) (as_pages (max (free div 2) STEP_MIN_BYTES))))" for w
    by (metis max.cobounded2 unat_saturating_sub word_le_nat_alt)
  have lim: "unat (as_pages (max (free div 2) STEP_MIN_BYTES)) \<le> max (unat free div 2) 33554432 div 4096"
    by (simp add: unat_as_pages st)
  have "unat (actual_pages s) \<le> unat (max w (saturating_sub (actual_pages s) (as_pages (max (free div 2) STEP_MIN_BYTES)))) + max (unat free div 2) 33554432 div 4096" for w
    using sub [of w] lim by linarith
  moreover have "unat (actual_pages s) \<le> unat (max ramp (sg_guest_pages s))" if "\<not> max ramp (sg_guest_pages s) < actual_pages s"
    using that by (simp only: not_less word_le_nat_alt)
  ultimately show "unat (actual_pages s) \<le> unat (applied_pages s ramp) + max (unat free div 2) 33554432 div 4096"
    using f by (auto simp del: max_less_iff_conj simp: applied_pages_def Let_def trans_le_add1)
qed

text \<open>C26: The balloon's target. A guest that is short, or that has not yet been fine for five seconds, is never
  asked to inflate past what its balloon holds or what it offered itself; the ramp follows the balloon
  down and is not raised. A deflation hands back at most half of what the host has free, or 32 MiB if
  that is more. The target reaches the guest by the configuration interrupt exactly when it differs from
  the last one, and nothing else of the transport moves.\<close>

theorem short_guest_not_squeezed:
  "cs_pages (sg_compression (policy_apply e s)) \<le> cs_pages (sg_compression s) \<and>
    (held (sg_compression s) (en_inst e (sg_reads s)) \<longrightarrow>
       target_pages (policy_apply e s) \<le> max (actual_pages s) (sg_guest_pages s) \<and>
       cs_pages (sg_compression (policy_apply e s)) \<le> actual_pages s) \<and>
    (\<forall>free. cs_host_free (sg_compression s) = Some free \<longrightarrow>
       unat (actual_pages s) \<le> unat (target_pages (policy_apply e s)) + max (unat free div 2) 33554432 div 4096) \<and>
    (if target_pages (policy_apply e s) = target_pages s then sg_balloon (policy_apply e s) = sg_balloon s
     else sg_balloon (policy_apply e s) = notify_config_change ((sg_balloon s)\<lparr>vm_device := set_target_pages (vm_device (sg_balloon s)) (target_pages (policy_apply e s))\<rparr>))"
  using applied_bounds(2) [of s "held_ramp e s"] applied_bounds(3) [of s _ "held_ramp e s"]
  by (auto simp: apply_target apply_effects held_ramp_def Let_def le_max_iff_disj)

section \<open>Polls\<close>

lemma say_gain_effects:
  "sg_compression (say_gain e s g) = sg_compression s" "sg_balloon (say_gain e s g) = sg_balloon s"
  "sg_ram_bytes (say_gain e s g) = sg_ram_bytes s" "sg_guest_pages (say_gain e s g) = sg_guest_pages s"
  "sg_level (say_gain e s g) = sg_level s" "sg_mem (say_gain e s g) = sg_mem s" "sg_reads s \<le> sg_reads (say_gain e s g)"
  by (auto simp: say_gain_def Let_def instant_now_def split: option.splits prod.splits if_splits)

lemma ask_reclaim_effects:
  "sg_compression (ask_reclaim e s g) = sg_compression s" "sg_balloon (ask_reclaim e s g) = sg_balloon s"
  "sg_ram_bytes (ask_reclaim e s g) = sg_ram_bytes s" "sg_guest_pages (ask_reclaim e s g) = sg_guest_pages s"
  "sg_level (ask_reclaim e s g) = sg_level s" "sg_mem (ask_reclaim e s g) = sg_mem s" "sg_reads (ask_reclaim e s g) = sg_reads s"
  by (simp_all add: ask_reclaim_def)

text \<open>The guest has been fine for long enough by every reading from here on, and the ramp is not being given back.\<close>

definition ramp_free :: "policy_env \<Rightarrow> steering \<Rightarrow> bool" where
  "ramp_free e s \<longleftrightarrow>
     \<not> cs_releasing (sg_compression s) \<and> \<not> cs_guest_short (sg_compression s) \<and>
     (\<exists>h. cs_healthy_since (sg_compression s) = Some h \<and> h + HOLD_PATIENCE \<le> en_inst e (sg_reads s)) \<and>
     cs_last_total (sg_compression s) \<le> steering_total s"

lemma ramp_free_held:
  assumes "ramp_free e s" "mono (en_inst e)" "cs_guest_short c = cs_guest_short (sg_compression s)"
    "cs_healthy_since c = cs_healthy_since (sg_compression s)" "sg_reads s \<le> n"
  shows "\<not> held c (en_inst e n)"
proof -
  have "en_inst e (sg_reads s) \<le> en_inst e n" using assms(2,5) by (simp add: mono_def)
  then show ?thesis using assms by (auto simp: ramp_free_def held_def)
qed

lemma free_poll:
  assumes f: "ramp_free e s" and mono: "mono (en_inst e)" and l: "sg_level s \<noteq> Normal"
  shows "\<exists>q. cs_pages (sg_compression (steering_steer e s compressed)) =
      steer (cs_pages (sg_compression s)) compressed q (steering_total s) (sg_level s) False" (is "\<exists>q. ?p q")
    and "ramp_free e (steering_steer e s compressed)" (is ?f)
    and "sg_level (steering_steer e s compressed) = sg_level s" (is ?l)
    and "steering_total (steering_steer e s compressed) = steering_total s" (is ?t)
    and "cs_pages (sg_compression (steering_steer e s compressed)) \<le> target_pages (steering_steer e s compressed)" (is ?g)
proof -
  let ?now = "en_inst e (sg_reads s)" and ?tot = "steering_total s"
  obtain c shrunk gain level where n: "poll_notes (sg_compression s) (sg_level s) ?tot compressed ?now = (c, shrunk, gain, level)"
    by (metis prod_cases4)
  note k = poll_notes_keeps [OF n]
  have k': "level = sg_level s" "\<not> shrunk" "\<not> cs_releasing c" using k l f by (auto simp: ramp_free_def)
  have h: "\<not> held c ?now" using ramp_free_held [OF f mono] k by simp
  define p where "p = steer (cs_pages (sg_compression s)) compressed (cs_quiet_polls c) ?tot (sg_level s) False"
  define s1 where "s1 = fst (ramp_poll e s compressed)"
  have st: "steering_total (s\<lparr>sg_reads := m\<rparr>) = ?tot" for m
    by (simp add: steering_total_def split: option.split)
  have s1: "sg_compression s1 = c\<lparr>cs_pages := p\<rparr>" "sg_level s1 = sg_level s" "sg_mem s1 = sg_mem s"
      "sg_ram_bytes s1 = sg_ram_bytes s" "sg_reads s1 = Suc (sg_reads s)"
    using n h k k' by (simp_all add: s1_def ramp_poll_def instant_now_def st Let_def ask_reclaim_effects p_def)
  define s2 where "s2 = say_gain e s1 (case en_warm_gain e of Some g \<Rightarrow> g | None \<Rightarrow> snd (ramp_poll e s compressed))"
  have s3: "steering_steer e s compressed = policy_apply e s2"
    by (simp add: steering_steer_def s2_def s1_def case_prod_beta)
  have r: "sg_reads s \<le> sg_reads s2" using say_gain_effects(7) [of s1] by (simp add: s2_def s1(5)) (meson Suc_leD)
  have c2: "sg_compression s2 = c\<lparr>cs_pages := p\<rparr>" by (simp add: s2_def say_gain_effects s1)
  have h2: "\<not> held (sg_compression s2) (en_inst e (sg_reads s2))"
    using ramp_free_held [OF f mono _ _ r, of "sg_compression s2"] k by (simp add: c2)
  have hr: "held_ramp e s2 = p" by (simp only: held_ramp_def h2 if_False) (simp add: c2)
  then show "\<exists>q. ?p q" by (auto simp: s3 apply_effects p_def)
  show ?l by (simp add: s3 apply_effects s2_def say_gain_effects s1)
  show t: ?t by (simp add: steering_total_def s3 apply_effects s2_def say_gain_effects s1 split: option.split)
  have "en_inst e (sg_reads s) \<le> en_inst e (Suc (sg_reads s2))" using mono r by (simp add: mono_def)
  then show ?f
    using f k unfolding ramp_free_def t by (auto simp: s3 apply_effects c2)
  show ?g using applied_bounds(1) [where ramp = p and s = s2] by (simp add: s3 apply_target apply_effects hr)
qed

lemma free_polls:
  assumes "ramp_free e s" "mono (en_inst e)" "sg_level s \<noteq> Normal"
  shows "ramp_free e (foldl (steering_steer e) s cs) \<and> sg_level (foldl (steering_steer e) s cs) = sg_level s \<and>
    steering_total (foldl (steering_steer e) s cs) = steering_total s \<and>
    min (length cs * unat (step_up (sg_level s) (steering_total s))) (unat (cap_pages (sg_level s) (steering_total s)))
      \<le> unat (cs_pages (sg_compression (foldl (steering_steer e) s cs)))"
proof (induction cs rule: rev_induct)
  case Nil
  then show ?case using assms(1) by simp
next
  case (snoc c cs)
  let ?s = "foldl (steering_steer e) s cs" and ?l = "sg_level s" and ?tot = "steering_total s"
  note f = free_poll [of e ?s c] 
  obtain q where q: "cs_pages (sg_compression (steering_steer e ?s c)) = steer (cs_pages (sg_compression ?s)) c q ?tot ?l False"
    using f(1) snoc assms(2,3) by auto
  have cap: "unat (cap_pages ?l ?tot) \<le> unat (guest_reserve ?tot)" using cap_le_reserve by (simp add: word_le_nat_alt)
  have mn: "unat (min (cs_pages (sg_compression ?s)) (guest_reserve ?tot)) = min (unat (cs_pages (sg_compression ?s))) (unat (guest_reserve ?tot))"
    by (simp add: min_def word_le_nat_alt)
  have up: "min (unat (min (cs_pages (sg_compression ?s)) (guest_reserve ?tot)) + unat (step_up ?l ?tot)) (unat (cap_pages ?l ?tot))
      \<le> unat (cs_pages (sg_compression (steering_steer e ?s c)))"
    unfolding q by (rule steer_up_progress) (use assms(3) in simp)
  have ih: "min (length cs * unat (step_up ?l ?tot)) (unat (cap_pages ?l ?tot)) \<le> unat (cs_pages (sg_compression ?s))"
    using snoc by blast
  have "min (Suc (length cs) * unat (step_up ?l ?tot)) (unat (cap_pages ?l ?tot)) \<le> unat (cs_pages (sg_compression (steering_steer e ?s c)))"
    using cap up ih unfolding mn mult_Suc by linarith
  then show ?case using f(2-4) snoc assms(2,3) by simp
qed

text \<open>C27: A level's cap is reached. With the guest fine and not asking for its memory back, nine polls at Warn or
  Critical, whatever the host compresses between them, bring the balloon's target to at least the
  level's share of a guest of a megabyte or more, a quarter at Warn and a half at Critical; and the
  ramp never passes the guest's reserve, fifteen sixteenths of what it has.\<close>

theorem ramp_reaches_cap:
  assumes "ramp_free e s" "mono (en_inst e)" "sg_level s \<noteq> Normal" "0x100000 \<le> steering_total s" "9 \<le> length polls"
  shows "cap_pages (sg_level s) (steering_total s) \<le> target_pages (foldl (steering_steer e) s polls) \<and>
    cs_pages (sg_compression (foldl (steering_steer e) s polls)) \<le> guest_reserve (steering_total s)"
proof -
  obtain cs c where p: "polls = cs @ [c]" using assms(5) by (cases polls rule: rev_cases) auto
  let ?s = "foldl (steering_steer e) s cs"
  note f = free_poll [of e ?s c] and fp = free_polls [OF assms(1-3)]
  have "unat (cap_pages (sg_level s) (steering_total s)) \<le> 9 * unat (step_up (sg_level s) (steering_total s))"
    using step_up_ratio [of "sg_level s" "steering_total s"] assms(3,4) by simp
  also have "\<dots> \<le> length polls * unat (step_up (sg_level s) (steering_total s))" using assms(5) by (rule mult_le_mono1)
  finally have "cap_pages (sg_level s) (steering_total s) \<le> cs_pages (sg_compression (foldl (steering_steer e) s polls))"
    using fp [of polls] by (simp add: word_le_nat_alt min_absorb2)
  moreover have "\<dots> \<le> target_pages (foldl (steering_steer e) s polls)"
    using f(5) fp [of cs] assms(2,3) by (simp add: p)
  moreover have "cs_pages (sg_compression (foldl (steering_steer e) s polls)) \<le> guest_reserve (steering_total s)"
    using f(1) fp [of cs] assms(2,3) steer_le_reserve [of _ _ _ "steering_total s"] by (auto simp: p)
  ultimately show ?thesis by (blast intro: order_trans)
qed

section \<open>Giving the balloon back\<close>

definition release_step :: "u64 \<Rightarrow> u32" where
  "release_step tot = as_pages (max (tot div RELEASE_STEP_FRACTION) STEP_MIN_BYTES)"

lemma release_step_ratio: "unat (guest_reserve tot) \<le> 31 * unat (release_step tot)"
proof -
  have u: "unat (max (tot div 32) 0x2000000 :: u64) = max (unat tot div 32) 33554432"
    by (simp add: max_def word_le_nat_alt unat_div)
  have v: "unat (tot - tot div 16) = unat tot - unat tot div 16"
    by (simp add: unat_sub word_le_nat_alt unat_div)
  have "min ((t - t div 16) div 4096) 4294967295 \<le> 31 * min (max (t div 32) 33554432 div 4096) (4294967295 :: nat)" for t
    by linarith
  then show ?thesis
    unfolding guest_reserve_def release_step_def unat_as_pages GUEST_RESERVE_FRACTION_def RELEASE_STEP_FRACTION_def STEP_MIN_BYTES_def u v by blast
qed

lemma releasing_poll:
  assumes "cs_releasing (sg_compression s)"
  shows "unat (cs_pages (sg_compression (steering_steer e s compressed))) + unat (release_step (steering_total s)) \<le> unat (cs_pages (sg_compression s)) \<and>
      cs_releasing (sg_compression (steering_steer e s compressed)) \<or> cs_pages (sg_compression (steering_steer e s compressed)) = 0"
    and "steering_total (steering_steer e s compressed) = steering_total s"
proof -
  let ?now = "en_inst e (sg_reads s)" and ?tot = "steering_total s"
  obtain c shrunk gain level where n: "poll_notes (sg_compression s) (sg_level s) ?tot compressed ?now = (c, shrunk, gain, level)"
    by (metis prod_cases4)
  note k = poll_notes_keeps [OF n]
  have st: "steering_total (s\<lparr>sg_reads := m\<rparr>) = ?tot" for m
    by (simp add: steering_total_def split: option.split)
  define step where "step = (if STALL_FULL_HURRY \<le> cs_stall_full c then saturating_mul (release_step ?tot) 2 else release_step ?tot)"
  define pages where "pages = saturating_sub (cs_pages (sg_compression s)) step"
  define s1 where "s1 = fst (ramp_poll e s compressed)"
  have s1: "sg_compression s1 = (if pages = 0 then c\<lparr>cs_pages := pages, cs_releasing := False\<rparr> else c\<lparr>cs_pages := pages\<rparr>)"
      "sg_mem s1 = sg_mem s" "sg_ram_bytes s1 = sg_ram_bytes s"
    using n k assms by (simp_all add: s1_def ramp_poll_def instant_now_def st Let_def pages_def step_def release_step_def)
  define s2 where "s2 = say_gain e s1 (case en_warm_gain e of Some g \<Rightarrow> g | None \<Rightarrow> snd (ramp_poll e s compressed))"
  have s3: "steering_steer e s compressed = policy_apply e s2"
    by (simp add: steering_steer_def s2_def s1_def case_prod_beta)
  have c2: "sg_compression s2 = sg_compression s1" by (simp add: s2_def say_gain_effects)
  have "held_ramp e s2 \<le> cs_pages (sg_compression s1)" by (simp add: held_ramp_def c2)
  moreover have "cs_pages (sg_compression s1) = pages" by (simp add: s1)
  ultimately have le: "unat (held_ramp e s2) \<le> unat pages" by (simp add: word_le_nat_alt)
  have stp: "unat (release_step ?tot) \<le> unat step"
  proof -
    have "unat (saturating_mul x (2 :: u32)) = min (unat x * 2) 4294967295" for x :: u32
      by (simp add: saturating_mul_def unat_word_ariths unsigned_minus_1_eq_mask mask_eq_exp_minus_1)
    then show ?thesis using unat_lt_32 [of "release_step ?tot"] by (simp add: step_def)
  qed
  show "unat (cs_pages (sg_compression (steering_steer e s compressed))) + unat (release_step ?tot) \<le> unat (cs_pages (sg_compression s)) \<and>
      cs_releasing (sg_compression (steering_steer e s compressed)) \<or> cs_pages (sg_compression (steering_steer e s compressed)) = 0"
  proof (cases "pages = 0")
    case True
    then have "held_ramp e s2 = 0" using le by (simp add: unsigned_eq_0_iff)
    then show ?thesis by (simp add: s3 apply_effects)
  next
    case False
    then have "0 < unat pages" by (simp add: unat_gt_0)
    moreover have "unat pages = unat (cs_pages (sg_compression s)) - unat step" by (simp add: pages_def unat_saturating_sub)
    ultimately have "unat (held_ramp e s2) + unat (release_step ?tot) \<le> unat (cs_pages (sg_compression s))" using le stp by linarith
    then show ?thesis using False k assms by (simp add: s3 apply_effects c2 s1)
  qed
  show "steering_total (steering_steer e s compressed) = ?tot"
    by (simp add: steering_total_def s3 apply_effects s2_def say_gain_effects s1 split: option.split)
qed

lemma releasing_polls:
  assumes "cs_releasing (sg_compression s)"
  shows "(\<exists>k \<le> length cs. cs_pages (sg_compression (foldl (steering_steer e) s (take k cs))) = 0) \<or>
    cs_releasing (sg_compression (foldl (steering_steer e) s cs)) \<and> steering_total (foldl (steering_steer e) s cs) = steering_total s \<and>
    unat (cs_pages (sg_compression (foldl (steering_steer e) s cs))) + length cs * unat (release_step (steering_total s)) \<le> unat (cs_pages (sg_compression s))"
proof (induction cs rule: rev_induct)
  case Nil
  then show ?case using assms by simp
next
  case (snoc c cs)
  let ?s = "foldl (steering_steer e) s cs"
  show ?case
  proof (cases "\<exists>k \<le> length cs. cs_pages (sg_compression (foldl (steering_steer e) s (take k cs))) = 0")
    case True
    then obtain k where k: "k \<le> length cs" "cs_pages (sg_compression (foldl (steering_steer e) s (take k cs))) = 0" by blast
    then show ?thesis by (intro disjI1 exI [of _ k]) simp
  next
    case False
    with snoc have r: "cs_releasing (sg_compression ?s)" "steering_total ?s = steering_total s"
        "unat (cs_pages (sg_compression ?s)) + length cs * unat (release_step (steering_total s)) \<le> unat (cs_pages (sg_compression s))"
      by blast+
    note p = releasing_poll [OF r(1), of e c, unfolded r(2)]
    show ?thesis
    proof (cases "cs_pages (sg_compression (steering_steer e ?s c)) = 0")
      case True
      then show ?thesis by (intro disjI1 exI [of _ "Suc (length cs)"]) simp
    next
      case False
      then show ?thesis using p r(3) by simp
    qed
  qed
qed

text \<open>A balloon asked for is given back. Once the guest asks for its memory back, whatever the host's level is and
  whatever it compresses, the ramp is at zero after at most thirty-one polls, each taking a 32nd of the
  guest's memory off it, or two while every task of the guest is stalled.\<close>

lemma release_returns_balloon:
  assumes "cs_releasing (sg_compression s)" "cs_pages (sg_compression s) \<le> guest_reserve (steering_total s)" "length polls = 31"
  shows "\<exists>k \<le> 31. cs_pages (sg_compression (foldl (steering_steer e) s (take k polls))) = 0"
proof (rule ccontr)
  assume n: "\<not> ?thesis"
  then have "unat (cs_pages (sg_compression (foldl (steering_steer e) s polls))) + 31 * unat (release_step (steering_total s)) \<le> unat (cs_pages (sg_compression s))"
    using releasing_polls [OF assms(1), of polls e] assms(3) by auto
  moreover have "unat (cs_pages (sg_compression s)) \<le> 31 * unat (release_step (steering_total s))"
    using assms(2) release_step_ratio [of "steering_total s"] by (simp add: word_le_nat_alt)
  ultimately have "unat (cs_pages (sg_compression (foldl (steering_steer e) s polls))) = 0" by linarith
  then have "cs_pages (sg_compression (foldl (steering_steer e) s polls)) = 0" by (simp only: unsigned_eq_0_iff)
  then show False using n assms(3) by (metis order_refl take_all)
qed

section \<open>A gigabyte at Warn, and a balloon asked back\<close>

definition demo_fine :: steering where
  "demo_fine = demo_steering\<lparr>sg_level := Warn, sg_reads := 50, sg_compression := compression_default\<lparr>cs_healthy_since := Some 0\<rparr>\<rparr>"

definition demo_asked :: steering where
  "demo_asked = demo_steering\<lparr>sg_compression := compression_default\<lparr>cs_releasing := True, cs_pages := 1000\<rparr>\<rparr>"

lemma demo_totals: "steering_total demo_fine = 0x40000000" "steering_total demo_asked = 0x40000000"
  by (simp_all add: steering_total_def demo_fine_def demo_asked_def demo_steering_def steering_new_def total_bytes_def mem_new_def)

theorem ramp_reaches_cap_witness:
  "cap_pages Warn 0x40000000 \<le> target_pages (foldl (steering_steer demo_env) demo_fine (replicate 9 0))"
proof -
  have "ramp_free demo_env demo_fine"
    by (simp add: ramp_free_def demo_totals) (simp add: demo_fine_def demo_clock compression_default_def HOLD_PATIENCE_def)
  moreover have "sg_level demo_fine = Warn" by (simp add: demo_fine_def)
  ultimately show ?thesis
    using ramp_reaches_cap [of demo_env demo_fine "replicate 9 0"] demo_clock(1) by (simp add: demo_totals)
qed

lemma release_returns_balloon_witness:
  "\<exists>k \<le> 31. cs_pages (sg_compression (foldl (steering_steer demo_env) demo_asked (take k (replicate 31 0)))) = 0"
proof (rule release_returns_balloon)
  show "cs_releasing (sg_compression demo_asked)" by (simp add: demo_asked_def)
  show "cs_pages (sg_compression demo_asked) \<le> guest_reserve (steering_total demo_asked)"
    unfolding demo_totals by (simp add: demo_asked_def guest_reserve_def as_pages_def ramp_consts min_def)
qed simp

definition demo_short :: steering where
  "demo_short = demo_steering\<lparr>sg_compression := compression_default\<lparr>cs_guest_short := True, cs_pages := 1000, cs_host_free := Some 0\<rparr>\<rparr>"

theorem short_guest_not_squeezed_witness:
  "held (sg_compression demo_short) 0 \<and> target_pages (policy_apply demo_env demo_short) = 0"
proof -
  have h: "held (sg_compression demo_short) (en_inst demo_env (sg_reads demo_short))"
    and z: "max (actual_pages demo_short) (sg_guest_pages demo_short) = 0"
    by (simp_all add: held_def demo_short_def actual_pages_def demo_steering_def steering_new_def balloon_new_def)
  have "target_pages (policy_apply demo_env demo_short) \<le> max (actual_pages demo_short) (sg_guest_pages demo_short)"
    using short_guest_not_squeezed [of demo_env demo_short] h by blast
  then show ?thesis using z by (simp add: held_def demo_short_def)
qed

end
