(* ===== verification/Vsock_Table.thy ===== *)
theory Vsock_Table
  imports Vsock_Packet Vsock_Credit
begin

text \<open>
  The connections of virtio-vsock, \<^verbatim>\<open>virtio/vsock/mod.rs\<close>: the table, the outbox, the transmit chains held for
  payloads, and every operation made under the table's lock, by the device and by the host's threads. A
  reading of the clock is the argument \<open>now\<close> of the operation that makes it. What a thread does outside the
  lock is left to it: a call of a waker is an element of the result, a call on a host socket is logged
  with the socket's handle, a connection handed to a listener is logged too. A thread that waits on a
  condition is woken by the operations; the waiting itself, and the pool of spare buffers, which changes no
  value, are left out. A hash map's order of iteration is an argument.
\<close>

definition RX_QUEUE :: u16 where "RX_QUEUE = 0"
definition TX_QUEUE :: u16 where "TX_QUEUE = 1"
definition EVENT_QUEUE :: u16 where "EVENT_QUEUE = 2"
definition RX_RING_DEPTH :: u16 where "RX_RING_DEPTH = 128"
definition FIRST_EPHEMERAL_PORT :: u32 where "FIRST_EPHEMERAL_PORT = 0x40000000"
definition OUTBOX_LIMIT :: nat where "OUTBOX_LIMIT = 1024"
definition TX_SHARE_DIVISOR :: nat where "TX_SHARE_DIVISOR = 4"
definition TX_RESERVE_DIVISOR :: nat where "TX_RESERVE_DIVISOR = 4"
definition CLOSE_TIMEOUT :: nat where "CLOSE_TIMEOUT = 8000"
definition CONNECT_TIMEOUT :: nat where "CONNECT_TIMEOUT = 30000"
definition TOUCHED_MAX :: nat where "TOUCHED_MAX = 4096"
definition STALL_AFTER :: nat where "STALL_AFTER = 2000"
definition IDLE_AFTER :: nat where "IDLE_AFTER = 10000"
definition WATCHDOG :: nat where "WATCHDOG = 5000"
definition CONTROL_PORTS :: "u32 list" where "CONTROL_PORTS = [2375, 2376, 2379, 2381, 2382]"
definition SHUTDOWN_RCV :: u32 where "SHUTDOWN_RCV = 1"
definition SHUTDOWN_SEND :: u32 where "SHUTDOWN_SEND = 2"
definition SHUTDOWN_BOTH :: u32 where "SHUTDOWN_BOTH = 3"

type_synonym conn_key = "u32 \<times> u32"

datatype conn_state = Connecting | Established | Closed

datatype chunk = Owned bytes | InGuest u16 "(u64 \<times> nat) list"

primrec outbound_len :: "chunk \<Rightarrow> nat" where
  "outbound_len (Owned v) = length v"
| "outbound_len (InGuest h spans) = sum_list (map snd spans)"

record conn =
  cn_guest_port :: u32
  cn_state :: conn_state
  cn_credit :: credit
  cn_outbound :: "chunk list"
  cn_guest_done :: bool
  cn_receive_closed :: bool
  cn_unreported :: u32
  cn_received :: u32
  cn_socket :: "nat option"
  cn_held :: nat
  cn_id :: u64
  cn_window :: u32
  cn_since :: nat
  cn_drained :: nat
  cn_label :: "string option"

definition conn_new :: "nat \<Rightarrow> u32 \<Rightarrow> conn_state \<Rightarrow> u32 \<Rightarrow> u64 \<Rightarrow> conn" where
  "conn_new now guest_port st window cid =
     \<lparr>cn_guest_port = guest_port, cn_state = st, cn_credit = credit_new, cn_outbound = [], cn_guest_done = False,
      cn_receive_closed = False, cn_unreported = 0, cn_received = 0, cn_socket = None, cn_held = 0, cn_id = cid,
      cn_window = window, cn_since = now, cn_drained = now, cn_label = None\<rparr>"

definition buffered :: "conn \<Rightarrow> u32" where
  "buffered c = cn_received c - cr_fwd_cnt (cn_credit c)"

section \<open>The outbox\<close>

record outbox =
  ob_control :: "packet list"
  ob_bulk :: "packet list"

definition is_control :: "packet \<Rightarrow> bool" where
  "is_control p \<longleftrightarrow> dst_port p \<in> set CONTROL_PORTS \<or> src_port p \<in> set CONTROL_PORTS"

definition push_back :: "outbox \<Rightarrow> packet \<Rightarrow> outbox" where
  "push_back ob p = (if is_control p then ob\<lparr>ob_control := ob_control ob @ [p]\<rparr> else ob\<lparr>ob_bulk := ob_bulk ob @ [p]\<rparr>)"

definition push_front :: "outbox \<Rightarrow> packet \<Rightarrow> outbox" where
  "push_front ob p = (if is_control p then ob\<lparr>ob_control := p # ob_control ob\<rparr> else ob\<lparr>ob_bulk := p # ob_bulk ob\<rparr>)"

definition pop_front :: "outbox \<Rightarrow> (packet \<times> outbox) option" where
  "pop_front ob =
     (case ob_control ob of
        p # ps \<Rightarrow> Some (p, ob\<lparr>ob_control := ps\<rparr>)
      | [] \<Rightarrow> (case ob_bulk ob of p # ps \<Rightarrow> Some (p, ob\<lparr>ob_bulk := ps\<rparr>) | [] \<Rightarrow> None))"

definition outbox_room :: "outbox \<Rightarrow> conn_key \<Rightarrow> nat" where
  "outbox_room ob key =
     (let probe = packet_control Rw (fst key) (snd key);
          used = (if is_control probe then length (ob_control ob) else length (ob_bulk ob)) in
      OUTBOX_LIMIT - used)"

definition outbox_retain :: "(packet \<Rightarrow> bool) \<Rightarrow> outbox \<Rightarrow> outbox" where
  "outbox_retain keep ob = ob\<lparr>ob_control := filter keep (ob_control ob), ob_bulk := filter keep (ob_bulk ob)\<rparr>"

definition outbox_empty :: "outbox \<Rightarrow> bool" where
  "outbox_empty ob \<longleftrightarrow> ob_control ob = [] \<and> ob_bulk ob = []"

definition outbox_default :: outbox where
  "outbox_default = \<lparr>ob_control = [], ob_bulk = []\<rparr>"

section \<open>The table\<close>

record warden_counts =
  wc_closed_expired :: u64
  wc_connect_expired :: u64
  wc_stalled :: u64
  wc_resets :: u64
  wc_recent :: "string list"

definition warden_default :: warden_counts where
  "warden_default = \<lparr>wc_closed_expired = 0, wc_connect_expired = 0, wc_stalled = 0, wc_resets = 0, wc_recent = []\<rparr>"

definition warden_note :: "warden_counts \<Rightarrow> string \<Rightarrow> warden_counts" where
  "warden_note w what =
     (let w1 = (if length (wc_recent w) = 8 then w\<lparr>wc_recent := tl (wc_recent w)\<rparr> else w) in
      w1\<lparr>wc_recent := wc_recent w1 @ [what]\<rparr>)"

datatype socket_call = ShutBoth nat | ShutRead nat

datatype poke = Wake | WakeDeferred | Progressed

record vsock_inner =
  vi_conns :: "conn_key \<Rightarrow> conn option"
  vi_outbox :: outbox
  vi_next_port :: u32
  vi_done :: "u16 list"
  vi_held :: nat
  vi_holders :: "u16 \<Rightarrow> (conn_key \<times> u64) option"
  vi_next_id :: u64
  vi_touched :: "conn_key list"
  vi_touched_all :: bool
  vi_tx_ring :: nat
  vi_budget :: budget
  vi_listeners :: "u32 \<Rightarrow> bool option"
  vi_warden :: warden_counts
  vi_last_return :: nat
  vi_ring_full_since :: "nat option"
  vi_accepted :: "(u32 \<times> conn_key) list"
  vi_calls :: "socket_call list"

definition vsock_new :: "nat \<Rightarrow> vsock_inner" where
  "vsock_new now =
     \<lparr>vi_conns = (\<lambda>_. None), vi_outbox = outbox_default, vi_next_port = FIRST_EPHEMERAL_PORT, vi_done = [], vi_held = 0,
      vi_holders = (\<lambda>_. None), vi_next_id = 0, vi_touched = [], vi_touched_all = False, vi_tx_ring = 256,
      vi_budget = budget_default, vi_listeners = (\<lambda>_. None), vi_warden = warden_default, vi_last_return = now,
      vi_ring_full_since = None, vi_accepted = [], vi_calls = []\<rparr>"

definition queue_packet :: "vsock_inner \<Rightarrow> packet \<Rightarrow> vsock_inner" where
  "queue_packet i p = i\<lparr>vi_outbox := push_back (vi_outbox i) p\<rparr>"

definition put_conn :: "vsock_inner \<Rightarrow> conn_key \<Rightarrow> conn \<Rightarrow> vsock_inner" where
  "put_conn i key c = i\<lparr>vi_conns := (vi_conns i)(key \<mapsto> c)\<rparr>"

definition call_socket :: "(nat \<Rightarrow> socket_call) \<Rightarrow> conn \<Rightarrow> vsock_inner \<Rightarrow> vsock_inner" where
  "call_socket f c i = (case cn_socket c of None \<Rightarrow> i | Some fd \<Rightarrow> i\<lparr>vi_calls := vi_calls i @ [f fd]\<rparr>)"

definition tx_limits :: "vsock_inner \<Rightarrow> nat \<times> nat" where
  "tx_limits i =
     (let ring = max (vi_tx_ring i) TX_SHARE_DIVISOR in (ring - ring div TX_RESERVE_DIVISOR, ring div TX_SHARE_DIVISOR))"

definition touch :: "vsock_inner \<Rightarrow> conn_key \<Rightarrow> vsock_inner" where
  "touch i key =
     (if vi_touched_all i then i
      else if TOUCHED_MAX \<le> length (vi_touched i) then i\<lparr>vi_touched := [], vi_touched_all := True\<rparr>
      else i\<lparr>vi_touched := List.insert key (vi_touched i)\<rparr>)"

text \<open>The chains of chunks nobody will write.\<close>

definition discard :: "vsock_inner \<Rightarrow> chunk list \<Rightarrow> vsock_inner" where
  "discard i chunks = i\<lparr>vi_done := vi_done i @ concat (map (\<lambda>c. case c of InGuest h _ \<Rightarrow> [h] | Owned _ \<Rightarrow> []) chunks)\<rparr>"

definition retire :: "vsock_inner \<Rightarrow> conn \<Rightarrow> vsock_inner" where
  "retire i c =
     (let i1 = call_socket ShutBoth c i;
          i2 = i1\<lparr>vi_budget := budget_close (vi_budget i1) (cn_window c)\<rparr> in
      discard i2 (cn_outbound c))"

definition remove_conn :: "vsock_inner \<Rightarrow> conn_key \<Rightarrow> vsock_inner \<times> bool" where
  "remove_conn i key =
     (let i1 = touch i key in
      case vi_conns i1 key of
        Some c \<Rightarrow> (retire (i1\<lparr>vi_conns := (vi_conns i1)(key := None)\<rparr>) c, True)
      | None \<Rightarrow> (i1, False))"

definition finish_head :: "nat \<Rightarrow> u16 \<Rightarrow> vsock_inner \<Rightarrow> vsock_inner" where
  "finish_head now h i =
     (let i1 = i\<lparr>vi_held := vi_held i - 1, vi_last_return := now\<rparr> in
      case vi_holders i1 h of
        None \<Rightarrow> i1
      | Some (key, cid) \<Rightarrow>
          let i2 = i1\<lparr>vi_holders := (vi_holders i1)(h := None)\<rparr> in
          (case vi_conns i2 key of
             Some c \<Rightarrow> if cn_id c = cid then put_conn i2 key (c\<lparr>cn_held := cn_held c - 1\<rparr>) else i2
           | None \<Rightarrow> i2))"

definition finish_done :: "nat \<Rightarrow> vsock_inner \<Rightarrow> vsock_inner \<times> u16 list" where
  "finish_done now i = (fold (finish_head now) (vi_done i) (i\<lparr>vi_done := []\<rparr>), vi_done i)"

text \<open>\<^verbatim>\<open>insert\<close>: the connection is put in the table, and one that had its key is retired; \<open>f\<close> is what the caller
  does to the new connection.\<close>

definition insert_conn :: "nat \<Rightarrow> vsock_inner \<Rightarrow> conn_key \<Rightarrow> u32 \<Rightarrow> conn_state \<Rightarrow> vsock_inner \<times> conn" where
  "insert_conn now i key guest_port st =
     (let (b, window) = budget_open (vi_budget i);
          i1 = i\<lparr>vi_budget := b, vi_next_id := vi_next_id i + 1\<rparr>;
          c = conn_new now guest_port st window (vi_next_id i1);
          old = vi_conns i1 key;
          i2 = put_conn i1 key c;
          i3 = (case old of None \<Rightarrow> i2 | Some oc \<Rightarrow> retire (touch i2 key) oc) in
      (i3, c))"

section \<open>Packets from the guest\<close>

definition finish_shutdown :: "vsock_inner \<Rightarrow> conn_key \<Rightarrow> vsock_inner" where
  "finish_shutdown i key =
     (case vi_conns i key of
        None \<Rightarrow> i
      | Some c \<Rightarrow>
          let ours_closed = (cn_state c = Closed);
              theirs_closed = (cn_guest_done c \<and> cn_receive_closed c);
              delivered = (cn_received c = cr_fwd_cnt (cn_credit c)) in
          if \<not> ours_closed \<and> \<not> (theirs_closed \<and> delivered) then i
          else fst (remove_conn (queue_packet i ((packet_control Rst (fst key) (snd key))
                 \<lparr>buf_alloc := cn_window c, fwd_cnt := cr_fwd_cnt (cn_credit c)\<rparr>)) key))"

definition handle_observed :: "vsock_inner \<Rightarrow> packet \<Rightarrow> vsock_inner" where
  "handle_observed i p =
     (let key = (dst_port p, src_port p) in
      case vi_conns i key of
        None \<Rightarrow> i
      | Some c \<Rightarrow> touch (put_conn i key (c\<lparr>cn_credit := credit_observe (cn_credit c) (buf_alloc p) (fwd_cnt p)\<rparr>)) key)"

definition handle_shutdown :: "vsock_inner \<Rightarrow> packet \<Rightarrow> vsock_inner" where
  "handle_shutdown i p =
     (let key = (dst_port p, src_port p) in
      case vi_conns i key of
        None \<Rightarrow> i
      | Some c \<Rightarrow>
          let c1 = c\<lparr>cn_guest_done := cn_guest_done c \<or> pk_flags p AND SHUTDOWN_SEND \<noteq> 0,
                     cn_receive_closed := cn_receive_closed c \<or> pk_flags p AND SHUTDOWN_RCV \<noteq> 0\<rparr>;
              i1 = put_conn i key c1;
              i2 = (if cn_receive_closed c1
                    then let i' = call_socket ShutRead c1 i1 in
                         i'\<lparr>vi_outbox := outbox_retain (\<lambda>q. \<not> (src_port q = fst key \<and> dst_port q = snd key \<and> pk_op q = Rw)) (vi_outbox i')\<rparr>
                    else i1) in
          finish_shutdown i2 key)"

definition handle_request :: "nat \<Rightarrow> vsock_inner \<Rightarrow> packet \<Rightarrow> vsock_inner" where
  "handle_request now i p =
     (let host_port = dst_port p; key = (dst_port p, src_port p) in
      if vi_listeners i host_port = Some True
      then
        let i1 = i\<lparr>vi_accepted := vi_accepted i @ [(host_port, key)]\<rparr>;
            (i2, c) = insert_conn now i1 key (src_port p) Established;
            i3 = put_conn i2 key (c\<lparr>cn_credit := credit_observe (cn_credit c) (buf_alloc p) (fwd_cnt p)\<rparr>) in
        queue_packet i3 ((packet_control Response host_port (src_port p))\<lparr>buf_alloc := cn_window c\<rparr>)
      else queue_packet i ((packet_control Rst host_port (src_port p))\<lparr>buf_alloc := BUF_ALLOC\<rparr>))"

definition handle :: "nat \<Rightarrow> vsock_inner \<Rightarrow> packet \<Rightarrow> vsock_inner" where
  "handle now i0 p =
     (let host_port = dst_port p;
          key = (dst_port p, src_port p);
          i = handle_observed i0 p in
      case pk_op p of
        Response \<Rightarrow>
          (case vi_conns i key of
             Some c \<Rightarrow> if cn_state c = Connecting then put_conn i key (c\<lparr>cn_state := Established\<rparr>) else i
           | None \<Rightarrow> i)
      | Rst \<Rightarrow> fst (remove_conn i key)
      | Shutdown \<Rightarrow> handle_shutdown i p
      | Rw \<Rightarrow>
          (case vi_conns i key of
             None \<Rightarrow> queue_packet i ((packet_control Rst host_port (src_port p))\<lparr>buf_alloc := BUF_ALLOC\<rparr>)
           | Some c \<Rightarrow>
               if cn_state c = Closed then i
               else put_conn i key (c\<lparr>cn_received := cn_received c + of_nat (length (payload p)),
                      cn_outbound := cn_outbound c @ [Owned (payload p)]\<rparr>))
      | CreditRequest \<Rightarrow>
          (case vi_conns i key of
             None \<Rightarrow> i
           | Some c \<Rightarrow>
               queue_packet (put_conn i key (c\<lparr>cn_unreported := 0\<rparr>))
                 ((packet_control CreditUpdate host_port (cn_guest_port c))\<lparr>buf_alloc := cn_window c, fwd_cnt := cr_fwd_cnt (cn_credit c)\<rparr>))
      | CreditUpdate \<Rightarrow> i
      | Request \<Rightarrow> handle_request now i p
      | Invalid \<Rightarrow> i)"

text \<open>An RW packet whose payload stays in the guest's transmit buffers; \<open>rd\<close> reads a span of guest memory, \<open>None\<close>
  when it cannot, and \<open>copy_all\<close> is \<^verbatim>\<open>LIGHTER_VSOCK_COPY\<close>.\<close>

definition handle_guest_rw ::
  "bool \<Rightarrow> (u64 \<times> nat \<Rightarrow> bytes option) \<Rightarrow> nat \<Rightarrow> vsock_inner \<Rightarrow> packet \<Rightarrow> u16 \<Rightarrow> (u64 \<times> nat) list \<Rightarrow> vsock_inner \<times> bool" where
  "handle_guest_rw copy_all rd now i p h spans =
     (let key = (dst_port p, src_port p);
          (ring_limit, share) = tx_limits i in
      case vi_conns i key of
        None \<Rightarrow> (queue_packet i ((packet_control Rst (dst_port p) (src_port p))\<lparr>buf_alloc := BUF_ALLOC\<rparr>), False)
      | Some c0 \<Rightarrow>
          let c = c0\<lparr>cn_credit := credit_observe (cn_credit c0) (buf_alloc p) (fwd_cnt p)\<rparr> in
          if cn_state c = Closed then (touch (put_conn i key c) key, False)
          else
            let len = sum_list (map snd spans);
                c1 = c\<lparr>cn_received := cn_received c + of_nat len\<rparr>;
                c2 = (if unat (buffered c1) = len then c1\<lparr>cn_drained := now\<rparr> else c1) in
            if \<not> copy_all \<and> cn_held c2 < share \<and> vi_held i < ring_limit
            then
              let c3 = c2\<lparr>cn_outbound := cn_outbound c2 @ [InGuest h spans], cn_held := cn_held c2 + 1\<rparr>;
                  i1 = (put_conn i key c3)\<lparr>vi_held := vi_held i + 1, vi_holders := (vi_holders i)(h \<mapsto> (key, cn_id c3))\<rparr> in
              (touch i1 key, True)
            else
              let copy = concat (map (\<lambda>s. case rd s of Some bs \<Rightarrow> bs | None \<Rightarrow> []) spans) in
              (touch (put_conn i key (c2\<lparr>cn_outbound := cn_outbound c2 @ [Owned copy]\<rparr>)) key, False))"

end
