(* ===== verification/Vsock_Ledger.thy ===== *)
theory Vsock_Ledger
  imports Vsock_Table
begin

text \<open>
  What the connection table promises of the two things all connections share, the guest's transmit ring and
  the window budget, as an abstract machine. A slot stands for a connection: its identity, the count of chains it is
  charged for, the chains queued on it, its window. A chain of the ring that holds a payload is queued on a
  slot, in flight (a writer has it), or done (on its way back to the guest). The table refines this machine (\<^verbatim>\<open>Vsock_Life\<close>).
\<close>

record slot =
  sl_id :: u64
  sl_held :: nat
  sl_heads :: "u16 list"
  sl_window :: u32

record 'k ledger =
  lg_slots :: "'k \<Rightarrow> slot option"
  lg_held :: nat
  lg_holders :: "u16 \<Rightarrow> ('k \<times> u64) option"
  lg_done :: "u16 list"
  lg_flight :: "u16 list"
  lg_next :: u64
  lg_budget :: budget

definition ring_share :: "nat \<Rightarrow> nat" where
  "ring_share r = max r 4 div 4"

definition ring_limit :: "nat \<Rightarrow> nat" where
  "ring_limit r = max r 4 - max r 4 div 4"

text \<open>A chain back to the guest: it counts no more, neither in all nor against the slot that had it.\<close>

definition uncharge :: "u16 \<Rightarrow> (u16 \<Rightarrow> ('k \<times> u64) option) \<Rightarrow> ('k \<Rightarrow> slot option) \<Rightarrow> 'k \<Rightarrow> slot option" where
  "uncharge h hold slots =
     (case hold h of
        None \<Rightarrow> slots
      | Some (k, n) \<Rightarrow>
          (case slots k of
             Some s \<Rightarrow> if sl_id s = n then slots(k \<mapsto> s\<lparr>sl_held := sl_held s - 1\<rparr>) else slots
           | None \<Rightarrow> slots))"

inductive ledger_step :: "nat \<Rightarrow> 'k ledger \<Rightarrow> 'k ledger \<Rightarrow> bool" for r where
  open_slot: "lg_slots l k = None \<Longrightarrow> lg_next l \<noteq> - 1 \<Longrightarrow>
    ledger_step r l (l\<lparr>lg_next := lg_next l + 1,
      lg_slots := (lg_slots l)(k \<mapsto> \<lparr>sl_id = lg_next l + 1, sl_held = 0, sl_heads = [], sl_window = MIN_WINDOW\<rparr>)\<rparr>)"
| close_slot: "lg_slots l k = Some s \<Longrightarrow>
    ledger_step r l (l\<lparr>lg_slots := (lg_slots l)(k := None), lg_done := lg_done l @ sl_heads s,
      lg_budget := budget_close (lg_budget l) (sl_window s)\<rparr>)"
| hold: "lg_slots l k = Some s \<Longrightarrow> sl_held s < ring_share r \<Longrightarrow> lg_held l < ring_limit r \<Longrightarrow> lg_holders l h = None \<Longrightarrow>
    ledger_step r l (l\<lparr>lg_slots := (lg_slots l)(k \<mapsto> s\<lparr>sl_held := sl_held s + 1, sl_heads := sl_heads s @ [h]\<rparr>),
      lg_held := lg_held l + 1, lg_holders := (lg_holders l)(h \<mapsto> (k, sl_id s))\<rparr>)"
| take_heads: "lg_slots l k = Some s \<Longrightarrow> sl_heads s = xs @ ys \<Longrightarrow>
    ledger_step r l (l\<lparr>lg_slots := (lg_slots l)(k \<mapsto> s\<lparr>sl_heads := ys\<rparr>), lg_flight := lg_flight l @ xs\<rparr>)"
| drop_heads: "lg_slots l k = Some s \<Longrightarrow> sl_heads s = xs @ ys \<Longrightarrow>
    ledger_step r l (l\<lparr>lg_slots := (lg_slots l)(k \<mapsto> s\<lparr>sl_heads := ys\<rparr>), lg_done := lg_done l @ xs\<rparr>)"
| complete: "mset (lg_flight l) = mset hs + mset fl \<Longrightarrow>
    ledger_step r l (l\<lparr>lg_flight := fl, lg_done := lg_done l @ hs\<rparr>)"
| finish: "lg_done l = h # hs \<Longrightarrow>
    ledger_step r l (l\<lparr>lg_held := lg_held l - 1, lg_holders := (lg_holders l)(h := None),
      lg_slots := uncharge h (lg_holders l) (lg_slots l), lg_done := hs\<rparr>)"
| grow: "lg_slots l k = Some s \<Longrightarrow> budget_grow (lg_budget l) (sl_window s) = (b, w) \<Longrightarrow>
    ledger_step r l (l\<lparr>lg_slots := (lg_slots l)(k \<mapsto> s\<lparr>sl_window := w\<rparr>), lg_budget := b\<rparr>)"
| shrink: "lg_slots l k = Some s \<Longrightarrow> budget_shrink (lg_budget l) (sl_window s) = (b, w) \<Longrightarrow>
    ledger_step r l (l\<lparr>lg_slots := (lg_slots l)(k \<mapsto> s\<lparr>sl_window := w\<rparr>), lg_budget := b\<rparr>)"

section \<open>Chains\<close>

text \<open>The chains charged to a slot, and the places a held chain can be.\<close>

definition charged :: "'k ledger \<Rightarrow> 'k \<Rightarrow> u64 \<Rightarrow> u16 set" where
  "charged l k n = {h. lg_holders l h = Some (k, n)}"

definition queued :: "('k \<Rightarrow> slot option) \<Rightarrow> u16 set" where
  "queued m = (\<Union>s \<in> ran m. set (sl_heads s))"

definition slot_ok :: "nat \<Rightarrow> 'k ledger \<Rightarrow> 'k \<Rightarrow> slot \<Rightarrow> bool" where
  "slot_ok r l k s \<longleftrightarrow>
     distinct (sl_heads s) \<and> set (sl_heads s) \<subseteq> charged l k (sl_id s) \<and>
     set (sl_heads s) \<inter> (set (lg_done l) \<union> set (lg_flight l)) = {} \<and>
     sl_held s = card (charged l k (sl_id s)) \<and> sl_held s \<le> ring_share r \<and> sl_id s \<le> lg_next l"

definition chains_ok :: "nat \<Rightarrow> 'k ledger \<Rightarrow> bool" where
  "chains_ok r l \<longleftrightarrow>
     (\<forall>k s. lg_slots l k = Some s \<longrightarrow> slot_ok r l k s) \<and>
     distinct (lg_done l @ lg_flight l) \<and>
     dom (lg_holders l) = queued (lg_slots l) \<union> set (lg_done l) \<union> set (lg_flight l) \<and>
     lg_held l = card (dom (lg_holders l)) \<and> lg_held l \<le> ring_limit r \<and>
     (\<forall>h k n. lg_holders l h = Some (k, n) \<longrightarrow> n \<le> lg_next l)"

lemma finite_heads [simp]: "finite (A :: u16 set)"
  by (rule finite)

lemma queued_upd: "queued (m(k \<mapsto> s)) = set (sl_heads s) \<union> queued (m(k := None))"
  by (auto simp: queued_def ran_def split: if_splits)

lemma queued_slot: "lg_slots l k = Some s \<Longrightarrow> queued (lg_slots l) = set (sl_heads s) \<union> queued ((lg_slots l)(k := None))"
  using queued_upd [of "lg_slots l" k s] by (simp add: fun_upd_idem)

lemma queued_iff: "h \<in> queued m \<longleftrightarrow> (\<exists>k s. m k = Some s \<and> h \<in> set (sl_heads s))"
  by (auto simp: queued_def ran_def)

lemma chains_okD:
  assumes "chains_ok r l"
  shows "lg_slots l k = Some s \<Longrightarrow> slot_ok r l k s" "distinct (lg_done l @ lg_flight l)"
    "dom (lg_holders l) = queued (lg_slots l) \<union> set (lg_done l) \<union> set (lg_flight l)"
    "lg_held l = card (dom (lg_holders l))" "lg_held l \<le> ring_limit r"
    "lg_holders l h = Some (k, n) \<Longrightarrow> n \<le> lg_next l"
  using assms unfolding chains_ok_def by blast+

lemma word_inc_less: "a \<noteq> - 1 \<Longrightarrow> a < a + (1 :: 'a::len word)"
  by (simp add: word_less_nat_alt add.commute [of a] unatSuc eq_neg_iff_add_eq_0)

lemma heads_apart:
  assumes "slot_ok r l k s" "slot_ok r l k' s'" "k \<noteq> k'"
  shows "set (sl_heads s) \<inter> set (sl_heads s') = {}"
  using assms by (fastforce simp: slot_ok_def charged_def)

text \<open>A slot that stays as it is stays well-formed when nothing of its own moves.\<close>

lemma slot_ok_other:
  assumes "slot_ok r l k s" "lg_next l \<le> lg_next l'" "charged l' k (sl_id s) = charged l k (sl_id s)"
    "set (sl_heads s) \<inter> (set (lg_done l') \<union> set (lg_flight l')) = {}"
  shows "slot_ok r l' k s"
  using assms by (auto simp: slot_ok_def intro: order_trans)

lemma open_slot_chains:
  assumes "chains_ok r l" "lg_slots l k = None" "lg_next l \<noteq> - 1"
  shows "chains_ok r (l\<lparr>lg_next := lg_next l + 1,
      lg_slots := (lg_slots l)(k \<mapsto> \<lparr>sl_id = lg_next l + 1, sl_held = 0, sl_heads = [], sl_window = w\<rparr>)\<rparr>)" (is "chains_ok r ?l")
proof -
  note n = word_inc_less [OF assms(3)]
  then have "charged l k (lg_next l + 1) = {}" using chains_okD(6) [OF assms(1)] by (fastforce simp: charged_def)
  then have new: "slot_ok r ?l k \<lparr>sl_id = lg_next l + 1, sl_held = 0, sl_heads = [], sl_window = w\<rparr>"
    by (simp add: slot_ok_def charged_def)
  have old: "slot_ok r ?l k' s" if "lg_slots l k' = Some s" for k' s
    using chains_okD(1) [OF assms(1) that] n by (auto simp: slot_ok_def charged_def)
  have "queued (lg_slots ?l) = queued (lg_slots l)" using assms(2) by (simp add: queued_upd fun_upd_idem)
  moreover have "m \<le> lg_next l + 1" if "lg_holders l h = Some (k', m)" for h k' m
    using chains_okD(6) [OF assms(1) that] n by simp
  ultimately show ?thesis
    unfolding chains_ok_def using new old assms(1) by (auto simp: chains_ok_def)
qed

lemma close_slot_chains:
  assumes "chains_ok r l" "lg_slots l k = Some s"
  shows "chains_ok r (l\<lparr>lg_slots := (lg_slots l)(k := None), lg_done := lg_done l @ sl_heads s, lg_budget := b\<rparr>)" (is "chains_ok r ?l")
proof -
  have s: "slot_ok r l k s" using chains_okD(1) [OF assms] .
  have "slot_ok r ?l k' s'" if "k' \<noteq> k" "lg_slots l k' = Some s'" for k' s'
    using chains_okD(1) [OF assms(1) that(2)] heads_apart [OF chains_okD(1) [OF assms(1) that(2)] s that(1)]
    by (auto simp: slot_ok_def charged_def)
  moreover have "distinct (lg_done ?l @ lg_flight ?l)"
    using s chains_okD(2) [OF assms(1)] by (auto simp: slot_ok_def)
  ultimately show ?thesis
    using assms(1) queued_slot [OF assms(2)] by (auto simp: chains_ok_def)
qed

text \<open>The first chains queued on a slot leave it, for a writer or for the guest.\<close>

lemma move_heads_chains:
  assumes ok: "chains_ok r l" and k: "lg_slots l k = Some s" and hs: "sl_heads s = xs @ ys"
    and d: "mset (lg_done l') + mset (lg_flight l') = mset (lg_done l) + mset (lg_flight l) + mset xs"
    and l': "lg_slots l' = (lg_slots l)(k \<mapsto> s\<lparr>sl_heads := ys\<rparr>)" "lg_holders l' = lg_holders l" "lg_held l' = lg_held l" "lg_next l' = lg_next l"
  shows "chains_ok r l'"
proof -
  have s: "slot_ok r l k s" using chains_okD(1) [OF ok k] .
  have m: "set (lg_done l') \<union> set (lg_flight l') = set (lg_done l) \<union> set (lg_flight l) \<union> set xs"
    using arg_cong [OF d, of set_mset] by simp
  have "mset (lg_done l' @ lg_flight l') = mset ((lg_done l @ lg_flight l) @ xs)" using d by simp
  moreover have "distinct ((lg_done l @ lg_flight l) @ xs)" using s chains_okD(2) [OF ok] by (auto simp: slot_ok_def hs)
  ultimately have "distinct (lg_done l' @ lg_flight l')" by (metis mset_eq_imp_distinct_iff)
  moreover have "slot_ok r l' k (s\<lparr>sl_heads := ys\<rparr>)"
    using s m by (auto simp: slot_ok_def hs charged_def l')
  moreover have "slot_ok r l' k' s'" if "k' \<noteq> k" "lg_slots l k' = Some s'" for k' s'
    using chains_okD(1) [OF ok that(2)] heads_apart [OF chains_okD(1) [OF ok that(2)] s that(1)] m
    by (auto simp: slot_ok_def charged_def l' hs)
  moreover have "queued (lg_slots l') \<union> set xs = queued (lg_slots l)"
    using queued_slot [OF k] by (auto simp: l' queued_upd hs)
  ultimately show ?thesis
    using ok m by (auto simp: chains_ok_def l')
qed

lemma hold_chains:
  assumes ok: "chains_ok r l" and k: "lg_slots l k = Some s" and room: "sl_held s < ring_share r" "lg_held l < ring_limit r"
    and h: "lg_holders l h = None"
  shows "chains_ok r (l\<lparr>lg_slots := (lg_slots l)(k \<mapsto> s\<lparr>sl_held := sl_held s + 1, sl_heads := sl_heads s @ [h]\<rparr>),
      lg_held := lg_held l + 1, lg_holders := (lg_holders l)(h \<mapsto> (k, sl_id s))\<rparr>)" (is "chains_ok r ?l")
proof -
  have s: "slot_ok r l k s" using chains_okD(1) [OF ok k] .
  have out: "h \<notin> queued (lg_slots l)" "h \<notin> set (lg_done l)" "h \<notin> set (lg_flight l)"
    using chains_okD(3) [OF ok] h by auto
  have "charged ?l k (sl_id s) = insert h (charged l k (sl_id s))" using h by (auto simp: charged_def)
  moreover have "h \<notin> charged l k (sl_id s)" using h by (simp add: charged_def)
  ultimately have new: "slot_ok r ?l k (s\<lparr>sl_held := sl_held s + 1, sl_heads := sl_heads s @ [h]\<rparr>)"
    using s room out queued_slot [OF k] by (auto simp: slot_ok_def)
  have old: "slot_ok r ?l k' s'" if "k' \<noteq> k" "lg_slots l k' = Some s'" for k' s'
  proof (rule slot_ok_other [OF chains_okD(1) [OF ok that(2)]])
    show "charged ?l k' (sl_id s') = charged l k' (sl_id s')" using that(1) h by (auto simp: charged_def)
    show "set (sl_heads s') \<inter> (set (lg_done ?l) \<union> set (lg_flight ?l)) = {}"
      using chains_okD(1) [OF ok that(2)] by (simp add: slot_ok_def)
  qed simp
  have q: "queued (lg_slots ?l) = insert h (queued (lg_slots l))"
    using queued_slot [OF k] by (auto simp: queued_upd)
  have "card (dom (lg_holders ?l)) = Suc (card (dom (lg_holders l)))" using h by (simp add: domIff)
  moreover have "slot_ok r ?l k' s'" if "lg_slots ?l k' = Some s'" for k' s'
    using that new old by (cases "k' = k") auto
  moreover have "sl_id s \<le> lg_next l" using s by (simp add: slot_ok_def)
  ultimately show ?thesis
    using ok q room unfolding chains_ok_def by auto
qed

lemma finish_chains:
  assumes ok: "chains_ok r l" and d: "lg_done l = h # hs"
  shows "chains_ok r (l\<lparr>lg_held := lg_held l - 1, lg_holders := (lg_holders l)(h := None),
      lg_slots := uncharge h (lg_holders l) (lg_slots l), lg_done := hs\<rparr>)" (is "chains_ok r ?l")
proof -
  obtain k n where h: "lg_holders l h = Some (k, n)" using chains_okD(3) [OF ok] d by fastforce
  have slots: "\<exists>s. lg_slots l k' = Some s \<and> s' = (if k' = k \<and> sl_id s = n then s\<lparr>sl_held := sl_held s - 1\<rparr> else s)"
    if "uncharge h (lg_holders l) (lg_slots l) k' = Some s'" for k' s'
    using that h by (cases "lg_slots l k"; cases "k' = k") (simp_all add: uncharge_def split: if_splits)
  have ch: "charged l' k' m = (if k' = k \<and> m = n then charged l k' m - {h} else charged l k' m)"
    if "lg_holders l' = (lg_holders l)(h := None)" for l' k' m
    using h that by (auto simp: charged_def)
  have ok': "slot_ok r ?l k' s'" if s': "uncharge h (lg_holders l) (lg_slots l) k' = Some s'" for k' s'
  proof -
    obtain s where s: "lg_slots l k' = Some s" and s'': "s' = (if k' = k \<and> sl_id s = n then s\<lparr>sl_held := sl_held s - 1\<rparr> else s)"
      using slots [OF s'] by blast
    have so: "slot_ok r l k' s" using chains_okD(1) [OF ok s] .
    then have out: "h \<notin> set (sl_heads s)" by (auto simp: slot_ok_def d)
    show ?thesis
    proof (cases "k' = k \<and> sl_id s = n")
      case True
      then have "h \<in> charged l k' (sl_id s)" using h by (simp add: charged_def)
      then show ?thesis
        using so out True by (auto simp: slot_ok_def s'' ch d)
    next
      case False
      show ?thesis
        unfolding s'' if_not_P [OF False]
        by (rule slot_ok_other [OF so]) (use so False in \<open>auto simp: ch slot_ok_def d\<close>)
    qed
  qed
  have q: "queued (uncharge h (lg_holders l) (lg_slots l)) = queued (lg_slots l)"
    using h queued_slot [of l k] by (auto simp: uncharge_def queued_upd split: option.splits)
  have "h \<notin> queued (lg_slots l)"
    using chains_okD(1) [OF ok] by (fastforce simp: queued_iff slot_ok_def d)
  then have "dom (lg_holders ?l) = queued (lg_slots ?l) \<union> set (lg_done ?l) \<union> set (lg_flight ?l)"
    using chains_okD(2,3) [OF ok] by (auto simp: q d)
  moreover have "card (dom (lg_holders ?l)) = lg_held l - 1"
    using chains_okD(4) [OF ok] h by (simp add: card_Diff_singleton_if domI)
  ultimately show ?thesis
    using ok ok' by (auto simp: chains_ok_def d)
qed

lemma complete_chains:
  assumes ok: "chains_ok r l" and f: "mset (lg_flight l) = mset hs + mset fl"
  shows "chains_ok r (l\<lparr>lg_flight := fl, lg_done := lg_done l @ hs\<rparr>)" (is "chains_ok r ?l")
proof -
  have m: "set (lg_done ?l) \<union> set (lg_flight ?l) = set (lg_done l) \<union> set (lg_flight l)"
    using arg_cong [OF f, of set_mset] by auto
  have "mset (lg_done ?l @ lg_flight ?l) = mset (lg_done l @ lg_flight l)" using f by simp
  then have "distinct (lg_done ?l @ lg_flight ?l)" using chains_okD(2) [OF ok] mset_eq_imp_distinct_iff by blast
  moreover have "slot_ok r ?l k s" if "lg_slots l k = Some s" for k s
    by (rule slot_ok_other [OF chains_okD(1) [OF ok that]])
      (use chains_okD(1) [OF ok that] m in \<open>auto simp: slot_ok_def charged_def\<close>)
  ultimately show ?thesis
    using ok m by (auto simp: chains_ok_def)
qed

lemma window_chains:
  assumes ok: "chains_ok r l" and k: "lg_slots l k = Some s"
  shows "chains_ok r (l\<lparr>lg_slots := (lg_slots l)(k \<mapsto> s\<lparr>sl_window := w\<rparr>), lg_budget := b\<rparr>)" (is "chains_ok r ?l")
proof -
  have "slot_ok r ?l k' s'" if "slot_ok r l k' s'" for k' s'
    by (rule slot_ok_other [OF that]) (use that in \<open>auto simp: slot_ok_def charged_def\<close>)
  moreover have "slot_ok r ?l k (s\<lparr>sl_window := w\<rparr>)"
    using chains_okD(1) [OF ok k] by (simp add: slot_ok_def charged_def)
  moreover have "queued (lg_slots ?l) = queued (lg_slots l)" using queued_slot [OF k] by (simp add: queued_upd)
  ultimately show ?thesis using ok by (auto simp: chains_ok_def)
qed

lemma ledger_chains: "ledger_step r l l' \<Longrightarrow> chains_ok r l \<Longrightarrow> chains_ok r l'"
proof (induction rule: ledger_step.induct)
  case (take_heads l k s xs ys)
  show ?case by (rule move_heads_chains [OF take_heads(3,1,2)]) simp_all
next
  case (drop_heads l k s xs ys)
  show ?case by (rule move_heads_chains [OF drop_heads(3,1,2)]) simp_all
qed (assumption | rule open_slot_chains close_slot_chains hold_chains complete_chains finish_chains window_chains)+

section \<open>Windows\<close>

definition slots_sum :: "(slot \<Rightarrow> nat) \<Rightarrow> ('k \<Rightarrow> slot option) \<Rightarrow> nat" where
  "slots_sum f m = (\<Sum>k \<in> dom m. f (the (m k)))"

lemma slots_sum_upd: "finite (dom m) \<Longrightarrow> slots_sum f (m(k \<mapsto> s)) = f s + slots_sum f (m(k := None))"
proof -
  assume fin: "finite (dom m)"
  have "(\<Sum>x \<in> dom m - {k}. f (the ((m(k \<mapsto> s)) x))) = (\<Sum>x \<in> dom m - {k}. f (the ((m(k := None)) x)))"
    by (rule sum.cong) auto
  then show ?thesis using fin by (simp add: slots_sum_def sum.insert_remove)
qed

lemma slots_sum_slot: "finite (dom m) \<Longrightarrow> m k = Some s \<Longrightarrow> slots_sum f m = f s + slots_sum f (m(k := None))"
  using slots_sum_upd [of m f k s] by (simp add: fun_upd_idem)

definition windows_ok :: "'k ledger \<Rightarrow> bool" where
  "windows_ok l \<longleftrightarrow>
     finite (dom (lg_slots l)) \<and> (\<forall>k s. lg_slots l k = Some s \<longrightarrow> window_ok (sl_window s)) \<and>
     unat (bg_granted (lg_budget l)) = slots_sum (\<lambda>s. beyond (sl_window s)) (lg_slots l) \<and>
     unat (bg_granted (lg_budget l)) \<le> unat (bg_total (lg_budget l)) \<and> bg_total (lg_budget l) = BUDGET"

text \<open>A slot whose window changes by as much as the budget's counter.\<close>

lemma windows_ok_set:
  assumes ok: "windows_ok l" and k: "lg_slots l k = Some s" and w: "window_ok (sl_window s')"
    and g: "unat (bg_granted b) + beyond (sl_window s) = unat (bg_granted (lg_budget l)) + beyond (sl_window s')"
    and t: "unat (bg_granted b) \<le> unat (bg_total b)" "bg_total b = bg_total (lg_budget l)"
    and l': "lg_slots l' = (lg_slots l)(k \<mapsto> s')" "lg_budget l' = b"
  shows "windows_ok l'"
  using assms slots_sum_slot [where m = "lg_slots l" and k = k and s = s and f = "\<lambda>s. beyond (sl_window s)"]
  by (auto simp: windows_ok_def slots_sum_upd)

lemma uncharge_windows:
  "map_option sl_window \<circ> uncharge h hold m = map_option sl_window \<circ> m"
  by (auto simp: uncharge_def fun_eq_iff split: option.splits if_splits)

lemma windows_ok_view:
  assumes "windows_ok l" "lg_budget l' = lg_budget l" "map_option sl_window \<circ> lg_slots l' = map_option sl_window \<circ> lg_slots l"
  shows "windows_ok l'"
proof -
  have w: "map_option sl_window (lg_slots l' k) = map_option sl_window (lg_slots l k)" for k
    using fun_cong [OF assms(3), of k] by simp
  then have d: "dom (lg_slots l') = dom (lg_slots l)" by (auto simp: dom_def) (metis not_None_eq option.map_disc_iff)+
  have "sl_window (the (lg_slots l' k)) = sl_window (the (lg_slots l k))" if "k \<in> dom (lg_slots l)" for k
    using w [of k] that d by (auto simp: dom_def)
  then have "slots_sum (\<lambda>s. beyond (sl_window s)) (lg_slots l') = slots_sum (\<lambda>s. beyond (sl_window s)) (lg_slots l)"
    by (simp add: slots_sum_def d)
  moreover have "window_ok (sl_window s)" if s: "lg_slots l' k = Some s" for k s
  proof -
    obtain s0 where "lg_slots l k = Some s0" "sl_window s0 = sl_window s" using w [of k] s by (cases "lg_slots l k") auto
    then show ?thesis using assms(1) unfolding windows_ok_def by metis
  qed
  ultimately show ?thesis using assms(1,2) d unfolding windows_ok_def by auto
qed

lemma ledger_windows: "ledger_step r l l' \<Longrightarrow> windows_ok l \<Longrightarrow> windows_ok l'"
proof (induction rule: ledger_step.induct)
  case (open_slot l k)
  then show ?case
    by (auto simp: windows_ok_def slots_sum_upd fun_upd_idem window_ok_def MIN_WINDOW_def beyond_def)
next
  case (close_slot l k s)
  then have "slots_sum (\<lambda>s. beyond (sl_window s)) (lg_slots l) =
      beyond (sl_window s) + slots_sum (\<lambda>s. beyond (sl_window s)) ((lg_slots l)(k := None))"
    by (intro slots_sum_slot) (auto simp: windows_ok_def)
  with close_slot show ?case by (auto simp: windows_ok_def budget_close_def unat_saturating_sub)
next
  case (grow l k s b w)
  then have ok: "window_ok (sl_window s)" and g: "unat (bg_granted (lg_budget l)) \<le> unat (bg_total (lg_budget l))"
    and t: "unat (bg_total (lg_budget l)) < 2 ^ 63"
    by (auto simp: windows_ok_def BUDGET_def)
  note n = budget_grow_nat [OF ok g t grow(2)]
  have "beyond w = beyond (sl_window s) + (unat w - unat (sl_window s))" "window_ok w"
    using ok n(2) by (simp_all add: beyond_def window_ok_def)
  moreover have "unat w - unat (sl_window s) \<le> unat (bg_total (lg_budget l)) - unat (bg_granted (lg_budget l))"
    unfolding n(2) by linarith
  ultimately show ?case
    using n(1,3) g by (intro windows_ok_set [OF grow(3,1), where s' = "s\<lparr>sl_window := w\<rparr>" and b = b]) simp_all
next
  case (shrink l k s b w)
  then have ok: "window_ok (sl_window s)" and g: "unat (bg_granted (lg_budget l)) \<le> unat (bg_total (lg_budget l))"
    by (auto simp: windows_ok_def)
  have "beyond (sl_window s) \<le> unat (bg_granted (lg_budget l))"
    using shrink(1,3) slots_sum_slot [of "lg_slots l" k s "\<lambda>s. beyond (sl_window s)"] by (simp add: windows_ok_def)
  with budget_shrink_nat [OF ok shrink(2)] g show ?case
    by (intro windows_ok_set [OF shrink(3,1), where s' = "s\<lparr>sl_window := w\<rparr>" and b = b]) (simp_all add: window_ok_def beyond_def)
next
  case (hold l k s h)
  then show ?case by (intro windows_ok_view [OF hold(5)]) (auto simp: fun_eq_iff)
next
  case (take_heads l k s xs ys)
  then show ?case by (intro windows_ok_view [OF take_heads(3)]) (auto simp: fun_eq_iff)
next
  case (drop_heads l k s xs ys)
  then show ?case by (intro windows_ok_view [OF drop_heads(3)]) (auto simp: fun_eq_iff)
next
  case (complete l hs fl)
  then show ?case by (intro windows_ok_view [OF complete(2)]) simp_all
next
  case (finish l h hs)
  then show ?case by (intro windows_ok_view [OF finish(2)]) (simp_all add: uncharge_windows)
qed

end
