(* ===== verification/Vsock_Host.thy ===== *)
theory Vsock_Host
  imports Vsock_Table
begin

text \<open>
  The host's side of virtio-vsock, \<^verbatim>\<open>VsockShared\<close> of \<^verbatim>\<open>virtio/vsock/mod.rs\<close>: what the threads that carry connections
  do, each operation with its result and the wakers it calls afterwards, in order. The operations that
  wait are given as one pass of their loop.
\<close>

section \<open>Opening and asking\<close>

definition vs_open :: "nat \<Rightarrow> vsock_inner \<Rightarrow> u32 \<Rightarrow> nat \<Rightarrow> vsock_inner \<times> conn_key \<times> poke list" where
  "vs_open now i guest_port fd =
     (let host_port = vi_next_port i;
          i1 = i\<lparr>vi_next_port := max (vi_next_port i + 1) FIRST_EPHEMERAL_PORT\<rparr>;
          key = (host_port, guest_port);
          (i2, c) = insert_conn now i1 key guest_port Connecting;
          i3 = put_conn i2 key (c\<lparr>cn_socket := Some fd\<rparr>) in
      (queue_packet i3 ((packet_control Request host_port guest_port)\<lparr>buf_alloc := cn_window c\<rparr>), key, [Wake]))"

definition vs_listen :: "vsock_inner \<Rightarrow> u32 \<Rightarrow> vsock_inner" where
  "vs_listen i host_port = i\<lparr>vi_listeners := (vi_listeners i)(host_port \<mapsto> True)\<rparr>"

definition vs_attach :: "vsock_inner \<Rightarrow> conn_key \<Rightarrow> nat \<Rightarrow> vsock_inner" where
  "vs_attach i key fd =
     (case vi_conns i key of
        None \<Rightarrow> i
      | Some c \<Rightarrow>
          let i1 = (if cn_receive_closed c then i\<lparr>vi_calls := vi_calls i @ [ShutRead fd]\<rparr> else i) in
          put_conn i1 key (c\<lparr>cn_socket := Some fd\<rparr>))"

definition vs_receive_closed :: "vsock_inner \<Rightarrow> conn_key \<Rightarrow> bool" where
  "vs_receive_closed i key = (case vi_conns i key of None \<Rightarrow> False | Some c \<Rightarrow> cn_receive_closed c)"

datatype status = StConnecting | StEstablished | StGone

definition vs_status :: "vsock_inner \<Rightarrow> conn_key \<Rightarrow> status" where
  "vs_status i key =
     (case map_option cn_state (vi_conns i key) of
        Some Connecting \<Rightarrow> StConnecting
      | Some Established \<Rightarrow> StEstablished
      | _ \<Rightarrow> StGone)"

text \<open>One look of \<^verbatim>\<open>await_established\<close>, with what is left of its time; \<open>None\<close> when it waits on.\<close>

definition await_pass :: "vsock_inner \<Rightarrow> conn_key \<Rightarrow> nat \<Rightarrow> bool option" where
  "await_pass i key remaining =
     (case map_option cn_state (vi_conns i key) of
        Some Established \<Rightarrow> Some True
      | Some Connecting \<Rightarrow> if remaining = 0 then Some False else None
      | _ \<Rightarrow> Some False)"

section \<open>Sending\<close>

text \<open>The error of a stream's caller: the connection is gone.\<close>

datatype gone = Gone

definition rw_packet :: "conn_key \<Rightarrow> u32 \<Rightarrow> u32 \<Rightarrow> bytes \<Rightarrow> packet" where
  "rw_packet key window fwd body =
     (packet_control Rw (fst key) (snd key))\<lparr>payload := body, buf_alloc := window, fwd_cnt := fwd\<rparr>"

definition queue_data :: "vsock_inner \<Rightarrow> conn_key \<Rightarrow> u32 \<Rightarrow> u32 \<Rightarrow> bytes \<Rightarrow> vsock_inner" where
  "queue_data i key window fwd body =
     (let i1 = queue_packet i (rw_packet key window fwd body) in
      case vi_conns i1 key of
        None \<Rightarrow> i1
      | Some c \<Rightarrow> put_conn i1 key (c\<lparr>cn_credit := credit_sent (cn_credit c) (of_nat (length body))\<rparr>))"

text \<open>The packets made under one lock, and the data left over.\<close>

fun send_loop :: "conn_key \<Rightarrow> u32 \<Rightarrow> u32 \<Rightarrow> vsock_inner \<Rightarrow> nat \<Rightarrow> nat \<Rightarrow> bytes \<Rightarrow> vsock_inner \<times> bytes" where
  "send_loop key window fwd i allowed 0 rest = (i, rest)"
| "send_loop key window fwd i allowed (Suc room) rest =
     (if 0 < allowed \<and> rest \<noteq> []
      then let n = min (min allowed MAX_PAYLOAD) (length rest) in
           send_loop key window fwd (queue_data i key window fwd (take n rest)) (allowed - n) room (drop n rest)
      else (i, rest))"

definition try_send :: "vsock_inner \<Rightarrow> conn_key \<Rightarrow> bytes \<Rightarrow> vsock_inner \<times> (gone + nat) \<times> poke list" where
  "try_send i key bytes =
     (case vi_conns i key of
        None \<Rightarrow> (i, Inl Gone, [])
      | Some c \<Rightarrow>
          if cn_receive_closed c then (i, Inl Gone, [])
          else if cn_state c \<noteq> Established then (i, if cn_state c = Connecting then Inr 0 else Inl Gone, [])
          else
            let (i1, rest) = send_loop key (cn_window c) (cr_fwd_cnt (cn_credit c)) i (unat (credit_available (cn_credit c)))
                  (outbox_room (vi_outbox i) key) bytes;
                offset = length bytes - length rest in
            (i1, Inr offset, if 0 < offset then [Wake] else []))"

definition send_owned :: "vsock_inner \<Rightarrow> conn_key \<Rightarrow> bytes \<Rightarrow> bool \<Rightarrow> vsock_inner \<times> (gone + bytes option) \<times> poke list" where
  "send_owned i key bytes bulk =
     (case vi_conns i key of
        None \<Rightarrow> (i, Inl Gone, [])
      | Some c \<Rightarrow>
          if cn_receive_closed c then (i, Inl Gone, [])
          else if cn_state c \<noteq> Established then (i, if cn_state c = Connecting then Inr (Some bytes) else Inl Gone, [])
          else
            let allowed = unat (credit_available (cn_credit c));
                room = outbox_room (vi_outbox i) key in
            if room = 0 \<or> allowed = 0 then (i, Inr (Some bytes), [])
            else
              (queue_data i key (cn_window c) (cr_fwd_cnt (cn_credit c)) (take allowed bytes),
               Inr (if allowed < length bytes then Some (drop allowed bytes) else None),
               [if bulk then WakeDeferred else Wake]))"

definition try_send_owned :: "vsock_inner \<Rightarrow> conn_key \<Rightarrow> bytes \<Rightarrow> bool \<Rightarrow> vsock_inner \<times> (gone + bytes option) \<times> poke list" where
  "try_send_owned i key bytes bulk =
     (if MAX_PAYLOAD < length bytes
      then case send_owned i key (take MAX_PAYLOAD bytes) bulk of
             (i1, Inl g, ps) \<Rightarrow> (i1, Inl g, ps)
           | (i1, Inr None, ps) \<Rightarrow> (i1, Inr (Some (drop MAX_PAYLOAD bytes)), ps)
           | (i1, Inr (Some unsent), ps) \<Rightarrow> (i1, Inr (Some (unsent @ drop MAX_PAYLOAD bytes)), ps)
      else send_owned i key bytes bulk)"

text \<open>One pass of \<^verbatim>\<open>send\<close> with data left: it ends, or has queued some, or waits after a wake.\<close>

datatype send_outcome = SendOver | SendQueued bytes | SendWaits bool

definition send_pass :: "vsock_inner \<Rightarrow> conn_key \<Rightarrow> bytes \<Rightarrow> vsock_inner \<times> send_outcome \<times> poke list" where
  "send_pass i key rest =
     (case vi_conns i key of
        None \<Rightarrow> (i, SendOver, [])
      | Some c \<Rightarrow>
          if cn_state c \<noteq> Established \<or> cn_receive_closed c then (i, SendOver, [])
          else
            let allowed = unat (credit_available (cn_credit c));
                room = outbox_room (vi_outbox i) key in
            if allowed = 0 \<or> room = 0 then (i, SendWaits (room = 0), [Wake])
            else
              let (i1, rest') = send_loop key (cn_window c) (cr_fwd_cnt (cn_credit c)) i allowed room rest in
              (i1, SendQueued rest', [Wake]))"

section \<open>Taking what the guest sent\<close>

datatype outbound = Chunks "chunk list" | OutEmpty | OutFinished | OutGone

definition try_take_outbound :: "vsock_inner \<Rightarrow> conn_key \<Rightarrow> vsock_inner \<times> outbound" where
  "try_take_outbound i key =
     (case vi_conns i key of
        None \<Rightarrow> (i, OutGone)
      | Some c \<Rightarrow>
          if cn_outbound c \<noteq> [] then (put_conn i key (c\<lparr>cn_outbound := []\<rparr>), Chunks (cn_outbound c))
          else if cn_state c = Closed \<or> cn_guest_done c then (i, OutFinished)
          else (i, OutEmpty))"

text \<open>A chunk as bytes; \<open>rd\<close> reads guest memory, and a span that cannot be read is zeros, as the buffer was.\<close>

definition chunk_bytes :: "(u64 \<times> nat \<Rightarrow> bytes option) \<Rightarrow> chunk \<Rightarrow> bytes" where
  "chunk_bytes rd c =
     (case c of
        Owned v \<Rightarrow> v
      | InGuest _ spans \<Rightarrow> concat (map (\<lambda>s. case rd s of Some bs \<Rightarrow> bs | None \<Rightarrow> replicate (snd s) 0) spans))"

definition chunk_head :: "chunk \<Rightarrow> u16 list" where
  "chunk_head c = (case c of InGuest h _ \<Rightarrow> [h] | Owned _ \<Rightarrow> [])"

fun read_chunks :: "(u64 \<times> nat \<Rightarrow> bytes option) \<Rightarrow> nat \<Rightarrow> chunk list \<Rightarrow> bytes \<Rightarrow> u16 list \<Rightarrow> chunk list \<times> bytes \<times> u16 list" where
  "read_chunks rd n [] out finished = ([], out, finished)"
| "read_chunks rd n (c # cs) out finished =
     (if length out < n
      then
        let bytes = chunk_bytes rd c;
            k = min (length bytes) (n - length out) in
        if k < length bytes
        then (Owned (drop k bytes) # cs, out @ take k bytes, finished @ chunk_head c)
        else read_chunks rd n cs (out @ take k bytes) (finished @ chunk_head c)
      else (c # cs, out, finished))"

text \<open>\<^verbatim>\<open>acknowledge\<close>; \<open>eager\<close> is \<^verbatim>\<open>LIGHTER_CREDIT_EAGER\<close>.\<close>

definition acknowledge :: "bool \<Rightarrow> nat \<Rightarrow> vsock_inner \<Rightarrow> conn_key \<Rightarrow> u32 \<Rightarrow> vsock_inner \<times> poke list" where
  "acknowledge eager now i key bytes =
     (case vi_conns i key of
        None \<Rightarrow> (i, [])
      | Some c \<Rightarrow>
          let c1 = c\<lparr>cn_credit := credit_consumed (cn_credit c) bytes\<rparr>;
              c2 = (if 0 < bytes then c1\<lparr>cn_drained := now\<rparr> else c1) in
          if cn_guest_done c2 \<and> cn_receive_closed c2 \<and> cn_received c2 = cr_fwd_cnt (cn_credit c2)
          then (finish_shutdown (put_conn i key c2) key, [Progressed, Wake])
          else
            let c3 = c2\<lparr>cn_unreported := saturating_add (cn_unreported c2) bytes\<rparr>;
                threshold = min (cn_window c3) (max (peer_buf_alloc (cn_credit c3)) 0x10000) in
            if \<not> eager \<and> cn_unreported c3 < threshold div 4 then (put_conn i key c3, [])
            else
              let (b, grown) = budget_grow (vi_budget i) (cn_window c3);
                  c4 = c3\<lparr>cn_unreported := 0, cn_window := grown\<rparr>;
                  i1 = (put_conn i key c4)\<lparr>vi_budget := b\<rparr> in
              (queue_packet i1 ((packet_control CreditUpdate (fst key) (snd key))
                 \<lparr>buf_alloc := grown, fwd_cnt := cr_fwd_cnt (cn_credit c3)\<rparr>), [Wake]))"

definition try_read_outbound ::
  "bool \<Rightarrow> (u64 \<times> nat \<Rightarrow> bytes option) \<Rightarrow> nat \<Rightarrow> vsock_inner \<Rightarrow> conn_key \<Rightarrow> nat \<Rightarrow> vsock_inner \<times> (gone + bytes option) \<times> poke list" where
  "try_read_outbound eager rd now i key n =
     (case vi_conns i key of
        None \<Rightarrow> (i, Inl Gone, [])
      | Some c \<Rightarrow>
          if sum_list (map outbound_len (cn_outbound c)) < n
          then (i, if cn_state c = Closed \<or> cn_guest_done c then Inl Gone else Inr None, [])
          else
            let (left, out, finished) = read_chunks rd n (cn_outbound c) [] [];
                i1 = put_conn i key (c\<lparr>cn_outbound := left\<rparr>);
                i2 = i1\<lparr>vi_done := vi_done i1 @ finished\<rparr>;
                (i3, ps) = acknowledge eager now i2 key (of_nat n) in
            (i3, Inr (Some out), Wake # ps))"

text \<open>One pass of \<^verbatim>\<open>read_outbound_exact\<close> with what it has read so far.\<close>

datatype read_outcome = ReadOver | ReadAll bytes | ReadWaits bytes

definition read_exact_pass ::
  "bool \<Rightarrow> (u64 \<times> nat \<Rightarrow> bytes option) \<Rightarrow> nat \<Rightarrow> vsock_inner \<Rightarrow> conn_key \<Rightarrow> nat \<Rightarrow> bytes \<Rightarrow> vsock_inner \<times> read_outcome \<times> poke list" where
  "read_exact_pass eager rd now i key n out0 =
     (case vi_conns i key of
        None \<Rightarrow> (i, ReadOver, [])
      | Some c \<Rightarrow>
          let (left, out, finished) = read_chunks rd n (cn_outbound c) out0 [];
              i1 = put_conn i key (c\<lparr>cn_outbound := left\<rparr>);
              i2 = i1\<lparr>vi_done := vi_done i1 @ finished\<rparr> in
          if length out = n
          then let (i3, ps) = acknowledge eager now i2 key (of_nat n) in (i3, ReadAll out, Wake # ps)
          else (i2, if cn_state c = Closed \<or> cn_guest_done c then ReadOver else ReadWaits out, []))"

text \<open>One pass of \<^verbatim>\<open>take_outbound\<close>: \<open>Some None\<close> when the writer is done.\<close>

definition take_pass :: "vsock_inner \<Rightarrow> conn_key \<Rightarrow> vsock_inner \<times> chunk list option option" where
  "take_pass i key =
     (case vi_conns i key of
        None \<Rightarrow> (i, Some None)
      | Some c \<Rightarrow>
          if cn_outbound c \<noteq> [] then (put_conn i key (c\<lparr>cn_outbound := []\<rparr>), Some (Some (cn_outbound c)))
          else if cn_state c = Closed \<or> cn_guest_done c then (i, Some None)
          else (i, None))"

definition vs_complete :: "vsock_inner \<Rightarrow> u16 list \<Rightarrow> vsock_inner \<times> poke list" where
  "vs_complete i heads =
     (let i1 = i\<lparr>vi_done := vi_done i @ heads\<rparr> in
      if vi_done i1 = [] then (i1, [])
      else if 32 \<le> length (vi_done i1) \<or> vi_held i1 \<le> length (vi_done i1) then (i1, [Wake])
      else (i1, [WakeDeferred]))"

definition has_done :: "vsock_inner \<Rightarrow> bool" where
  "has_done i \<longleftrightarrow> vi_done i \<noteq> []"

definition has_pending :: "vsock_inner \<Rightarrow> bool" where
  "has_pending i \<longleftrightarrow> \<not> outbox_empty (vi_outbox i)"

section \<open>Ending\<close>

definition shutdown_write :: "vsock_inner \<Rightarrow> conn_key \<Rightarrow> vsock_inner \<times> poke list" where
  "shutdown_write i key =
     (case vi_conns i key of
        None \<Rightarrow> (i, [])
      | Some c \<Rightarrow>
          if cn_receive_closed c then (i, [])
          else (queue_packet i ((packet_control Shutdown (fst key) (snd key))\<lparr>pk_flags := SHUTDOWN_SEND, buf_alloc := cn_window c\<rparr>),
                [Progressed, Wake]))"

definition vs_shutdown :: "nat \<Rightarrow> vsock_inner \<Rightarrow> conn_key \<Rightarrow> vsock_inner \<times> poke list" where
  "vs_shutdown now i key =
     (case vi_conns i key of
        None \<Rightarrow> (i, [])
      | Some c \<Rightarrow>
          let p = (packet_control Shutdown (fst key) (snd key))
                \<lparr>pk_flags := SHUTDOWN_BOTH, buf_alloc := cn_window c, fwd_cnt := cr_fwd_cnt (cn_credit c)\<rparr>;
              c1 = (if cn_state c \<noteq> Closed then c\<lparr>cn_state := Closed, cn_since := now\<rparr> else c);
              i1 = call_socket ShutBoth c1 i;
              i2 = put_conn i1 key (c1\<lparr>cn_outbound := []\<rparr>) in
          (discard (queue_packet (touch i2 key) p) (cn_outbound c1), [Progressed, Wake]))"

definition rst_packet :: "conn_key \<Rightarrow> packet" where
  "rst_packet key = (packet_control Rst (fst key) (snd key))\<lparr>buf_alloc := MIN_WINDOW\<rparr>"

definition abandon :: "vsock_inner \<Rightarrow> conn_key \<Rightarrow> vsock_inner \<times> poke list" where
  "abandon i key =
     (let (i1, was) = remove_conn i key in
      if \<not> was then (i1, []) else (queue_packet i1 (rst_packet key), [Progressed, Wake]))"

definition vs_label :: "vsock_inner \<Rightarrow> conn_key \<Rightarrow> string \<Rightarrow> vsock_inner" where
  "vs_label i key l = (case vi_conns i key of None \<Rightarrow> i | Some c \<Rightarrow> put_conn i key (c\<lparr>cn_label := Some l\<rparr>))"

definition take_touched :: "vsock_inner \<Rightarrow> vsock_inner \<times> conn_key list option" where
  "take_touched i =
     (if vi_touched_all i then (i\<lparr>vi_touched_all := False, vi_touched := []\<rparr>, None)
      else (i\<lparr>vi_touched := []\<rparr>, Some (vi_touched i)))"

section \<open>The warden\<close>

text \<open>What a sweep finds, in the order \<open>ks\<close> it walks the table: connections to end, and windows to cut with
  whether the peer had stalled.\<close>

definition sweep_ended :: "nat \<Rightarrow> conn \<Rightarrow> bool" where
  "sweep_ended now c \<longleftrightarrow>
     cn_state c = Closed \<and> CLOSE_TIMEOUT \<le> now - cn_since c \<or> cn_state c = Connecting \<and> CONNECT_TIMEOUT \<le> now - cn_since c"

definition sweep_cut :: "nat \<Rightarrow> conn \<Rightarrow> bool" where
  "sweep_cut now c \<longleftrightarrow>
     cn_state c = Established \<and> MIN_WINDOW < cn_window c \<and>
     (if 0 < buffered c then STALL_AFTER \<le> now - cn_drained c else IDLE_AFTER \<le> now - cn_drained c)"

definition the_label :: "conn \<Rightarrow> string" where
  "the_label c = (case cn_label c of Some l \<Rightarrow> l | None \<Rightarrow> ''a connection'')"

definition end_conn :: "conn_key \<Rightarrow> conn_state \<Rightarrow> vsock_inner \<Rightarrow> vsock_inner" where
  "end_conn key st i =
     (let i1 = fst (remove_conn (queue_packet i (rst_packet key)) key);
          w = vi_warden i1 in
      i1\<lparr>vi_warden := (if st = Closed then w\<lparr>wc_closed_expired := wc_closed_expired w + 1\<rparr>
                        else w\<lparr>wc_connect_expired := wc_connect_expired w + 1\<rparr>)\<rparr>)"

definition cut_window :: "conn_key \<Rightarrow> bool \<Rightarrow> vsock_inner \<Rightarrow> vsock_inner" where
  "cut_window key stalled i =
     (case vi_conns i key of
        None \<Rightarrow> i
      | Some c \<Rightarrow>
          let (b, least) = budget_shrink (vi_budget i) (cn_window c);
              i1 = (put_conn i key (c\<lparr>cn_window := least\<rparr>))\<lparr>vi_budget := b\<rparr>;
              w = vi_warden i1;
              i2 = (if stalled
                    then i1\<lparr>vi_warden := warden_note (w\<lparr>wc_stalled := wc_stalled w + 1\<rparr>)
                              (''cut the window of '' @ the_label c @ '', which had stopped taking bytes'')\<rparr>
                    else i1) in
          queue_packet i2 ((packet_control CreditUpdate (fst key) (snd key))\<lparr>buf_alloc := least, fwd_cnt := cr_fwd_cnt (cn_credit c)\<rparr>))"

text \<open>\<^verbatim>\<open>max_by_key\<close>: the last of the greatest, the most chains held first, then the longest without draining.\<close>

fun worst_holder :: "(conn_key \<times> conn) option \<Rightarrow> (conn_key \<times> conn) list \<Rightarrow> (conn_key \<times> conn) option" where
  "worst_holder best [] = best"
| "worst_holder best ((k, c) # kcs) =
     worst_holder (if cn_held c = 0 then best
       else case best of
              None \<Rightarrow> Some (k, c)
            | Some (k', c') \<Rightarrow>
                if cn_held c' < cn_held c \<or> cn_held c' = cn_held c \<and> cn_drained c \<le> cn_drained c' then Some (k, c) else best) kcs"

definition watchdog :: "nat \<Rightarrow> conn_key list \<Rightarrow> vsock_inner \<Rightarrow> vsock_inner \<times> bool" where
  "watchdog now ks i =
     (if vi_held i < fst (tx_limits i) then (i\<lparr>vi_ring_full_since := None\<rparr>, False)
      else
        let since = (case vi_ring_full_since i of Some t \<Rightarrow> t | None \<Rightarrow> now);
            i1 = i\<lparr>vi_ring_full_since := Some since\<rparr> in
        if now - max (vi_last_return i1) since < WATCHDOG then (i1, False)
        else case worst_holder None (List.map_filter (\<lambda>k. map_option (Pair k) (vi_conns i1 k)) ks) of
               None \<Rightarrow> (i1, False)
             | Some (key, c) \<Rightarrow>
                 let i2 = queue_packet i1 (rst_packet key);
                     i3 = call_socket ShutBoth c i2;
                     i4 = fst (remove_conn i3 key);
                     w = vi_warden i4 in
                 (i4\<lparr>vi_warden := warden_note (w\<lparr>wc_resets := wc_resets w + 1\<rparr>) (''reset '' @ the_label c),
                     vi_ring_full_since := None\<rparr>, True))"

definition sweep :: "nat \<Rightarrow> conn_key list \<Rightarrow> vsock_inner \<Rightarrow> vsock_inner \<times> poke list" where
  "sweep now ks i =
     (let found = List.map_filter (\<lambda>k. map_option (Pair k) (vi_conns i k)) ks;
          ended = filter (\<lambda>(k, c). sweep_ended now c) found;
          cut = filter (\<lambda>(k, c). sweep_cut now c) found;
          i1 = fold (\<lambda>(k, c). end_conn k (cn_state c)) ended i;
          i2 = fold (\<lambda>(k, c). cut_window k (0 < buffered c)) cut i1;
          (i3, fired) = watchdog now ks i2 in
      (i3, if ended \<noteq> [] \<or> cut \<noteq> [] \<or> fired then [Progressed, Wake] else []))"

end
