(* ===== verification/Vsock_Life.thy ===== *)
theory Vsock_Life
  imports Vsock_Ledger Vsock_Host
begin

text \<open>
  The life of the connection table: every operation of the device and of the host's threads, in any order, as a step
  relation, beside the chains that writers have taken and not completed. The table refines the ledger of
  \<^verbatim>\<open>Vsock_Ledger\<close>. The transmit ring's size is what the driver set before it enabled the queue, and the
  driver does not submit a chain it has not got back; fewer than \<open>2 ^ 64\<close> connections are opened.
\<close>

definition heads_of :: "chunk list \<Rightarrow> u16 list" where
  "heads_of cs = concat (map chunk_head cs)"

text \<open>What the host's threads do: send \<open>n\<close> bytes of the data, or anything else; \<open>fl\<close> are the chains writers have.\<close>

inductive send_step :: "conn_key \<Rightarrow> bytes \<Rightarrow> vsock_inner \<Rightarrow> nat \<Rightarrow> vsock_inner \<Rightarrow> bool" where
  sent: "try_send i key data = (i', Inr n, ps) \<Longrightarrow> send_step key data i n i'"
| sent_owned: "try_send_owned i key data bulk = (i', Inr left, ps) \<Longrightarrow>
    send_step key data i (length data - length (case left of None \<Rightarrow> [] | Some d \<Rightarrow> d)) i'"
| sent_pass: "send_pass i key data = (i', SendQueued left, ps) \<Longrightarrow> send_step key data i (length data - length left) i'"

inductive host_step :: "vsock_inner \<times> u16 list \<Rightarrow> vsock_inner \<times> u16 list \<Rightarrow> bool" where
  opened: "vi_next_id i \<noteq> - 1 \<Longrightarrow> host_step (i, fl) (fst (vs_open now i port fd), fl)"
| listened: "host_step (i, fl) (vs_listen i port, fl)"
| deaf: "host_step (i, fl) (i\<lparr>vi_listeners := (vi_listeners i)(port \<mapsto> False)\<rparr>, fl)"
| attached: "host_step (i, fl) (vs_attach i key fd, fl)"
| taken: "try_take_outbound i key = (i', Chunks cs) \<Longrightarrow> host_step (i, fl) (i', fl @ heads_of cs)"
| taken_pass: "take_pass i key = (i', Some (Some cs)) \<Longrightarrow> host_step (i, fl) (i', fl @ heads_of cs)"
| completed: "mset fl = mset hs + mset fl' \<Longrightarrow> host_step (i, fl) (fst (vs_complete i hs), fl')"
| read: "host_step (i, fl) (fst (try_read_outbound eager rd now i key n), fl)"
| read_pass: "host_step (i, fl) (fst (read_exact_pass eager rd now i key n out), fl)"
| acknowledged: "host_step (i, fl) (fst (acknowledge eager now i key m), fl)"
| half_shut: "host_step (i, fl) (fst (shutdown_write i key), fl)"
| shut: "host_step (i, fl) (fst (vs_shutdown now i key), fl)"
| abandoned: "host_step (i, fl) (fst (abandon i key), fl)"
| labelled: "host_step (i, fl) (vs_label i key name, fl)"
| looked: "host_step (i, fl) (fst (take_touched i), fl)"
| swept: "distinct ks \<Longrightarrow> set ks = dom (vi_conns i) \<Longrightarrow> host_step (i, fl) (fst (sweep now ks i), fl)"

inductive vsock_step :: "vsock_inner \<times> u16 list \<Rightarrow> vsock_inner \<times> u16 list \<Rightarrow> bool" where
  packet: "vi_next_id i \<noteq> - 1 \<Longrightarrow> vsock_step (i, fl) (handle now i p, fl)"
| payload: "vi_holders i h = None \<Longrightarrow> vsock_step (i, fl) (fst (handle_guest_rw copy_all rd now i p h spans), fl)"
| returned: "vsock_step (i, fl) (fst (finish_done now i), fl)"
| delivered: "vsock_step (i, fl) (i\<lparr>vi_outbox := ob\<rparr>, fl)"
| sent: "send_step key data i n i' \<Longrightarrow> vsock_step (i, fl) (i', fl)"
| host: "host_step w w' \<Longrightarrow> vsock_step w w'"

section \<open>The table as a ledger\<close>

definition slot_of :: "conn \<Rightarrow> slot" where
  "slot_of c = \<lparr>sl_id = cn_id c, sl_held = cn_held c, sl_heads = heads_of (cn_outbound c), sl_window = cn_window c\<rparr>"

definition ledger_of :: "vsock_inner \<Rightarrow> u16 list \<Rightarrow> conn_key ledger" where
  "ledger_of i fl =
     \<lparr>lg_slots = (\<lambda>k. map_option slot_of (vi_conns i k)), lg_held = vi_held i, lg_holders = vi_holders i, lg_done = vi_done i,
      lg_flight = fl, lg_next = vi_next_id i, lg_budget = vi_budget i\<rparr>"

definition sim :: "u16 list \<Rightarrow> vsock_inner \<Rightarrow> u16 list \<Rightarrow> vsock_inner \<Rightarrow> bool" where
  "sim fl i fl' i' \<longleftrightarrow> vi_tx_ring i' = vi_tx_ring i \<and> (ledger_step (vi_tx_ring i))\<^sup>*\<^sup>* (ledger_of i fl) (ledger_of i' fl')"

named_theorems ledger_simps "how the table's primitives look in the ledger"

lemma ledger_fields [ledger_simps]:
  "ledger_of (i\<lparr>vi_outbox := a\<rparr>) fl = ledger_of i fl" "ledger_of (i\<lparr>vi_next_port := b\<rparr>) fl = ledger_of i fl"
  "ledger_of (i\<lparr>vi_touched := c\<rparr>) fl = ledger_of i fl" "ledger_of (i\<lparr>vi_touched_all := d\<rparr>) fl = ledger_of i fl"
  "ledger_of (i\<lparr>vi_listeners := e\<rparr>) fl = ledger_of i fl" "ledger_of (i\<lparr>vi_warden := f\<rparr>) fl = ledger_of i fl"
  "ledger_of (i\<lparr>vi_last_return := g\<rparr>) fl = ledger_of i fl" "ledger_of (i\<lparr>vi_ring_full_since := h\<rparr>) fl = ledger_of i fl"
  "ledger_of (i\<lparr>vi_accepted := j\<rparr>) fl = ledger_of i fl" "ledger_of (i\<lparr>vi_calls := k\<rparr>) fl = ledger_of i fl"
  "ledger_of (i\<lparr>vi_conns := cs\<rparr>) fl = (ledger_of i fl)\<lparr>lg_slots := (\<lambda>k. map_option slot_of (cs k))\<rparr>"
  "ledger_of (i\<lparr>vi_next_id := l\<rparr>) fl = (ledger_of i fl)\<lparr>lg_next := l\<rparr>"
  "ledger_of (i\<lparr>vi_held := hn\<rparr>) fl = (ledger_of i fl)\<lparr>lg_held := hn\<rparr>"
  "ledger_of (i\<lparr>vi_holders := hm\<rparr>) fl = (ledger_of i fl)\<lparr>lg_holders := hm\<rparr>"
  "ledger_of (i\<lparr>vi_done := m\<rparr>) fl = (ledger_of i fl)\<lparr>lg_done := m\<rparr>"
  "ledger_of (i\<lparr>vi_budget := n\<rparr>) fl = (ledger_of i fl)\<lparr>lg_budget := n\<rparr>"
  by (simp_all add: ledger_of_def)

lemma ledger_put [ledger_simps]:
  "ledger_of (put_conn i key c) fl = (ledger_of i fl)\<lparr>lg_slots := (lg_slots (ledger_of i fl))(key \<mapsto> slot_of c)\<rparr>"
  by (auto simp: ledger_of_def put_conn_def fun_eq_iff)

lemma ledger_same [ledger_simps]:
  "vi_conns i key = Some c \<Longrightarrow> (ledger_of i fl)\<lparr>lg_slots := (lg_slots (ledger_of i fl))(key \<mapsto> slot_of c)\<rparr> = ledger_of i fl"
  by (auto simp: ledger_of_def fun_eq_iff)

lemma ledger_quiet [ledger_simps]:
  "ledger_of (queue_packet i p) fl = ledger_of i fl" "ledger_of (touch i key) fl = ledger_of i fl"
  "ledger_of (call_socket f c i) fl = ledger_of i fl"
  by (simp_all add: queue_packet_def touch_def call_socket_def ledger_fields split: option.split)

lemma ledger_discard [ledger_simps]:
  "ledger_of (discard i cs) fl = (ledger_of i fl)\<lparr>lg_done := vi_done i @ heads_of cs\<rparr>"
proof -
  have "concat (map (\<lambda>c. case c of InGuest h _ \<Rightarrow> [h] | Owned _ \<Rightarrow> []) cs) = heads_of cs"
    unfolding heads_of_def by (intro arg_cong [where f = concat] map_cong) (auto simp: chunk_head_def split: chunk.split)
  then show ?thesis by (simp add: discard_def ledger_fields)
qed

lemma quiet_fields [simp]:
  "vi_conns (queue_packet i p) = vi_conns i" "vi_conns (touch i key) = vi_conns i" "vi_conns (call_socket f c i) = vi_conns i"
  "vi_tx_ring (queue_packet i p) = vi_tx_ring i" "vi_tx_ring (touch i key) = vi_tx_ring i" "vi_tx_ring (call_socket f c i) = vi_tx_ring i"
  "vi_done (queue_packet i p) = vi_done i" "vi_done (touch i key) = vi_done i" "vi_done (call_socket f c i) = vi_done i"
  "vi_budget (queue_packet i p) = vi_budget i" "vi_budget (touch i key) = vi_budget i" "vi_budget (call_socket f c i) = vi_budget i"
  "vi_held (queue_packet i p) = vi_held i" "vi_held (touch i key) = vi_held i" "vi_held (call_socket f c i) = vi_held i" "vi_held (put_conn i key c) = vi_held i"
  "vi_holders (queue_packet i p) = vi_holders i" "vi_holders (touch i key) = vi_holders i" "vi_holders (call_socket f c i) = vi_holders i"
  "vi_holders (put_conn i key c) = vi_holders i"
  "vi_next_id (queue_packet i p) = vi_next_id i" "vi_next_id (touch i key) = vi_next_id i" "vi_next_id (call_socket f c i) = vi_next_id i"
  "vi_outbox (touch i key) = vi_outbox i" "vi_outbox (call_socket f c i) = vi_outbox i" "vi_outbox (put_conn i key c) = vi_outbox i"
  "vi_conns (put_conn i key c) = (vi_conns i)(key \<mapsto> c)" "vi_tx_ring (put_conn i key c) = vi_tx_ring i"
  "vi_done (put_conn i key c) = vi_done i" "vi_budget (put_conn i key c) = vi_budget i" "vi_next_id (put_conn i key c) = vi_next_id i"
  "vi_conns (discard i cs) = vi_conns i" "vi_tx_ring (discard i cs) = vi_tx_ring i"
  by (simp_all add: queue_packet_def touch_def call_socket_def put_conn_def discard_def split: option.split)

lemma slot_of_same:
  "slot_of (c\<lparr>cn_credit := a\<rparr>) = slot_of c" "slot_of (c\<lparr>cn_state := b\<rparr>) = slot_of c" "slot_of (c\<lparr>cn_since := d\<rparr>) = slot_of c"
  "slot_of (c\<lparr>cn_received := e\<rparr>) = slot_of c" "slot_of (c\<lparr>cn_drained := f\<rparr>) = slot_of c" "slot_of (c\<lparr>cn_unreported := g\<rparr>) = slot_of c"
  "slot_of (c\<lparr>cn_guest_done := h\<rparr>) = slot_of c" "slot_of (c\<lparr>cn_receive_closed := j\<rparr>) = slot_of c"
  "slot_of (c\<lparr>cn_socket := k\<rparr>) = slot_of c" "slot_of (c\<lparr>cn_label := l\<rparr>) = slot_of c"
  "(slot_of c)\<lparr>sl_heads := heads_of (cn_outbound c)\<rparr> = slot_of c"
  "heads_of (cs @ [Owned v]) = heads_of cs" "heads_of (cs @ [InGuest m sp]) = heads_of cs @ [m]"
  "slot_of (c\<lparr>cn_outbound := cs\<rparr>) = (slot_of c)\<lparr>sl_heads := heads_of cs\<rparr>"
  "slot_of (c\<lparr>cn_window := w\<rparr>) = (slot_of c)\<lparr>sl_window := w\<rparr>"
  "slot_of (c\<lparr>cn_held := n\<rparr>) = (slot_of c)\<lparr>sl_held := n\<rparr>"
  by (simp_all add: slot_of_def heads_of_def chunk_head_def)

lemma sim_refl [simp]: "sim fl i fl i"
  by (simp add: sim_def)

lemma sim_trans [trans]: "sim fl i fl1 i1 \<Longrightarrow> sim fl1 i1 fl2 i2 \<Longrightarrow> sim fl i fl2 i2"
  by (auto simp: sim_def)

lemma sim_quiet: "ledger_of i' fl = ledger_of i fl \<Longrightarrow> vi_tx_ring i' = vi_tx_ring i \<Longrightarrow> sim fl i fl i'"
  by (simp add: sim_def)

lemma sim_step: "ledger_step (vi_tx_ring i) (ledger_of i fl) (ledger_of i' fl') \<Longrightarrow> vi_tx_ring i' = vi_tx_ring i \<Longrightarrow> sim fl i fl' i'"
  by (simp add: sim_def)

lemma slots_of [simp]: "lg_slots (ledger_of i fl) key = map_option slot_of (vi_conns i key)"
  "lg_done (ledger_of i fl) = vi_done i" "lg_flight (ledger_of i fl) = fl" "lg_budget (ledger_of i fl) = vi_budget i"
  "lg_next (ledger_of i fl) = vi_next_id i" "lg_held (ledger_of i fl) = vi_held i" "lg_holders (ledger_of i fl) = vi_holders i"
  by (simp_all add: ledger_of_def)

section \<open>Removing and opening\<close>

lemma ledger_retired:
  assumes "vi_conns i key = Some c"
  shows "ledger_step r (ledger_of i fl)
    ((ledger_of i fl)\<lparr>lg_slots := (lg_slots (ledger_of i fl))(key := None), lg_done := vi_done i @ heads_of (cn_outbound c),
       lg_budget := budget_close (vi_budget i) (cn_window c)\<rparr>)"
  using ledger_step.close_slot [of "ledger_of i fl" key "slot_of c" r] assms by (simp add: slot_of_def)

lemma sim_remove: "sim fl i fl (fst (remove_conn i key))"
proof (cases "vi_conns i key")
  case None
  then show ?thesis by (intro sim_quiet) (simp_all add: remove_conn_def Let_def ledger_simps)
next
  case (Some c)
  have "ledger_of (fst (remove_conn i key)) fl =
      (ledger_of i fl)\<lparr>lg_slots := (lg_slots (ledger_of i fl))(key := None), lg_done := vi_done i @ heads_of (cn_outbound c),
        lg_budget := budget_close (vi_budget i) (cn_window c)\<rparr>"
    using Some by (auto simp: remove_conn_def Let_def retire_def ledger_simps) (simp add: ledger_of_def fun_eq_iff)
  moreover have "vi_tx_ring (fst (remove_conn i key)) = vi_tx_ring i"
    using Some by (simp add: remove_conn_def Let_def retire_def)
  ultimately show ?thesis by (intro sim_step) (simp_all add: ledger_retired [OF Some])
qed

lemma insert_fields:
  "snd (insert_conn now i key port st) = conn_new now port st MIN_WINDOW (vi_next_id i + 1)"
  "vi_conns (fst (insert_conn now i key port st)) = (vi_conns i)(key \<mapsto> conn_new now port st MIN_WINDOW (vi_next_id i + 1))"
  "vi_tx_ring (fst (insert_conn now i key port st)) = vi_tx_ring i"
  by (auto simp: insert_conn_def budget_open_def Let_def retire_def split: option.split)

lemma sim_insert:
  assumes "vi_next_id i \<noteq> - 1"
  shows "sim fl i fl (fst (insert_conn now i key port st))"
proof -
  let ?i = "fst (insert_conn now i key port st)" and ?n = "vi_next_id i + 1"
  let ?new = "\<lparr>sl_id = ?n, sl_held = 0, sl_heads = [], sl_window = MIN_WINDOW\<rparr>"
  have new: "slot_of (conn_new now port st MIN_WINDOW ?n) = ?new"
    by (simp add: slot_of_def conn_new_def heads_of_def)
  let ?l = "case vi_conns i key of None \<Rightarrow> ledger_of i fl
    | Some c \<Rightarrow> (ledger_of i fl)\<lparr>lg_slots := (lg_slots (ledger_of i fl))(key := None), lg_done := vi_done i @ heads_of (cn_outbound c),
        lg_budget := budget_close (vi_budget i) (cn_window c)\<rparr>"
  have "(ledger_step (vi_tx_ring i))\<^sup>*\<^sup>* (ledger_of i fl) ?l"
    by (auto split: option.split intro: ledger_retired)
  moreover have "ledger_step (vi_tx_ring i) ?l (?l\<lparr>lg_next := lg_next ?l + 1, lg_slots := (lg_slots ?l)(key \<mapsto> \<lparr>sl_id = lg_next ?l + 1, sl_held = 0, sl_heads = [], sl_window = MIN_WINDOW\<rparr>)\<rparr>)"
    using assms by (intro ledger_step.open_slot) (auto split: option.split)
  moreover have "ledger_of ?i fl = ?l\<lparr>lg_next := lg_next ?l + 1, lg_slots := (lg_slots ?l)(key \<mapsto> \<lparr>sl_id = lg_next ?l + 1, sl_held = 0, sl_heads = [], sl_window = MIN_WINDOW\<rparr>)\<rparr>"
    by (cases "vi_conns i key") (simp_all add: insert_conn_def budget_open_def Let_def retire_def ledger_simps new)
  ultimately show ?thesis by (simp add: sim_def insert_fields)
qed

section \<open>Packets of the guest\<close>

lemma sim_finish_shutdown: "sim fl i fl (finish_shutdown i key)"
  using sim_remove [of fl "queue_packet i p" key for p]
  by (auto simp: finish_shutdown_def Let_def sim_def ledger_simps split: option.split)

lemma sim_observed: "sim fl i fl (handle_observed i p)"
  by (auto intro!: sim_quiet simp: handle_observed_def Let_def ledger_simps slot_of_same split: option.split)

lemma observed_next: "vi_next_id (handle_observed i p) = vi_next_id i"
  by (auto simp: handle_observed_def Let_def split: option.split)

lemma sim_handle_shutdown: "sim fl i fl (handle_shutdown i p)"
proof (cases "vi_conns i (dst_port p, src_port p)")
  case None
  then show ?thesis by (simp add: handle_shutdown_def Let_def)
next
  case (Some c)
  then show ?thesis
    unfolding handle_shutdown_def Let_def
    by (auto intro!: sim_trans [OF sim_quiet sim_finish_shutdown] simp: ledger_simps slot_of_same)
qed

lemma sim_request:
  assumes "vi_next_id i \<noteq> - 1"
  shows "sim fl i fl (handle_request now i p)"
proof (cases "vi_listeners i (dst_port p) = Some True")
  case True
  let ?key = "(dst_port p, src_port p)" and ?i = "i\<lparr>vi_accepted := vi_accepted i @ [(dst_port p, (dst_port p, src_port p))]\<rparr>"
  obtain i2 c where ins: "insert_conn now ?i ?key (src_port p) Established = (i2, c)" by fastforce
  have "sim fl i fl ?i" by (intro sim_quiet) (simp_all add: ledger_simps)
  also have "sim fl ?i fl i2" using sim_insert [of ?i fl now ?key "src_port p" Established] assms by (simp add: ins)
  also have "sim fl i2 fl (handle_request now i p)"
    using True ins insert_fields(1,2) [of now ?i ?key "src_port p" Established]
    by (intro sim_quiet) (simp_all add: handle_request_def Let_def ledger_simps slot_of_same)
  finally show ?thesis .
next
  case False
  then show ?thesis by (intro sim_quiet) (simp_all add: handle_request_def Let_def ledger_simps)
qed

lemma sim_handle:
  assumes "vi_next_id i \<noteq> - 1"
  shows "sim fl i fl (handle now i p)"
proof (rule sim_trans [OF sim_observed])
  let ?i = "handle_observed i p"
  show "sim fl ?i fl (handle now i p)"
  proof (cases "pk_op p")
    case Rst
    then show ?thesis by (simp add: handle_def Let_def sim_remove)
  next
    case Shutdown
    then show ?thesis by (simp add: handle_def Let_def sim_handle_shutdown)
  next
    case Request
    then show ?thesis using sim_request [of ?i] assms by (simp add: handle_def Let_def observed_next)
  qed (auto intro!: sim_quiet simp: handle_def Let_def ledger_simps slot_of_same split: option.split)
qed

lemma limits_ring: "tx_limits i = (ring_limit (vi_tx_ring i), ring_share (vi_tx_ring i))"
  by (simp add: tx_limits_def ring_limit_def ring_share_def TX_SHARE_DIVISOR_def TX_RESERVE_DIVISOR_def Let_def)

text \<open>A payload is held in place, or copied and its chain given back at once.\<close>

lemma sim_guest_rw:
  assumes free: "vi_holders i h = None"
  shows "sim fl i fl (fst (handle_guest_rw copy_all rd now i p h spans))"
proof (cases "vi_conns i (dst_port p, src_port p)")
  case None
  then show ?thesis by (intro sim_quiet) (simp_all add: handle_guest_rw_def Let_def limits_ring ledger_simps)
next
  case (Some c)
  let ?key = "(dst_port p, src_port p)" and ?l = "ledger_of i fl"
  let ?hold = "\<not> copy_all \<and> cn_state c \<noteq> Closed \<and> cn_held c < ring_share (vi_tx_ring i) \<and> vi_held i < ring_limit (vi_tx_ring i)"
  show ?thesis
  proof (cases ?hold)
    case True
    have "ledger_step (vi_tx_ring i) ?l (?l\<lparr>lg_slots := (lg_slots ?l)(?key \<mapsto> (slot_of c)\<lparr>sl_held := sl_held (slot_of c) + 1, sl_heads := sl_heads (slot_of c) @ [h]\<rparr>),
        lg_held := lg_held ?l + 1, lg_holders := (lg_holders ?l)(h \<mapsto> (?key, sl_id (slot_of c)))\<rparr>)"
      using True Some free by (intro ledger_step.hold) (simp_all add: slot_of_def)
    then show ?thesis
      using True Some by (intro sim_step) (auto simp: handle_guest_rw_def Let_def limits_ring ledger_simps slot_of_same slot_of_def heads_of_def chunk_head_def)
  next
    case False
    then show ?thesis
      using Some by (intro sim_quiet) (auto simp: handle_guest_rw_def Let_def limits_ring ledger_simps slot_of_same)
  qed
qed

lemma finish_head_done: "finish_head now h (i\<lparr>vi_done := d\<rparr>) = (finish_head now h i)\<lparr>vi_done := d\<rparr>"
  by (cases i) (simp add: finish_head_def Let_def put_conn_def split: option.split prod.split)

lemma finish_heads_done: "fold (finish_head now) hs (i\<lparr>vi_done := d\<rparr>) = (fold (finish_head now) hs i)\<lparr>vi_done := d\<rparr>"
  by (induction hs arbitrary: i) (simp_all add: finish_head_done)

lemma ledger_finish_head:
  "ledger_of (finish_head now h i) fl = (ledger_of i fl)\<lparr>lg_held := vi_held i - 1, lg_holders := (vi_holders i)(h := None),
     lg_slots := uncharge h (vi_holders i) (lg_slots (ledger_of i fl))\<rparr>"
  "vi_tx_ring (finish_head now h i) = vi_tx_ring i"
  by (auto simp: finish_head_def Let_def ledger_simps uncharge_def slot_of_same fun_upd_idem split: option.split)
    (simp_all add: slot_of_def ledger_of_def)

lemma sim_finish_heads:
  "vi_done i = hs \<Longrightarrow> sim fl i fl (fold (finish_head now) hs (i\<lparr>vi_done := []\<rparr>))"
proof (induction hs arbitrary: i)
  case Nil
  then show ?case by (intro sim_quiet) (simp_all add: ledger_of_def)
next
  case (Cons h hs)
  let ?i = "(finish_head now h i)\<lparr>vi_done := hs\<rparr>"
  have "sim fl i fl ?i"
    using ledger_step.finish [of "ledger_of i fl" h hs "vi_tx_ring i"] Cons.prems
    by (intro sim_step) (simp_all add: ledger_simps ledger_finish_head)
  also have "sim fl ?i fl (fold (finish_head now) hs (?i\<lparr>vi_done := []\<rparr>))"
    using Cons.IH [of ?i] by simp
  also have "fold (finish_head now) hs (?i\<lparr>vi_done := []\<rparr>) = fold (finish_head now) (h # hs) (i\<lparr>vi_done := []\<rparr>)"
    by (simp add: finish_head_done)
  finally show ?case .
qed

section \<open>The host's operations\<close>

text \<open>Sending changes nothing that is shared.\<close>

lemma ledger_queue_data [ledger_simps]:
  "ledger_of (queue_data i key w f b) fl = ledger_of i fl" "vi_tx_ring (queue_data i key w f b) = vi_tx_ring i"
  by (auto simp: queue_data_def Let_def ledger_simps slot_of_same split: option.split)

lemma ledger_send_loop [ledger_simps]:
  "ledger_of (fst (send_loop key w f i allowed room rest)) fl = ledger_of i fl"
  "vi_tx_ring (fst (send_loop key w f i allowed room rest)) = vi_tx_ring i"
  by (induction room arbitrary: i allowed rest) (simp_all add: Let_def ledger_simps)

lemma sim_send: "sim fl i fl (fst (try_send i key b))" "sim fl i fl (fst (send_owned i key b bulk))" "sim fl i fl (fst (send_pass i key b))"
  by (auto intro!: sim_quiet simp: try_send_def send_owned_def send_pass_def Let_def ledger_simps split: option.split prod.split)
    (metis fst_conv ledger_send_loop)+

lemma sim_send_owned: "sim fl i fl (fst (try_send_owned i key b bulk))"
  using sim_send(2) [of fl i key "take MAX_PAYLOAD b" bulk] sim_send(2) [of fl i key b bulk]
  by (auto simp: try_send_owned_def split: prod.split sum.split option.split)

text \<open>A writer takes the whole queue of a connection.\<close>

lemma sim_taken:
  assumes "vi_conns i key = Some c"
  shows "sim fl i (fl @ heads_of (cn_outbound c)) (put_conn i key (c\<lparr>cn_outbound := []\<rparr>))"
  using ledger_step.take_heads [of "ledger_of i fl" key "slot_of c" "heads_of (cn_outbound c)" "[]" "vi_tx_ring i"] assms
  by (intro sim_step) (simp_all add: ledger_of_def slot_of_def put_conn_def heads_of_def fun_upd_def fun_eq_iff if_distrib cong: if_cong)

lemma read_chunks_heads:
  "read_chunks rd n cs out fin = (left, out', fin') \<Longrightarrow> \<exists>xs. fin' = fin @ xs \<and> heads_of cs = xs @ heads_of left"
proof (induction cs arbitrary: out fin)
  case (Cons c cs)
  show ?case
    using Cons.prems Cons.IH
    by (auto simp: Let_def heads_of_def chunk_head_def split: if_splits chunk.splits) fastforce+
qed (simp add: heads_of_def)

lemma sim_dropped:
  assumes "vi_conns i key = Some c" "heads_of (cn_outbound c) = xs @ heads_of left"
  shows "sim fl i fl ((put_conn i key (c\<lparr>cn_outbound := left\<rparr>))\<lparr>vi_done := vi_done i @ xs\<rparr>)"
  using ledger_step.drop_heads [of "ledger_of i fl" key "slot_of c" xs "heads_of left" "vi_tx_ring i"] assms
  by (intro sim_step) (simp_all add: ledger_simps slot_of_same, simp add: slot_of_def)

lemma sim_complete:
  "mset fl = mset hs + mset fl' \<Longrightarrow> sim fl i fl' (fst (vs_complete i hs))"
  using ledger_step.complete [of "ledger_of i fl" hs fl' "vi_tx_ring i"]
  by (intro sim_step) (auto simp: vs_complete_def Let_def ledger_of_def)

lemma sim_acknowledge: "sim fl i fl (fst (acknowledge eager now i key m))"
proof (cases "vi_conns i key")
  case None
  then show ?thesis by (simp add: acknowledge_def)
next
  case (Some c)
  define c2 where "c2 = (if 0 < m then c\<lparr>cn_credit := credit_consumed (cn_credit c) m, cn_drained := now\<rparr> else c\<lparr>cn_credit := credit_consumed (cn_credit c) m\<rparr>)"
  define c3 where "c3 = c2\<lparr>cn_unreported := saturating_add (cn_unreported c2) m\<rparr>"
  obtain b w where g: "budget_grow (vi_budget i) (cn_window c3) = (b, w)" by fastforce
  have s: "slot_of c2 = slot_of c" "slot_of c3 = slot_of c" by (simp_all add: c2_def c3_def slot_of_same)
  have "cn_window c3 = sl_window (slot_of c)" using s(2) by (simp add: slot_of_def)
  then have step: "ledger_step (vi_tx_ring i) (ledger_of i fl)
      ((ledger_of i fl)\<lparr>lg_slots := (lg_slots (ledger_of i fl))(key \<mapsto> (slot_of c)\<lparr>sl_window := w\<rparr>), lg_budget := b\<rparr>)"
    using Some g by (intro ledger_step.grow) simp_all
  have "sim fl i fl (put_conn i key c2)" "sim fl i fl (put_conn i key c3)"
    using Some s by (auto intro!: sim_quiet simp: ledger_simps)
  moreover have "sim fl i fl (queue_packet ((put_conn i key (c3\<lparr>cn_unreported := 0, cn_window := w\<rparr>))\<lparr>vi_budget := b\<rparr>) q)" for q
    using step s(2) by (intro sim_step) (simp_all add: ledger_simps slot_of_same)
  moreover have "sim fl i fl (finish_shutdown (put_conn i key c2) key)"
    by (rule sim_trans [OF calculation(1) sim_finish_shutdown])
  ultimately show ?thesis
    unfolding acknowledge_def Let_def Some option.case c2_def [symmetric] c3_def [symmetric] g prod.case by simp
qed

lemma sim_read:
  assumes "vi_conns i key = Some c" "read_chunks rd n (cn_outbound c) out [] = (left, out', xs)"
  shows "sim fl i fl ((put_conn i key (c\<lparr>cn_outbound := left\<rparr>))\<lparr>vi_done := vi_done i @ xs\<rparr>)"
  using sim_dropped [OF assms(1)] read_chunks_heads [OF assms(2)] by auto

lemma sim_try_read: "sim fl i fl (fst (try_read_outbound eager rd now i key n))"
proof (cases "vi_conns i key")
  case (Some c)
  obtain lf out xs where r: "read_chunks rd n (cn_outbound c) [] [] = (lf, out, xs)" by (metis prod_cases3)
  from sim_trans [OF sim_read [OF Some r] sim_acknowledge [where key = key]] show ?thesis
    using Some r by (simp add: try_read_outbound_def Let_def case_prod_unfold)
qed (simp add: try_read_outbound_def)

lemma sim_read_pass: "sim fl i fl (fst (read_exact_pass eager rd now i key n out0))"
proof (cases "vi_conns i key")
  case (Some c)
  obtain lf out xs where r: "read_chunks rd n (cn_outbound c) out0 [] = (lf, out, xs)" by (metis prod_cases3)
  from sim_trans [OF sim_read [OF Some r] sim_acknowledge [where key = key]] sim_read [OF Some r] show ?thesis
    using Some r by (simp add: read_exact_pass_def Let_def case_prod_unfold)
qed (simp add: read_exact_pass_def)

lemma sim_shutdown: "sim fl i fl (fst (vs_shutdown now i key))"
proof (cases "vi_conns i key")
  case (Some c)
  have "slot_of (if cn_state c \<noteq> Closed then c\<lparr>cn_state := Closed, cn_since := now\<rparr> else c) = slot_of c"
    by (simp add: slot_of_same)
  then show ?thesis
    using Some ledger_step.drop_heads [of "ledger_of i fl" key "slot_of c" "heads_of (cn_outbound c)" "[]" "vi_tx_ring i"]
    by (intro sim_step) (auto simp: vs_shutdown_def Let_def ledger_simps slot_of_same slot_of_def heads_of_def)
qed (simp add: vs_shutdown_def)

lemma sim_open:
  assumes "vi_next_id i \<noteq> - 1"
  shows "sim fl i fl (fst (vs_open now i port fd))"
proof -
  let ?i = "i\<lparr>vi_next_port := max (vi_next_port i + 1) FIRST_EPHEMERAL_PORT\<rparr>" and ?key = "(vi_next_port i, port)"
  obtain i2 c where ins: "insert_conn now ?i ?key port Connecting = (i2, c)" by fastforce
  have "sim fl i fl ?i" by (intro sim_quiet) (simp_all add: ledger_simps)
  also have "sim fl ?i fl i2" using sim_insert [of ?i fl now ?key port Connecting] assms by (simp add: ins)
  also have "sim fl i2 fl (fst (vs_open now i port fd))"
    using ins insert_fields(1,2) [of now ?i ?key port Connecting]
    by (intro sim_quiet) (simp_all add: vs_open_def Let_def ledger_simps slot_of_same)
  finally show ?thesis .
qed

section \<open>The warden\<close>

lemma sim_end_conn: "sim fl i fl (end_conn key st i)"
proof -
  have "sim fl i fl (queue_packet i (rst_packet key))" by (intro sim_quiet) (simp_all add: ledger_simps)
  also have "sim fl (queue_packet i (rst_packet key)) fl (fst (remove_conn (queue_packet i (rst_packet key)) key))" by (rule sim_remove)
  also have "sim fl (fst (remove_conn (queue_packet i (rst_packet key)) key)) fl (end_conn key st i)"
    by (intro sim_quiet) (simp_all add: end_conn_def Let_def ledger_simps)
  finally show ?thesis .
qed

lemma sim_cut_window: "sim fl i fl (cut_window key stalled i)"
proof (cases "vi_conns i key")
  case (Some c)
  obtain b w where s: "budget_shrink (vi_budget i) (cn_window c) = (b, w)" by fastforce
  show ?thesis
    using Some s ledger_step.shrink [of "ledger_of i fl" key "slot_of c" b w "vi_tx_ring i"]
    by (intro sim_step) (simp_all add: cut_window_def Let_def ledger_simps slot_of_same, simp add: slot_of_def)
qed (simp add: cut_window_def)

lemma sim_watchdog: "sim fl i fl (fst (watchdog now ks i))"
proof -
  have "sim fl i fl (i\<lparr>vi_ring_full_since := t\<rparr>)" for t by (intro sim_quiet) (simp_all add: ledger_simps)
  moreover have "sim fl i fl ((fst (remove_conn (call_socket ShutBoth c (queue_packet (i\<lparr>vi_ring_full_since := t\<rparr>) p)) key))
      \<lparr>vi_warden := w, vi_ring_full_since := t'\<rparr>)" for t c p key w t'
  proof -
    let ?i = "call_socket ShutBoth c (queue_packet (i\<lparr>vi_ring_full_since := t\<rparr>) p)"
    have "sim fl i fl ?i" by (intro sim_quiet) (simp_all add: ledger_simps)
    also have "sim fl ?i fl (fst (remove_conn ?i key))" by (rule sim_remove)
    also have "sim fl (fst (remove_conn ?i key)) fl ((fst (remove_conn ?i key))\<lparr>vi_warden := w, vi_ring_full_since := t'\<rparr>)"
      by (intro sim_quiet) (simp_all add: ledger_simps)
    finally show ?thesis .
  qed
  ultimately show ?thesis by (auto simp: watchdog_def Let_def split: option.split)
qed

lemma sim_fold: "(\<And>x i. sim fl i fl (f x i)) \<Longrightarrow> sim fl i fl (fold f xs i)"
proof (induction xs arbitrary: i)
  case (Cons x xs)
  show ?case using sim_trans [OF Cons.prems Cons.IH [OF Cons.prems]] by simp
qed simp

lemma sim_sweep: "sim fl i fl (fst (sweep now ks i))"
proof -
  have ended: "sim fl i fl (fold (\<lambda>(k, c). end_conn k (cn_state c)) xs i)" for xs
    by (rule sim_fold) (auto simp: sim_end_conn)
  have cut: "sim fl j fl (fold (\<lambda>(k, c). cut_window k (0 < buffered c)) xs j)" for j xs
    by (rule sim_fold) (auto simp: sim_cut_window)
  have "sim fl i fl (fst (watchdog now ks (fold (\<lambda>(k, c). cut_window k (0 < buffered c)) xs
      (fold (\<lambda>(k, c). end_conn k (cn_state c)) ys i))))" for xs ys
    by (rule sim_trans [OF sim_trans [OF ended cut] sim_watchdog])
  then show ?thesis by (simp add: sweep_def Let_def case_prod_unfold)
qed

lemma sim_abandon: "sim fl i fl (fst (abandon i key))"
proof -
  obtain i1 was where r: "remove_conn i key = (i1, was)" by fastforce
  have "sim fl i fl i1" using sim_remove [of fl i key] by (simp add: r)
  also have "sim fl i1 fl (fst (abandon i key))" by (intro sim_quiet) (simp_all add: abandon_def r ledger_simps)
  finally show ?thesis .
qed

lemma host_refines: "host_step w w' \<Longrightarrow> sim (snd w) (fst w) (snd w') (fst w')"
proof (induction rule: host_step.induct)
  case (taken i key i' cs fl)
  then show ?case by (auto simp: try_take_outbound_def sim_taken split: option.splits if_splits)
next
  case (taken_pass i key i' cs fl)
  then show ?case by (auto simp: take_pass_def sim_taken split: option.splits if_splits)
next
  case (attached i fl key fd)
  then show ?case by (auto intro!: sim_quiet simp: vs_attach_def Let_def ledger_simps slot_of_same split: option.split)
next
  case (half_shut i fl key)
  then show ?case by (auto intro!: sim_quiet simp: shutdown_write_def ledger_simps split: option.split)
next
  case (labelled i fl key name)
  then show ?case by (auto intro!: sim_quiet simp: vs_label_def ledger_simps slot_of_same split: option.split)
qed (simp_all add: sim_open sim_complete sim_try_read sim_read_pass sim_acknowledge
    sim_shutdown sim_abandon sim_sweep sim_quiet ledger_simps vs_listen_def take_touched_def)

lemma send_refines: "send_step key data i n i' \<Longrightarrow> sim fl i fl i'"
  using sim_send(1,3) [of fl i key data] sim_send_owned [of fl i key data]
  by (auto elim!: send_step.cases) (metis fst_conv)+

lemma step_refines: "vsock_step w w' \<Longrightarrow> sim (snd w) (fst w) (snd w') (fst w')"
  by (induction rule: vsock_step.induct)
    (simp_all add: sim_handle sim_guest_rw sim_finish_heads finish_done_def sim_quiet ledger_simps host_refines send_refines)

section \<open>What holds of the table at every moment\<close>

definition vsock_start :: "nat \<Rightarrow> nat \<Rightarrow> vsock_inner" where
  "vsock_start now ring = (vsock_new now)\<lparr>vi_tx_ring := ring\<rparr>"

lemma run_refines:
  "vsock_step\<^sup>*\<^sup>* w w' \<Longrightarrow> sim (snd w) (fst w) (snd w') (fst w')"
  by (induction rule: rtranclp_induct) (auto intro: sim_trans step_refines)

lemma start_ok: "chains_ok ring (ledger_of (vsock_start now ring) [])" "windows_ok (ledger_of (vsock_start now ring) [])"
proof -
  have e: "lg_slots (ledger_of (vsock_start now ring) []) = Map.empty" "vi_holders (vsock_start now ring) = Map.empty"
    "vi_held (vsock_start now ring) = 0" "vi_done (vsock_start now ring) = []" "vi_budget (vsock_start now ring) = budget_default"
    by (simp_all add: vsock_start_def vsock_new_def ledger_of_def)
  show "chains_ok ring (ledger_of (vsock_start now ring) [])" unfolding chains_ok_def e(1) by (simp add: e queued_def)
  show "windows_ok (ledger_of (vsock_start now ring) [])"
    unfolding windows_ok_def e(1) by (simp add: e slots_sum_def budget_default_def budget_new_def)
qed

lemma reach_ok:
  assumes "vsock_step\<^sup>*\<^sup>* (vsock_start now ring, []) (i, fl)"
  shows "chains_ok ring (ledger_of i fl)" "windows_ok (ledger_of i fl)" "vi_tx_ring i = ring"
proof -
  have s: "vi_tx_ring (vsock_start now ring) = ring" by (simp add: vsock_start_def)
  then have r: "(ledger_step ring)\<^sup>*\<^sup>* (ledger_of (vsock_start now ring) []) (ledger_of i fl)" and "vi_tx_ring i = ring"
    using run_refines [OF assms] by (simp_all add: sim_def)
  then show "vi_tx_ring i = ring" by simp
  show "chains_ok ring (ledger_of i fl)"
    using r start_ok(1) by (induction rule: rtranclp_induct) (auto intro: ledger_chains)
  show "windows_ok (ledger_of i fl)"
    using r start_ok(2) by (induction rule: rtranclp_induct) (auto intro: ledger_windows)
qed

lemma conn_slot: "vi_conns i key = Some c \<Longrightarrow> lg_slots (ledger_of i fl) key = Some (slot_of c)"
  by simp

lemma finish_outbound:
  "map_option cn_outbound (vi_conns (fold (finish_head now) hs i) key) = map_option cn_outbound (vi_conns i key)"
proof (induction hs arbitrary: i)
  case (Cons h hs)
  have "map_option cn_outbound (vi_conns (finish_head now h i) key) = map_option cn_outbound (vi_conns i key)"
    by (auto simp: finish_head_def Let_def split: option.split)
  then show ?case using Cons.IH by simp
qed simp

text \<open>The chains queued on the connections of a table.\<close>

definition table_heads :: "vsock_inner \<Rightarrow> u16 set" where
  "table_heads i = (\<Union>c \<in> ran (vi_conns i). set (heads_of (cn_outbound c)))"

lemma queued_table: "queued (lg_slots (ledger_of i fl)) = table_heads i"
proof -
  have "lg_slots (ledger_of i fl) = (\<lambda>k. map_option slot_of (vi_conns i k))" by (simp add: ledger_of_def)
  then have "ran (lg_slots (ledger_of i fl)) = slot_of ` ran (vi_conns i)" by (simp add: ran_map_option)
  then show ?thesis by (simp add: queued_def table_heads_def slot_of_def)
qed

lemma table_heads_outbound:
  assumes "\<And>key. map_option cn_outbound (vi_conns j key) = map_option cn_outbound (vi_conns i key)"
  shows "table_heads j = table_heads i"
proof -
  have "table_heads k = (\<Union>cs \<in> ran (\<lambda>key. map_option cn_outbound (vi_conns k key)). set (heads_of cs))" for k
    by (simp add: table_heads_def ran_map_option)
  then show ?thesis by (simp add: assms)
qed

text \<open>C34: The connection table implements the ledger. Whatever a step of the table is, a packet of the guest, a payload
  held or copied, a host thread's operation, a writer's batch, a sweep of the warden, what it does to the transmit
  ring and to the window budget is a sequence of the ledger's steps: open or close a slot, charge a chain within the slot's
  share and the ring's limit, move chains from the queue to a writer or towards the guest, give one back and
  uncharge it, grow or shrink a window against the budget.\<close>

theorem table_refines_ledger:
  assumes "vsock_step (i, fl) (i', fl')"
  shows "(ledger_step (vi_tx_ring i))\<^sup>*\<^sup>* (ledger_of i fl) (ledger_of i' fl')"
  using step_refines [OF assms] by (simp add: sim_def)

text \<open>C2: No transmit chain is lost or counted twice, and no connection starves the others. However packets, host
  threads, writers and the warden interleave, from an empty table: the chains held are exactly those
  queued on a connection, with a writer, or done, each in one place only; a chain queued on a connection is charged to it; the counts are right
  and each connection is charged at most a quarter of the ring, all together at most three quarters, so a
  driver always has chains left for control packets; and one look at the ring returns all
  but those still queued or with a writer, so when the streams are idle every chain is back.\<close>

theorem held_chains_accounted:
  assumes run: "vsock_step\<^sup>*\<^sup>* (vsock_start t0 ring, []) (i, fl)"
  shows "dom (vi_holders i) = table_heads i \<union> set (vi_done i) \<union> set fl \<and> distinct (vi_done i @ fl) \<and>
    table_heads i \<inter> (set (vi_done i) \<union> set fl) = {} \<and>
    vi_held i = card (dom (vi_holders i)) \<and> vi_held i \<le> max ring 4 - max ring 4 div 4 \<and>
    (\<forall>key c. vi_conns i key = Some c \<longrightarrow>
       distinct (heads_of (cn_outbound c)) \<and> (\<forall>h \<in> set (heads_of (cn_outbound c)). vi_holders i h = Some (key, cn_id c)) \<and>
       cn_held c = card {h. vi_holders i h = Some (key, cn_id c)} \<and> cn_held c \<le> max ring 4 div 4) \<and>
    vi_held (fst (finish_done now i)) = card (table_heads i \<union> set fl)"
proof (intro conjI allI impI)
  note ok = reach_ok(1) [OF run]
  show "dom (vi_holders i) = table_heads i \<union> set (vi_done i) \<union> set fl" "distinct (vi_done i @ fl)"
    "vi_held i = card (dom (vi_holders i))" "vi_held i \<le> max ring 4 - max ring 4 div 4"
    using chains_okD(2-5) [OF ok] by (simp_all add: queued_table ring_limit_def)
  show "table_heads i \<inter> (set (vi_done i) \<union> set fl) = {}"
    using chains_okD(1) [OF ok conn_slot] by (fastforce simp: table_heads_def ran_def slot_ok_def slot_of_def)
  fix key c assume c: "vi_conns i key = Some c"
  have "slot_ok ring (ledger_of i fl) key (slot_of c)" using chains_okD(1) [OF ok conn_slot [OF c]] .
  then show "distinct (heads_of (cn_outbound c))" "\<forall>h \<in> set (heads_of (cn_outbound c)). vi_holders i h = Some (key, cn_id c)"
    "cn_held c = card {h. vi_holders i h = Some (key, cn_id c)}" "cn_held c \<le> max ring 4 div 4"
    by (auto simp: slot_ok_def slot_of_def charged_def ring_share_def)
next
  let ?i = "fst (finish_done now i)"
  have "vsock_step\<^sup>*\<^sup>* (vsock_start t0 ring, []) (?i, fl)" using run vsock_step.returned by (rule rtranclp.rtrancl_into_rtrancl)
  from chains_okD(3,4) [OF reach_ok(1) [OF this]]
  have "vi_held ?i = card (table_heads ?i \<union> set (vi_done ?i) \<union> set fl)" by (simp add: queued_table)
  moreover have "vi_done ?i = []" by (simp add: finish_done_def finish_heads_done)
  moreover have "table_heads ?i = table_heads i"
    using finish_outbound [of now "vi_done i" "i\<lparr>vi_done := []\<rparr>"] by (intro table_heads_outbound) (simp add: finish_done_def)
  ultimately show "vi_held ?i = card (table_heads i \<union> set fl)" by simp
qed


section \<open>The properties at work\<close>

text \<open>A guest connects to a port the host answers and sends ten bytes, which are held in chain 5.\<close>

definition demo_table :: vsock_inner where
  "demo_table = handle 0 (vs_listen (vsock_start 0 256) 7000) ((packet_control Request 40000 7000)\<lparr>buf_alloc := 65536\<rparr>)"

definition demo_held :: vsock_inner where
  "demo_held = fst (handle_guest_rw False (\<lambda>_. None) 10 demo_table (packet_control Rw 40000 7000) 5 [(4096, 10)])"

lemma demo_table_fields:
  "vi_holders demo_table = Map.empty" "vi_held demo_table = 0" "vi_tx_ring demo_table = 256" "vi_done demo_table = []"
  "vi_conns demo_table = [(7000, 40000) \<mapsto> (conn_new 0 40000 Established MIN_WINDOW 1)\<lparr>cn_credit := credit_observe credit_new 65536 0\<rparr>]"
  by (simp_all add: demo_table_def handle_def handle_observed_def handle_request_def vs_listen_def vsock_start_def vsock_new_def
      Let_def packet_control_def insert_conn_def budget_open_def put_conn_def queue_packet_def conn_new_def)

lemma demo_held_fields:
  "vi_holders demo_held = [5 \<mapsto> ((7000, 40000), 1)]" "vi_held demo_held = 1" "vi_done demo_held = []"
  "map_option cn_outbound (vi_conns demo_held (7000, 40000)) = Some [InGuest 5 [(4096, 10)]]"
  "map_option cn_held (vi_conns demo_held (7000, 40000)) = Some 1"
  by (simp_all add: demo_held_def handle_guest_rw_def Let_def limits_ring demo_table_fields packet_control_def conn_new_def
      ring_share_def ring_limit_def touch_def put_conn_def)

lemma demo_steps:
  "vsock_step\<^sup>*\<^sup>* (vsock_start 0 256, []) (demo_table, [])" "vsock_step (demo_table, []) (demo_held, [])"
proof -
  have "vsock_step (vsock_start 0 256, []) (vs_listen (vsock_start 0 256) 7000, [])" by (rule vsock_step.host [OF host_step.listened])
  moreover have "vsock_step (vs_listen (vsock_start 0 256) 7000, []) (demo_table, [])"
    unfolding demo_table_def by (rule vsock_step.packet) (simp add: vs_listen_def vsock_start_def vsock_new_def)
  ultimately show "vsock_step\<^sup>*\<^sup>* (vsock_start 0 256, []) (demo_table, [])" by simp
  show "vsock_step (demo_table, []) (demo_held, [])"
    unfolding demo_held_def by (rule vsock_step.payload) (simp add: demo_table_fields)
qed

theorem table_refines_ledger_witness:
  "(ledger_step 256)\<^sup>*\<^sup>* (ledger_of demo_table []) (ledger_of demo_held []) \<and> lg_held (ledger_of demo_held []) = 1"
  using table_refines_ledger [OF demo_steps(2)] by (simp add: demo_table_fields demo_held_fields)

theorem held_chains_accounted_witness:
  "dom (vi_holders demo_held) = {5} \<and> table_heads demo_held = {5} \<and> vi_held demo_held = 1 \<and> vi_held demo_held \<le> 192 \<and>
   vi_held (fst (finish_done 20 demo_held)) = 1"
proof -
  have "vsock_step\<^sup>*\<^sup>* (vsock_start 0 256, []) (demo_held, [])" using demo_steps by (rule rtranclp.rtrancl_into_rtrancl)
  note p = held_chains_accounted [OF this, of 20]
  have d: "dom (vi_holders demo_held) = {5}" by (simp add: demo_held_fields)
  moreover have "vi_held demo_held \<le> max 256 4 - max 256 4 div 4" using p by blast
  moreover have "table_heads demo_held = {5}" using p d by (simp add: demo_held_fields(3))
  moreover have "vi_held (fst (finish_done 20 demo_held)) = card (table_heads demo_held \<union> set [])" using p by blast
  ultimately show ?thesis by (simp add: demo_held_fields(2))
qed


end
