(* ===== verification/Vsock_Device.thy ===== *)
theory Vsock_Device
  imports Virtio_Drain Vsock_Host
begin

text \<open>
  The vsock device, \<^verbatim>\<open>Vsock\<close> of \<^verbatim>\<open>virtio/vsock/mod.rs\<close>: reading the guest's packets off the transmit ring, filling its
  receive buffers from the outbox, and the device trait. The device's state is the table beside the number
  of readings made of the clock \<open>clk\<close>; \<open>copy_all\<close> and \<open>rx_depth\<close> are the two environment variables.
\<close>

definition read_span :: "guest_memory \<Rightarrow> u64 \<times> nat \<Rightarrow> bytes option" where
  "read_span mem s = result_ok (gm_peek mem (fst s) (of_nat (snd s)))"

section \<open>Transmit\<close>

text \<open>A chain's header and the spans of its payload: the first part of a descriptor completes the header.\<close>

definition tx_header :: "guest_memory \<Rightarrow> bytes \<Rightarrow> nat \<Rightarrow> descriptor \<Rightarrow> (bytes \<times> nat \<times> u64 \<times> nat) option" where
  "tx_header mem hdr declared d =
     (if length hdr < HDR_LEN
      then
        let n = min (unat (d_len d)) (HDR_LEN - length hdr) in
        (case gm_peek mem (d_addr d) (of_nat n) of
           Ok bs \<Rightarrow>
             let hdr' = hdr @ bs;
                 declared' = (if length hdr' = HDR_LEN then unat (from_le_bytes (slice_at 24 4 hdr') :: u32) else declared) in
             if length hdr' = HDR_LEN \<and> MAX_PAYLOAD < declared' then None
             else Some (hdr', declared', d_addr d + of_nat n, unat (d_len d) - n)
         | _ \<Rightarrow> None)
      else Some (hdr, declared, d_addr d, unat (d_len d)))"

primrec tx_scan :: "guest_memory \<Rightarrow> bytes \<Rightarrow> nat \<Rightarrow> (u64 \<times> nat) list \<Rightarrow> descriptor list \<Rightarrow> (bytes \<times> nat \<times> (u64 \<times> nat) list) option" where
  "tx_scan mem hdr declared spans [] = Some (hdr, declared, spans)"
| "tx_scan mem hdr declared spans (d # ds) =
     (if is_write_only d then tx_scan mem hdr declared spans ds
      else case tx_header mem hdr declared d of
             None \<Rightarrow> None
           | Some (hdr', declared', addr, len) \<Rightarrow>
               let so_far = sum_list (map snd spans);
                   n = min len (declared' - so_far) in
               if len = 0 \<or> declared' \<le> so_far then tx_scan mem hdr' declared' spans ds
               else case region_for_release mem addr (of_nat n) of
                      Ok _ \<Rightarrow> tx_scan mem hdr' declared' (spans @ [(addr, n)]) ds
                    | _ \<Rightarrow> None)"

definition tx_parse :: "guest_memory \<Rightarrow> chain \<Rightarrow> (packet \<times> (u16 \<times> (u64 \<times> nat) list) option) option" where
  "tx_parse mem c =
     (case tx_scan mem [] 0 [] (chain_descs mem c) of
        None \<Rightarrow> None
      | Some (hdr, declared, spans) \<Rightarrow>
          if length hdr = HDR_LEN \<and> sum_list (map snd spans) = declared
          then map_option (\<lambda>p.
                 if pk_op p \<noteq> Rw \<and> 0 < declared
                 then (p\<lparr>payload := concat (map (\<lambda>s. case read_span mem s of Some bs \<Rightarrow> bs | None \<Rightarrow> replicate (snd s) 0) spans)\<rparr>, None)
                 else if 0 < declared then (p, Some (head c, spans))
                 else (p, None)) (header_only hdr)
          else None)"

type_synonym tx_entry = "packet \<times> (u16 \<times> (u64 \<times> nat) list) option"

text \<open>One chain off the ring: it goes back unless its payload stays in it.\<close>

definition tx_take ::
  "virtqueue \<Rightarrow> guest_memory \<Rightarrow> chain \<Rightarrow> (memory_error, tx_entry list \<times> virtqueue \<times> guest_memory \<times> bool) result" where
  "tx_take q mem c =
     (case tx_parse mem c of
        None \<Rightarrow> result_bind (push_used q mem (head c) 0) (\<lambda>(q', mem'). Ok ([], q', mem', True))
      | Some (p, Some g) \<Rightarrow> Ok ([(p, Some g)], q, mem, False)
      | Some (p, None) \<Rightarrow> result_bind (push_used q mem (head c) 0) (\<lambda>(q', mem'). Ok ([(p, None)], q', mem', True)))"

partial_function (option) tx_pop ::
  "virtqueue \<Rightarrow> guest_memory \<Rightarrow> bool \<Rightarrow> tx_entry list \<Rightarrow> (memory_error, tx_entry list \<times> virtqueue \<times> guest_memory \<times> bool) run" where
  "tx_pop q mem used packets =
     run_bind (Some (pop q mem)) (\<lambda>(q1, oc). case oc of
        None \<Rightarrow> Some (Ok (packets, q1, mem, used))
      | Some c \<Rightarrow> run_bind (Some (tx_take q1 mem c)) (\<lambda>(es, q2, mem2, back_now).
          tx_pop q2 mem2 (used \<or> back_now) (packets @ es)))"

fun push_heads :: "virtqueue \<Rightarrow> guest_memory \<Rightarrow> u16 list \<Rightarrow> (memory_error, virtqueue \<times> guest_memory) result" where
  "push_heads q mem [] = Ok (q, mem)"
| "push_heads q mem (h # hs) = result_bind (push_used q mem h 0) (\<lambda>(q', mem'). push_heads q' mem' hs)"

definition complete_done ::
  "nat \<Rightarrow> vsock_inner \<Rightarrow> virtqueue \<Rightarrow> guest_memory \<Rightarrow> (memory_error, vsock_inner \<times> virtqueue \<times> guest_memory \<times> bool) result" where
  "complete_done now i q mem =
     (let (i', heads) = finish_done now i in
      result_bind (push_heads q mem heads) (\<lambda>(q', mem'). Ok (i', q', mem', heads \<noteq> [])))"

fun tx_handle ::
  "bool \<Rightarrow> (nat \<Rightarrow> nat) \<Rightarrow> vsock_inner \<times> nat \<Rightarrow> virtqueue \<Rightarrow> guest_memory \<Rightarrow> bool \<Rightarrow> tx_entry list \<Rightarrow>
   (memory_error, (vsock_inner \<times> nat) \<times> virtqueue \<times> guest_memory \<times> bool) result" where
  "tx_handle copy_all clk (i, r) q mem used [] = Ok ((i, r), q, mem, used)"
| "tx_handle copy_all clk (i, r) q mem used ((p, g) # es) =
     (case g of
        None \<Rightarrow> tx_handle copy_all clk (handle (clk r) i p, Suc r) q mem used es
      | Some (h, spans) \<Rightarrow>
          (case handle_guest_rw copy_all (read_span mem) (clk r) i p h spans of
             (i1, True) \<Rightarrow> tx_handle copy_all clk (i1, Suc r) q mem used es
           | (i1, False) \<Rightarrow> result_bind (push_used q mem h 0) (\<lambda>(q1, mem1). tx_handle copy_all clk (i1, Suc r) q1 mem1 True es)))"

definition drain_tx ::
  "bool \<Rightarrow> (nat \<Rightarrow> nat) \<Rightarrow> vsock_inner \<times> nat \<Rightarrow> virtqueue \<Rightarrow> guest_memory \<Rightarrow>
   (memory_error, (vsock_inner \<times> nat) \<times> virtqueue \<times> guest_memory \<times> bool) run" where
  "drain_tx copy_all clk d q mem =
     run_bind (tx_pop q mem False []) (\<lambda>(packets, q1, mem1, used).
     run_bind (Some (tx_handle copy_all clk ((fst d)\<lparr>vi_tx_ring := unat (qsize q1)\<rparr>, snd d) q1 mem1 used packets)) (\<lambda>((i, r), q2, mem2, used2).
     run_bind (Some (complete_done (clk r) i q2 mem2)) (\<lambda>(i', q3, mem3, finished).
       Some (Ok ((i', Suc r), q3, mem3, used2 \<or> finished)))))"

section \<open>Receive\<close>

text \<open>Header, then payload, into the writable descriptors; how far it got.\<close>

definition rx_span :: "guest_memory \<Rightarrow> bytes \<Rightarrow> bytes \<Rightarrow> nat \<Rightarrow> descriptor \<Rightarrow> (guest_memory \<times> nat) \<times> bool" where
  "rx_span mem hdr body offset d =
     (let n = (if offset < HDR_LEN then min (unat (d_len d)) (HDR_LEN - offset) else 0);
          r = (if offset < HDR_LEN then gm_poke mem (d_addr d) (slice_at offset n hdr) else Ok mem);
          offset1 = offset + n;
          room = unat (d_len d) - n;
          k = min room (HDR_LEN + length body - offset1) in
      case r of
        Ok mem1 \<Rightarrow>
          if 0 < room \<and> HDR_LEN \<le> offset1 \<and> offset1 < HDR_LEN + length body
          then (case gm_poke mem1 (d_addr d + of_nat n) (slice_at (offset1 - HDR_LEN) k body) of
                  Ok mem2 \<Rightarrow> ((mem2, offset1 + k), True)
                | _ \<Rightarrow> ((mem1, offset1), False))
          else ((mem1, offset1), True)
      | _ \<Rightarrow> ((mem, offset), False))"

primrec rx_write :: "bytes \<Rightarrow> bytes \<Rightarrow> descriptor list \<Rightarrow> guest_memory \<times> nat \<Rightarrow> guest_memory \<times> nat" where
  "rx_write hdr body [] s = s"
| "rx_write hdr body (d # ds) s =
     (if HDR_LEN + length body \<le> snd s then s
      else let (s', go_on) = rx_span (fst s) hdr body (snd s) d in
           if go_on then rx_write hdr body ds s' else s')"

text \<open>A packet too big for the buffer: what fits, and the rest back at the front.\<close>

definition split_packet :: "outbox \<Rightarrow> packet \<Rightarrow> nat \<Rightarrow> outbox \<times> packet" where
  "split_packet ob p room =
     (if room < length (payload p)
      then (push_front ob ((packet_control (pk_op p) (src_port p) (dst_port p))
              \<lparr>payload := drop room (payload p), buf_alloc := buf_alloc p, fwd_cnt := fwd_cnt p\<rparr>),
            p\<lparr>payload := take room (payload p)\<rparr>)
      else (ob, p))"

text \<open>One buffer: what it takes of the first packet, \<open>p0\<close>, of the outbox, with \<open>ob0\<close> behind it. The packet written is
  returned; the loop keeps them, \<open>None\<close> for a buffer too small, and has used a buffer when there is one.\<close>

definition rx_fill ::
  "packet \<Rightarrow> outbox \<Rightarrow> outbox \<Rightarrow> virtqueue \<Rightarrow> guest_memory \<Rightarrow> chain \<Rightarrow> (memory_error, outbox \<times> virtqueue \<times> guest_memory \<times> packet option) result" where
  "rx_fill p0 ob0 ob q mem c =
     (let writable = filter is_write_only (chain_descs mem c);
          capacity = sum_list (map (\<lambda>d. unat (d_len d)) writable) in
      if capacity \<le> HDR_LEN
      then result_bind (push_used q mem (head c) 0) (\<lambda>(q', mem'). Ok (ob, q', mem', None))
      else
        let (ob1, p) = split_packet ob0 p0 (capacity - HDR_LEN);
            (mem1, offset) = rx_write (header_bytes p) (payload p) writable (mem, 0) in
        result_bind (push_used q mem1 (head c) (of_nat offset)) (\<lambda>(q', mem'). Ok (ob1, q', mem', Some p)))"

partial_function (option) rx_loop ::
  "outbox \<Rightarrow> virtqueue \<Rightarrow> guest_memory \<Rightarrow> packet option list \<Rightarrow>
   (memory_error, outbox \<times> virtqueue \<times> guest_memory \<times> packet option list) run" where
  "rx_loop ob q mem given =
     (case pop_front ob of
        None \<Rightarrow> Some (Ok (ob, q, mem, given))
      | Some (p0, ob0) \<Rightarrow>
          run_bind (Some (pop q mem)) (\<lambda>(q1, oc). case oc of
             None \<Rightarrow> Some (Ok (ob, q1, mem, given))
           | Some c \<Rightarrow> run_bind (Some (rx_fill p0 ob0 ob q1 mem c)) (\<lambda>(ob', q2, mem2, op). rx_loop ob' q2 mem2 (given @ [op]))))"

definition drain_rx ::
  "vsock_inner \<times> nat \<Rightarrow> virtqueue \<Rightarrow> guest_memory \<Rightarrow> (memory_error, (vsock_inner \<times> nat) \<times> virtqueue \<times> guest_memory \<times> bool) run" where
  "drain_rx d q mem =
     run_bind (rx_loop (vi_outbox (fst d)) q mem []) (\<lambda>(ob, q', mem', given).
       Some (Ok (((fst d)\<lparr>vi_outbox := ob\<rparr>, snd d), q', mem', given \<noteq> [])))"

section \<open>The device\<close>

definition on_queue ::
  "virtqueue list \<Rightarrow> u16 \<Rightarrow> 'd \<Rightarrow> guest_memory \<Rightarrow> (virtqueue \<Rightarrow> (memory_error, 'd \<times> virtqueue \<times> guest_memory \<times> bool) run) \<Rightarrow>
   (memory_error, 'd \<times> virtqueue list \<times> guest_memory \<times> serviced) run" where
  "on_queue qs index d mem f =
     (if length qs \<le> unat index then Some (Ok (d, qs, mem, 0))
      else run_bind (f (qs ! unat index)) (\<lambda>(d', q', mem', used).
        Some (Ok (d', qs[unat index := q'], mem', serviced_queue_if index used))))"

definition vsock_notify ::
  "bool \<Rightarrow> (nat \<Rightarrow> nat) \<Rightarrow> vsock_inner \<times> nat \<Rightarrow> u16 \<Rightarrow> virtqueue list \<Rightarrow> guest_memory \<Rightarrow>
   (memory_error, (vsock_inner \<times> nat) \<times> virtqueue list \<times> guest_memory \<times> serviced) run" where
  "vsock_notify copy_all clk d queue qs mem =
     run_bind
       (if queue = TX_QUEUE then on_queue qs TX_QUEUE d mem (\<lambda>q. drain_tx copy_all clk d q mem)
        else if queue = RX_QUEUE then on_queue qs RX_QUEUE d mem (\<lambda>q. drain_rx d q mem)
        else Some (Ok (d, qs, mem, 0))) (\<lambda>(d1, qs1, mem1, s1).
     run_bind
       (on_queue qs1 TX_QUEUE d1 mem1 (\<lambda>q.
          run_bind (Some (complete_done (clk (snd d1)) (fst d1) q mem1)) (\<lambda>(i, q', mem', finished).
            Some (Ok ((i, Suc (snd d1)), q', mem', finished))))) (\<lambda>(d2, qs2, mem2, s2).
     if queue = TX_QUEUE
     then run_bind (on_queue qs2 RX_QUEUE d2 mem2 (\<lambda>q. drain_rx d2 q mem2)) (\<lambda>(d3, qs3, mem3, s3).
       Some (Ok (d3, qs3, mem3, serviced_and (serviced_and s1 s2) s3)))
     else Some (Ok (d2, qs2, mem2, serviced_and s1 s2))))"

definition vsock_queue_max :: "u16 option \<Rightarrow> u16 \<Rightarrow> u16" where
  "vsock_queue_max rx_depth queue =
     (if queue \<noteq> RX_QUEUE then MAX_QUEUE_SIZE
      else min (max (case rx_depth of Some n \<Rightarrow> n | None \<Rightarrow> RX_RING_DEPTH) 8) MAX_QUEUE_SIZE)"

definition vsock_config_read :: "u64 \<Rightarrow> nat \<Rightarrow> bytes" where
  "vsock_config_read offset n =
     map (\<lambda>k. let config = to_le_bytes GUEST_CID in if unat offset + k < length config then config ! (unat offset + k) else 0) [0 ..< n]"

definition vsock_reset :: "vsock_inner \<Rightarrow> vsock_inner" where
  "vsock_reset i = i\<lparr>vi_touched := [], vi_touched_all := True, vi_conns := (\<lambda>_. None), vi_outbox := outbox_default\<rparr>"

definition vsock_device :: "bool \<Rightarrow> u16 option \<Rightarrow> (nat \<Rightarrow> nat) \<Rightarrow> (vsock_inner \<times> nat) virtio_device" where
  "vsock_device copy_all rx_depth clk =
     \<lparr>vd_type = 19, vd_features = (\<lambda>_. COMMON_FEATURES), vd_ack_features = (\<lambda>d _. d), vd_queue_count = (\<lambda>_. 3),
      vd_queue_max_size_of = (\<lambda>_. vsock_queue_max rx_depth), vd_shm_regions = (\<lambda>_. []),
      vd_config_read = (\<lambda>_. vsock_config_read), vd_config_write = (\<lambda>d _ _. d), vd_activate = (\<lambda>d. d),
      vd_notify = vsock_notify copy_all clk, vd_retry_deadline = no_deadline, vd_retry_deferred = no_retry,
      vd_reset = (\<lambda>(i, r). (vsock_reset i, r))\<rparr>"

section \<open>The contract of a device\<close>

text \<open>Every loop over a ring leaves its configuration alone.\<close>

lemma tx_take_config: "tx_take q mem c = Ok (es, q', mem', b) \<Longrightarrow> queue_config q' = queue_config q"
  by (auto simp: tx_take_def split: option.splits dest: push_used_config)

lemma tx_pop_config:
  assumes "tx_pop q mem used packets = Some (Ok (packets', q', mem', used'))"
  shows "queue_config q' = queue_config q"
proof -
  have "\<forall>y. Ok (packets', q', mem', used') = (Ok y :: (memory_error, _) result) \<longrightarrow> queue_config (fst (snd y)) = queue_config q"
  proof (rule tx_pop.raw_induct [where P = "\<lambda>q mem used packets r. \<forall>y. r = Ok y \<longrightarrow> queue_config (fst (snd y)) = queue_config q", OF _ assms],
      intro allI impI)
    fix loop q mem used packets r y
    assume IH: "\<And>q mem used packets r. loop q mem used packets = Some r \<Longrightarrow> \<forall>y. r = Ok y \<longrightarrow> queue_config (fst (snd y)) = queue_config q"
      and body: "run_bind (Some (pop q mem)) (\<lambda>(q1, oc). case oc of
        None \<Rightarrow> Some (Ok (packets, q1, mem, used))
      | Some c \<Rightarrow> run_bind (Some (tx_take q1 mem c)) (\<lambda>(es, q2, mem2, back_now). loop q2 mem2 (used \<or> back_now) (packets @ es))) = Some r"
      and r: "r = Ok y"
    obtain q1 oc where p: "pop q mem = Ok (q1, oc)" using body r by (cases "pop q mem") auto
    show "queue_config (fst (snd y)) = queue_config q"
    proof (cases oc)
      case None
      then show ?thesis using body r p pop_config [OF p] by auto
    next
      case (Some c)
      then obtain es q2 mem2 b where tk: "tx_take q1 mem c = Ok (es, q2, mem2, b)" and l: "loop q2 mem2 (used \<or> b) (packets @ es) = Some (Ok y)"
        using body r p by auto
      show ?thesis using IH [OF l] tx_take_config [OF tk] pop_config [OF p] by simp
    qed
  qed
  then show ?thesis by simp
qed

lemma rx_fill_config: "rx_fill p0 ob0 ob q mem c = Ok (ob', q', mem', op) \<Longrightarrow> queue_config q' = queue_config q"
  by (auto simp: rx_fill_def Let_def split: if_splits prod.splits dest: push_used_config)

lemma rx_loop_config:
  assumes "rx_loop ob q mem given = Some (Ok (ob', q', mem', given'))"
  shows "queue_config q' = queue_config q"
proof -
  have "\<forall>y. Ok (ob', q', mem', given') = (Ok y :: (memory_error, _) result) \<longrightarrow> queue_config (fst (snd y)) = queue_config q"
  proof (rule rx_loop.raw_induct [where P = "\<lambda>ob q mem given r. \<forall>y. r = Ok y \<longrightarrow> queue_config (fst (snd y)) = queue_config q", OF _ assms],
      intro allI impI)
    fix loop ob q mem given r y
    assume IH: "\<And>ob q mem given r. loop ob q mem given = Some r \<Longrightarrow> \<forall>y. r = Ok y \<longrightarrow> queue_config (fst (snd y)) = queue_config q"
      and body: "(case pop_front ob of
        None \<Rightarrow> Some (Ok (ob, q, mem, given))
      | Some (p0, ob0) \<Rightarrow>
          run_bind (Some (pop q mem)) (\<lambda>(q1, oc). case oc of
             None \<Rightarrow> Some (Ok (ob, q1, mem, given))
           | Some c \<Rightarrow> run_bind (Some (rx_fill p0 ob0 ob q1 mem c)) (\<lambda>(ob', q2, mem2, op). loop ob' q2 mem2 (given @ [op])))) = Some r"
      and r: "r = Ok y"
    show "queue_config (fst (snd y)) = queue_config q"
    proof (cases "pop_front ob")
      case None
      then show ?thesis using body r by auto
    next
      case (Some pr)
      then obtain p0 ob0 where pf: "pop_front ob = Some (p0, ob0)" by (cases pr) simp
      then obtain q1 oc where p: "pop q mem = Ok (q1, oc)" using body r by (cases "pop q mem") auto
      show ?thesis
      proof (cases oc)
        case None
        then show ?thesis using body r pf p pop_config [OF p] by auto
      next
        case (Some c)
        then obtain ob2 q2 mem2 op where fl: "rx_fill p0 ob0 ob q1 mem c = Ok (ob2, q2, mem2, op)" and l: "loop ob2 q2 mem2 (given @ [op]) = Some (Ok y)"
          using body r pf p by auto
        show ?thesis using IH [OF l] rx_fill_config [OF fl] pop_config [OF p] by simp
      qed
    qed
  qed
  then show ?thesis by simp
qed

lemma push_heads_config: "push_heads q mem hs = Ok (q', mem') \<Longrightarrow> queue_config q' = queue_config q"
  by (induction q mem hs rule: push_heads.induct) (auto dest: push_used_config)

lemma tx_handle_config:
  "tx_handle copy_all clk d q mem used es = Ok (d', q', mem', used') \<Longrightarrow> queue_config q' = queue_config q"
  by (induction copy_all clk d q mem used es rule: tx_handle.induct)
    (auto split: option.splits prod.splits bool.splits dest: push_used_config)

lemma complete_done_config: "complete_done now i q mem = Ok (i', q', mem', f) \<Longrightarrow> queue_config q' = queue_config q"
  by (auto simp: complete_done_def finish_done_def dest: push_heads_config)

lemma drain_tx_config: "drain_tx copy_all clk d q mem = Some (Ok (d', q', mem', used)) \<Longrightarrow> queue_config q' = queue_config q"
  by (auto simp: drain_tx_def dest!: tx_pop_config tx_handle_config complete_done_config)

lemma drain_rx_config: "drain_rx d q mem = Some (Ok (d', q', mem', used)) \<Longrightarrow> queue_config q' = queue_config q"
  by (auto simp: drain_rx_def dest!: rx_loop_config)

lemma on_queue_config:
  assumes "on_queue qs index d mem f = Some (Ok (d', qs', mem', s))"
    and "\<And>q d' q' mem' used. f q = Some (Ok (d', q', mem', used)) \<Longrightarrow> queue_config q' = queue_config q"
  shows "map queue_config qs' = map queue_config qs"
  using assms by (fastforce simp: on_queue_def map_update intro: list_update_same_conv [THEN iffD2] split: if_splits)

lemma vsock_notify_config:
  assumes "vsock_notify copy_all clk d queue qs mem = Some (Ok (d', qs', mem', s))"
  shows "map queue_config qs' = map queue_config qs"
  using assms
  by (auto simp: vsock_notify_def split: if_splits
      dest!: on_queue_config drain_tx_config drain_rx_config complete_done_config)

interpretation vsockd: virtio_device_laws "vsock_device copy_all rx_depth clk" for copy_all rx_depth clk
proof
  fix d i qs mem d' qs' mem' s
  assume "vd_notify (vsock_device copy_all rx_depth clk) d i qs mem = Some (Ok (d', qs', mem', s))"
  then show "map queue_config qs' = map queue_config qs"
    by (simp add: vsock_device_def vsock_notify_config)
qed (simp_all add: vsock_device_def no_retry_def split: prod.splits)

end
