(* ===== verification/Vsock_Custody.thy ===== *)
theory Vsock_Custody
  imports Vsock_Life Vsock_Device Virtio_Rng
begin

text \<open>
  Custody of the guest's buffers, across the virtqueues and the connection table: a chain the transmit queue counts as
  outstanding is one the table holds, and no receive buffer is kept, whatever the guest submits.
\<close>

named_theorems holders_simps "operations that take and return no chain"

lemma holders_basic [holders_simps]:
  "vi_holders (retire i c) = vi_holders i" "vi_holders (fst (remove_conn i key)) = vi_holders i"
  "vi_holders (fst (insert_conn now i key port st)) = vi_holders i" "vi_holders (finish_shutdown i key) = vi_holders i"
  "vi_holders (handle_observed i p) = vi_holders i" "vi_holders (discard i cs) = vi_holders i"
proof -
  show d: "vi_holders (discard i cs) = vi_holders i" for i cs by (simp add: discard_def)
  show r: "vi_holders (retire i c) = vi_holders i" for i c by (simp add: retire_def d)
  show m: "vi_holders (fst (remove_conn i key)) = vi_holders i" for i key by (simp add: remove_conn_def Let_def r split: option.split)
  show "vi_holders (fst (insert_conn now i key port st)) = vi_holders i"
    by (simp add: insert_conn_def budget_open_def Let_def r split: option.split)
  show "vi_holders (finish_shutdown i key) = vi_holders i" by (simp add: finish_shutdown_def Let_def m split: option.split)
  show "vi_holders (handle_observed i p) = vi_holders i" by (simp add: handle_observed_def Let_def split: option.split)
qed

lemma holders_handle [holders_simps]: "vi_holders (handle now i p) = vi_holders i"
proof -
  have "vi_holders (handle_shutdown j p) = vi_holders j" for j
    by (simp add: handle_shutdown_def Let_def holders_simps split: option.split)
  moreover have "vi_holders (handle_request now j p) = vi_holders j" for j
    by (simp add: handle_request_def Let_def case_prod_unfold holders_simps)
  ultimately show ?thesis
    by (cases "pk_op p") (simp_all add: handle_def Let_def holders_simps split: option.split)
qed

lemma holders_send [holders_simps]:
  "vi_holders (queue_data i key w f b) = vi_holders i" "vi_holders (fst (send_loop key w f i allowed room rest)) = vi_holders i"
proof -
  show q: "vi_holders (queue_data i key w f b) = vi_holders i" for i b by (simp add: queue_data_def Let_def split: option.split)
  show "vi_holders (fst (send_loop key w f i allowed room rest)) = vi_holders i"
    by (induction room arbitrary: i allowed rest) (simp_all add: Let_def q)
qed

lemma holders_send_owned: "vi_holders (fst (send_owned i key b bulk)) = vi_holders i"
  by (simp add: send_owned_def Let_def holders_simps split: option.split)

lemma holders_acknowledge [holders_simps]: "vi_holders (fst (acknowledge eager now i key m)) = vi_holders i"
  by (simp add: acknowledge_def Let_def case_prod_unfold holders_simps split: option.split)

lemma holders_sweep [holders_simps]: "vi_holders (fst (sweep now ks i)) = vi_holders i"
proof -
  have "vi_holders (end_conn k st j) = vi_holders j" for k st j by (simp add: end_conn_def Let_def holders_simps)
  then have e: "vi_holders (fold (\<lambda>p. end_conn (fst p) (cn_state (snd p))) xs j) = vi_holders j" for xs j
    by (induction xs arbitrary: j) simp_all
  have "vi_holders (cut_window k b j) = vi_holders j" for k b j by (simp add: cut_window_def Let_def case_prod_unfold split: option.split)
  then have c: "vi_holders (fold (\<lambda>p. cut_window (fst p) (0 < buffered (snd p))) xs j) = vi_holders j" for xs j
    by (induction xs arbitrary: j) simp_all
  have "vi_holders (fst (watchdog now ks j)) = vi_holders j" for j
    by (simp add: watchdog_def Let_def holders_simps split: option.split prod.split)
  then show ?thesis by (simp add: sweep_def Let_def case_prod_unfold e c)
qed

lemma holders_send_step: "send_step key data i n i' \<Longrightarrow> vi_holders i' = vi_holders i"
proof (induction rule: send_step.induct)
  case (sent_owned i key data bulk i' left ps)
  then show ?case
    using holders_send_owned [of i key data bulk] holders_send_owned [of i key "take MAX_PAYLOAD data" bulk]
    by (auto simp: try_send_owned_def split: prod.splits sum.splits option.splits if_splits)
qed (auto simp: try_send_def send_pass_def Let_def case_prod_unfold holders_simps split: option.splits if_splits)

lemma holders_host: "host_step w w' \<Longrightarrow> vi_holders (fst w') = vi_holders (fst w)"
  by (induction rule: host_step.induct)
    (auto simp: vs_open_def vs_listen_def vs_attach_def try_take_outbound_def take_pass_def vs_complete_def
      try_read_outbound_def read_exact_pass_def shutdown_write_def vs_shutdown_def abandon_def vs_label_def take_touched_def
      Let_def case_prod_unfold holders_simps split: option.splits if_splits)

section \<open>The transmit ring\<close>

definition entry_heads :: "tx_entry list \<Rightarrow> u16 set" where
  "entry_heads es = {h. \<exists>p spans. (p, Some (h, spans)) \<in> set es}"

lemma entry_heads_simps [simp]:
  "entry_heads [] = {}" "entry_heads ((p, None) # es) = entry_heads es" "entry_heads ((p, Some (h, spans)) # es) = insert h (entry_heads es)"
  "entry_heads (es @ es') = entry_heads es \<union> entry_heads es'"
  by (auto simp: entry_heads_def)

lemma tx_parse_head: "tx_parse mem c = Some (p, Some (h, spans)) \<Longrightarrow> h = head c"
  by (auto simp: tx_parse_def split: option.splits if_splits prod.splits)

lemma push_used_keeps: "push_used q mem h n = Ok (q', mem') \<Longrightarrow> owed q' x \<Longrightarrow> owed q x \<and> x \<noteq> h"
  using push_used_owed [of q mem h n q' mem'] by (auto split: if_splits)

lemma tx_take_owed:
  "tx_take q mem c = Ok (es, q', mem', b) \<Longrightarrow> owed q' x \<Longrightarrow> owed q x \<and> (x = head c \<longrightarrow> x \<in> entry_heads es)"
  by (auto simp: tx_take_def split: option.splits prod.splits dest: push_used_keeps tx_parse_head)

lemma tx_pop_owed:
  assumes "tx_pop q mem used packets = Some (Ok (packets', q', mem', used'))" "owed q' x"
  shows "owed q x \<or> x \<in> entry_heads packets'"
proof -
  let ?P = "\<lambda>q packets y. \<forall>x. owed (fst (snd y)) x \<longrightarrow> owed q x \<or> x \<in> entry_heads (fst y)"
  have "\<forall>y. Ok (packets', q', mem', used') = (Ok y :: (memory_error, _) result) \<longrightarrow> ?P q packets y \<and> entry_heads packets \<subseteq> entry_heads (fst y)"
  proof (rule tx_pop.raw_induct [where P = "\<lambda>q mem used packets r. \<forall>y. r = Ok y \<longrightarrow> ?P q packets y \<and> entry_heads packets \<subseteq> entry_heads (fst y)", OF _ assms(1)],
      intro allI impI)
    fix loop q mem used packets r y
    assume IH: "\<And>q mem used packets r. loop q mem used packets = Some r \<Longrightarrow> \<forall>y. r = Ok y \<longrightarrow> ?P q packets y \<and> entry_heads packets \<subseteq> entry_heads (fst y)"
      and body: "run_bind (Some (pop q mem)) (\<lambda>(q1, oc). case oc of
        None \<Rightarrow> Some (Ok (packets, q1, mem, used))
      | Some c \<Rightarrow> run_bind (Some (tx_take q1 mem c)) (\<lambda>(es, q2, mem2, back_now). loop q2 mem2 (used \<or> back_now) (packets @ es))) = Some r"
      and r: "r = Ok y"
    obtain q1 oc where p: "pop q mem = Ok (q1, oc)" using body r by (cases "pop q mem") auto
    show "?P q packets y \<and> entry_heads packets \<subseteq> entry_heads (fst y)"
    proof (cases oc)
      case None
      then show ?thesis using body r p pop_owed [OF p] by (auto simp: takes_def)
    next
      case (Some c)
      then obtain es q2 mem2 b where tk: "tx_take q1 mem c = Ok (es, q2, mem2, b)" and l: "loop q2 mem2 (used \<or> b) (packets @ es) = Some (Ok y)"
        using body r p by auto
      have IH': "?P q2 (packets @ es) y \<and> entry_heads (packets @ es) \<subseteq> entry_heads (fst y)" using IH [OF l] by blast
      have "owed q x \<or> x \<in> entry_heads es" if "owed q2 x" for x
        using tx_take_owed [OF tk that] pop_owed [OF p] Some by (auto simp: takes_def)
      then show ?thesis using IH' by fastforce
    qed
  qed
  then show ?thesis using assms(2) by auto
qed

lemma holders_guest_rw:
  assumes "handle_guest_rw copy_all rd now i p h spans = (i', held)"
  shows "\<exists>x. vi_holders i' = (if held then (vi_holders i)(h \<mapsto> x) else vi_holders i)"
proof (cases held)
  case True
  have "\<exists>n. vi_holders i' = (vi_holders i)(h \<mapsto> ((dst_port p, src_port p), n))"
    using assms True by (auto simp: handle_guest_rw_def Let_def case_prod_unfold split: option.splits if_splits)
  then show ?thesis using True by auto
next
  case False
  then show ?thesis
    using assms by (auto simp: handle_guest_rw_def Let_def case_prod_unfold split: option.splits if_splits)
qed

lemma tx_handle_custody:
  "tx_handle copy_all clk d q mem used es = Ok (d', q', mem', used') \<Longrightarrow>
   \<forall>h. owed q h \<longrightarrow> h \<in> dom (vi_holders (fst d)) \<union> entry_heads es \<Longrightarrow> owed q' x \<Longrightarrow> x \<in> dom (vi_holders (fst d'))"
proof (induction es arbitrary: d q mem used)
  case Nil
  then show ?case by (cases d) auto
next
  case (Cons e es)
  obtain p g i r where e: "e = (p, g)" and d: "d = (i, r)" by fastforce
  show ?case
  proof (cases g)
    case None
    then show ?thesis using Cons.prems by (intro Cons.IH) (auto simp: e d holders_simps)
  next
    case (Some hs)
    then obtain h spans where g: "g = Some (h, spans)" by (cases hs) auto
    obtain i1 held where hr: "handle_guest_rw copy_all (read_span mem) (clk r) i p h spans = (i1, held)" by fastforce
    obtain v where hm: "vi_holders i1 = (if held then (vi_holders i)(h \<mapsto> v) else vi_holders i)" using holders_guest_rw [OF hr] by blast
    show ?thesis
    proof (cases held)
      case True
      then have "dom (vi_holders i1) = insert h (dom (vi_holders i))" using hm by simp
      then show ?thesis using Cons.prems True by (intro Cons.IH [of "(i1, Suc r)" q mem used]) (simp_all add: e d g hr)
    next
      case False
      then obtain q1 mem1 where pu: "push_used q mem h 0 = Ok (q1, mem1)"
        and l: "tx_handle copy_all clk (i1, Suc r) q1 mem1 True es = Ok (d', q', mem', used')"
        using Cons.prems(1) by (auto simp: e d g hr)
      show ?thesis using Cons.prems(2,3) hm False push_used_keeps [OF pu] by (intro Cons.IH [OF l]) (auto simp: e d g)
    qed
  qed
qed

lemma push_heads_owed: "push_heads q mem hs = Ok (q', mem') \<Longrightarrow> owed q' x \<Longrightarrow> owed q x \<and> x \<notin> set hs"
  by (induction q mem hs rule: push_heads.induct) (auto dest: push_used_keeps)

lemma finish_holders: "vi_holders (fold (finish_head now) hs i) = (\<lambda>h. if h \<in> set hs then None else vi_holders i h)"
proof (induction hs arbitrary: i)
  case (Cons h hs)
  have "vi_holders (finish_head now h i) = (vi_holders i)(h := None)"
    by (auto simp: finish_head_def Let_def fun_eq_iff split: option.split prod.split)
  then show ?case by (auto simp: Cons.IH)
qed simp

lemma complete_done_custody:
  assumes "complete_done now i q mem = Ok (i', q', mem', f)" "\<forall>h. owed q h \<longrightarrow> vi_holders i h \<noteq> None" "owed q' x"
  shows "vi_holders i' x \<noteq> None"
  using assms push_heads_owed [of q mem "vi_done i" q' mem' x] by (auto simp: complete_done_def finish_done_def finish_holders)

lemma drain_tx_custody:
  assumes run: "drain_tx copy_all clk d q mem = Some (Ok (d', q', mem', used))" and inv: "\<forall>h. owed q h \<longrightarrow> vi_holders (fst d) h \<noteq> None"
    and x: "owed q' x"
  shows "vi_holders (fst d') x \<noteq> None"
proof -
  obtain packets q1 mem1 u i r q2 mem2 u2 i' f where s:
    "tx_pop q mem False [] = Some (Ok (packets, q1, mem1, u))"
    "tx_handle copy_all clk ((fst d)\<lparr>vi_tx_ring := unat (qsize q1)\<rparr>, snd d) q1 mem1 u packets = Ok ((i, r), q2, mem2, u2)"
    "complete_done (clk r) i q2 mem2 = Ok (i', q', mem', f)" "d' = (i', Suc r)"
    using run by (fastforce simp: drain_tx_def)
  have "\<forall>h. owed q1 h \<longrightarrow> h \<in> dom (vi_holders (fst d)) \<union> entry_heads packets" using inv tx_pop_owed [OF s(1)] by blast
  then have "\<forall>h. owed q2 h \<longrightarrow> vi_holders i h \<noteq> None" using tx_handle_custody [OF s(2)] by (simp add: domIff)
  from complete_done_custody [OF s(3) this x] show ?thesis by (simp add: s(4))
qed

section \<open>The receive ring\<close>

lemma rx_fill_owed: "rx_fill p0 ob0 ob q mem c = Ok (ob', q', mem', op) \<Longrightarrow> owed q' x \<Longrightarrow> owed q x \<and> x \<noteq> head c"
  by (auto simp: rx_fill_def Let_def split: if_splits prod.splits dest: push_used_keeps)

lemma rx_loop_owed:
  assumes "rx_loop ob q mem given = Some (Ok (ob', q', mem', given'))" "owed q' x"
  shows "owed q x"
proof -
  have "\<forall>y. Ok (ob', q', mem', given') = (Ok y :: (memory_error, _) result) \<longrightarrow> owed (fst (snd y)) x \<longrightarrow> owed q x"
  proof (rule rx_loop.raw_induct [where P = "\<lambda>ob q mem given r. \<forall>y. r = Ok y \<longrightarrow> owed (fst (snd y)) x \<longrightarrow> owed q x", OF _ assms(1)],
      intro allI impI)
    fix loop ob q mem given r y
    assume IH: "\<And>ob q mem given r. loop ob q mem given = Some r \<Longrightarrow> \<forall>y. r = Ok y \<longrightarrow> owed (fst (snd y)) x \<longrightarrow> owed q x"
      and body: "(case pop_front ob of
        None \<Rightarrow> Some (Ok (ob, q, mem, given))
      | Some (p0, ob0) \<Rightarrow>
          run_bind (Some (pop q mem)) (\<lambda>(q1, oc). case oc of
             None \<Rightarrow> Some (Ok (ob, q1, mem, given))
           | Some c \<Rightarrow> run_bind (Some (rx_fill p0 ob0 ob q1 mem c)) (\<lambda>(ob', q2, mem2, op). loop ob' q2 mem2 (given @ [op])))) = Some r"
      and r: "r = Ok y" and x: "owed (fst (snd y)) x"
    show "owed q x"
    proof (cases "pop_front ob")
      case None
      then show ?thesis using body r x by auto
    next
      case (Some pr)
      then obtain p0 ob0 where pf: "pop_front ob = Some (p0, ob0)" by (cases pr) simp
      then obtain q1 oc where p: "pop q mem = Ok (q1, oc)" using body r by (cases "pop q mem") auto
      show ?thesis
      proof (cases oc)
        case None
        then show ?thesis using body r x pf p pop_owed [OF p] by (auto simp: takes_def)
      next
        case (Some c)
        then obtain ob2 q2 mem2 op where fl: "rx_fill p0 ob0 ob q1 mem c = Ok (ob2, q2, mem2, op)" and l: "loop ob2 q2 mem2 (given @ [op]) = Some (Ok y)"
          using body r pf p by auto
        have "owed q2 x" using IH [OF l] x by simp
        from rx_fill_owed [OF fl this] pop_owed [OF p] Some show ?thesis by (auto simp: takes_def)
      qed
    qed
  qed
  then show ?thesis using assms(2) by simp
qed

lemma drain_rx_custody:
  assumes "drain_rx d q mem = Some (Ok (d', q', mem', used))"
  shows "vi_holders (fst d') = vi_holders (fst d)" "owed q' x \<Longrightarrow> owed q x"
  using assms rx_loop_owed by (auto simp: drain_rx_def)

section \<open>The device\<close>

definition custody :: "vsock_inner \<Rightarrow> virtqueue list \<Rightarrow> bool" where
  "custody i qs \<longleftrightarrow> length qs = 3 \<and> (\<forall>h. owed (qs ! 1) h \<longrightarrow> vi_holders i h \<noteq> None) \<and> (\<forall>h. \<not> owed (qs ! 0) h \<and> \<not> owed (qs ! 2) h)"

lemma tx_custody:
  assumes "on_queue qs TX_QUEUE d mem f = Some (Ok (d', qs', mem', s))" "custody (fst d) qs"
    and "\<And>d' q' mem' used x. f (qs ! 1) = Some (Ok (d', q', mem', used)) \<Longrightarrow> owed q' x \<Longrightarrow>
       (\<forall>h. owed (qs ! 1) h \<longrightarrow> vi_holders (fst d) h \<noteq> None) \<Longrightarrow> vi_holders (fst d') x \<noteq> None"
  shows "custody (fst d') qs'"
  using assms by (auto simp: on_queue_def custody_def TX_QUEUE_def nth_list_update split: if_splits)

lemma rx_custody:
  assumes "on_queue qs RX_QUEUE d mem (\<lambda>q. drain_rx d q mem) = Some (Ok (d', qs', mem', s))" "custody (fst d) qs"
  shows "custody (fst d') qs'"
proof -
  obtain q' used where r: "drain_rx d (qs ! 0) mem = Some (Ok (d', q', mem', used))" "qs' = qs[0 := q']"
    using assms by (auto simp: on_queue_def custody_def RX_QUEUE_def split: if_splits)
  then show ?thesis
    using assms(2) drain_rx_custody(2) [OF r(1)] unfolding custody_def drain_rx_custody(1) [OF r(1)] by (auto simp: nth_list_update)
qed

lemma notify_custody:
  assumes run: "vsock_notify copy_all clk d queue qs mem = Some (Ok (d', qs', mem', s))" and ok: "custody (fst d) qs"
  shows "custody (fst d') qs'"
proof -
  let ?done = "\<lambda>d1 mem1 q. run_bind (Some (complete_done (clk (snd d1)) (fst d1) q mem1)) (\<lambda>(i, q', mem', finished).
            Some (Ok ((i, Suc (snd d1)), q', mem', finished)))"
  obtain d1 qs1 mem1 s1 d2 qs2 mem2 s2 where
    1: "(if queue = TX_QUEUE then on_queue qs TX_QUEUE d mem (\<lambda>q. drain_tx copy_all clk d q mem)
        else if queue = RX_QUEUE then on_queue qs RX_QUEUE d mem (\<lambda>q. drain_rx d q mem)
        else Some (Ok (d, qs, mem, 0))) = Some (Ok (d1, qs1, mem1, s1))"
    and 2: "on_queue qs1 TX_QUEUE d1 mem1 (?done d1 mem1) = Some (Ok (d2, qs2, mem2, s2))"
    and 3: "if queue = TX_QUEUE then \<exists>s3. on_queue qs2 RX_QUEUE d2 mem2 (\<lambda>q. drain_rx d2 q mem2) = Some (Ok (d', qs', mem', s3))
       else d' = d2 \<and> qs' = qs2"
    using run by (fastforce simp: vsock_notify_def split: if_splits)
  have "custody (fst d1) qs1"
    using 1 ok by (auto split: if_splits elim: tx_custody rx_custody dest: drain_tx_custody)
  with 2 have "custody (fst d2) qs2"
    by (rule tx_custody) (auto dest: complete_done_custody)
  with 3 show ?thesis by (auto split: if_splits dest: rx_custody)
qed

text \<open>
  The life of the device: the driver kicks a queue, the host's threads work on the table, the driver sets its queues
  up anew or resets the device. What the guest writes to its memory in between, and so what chains it submits,
  is any.
\<close>

inductive device_life :: "bool \<Rightarrow> (nat \<Rightarrow> nat) \<Rightarrow> vsock_inner \<Rightarrow> virtqueue list \<Rightarrow> bool" for copy_all clk where
  born: "length qs = 3 \<Longrightarrow> \<forall>q \<in> set qs. \<forall>h. \<not> owed q h \<Longrightarrow> device_life copy_all clk (vsock_new now) qs"
| notified: "device_life copy_all clk i qs \<Longrightarrow> vsock_notify copy_all clk (i, r) queue qs mem = Some (Ok ((i', r'), qs', mem', s)) \<Longrightarrow>
    device_life copy_all clk i' qs'"
| worked: "device_life copy_all clk i qs \<Longrightarrow> host_step (i, fl) (i', fl') \<Longrightarrow> device_life copy_all clk i' qs"
| sent: "device_life copy_all clk i qs \<Longrightarrow> send_step key data i n i' \<Longrightarrow> device_life copy_all clk i' qs"
| configured: "device_life copy_all clk i qs \<Longrightarrow> map owed qs' = map owed qs \<Longrightarrow> device_life copy_all clk i qs'"
| reset: "device_life copy_all clk i qs \<Longrightarrow> length qs' = 3 \<Longrightarrow> \<forall>q \<in> set qs'. \<forall>h. \<not> owed q h \<Longrightarrow> device_life copy_all clk (vsock_reset i) qs'"

lemma fresh_custody: "length qs = 3 \<Longrightarrow> \<forall>q \<in> set qs. \<forall>h. \<not> owed q h \<Longrightarrow> custody i qs"
  by (simp add: custody_def)

lemma life_custody: "device_life copy_all clk i qs \<Longrightarrow> custody i qs"
proof (induction rule: device_life.induct)
  case (notified i qs r queue mem i' r' qs' mem' s)
  then show ?case using notify_custody [OF notified(2)] by simp
next
  case (worked i qs fl i' fl')
  then show ?case using holders_host [OF worked(2)] by (simp add: custody_def)
next
  case (sent i qs key data n i')
  then show ?case using holders_send_step [OF sent(2)] by (simp add: custody_def)
next
  case (configured i qs qs')
  have l: "length qs' = length qs" using configured(2) by (metis length_map)
  then have "owed (qs' ! k) = owed (qs ! k)" if "k < length qs" for k
    using configured(2) that by (metis nth_map)
  then show ?case using configured(3) l by (simp add: custody_def)
qed (simp_all add: fresh_custody)

text \<open>C3: The device never forgets a buffer of the guest. Whatever the guest submits, malformed packets, a chain twice, payloads
  for no connection, and however the host's threads run in between: a chain of the transmit ring that
  has not been given back is one the table still accounts for, and so on its way back when its payload is
  written or dropped; and every receive buffer that was taken has been given back, filled or not, by
  the time the device stops. Nothing is taken from the event ring.\<close>

theorem no_chain_forgotten:
  assumes "device_life copy_all clk i qs"
  shows "(owed (qs ! 1) h \<longrightarrow> (\<exists>key n. vi_holders i h = Some (key, n))) \<and> \<not> owed (qs ! 0) h \<and> \<not> owed (qs ! 2) h"
proof -
  have c: "custody i qs" by (rule life_custody [OF assms])
  then have "vi_holders i h \<noteq> None" if "owed (qs ! 1) h" using that by (simp add: custody_def)
  then show ?thesis using c by (auto simp: custody_def)
qed

text \<open>The demo queue as the transmit ring: one chain, too short for a header.\<close>

lemma demo_tx_parse: "tx_parse (demo_memory 4096 demo_available) (chain_new 8192 8 3) = None"
proof -
  let ?mem = "demo_memory 4096 demo_available"
  have "\<exists>c' d. chain_next ?mem (chain_new 8192 8 3) = (c', Some d) \<and> chain_next ?mem c' = (c', None) \<and> \<not> is_write_only d \<and> d_len d = 0 \<and> d_addr d = 0"
    by (simp add: chain_next_def chain_new_def walk_bound_def MAX_QUEUE_SIZE_def next_split.simps
      read_descriptor_def DESC_SIZE_def demo_memory_def demo_available_def put_span_def memory_eval
      is_indirect_def has_next_def is_write_only_def desc_flag_defs)
  then obtain c' d where c: "chain_next ?mem (chain_new 8192 8 3) = (c', Some d)" "chain_next ?mem c' = (c', None)"
    and d: "\<not> is_write_only d" "d_len d = 0" "d_addr d = 0" by blast
  have "chain_collect (\<lambda>_. ?mem) k c' = []" for k by (subst chain_collect.simps) (simp add: c(2))
  then have "chain_descs ?mem (chain_new 8192 8 3) = [d]"
    unfolding chain_descs_def by (subst chain_collect.simps) (simp add: c(1))
  moreover have "gm_peek ?mem 0 0 = Err (OutOfBounds 0 0)"
    by (simp add: demo_memory_def memory_eval)
  ultimately show ?thesis by (simp add: tx_parse_def tx_header_def d HDR_LEN_def)
qed

lemma demo_notified:
  "\<exists>q2 mem2. vsock_notify False (\<lambda>_. 0) (vsock_new 0, 0) TX_QUEUE [vq_new 8, demo_queue, vq_new 8] (demo_memory 4096 demo_available) =
    Some (Ok (((vsock_new 0)\<lparr>vi_tx_ring := 8\<rparr>, 2), [vq_new 8, q2, vq_new 8], mem2, serviced_queue_if TX_QUEUE True))"
proof -
  let ?mem = "demo_memory 4096 demo_available"
  obtain q2 mem2 where push: "push_used (mark_taken (demo_queue\<lparr>next_avail := 1\<rparr>) 3) ?mem 3 0 = Ok (q2, mem2)"
      and rest: "pop q2 mem2 = Ok (q2, None)"
    using demo_rng_push by (auto split: result.splits)
  have "tx_take (mark_taken (demo_queue\<lparr>next_avail := 1\<rparr>) 3) ?mem (chain_new 8192 8 3) = Ok ([], q2, mem2, True)"
    using push by (simp add: tx_take_def demo_tx_parse) (simp add: chain_new_def)
  moreover have "tx_pop q2 mem2 True [] = Some (Ok ([], q2, mem2, True))" by (subst tx_pop.simps) (simp add: rest)
  ultimately have "tx_pop demo_queue ?mem False [] = Some (Ok ([], q2, mem2, True))"
    using demo_rng_pop by (subst tx_pop.simps) simp
  moreover have "qsize q2 = 8" using push_used_config [OF push] by (simp add: queue_config_def mark_taken_def demo_queue_def vq_new_def)
  ultimately have "drain_tx False (\<lambda>_. 0) (vsock_new 0, 0) demo_queue ?mem = Some (Ok (((vsock_new 0)\<lparr>vi_tx_ring := 8\<rparr>, 1), q2, mem2, True))"
    by (simp add: drain_tx_def complete_done_def finish_done_def vsock_new_def)
  then show ?thesis
    by (simp add: vsock_notify_def on_queue_def TX_QUEUE_def RX_QUEUE_def complete_done_def finish_done_def vsock_new_def
        drain_rx_def rx_loop.simps pop_front_def outbox_default_def serviced_and_def serviced_queue_if_def)
qed

theorem no_chain_forgotten_witness:
  "\<exists>i qs. device_life False (\<lambda>_. 0) i qs \<and> vi_tx_ring i = 8 \<and> vi_holders i 3 = None \<and> \<not> owed (qs ! 1) 3 \<and> \<not> owed (qs ! 0) 3"
proof -
  obtain q2 mem2 where n: "vsock_notify False (\<lambda>_. 0) (vsock_new 0, 0) TX_QUEUE [vq_new 8, demo_queue, vq_new 8] (demo_memory 4096 demo_available) =
      Some (Ok (((vsock_new 0)\<lparr>vi_tx_ring := 8\<rparr>, 2), [vq_new 8, q2, vq_new 8], mem2, serviced_queue_if TX_QUEUE True))"
    using demo_notified by blast
  have "device_life False (\<lambda>_. 0) (vsock_new 0) [vq_new 8, demo_queue, vq_new 8]"
    by (rule device_life.born) (simp_all add: owed_def demo_queue_def vq_new_def nth_replicate)
  then have life: "device_life False (\<lambda>_. 0) ((vsock_new 0)\<lparr>vi_tx_ring := 8\<rparr>) [vq_new 8, q2, vq_new 8]"
    by (rule device_life.notified [OF _ n])
  have h: "vi_holders ((vsock_new 0)\<lparr>vi_tx_ring := 8\<rparr>) 3 = None" by (simp add: vsock_new_def)
  from no_chain_forgotten [OF life, of 3] h
  have "\<not> owed ([vq_new 8, q2, vq_new 8] ! 1) 3" "\<not> owed ([vq_new 8, q2, vq_new 8] ! 0) 3" by auto
  with life h show ?thesis by (intro exI [where x = "(vsock_new 0)\<lparr>vi_tx_ring := 8\<rparr>"] exI [where x = "[vq_new 8, q2, vq_new 8]"]) simp
qed

section \<open>A reset of the driver\<close>

text \<open>The reset empties the table and nothing else: a chain queued on a connection is neither given back nor
  uncharged, and what the windows were granted beyond their least stays granted, although no connection is left to hold it.\<close>

lemma reset_keeps_charges:
  "vi_conns (vsock_reset demo_held) = Map.empty" "vi_holders (vsock_reset demo_held) 5 \<noteq> None"
  "vi_held (fst (finish_done now (vsock_reset demo_held))) = 1" "vi_budget (vsock_reset i) = vi_budget i"
  by (simp_all add: vsock_reset_def demo_held_fields finish_done_def)

end
