(* ===== verification/Vsock_Stream.thy ===== *)
theory Vsock_Stream
  imports Vsock_Life Vsock_Device
begin

text \<open>
  The bytes of a connection on their way to the guest: accepted from the host's thread, queued in the outbox, split to
  the size of the guest's buffers, delivered. The outbox is seen through its contract: for every connection a queue
  of packets, in order, whatever lanes it has.
\<close>

definition key_of :: "packet \<Rightarrow> conn_key" where
  "key_of p = (src_port p, dst_port p)"

text \<open>The bytes packets carry.\<close>

definition data_of :: "packet \<Rightarrow> bytes" where
  "data_of p = (if pk_op p = Rw then payload p else [])"

definition seq_bytes :: "packet list \<Rightarrow> bytes" where
  "seq_bytes ps = concat (map data_of ps)"

lemma seq_bytes_simps [simp]:
  "seq_bytes [] = []" "seq_bytes (p # ps) = data_of p @ seq_bytes ps" "seq_bytes (ps @ ps') = seq_bytes ps @ seq_bytes ps'"
  by (simp_all add: seq_bytes_def)

locale packet_queue =
  fixes sequence :: "'q \<Rightarrow> conn_key \<Rightarrow> packet list" and invar :: "'q \<Rightarrow> bool"
    and enq :: "'q \<Rightarrow> packet \<Rightarrow> 'q" and again :: "'q \<Rightarrow> packet \<Rightarrow> 'q" and deq :: "'q \<Rightarrow> (packet \<times> 'q) option"
  assumes enq_seq: "sequence (enq q p) k = (if key_of p = k then sequence q k @ [p] else sequence q k)"
    and again_seq: "sequence (again q p) k = (if key_of p = k then p # sequence q k else sequence q k)"
    and deq_seq: "invar q \<Longrightarrow> deq q = Some (p, q') \<Longrightarrow> sequence q k = (if key_of p = k then p # sequence q' k else sequence q' k)"
    and invars: "invar q \<Longrightarrow> invar (enq q p)" "invar q \<Longrightarrow> invar (again q p)" "invar q \<Longrightarrow> deq q = Some (p, q') \<Longrightarrow> invar q'"
begin

text \<open>A packet taken whole, or in part with the rest put back, takes the connection's next bytes.\<close>

lemma bytes_enq: "seq_bytes (sequence (enq q p) k) = seq_bytes (sequence q k) @ (if key_of p = k then data_of p else [])"
  by (simp add: enq_seq)

lemma bytes_deq:
  assumes "invar q" "deq q = Some (p, q')"
  shows "seq_bytes (sequence q k) = (if key_of p = k then data_of p else []) @ seq_bytes (sequence q' k)"
  by (simp add: deq_seq [OF assms])

lemma bytes_split:
  assumes "invar q" "deq q = Some (p, q')" "key_of left = key_of p" "data_of p = xs @ data_of left"
  shows "seq_bytes (sequence q k) = (if key_of p = k then xs else []) @ seq_bytes (sequence (again q' left) k)"
  using assms by (simp add: deq_seq [OF assms(1,2)] again_seq)

lemma bytes_fold: "seq_bytes (sequence (fold (\<lambda>p q. enq q p) ps q) k) = seq_bytes (sequence q k) @ seq_bytes (filter (\<lambda>p. key_of p = k) ps)"
  by (induction ps arbitrary: q) (simp_all add: bytes_enq)

lemma fold_invar: "invar q \<Longrightarrow> invar (fold (\<lambda>p q. enq q p) ps q)"
  by (induction ps arbitrary: q) (simp_all add: invars)

end

section \<open>The outbox is such a queue\<close>

definition control_key :: "conn_key \<Rightarrow> bool" where
  "control_key k \<longleftrightarrow> snd k \<in> set CONTROL_PORTS \<or> fst k \<in> set CONTROL_PORTS"

definition outbox_seq :: "outbox \<Rightarrow> conn_key \<Rightarrow> packet list" where
  "outbox_seq ob k = filter (\<lambda>p. key_of p = k) (if control_key k then ob_control ob else ob_bulk ob)"

definition lanes_ok :: "outbox \<Rightarrow> bool" where
  "lanes_ok ob \<longleftrightarrow> (\<forall>p \<in> set (ob_control ob). is_control p) \<and> (\<forall>p \<in> set (ob_bulk ob). \<not> is_control p)"

lemma is_control_key: "is_control p = control_key (key_of p)"
  by (simp add: is_control_def control_key_def key_of_def)

interpretation obq: packet_queue outbox_seq lanes_ok push_back push_front pop_front
proof
  fix ob p ob' k
  show "outbox_seq (push_back ob p) k = (if key_of p = k then outbox_seq ob k @ [p] else outbox_seq ob k)"
    by (auto simp: outbox_seq_def push_back_def is_control_key)
  show "outbox_seq (push_front ob p) k = (if key_of p = k then p # outbox_seq ob k else outbox_seq ob k)"
    by (auto simp: outbox_seq_def push_front_def is_control_key)
  assume ok: "lanes_ok ob"
  show "lanes_ok (push_back ob p)" "lanes_ok (push_front ob p)"
    using ok by (auto simp: lanes_ok_def push_back_def push_front_def)
  assume pop: "pop_front ob = Some (p, ob')"
  show "lanes_ok ob'" using ok pop by (auto simp: lanes_ok_def pop_front_def split: list.splits)
  show "outbox_seq ob k = (if key_of p = k then p # outbox_seq ob' k else outbox_seq ob' k)"
    using ok pop by (auto simp: lanes_ok_def outbox_seq_def pop_front_def is_control_key split: list.splits)
qed

section \<open>Accepting bytes\<close>

text \<open>What one pass of sending does: \<open>n\<close> bytes in packets \<open>ps\<close>.\<close>

definition sends :: "conn_key \<Rightarrow> u32 \<Rightarrow> u32 \<Rightarrow> vsock_inner \<Rightarrow> bytes \<Rightarrow> nat \<Rightarrow> packet list \<Rightarrow> vsock_inner \<Rightarrow> bool" where
  "sends key w f i data n ps i' \<longleftrightarrow>
     n \<le> length data \<and> concat (map payload ps) = take n data \<and>
     (\<forall>p \<in> set ps. \<exists>b. p = rw_packet key w f b \<and> length b \<le> MAX_PAYLOAD) \<and>
     vi_outbox i' = fold (\<lambda>p ob. push_back ob p) ps (vi_outbox i) \<and>
     (\<forall>c. vi_conns i key = Some c \<longrightarrow> vi_conns i' = (vi_conns i)(key \<mapsto> c\<lparr>cn_credit := credit_sent (cn_credit c) (of_nat n)\<rparr>))"

lemma credit_sent_add: "credit_sent (credit_sent c (of_nat m)) (of_nat n) = credit_sent c (of_nat (m + n))"
  by (simp add: credit_sent_def add.assoc)

lemma credit_sent_0 [simp]: "credit_sent c 0 = c"
  by (simp add: credit_sent_def)

lemma sends_nothing: "sends key w f i data 0 [] i"
  by (simp add: sends_def fun_upd_idem)

lemma rw_packet_fields [simp]:
  "payload (rw_packet key w f b) = b" "pk_op (rw_packet key w f b) = Rw" "key_of (rw_packet key w f b) = key"
  "data_of (rw_packet key w f b) = b"
  by (simp_all add: rw_packet_def packet_control_def key_of_def data_of_def)

lemma sends_packet:
  assumes "m \<le> length data" "m \<le> MAX_PAYLOAD" and rest: "sends key w f (queue_data i key w f (take m data)) (drop m data) n ps i'"
    and c: "vi_conns i key \<noteq> None"
  shows "sends key w f i data (m + n) (rw_packet key w f (take m data) # ps) i'"
proof -
  let ?i = "queue_data i key w f (take m data)"
  obtain c where c: "vi_conns i key = Some c" using c by auto
  have "vi_conns ?i = (vi_conns i)(key \<mapsto> c\<lparr>cn_credit := credit_sent (cn_credit c) (of_nat m)\<rparr>)"
    "vi_outbox ?i = push_back (vi_outbox i) (rw_packet key w f (take m data))"
    using c assms(1) by (simp_all add: queue_data_def Let_def) (simp add: queue_packet_def)
  then show ?thesis
    using rest c assms(1,2) unfolding sends_def
    by (auto simp: take_add credit_sent_add)
qed

text \<open>The loop stops when the data, the credit or the room is used up.\<close>

lemma send_loop_sends:
  assumes "send_loop key w f i allowed room data = (i', left)" "vi_conns i key \<noteq> None"
  shows "\<exists>n ps. left = drop n data \<and> sends key w f i data n ps i' \<and> n \<le> allowed \<and> length ps \<le> room \<and> (\<forall>p \<in> set ps. payload p \<noteq> []) \<and>
    (n < length data \<longrightarrow> n = allowed \<or> length ps = room)"
  using assms
proof (induction room arbitrary: i allowed data)
  case 0
  then show ?case using sends_nothing by (intro exI [where x = 0] exI [where x = "[]"]) simp
next
  case (Suc room)
  show ?case
  proof (cases "0 < allowed \<and> data \<noteq> []")
    case False
    then show ?thesis using Suc.prems(1) by (intro exI [where x = 0] exI [where x = "[]"]) (auto simp: sends_nothing)
  next
    case True
    define m where "m = min (min allowed MAX_PAYLOAD) (length data)"
    have m: "0 < m" "m \<le> length data" "m \<le> MAX_PAYLOAD" "m \<le> allowed" using True by (auto simp: m_def MAX_PAYLOAD_def)
    have "send_loop key w f (queue_data i key w f (take m data)) (allowed - m) room (drop m data) = (i', left)"
      using Suc.prems(1) True by (simp add: Let_def m_def)
    moreover have "vi_conns (queue_data i key w f (take m data)) key \<noteq> None" using Suc.prems(2) by (auto simp: queue_data_def Let_def)
    ultimately obtain n ps where IH: "left = drop n (drop m data)" "sends key w f (queue_data i key w f (take m data)) (drop m data) n ps i'"
      "n \<le> allowed - m" "length ps \<le> room" "\<forall>p \<in> set ps. payload p \<noteq> []" "n < length (drop m data) \<longrightarrow> n = allowed - m \<or> length ps = room"
      using Suc.IH by blast
    show ?thesis
      using IH m sends_packet [OF m(2,3) IH(2) Suc.prems(2)]
      by (intro exI [where x = "m + n"] exI [where x = "rw_packet key w f (take m data) # ps"]) (auto simp: add.commute)
  qed
qed

text \<open>What sending does to the queue of every connection.\<close>

definition pending_bytes :: "vsock_inner \<Rightarrow> conn_key \<Rightarrow> bytes" where
  "pending_bytes i k = seq_bytes (outbox_seq (vi_outbox i) k)"

lemma sends_pending:
  assumes "sends key w f i data n ps i'"
  shows "pending_bytes i' k = pending_bytes i k @ (if k = key then take n data else [])" "lanes_ok (vi_outbox i) \<Longrightarrow> lanes_ok (vi_outbox i')"
proof -
  have ob: "vi_outbox i' = fold (\<lambda>p ob. push_back ob p) ps (vi_outbox i)" and d: "concat (map payload ps) = take n data"
    and ps: "\<forall>p \<in> set ps. \<exists>b. p = rw_packet key w f b" using assms by (auto simp: sends_def)
  have "filter (\<lambda>p. key_of p = k) ps = (if k = key then ps else [])" using ps by (induction ps) auto
  moreover have "seq_bytes ps = concat (map payload ps)" using ps unfolding seq_bytes_def by (intro arg_cong [where f = concat] map_cong) auto
  ultimately show "pending_bytes i' k = pending_bytes i k @ (if k = key then take n data else [])"
    by (simp add: pending_bytes_def ob obq.bytes_fold d)
  show "lanes_ok (vi_outbox i')" if "lanes_ok (vi_outbox i)" using that by (simp add: ob obq.fold_invar)
qed

lemma try_send_sends:
  assumes "try_send i key data = (i', Inr n, pokes)"
  shows "\<exists>w f ps. sends key w f i data n ps i'"
proof (cases "vi_conns i key")
  case (Some c)
  show ?thesis
  proof (cases "cn_receive_closed c \<or> cn_state c \<noteq> Established")
    case True
    then have "i' = i" "n = 0" using assms Some by (auto simp: try_send_def split: if_splits)
    then show ?thesis using sends_nothing [of key _ _ i data] by blast
  next
    case False
    obtain j left where l: "send_loop key (cn_window c) (cr_fwd_cnt (cn_credit c)) i (unat (credit_available (cn_credit c)))
        (outbox_room (vi_outbox i) key) data = (j, left)" by fastforce
    from send_loop_sends [OF l] Some obtain m ps where "left = drop m data" "sends key (cn_window c) (cr_fwd_cnt (cn_credit c)) i data m ps j" by auto
    then show ?thesis using assms Some False l by (auto simp: try_send_def sends_def)
  qed
qed (use assms in \<open>simp add: try_send_def\<close>)

lemma send_owned_sends:
  assumes "send_owned i key data bulk = (i', Inr left, pokes)" "length data \<le> MAX_PAYLOAD"
  shows "\<exists>w f ps. sends key w f i data (length data - length (case left of None \<Rightarrow> [] | Some d \<Rightarrow> d)) ps i'"
proof (cases "vi_conns i key")
  case (Some c)
  show ?thesis
  proof (cases "cn_receive_closed c \<or> cn_state c \<noteq> Established \<or> outbox_room (vi_outbox i) key = 0 \<or> credit_available (cn_credit c) = 0")
    case True
    then have "i' = i" "left = Some data" using assms(1) Some by (auto simp: send_owned_def Let_def unat_eq_0 split: if_splits)
    moreover have "\<exists>w f ps. sends key w f i data 0 ps i" using sends_nothing [of key _ _ i data] by blast
    ultimately show ?thesis by simp
  next
    case False
    let ?a = "unat (credit_available (cn_credit c))" and ?w = "cn_window c" and ?f = "cr_fwd_cnt (cn_credit c)"
    have r: "i' = queue_data i key ?w ?f (take ?a data)" "left = (if ?a < length data then Some (drop ?a data) else None)"
      using assms(1) Some False by (auto simp: send_owned_def Let_def unat_eq_0)
    let ?m = "min ?a (length data)"
    have "take ?a data = take ?m data" by (simp add: min_def)
    moreover have "sends key ?w ?f i data (?m + 0) [rw_packet key ?w ?f (take ?m data)] (queue_data i key ?w ?f (take ?m data))"
      using assms(2) Some by (intro sends_packet sends_nothing) simp_all
    ultimately have "sends key ?w ?f i data ?m [rw_packet key ?w ?f (take ?m data)] i'" using r(1) by simp
    moreover have "length data - length (case left of None \<Rightarrow> [] | Some d \<Rightarrow> d) = ?m" by (simp add: r(2) min_def)
    ultimately show ?thesis by metis
  qed
qed (use assms in \<open>simp add: send_owned_def\<close>)

lemma send_step_sends: "send_step key data i n i' \<Longrightarrow> \<exists>w f ps. sends key w f i data n ps i'"
proof (induction rule: send_step.induct)
  case (sent i key data i' n ps)
  then show ?case by (rule try_send_sends)
next
  case (sent_owned i key data bulk i' left ps)
  show ?case
  proof (cases "MAX_PAYLOAD < length data")
    case False
    then show ?thesis using send_owned_sends [of i key data bulk i' left ps] sent_owned by (simp add: try_send_owned_def)
  next
    case True
    let ?first = "take MAX_PAYLOAD data" and ?later = "drop MAX_PAYLOAD data"
    obtain lf where o: "send_owned i key ?first bulk = (i', Inr lf, ps)" and l: "left = Some ((case lf of None \<Rightarrow> [] | Some d \<Rightarrow> d) @ ?later)"
      using sent_owned True by (auto simp: try_send_owned_def split: prod.splits sum.splits option.splits)
    let ?n = "length ?first - length (case lf of None \<Rightarrow> [] | Some d \<Rightarrow> d)"
    have "take ?n ?first = take ?n data" using True by (simp add: min_absorb1)
    moreover obtain w f qs where "sends key w f i ?first ?n qs i'" using send_owned_sends [OF o] by auto
    ultimately have "sends key w f i data ?n qs i'" unfolding sends_def by auto
    then show ?thesis using True by (auto simp: l min_def)
  qed
next
  case (sent_pass i key data i' left ps)
  then obtain c where c: "vi_conns i key = Some c" and "send_loop key (cn_window c) (cr_fwd_cnt (cn_credit c)) i (unat (credit_available (cn_credit c)))
      (outbox_room (vi_outbox i) key) data = (i', left)"
    by (auto simp: send_pass_def Let_def case_prod_unfold split: option.splits if_splits)
  from send_loop_sends [OF this(2)] c obtain n qs where "left = drop n data" "sends key (cn_window c) (cr_fwd_cnt (cn_credit c)) i data n qs i'"
    by auto
  then show ?case by (auto simp: sends_def)
qed

section \<open>Delivering bytes\<close>

definition given_bytes :: "packet option list \<Rightarrow> conn_key \<Rightarrow> bytes" where
  "given_bytes given k = seq_bytes (filter (\<lambda>p. key_of p = k) (List.map_filter id given))"

lemma given_bytes_simps [simp]:
  "given_bytes [] k = []" "given_bytes (xs @ ys) k = given_bytes xs k @ given_bytes ys k"
  "given_bytes [None] k = []" "given_bytes [Some p] k = (if key_of p = k then data_of p else [])"
  by (simp_all add: given_bytes_def List.map_filter_def)

lemma rx_fill_bytes:
  assumes ok: "lanes_ok ob" and pop: "pop_front ob = Some (p0, ob0)" and fill: "rx_fill p0 ob0 ob q mem c = Ok (ob', q', mem', op)"
  shows "lanes_ok ob'" "seq_bytes (outbox_seq ob k) = given_bytes [op] k @ seq_bytes (outbox_seq ob' k)"
proof -
  define room where "room = sum_list (map (\<lambda>d. unat (d_len d)) (filter is_write_only (chain_descs mem c))) - HDR_LEN"
  let ?left = "(packet_control (pk_op p0) (src_port p0) (dst_port p0))\<lparr>payload := drop room (payload p0), buf_alloc := buf_alloc p0, fwd_cnt := fwd_cnt p0\<rparr>"
  consider (small) "ob' = ob" "op = None"
    | (whole) "ob' = ob0" "op = Some p0"
    | (split) "ob' = push_front ob0 ?left" "op = Some (p0\<lparr>payload := take room (payload p0)\<rparr>)"
    using fill by (auto simp: rx_fill_def split_packet_def Let_def room_def split: if_splits prod.splits)
  then show "lanes_ok ob'" "seq_bytes (outbox_seq ob k) = given_bytes [op] k @ seq_bytes (outbox_seq ob' k)"
  proof (atomize (full), cases)
    case small
    then show "lanes_ok ob' \<and> seq_bytes (outbox_seq ob k) = given_bytes [op] k @ seq_bytes (outbox_seq ob' k)" using ok by simp
  next
    case whole
    then show "lanes_ok ob' \<and> seq_bytes (outbox_seq ob k) = given_bytes [op] k @ seq_bytes (outbox_seq ob' k)"
      using obq.bytes_deq [OF ok pop] obq.invars(3) [OF ok pop] by simp
  next
    case split
    have "data_of p0 = data_of (p0\<lparr>payload := take room (payload p0)\<rparr>) @ data_of ?left"
      by (simp add: data_of_def packet_control_def)
    from obq.bytes_split [OF ok pop _ this] have "seq_bytes (outbox_seq ob k) =
        (if key_of p0 = k then data_of (p0\<lparr>payload := take room (payload p0)\<rparr>) else []) @ seq_bytes (outbox_seq (push_front ob0 ?left) k)"
      by (simp add: key_of_def packet_control_def)
    then show "lanes_ok ob' \<and> seq_bytes (outbox_seq ob k) = given_bytes [op] k @ seq_bytes (outbox_seq ob' k)"
      using split obq.invars(2) [OF obq.invars(3) [OF ok pop]] by (simp add: key_of_def)
  qed
qed

lemma rx_loop_bytes:
  assumes "rx_loop ob q mem given = Some (Ok (ob', q', mem', given'))" "lanes_ok ob"
  shows "lanes_ok ob'" "given_bytes given k @ seq_bytes (outbox_seq ob k) = given_bytes given' k @ seq_bytes (outbox_seq ob' k)"
proof -
  let ?P = "\<lambda>ob given y. lanes_ok ob \<longrightarrow> lanes_ok (fst y) \<and>
    given_bytes given k @ seq_bytes (outbox_seq ob k) = given_bytes (snd (snd (snd y))) k @ seq_bytes (outbox_seq (fst y) k)"
  have "\<forall>y. Ok (ob', q', mem', given') = (Ok y :: (memory_error, _) result) \<longrightarrow> ?P ob given y"
  proof (rule rx_loop.raw_induct [where P = "\<lambda>ob q mem given r. \<forall>y. r = Ok y \<longrightarrow> ?P ob given y", OF _ assms(1)], intro allI impI)
    fix loop ob q mem given r y
    assume IH: "\<And>ob q mem given r. loop ob q mem given = Some r \<Longrightarrow> \<forall>y. r = Ok y \<longrightarrow> ?P ob given y"
      and body: "(case pop_front ob of
        None \<Rightarrow> Some (Ok (ob, q, mem, given))
      | Some (p0, ob0) \<Rightarrow>
          run_bind (Some (pop q mem)) (\<lambda>(q1, oc). case oc of
             None \<Rightarrow> Some (Ok (ob, q1, mem, given))
           | Some c \<Rightarrow> run_bind (Some (rx_fill p0 ob0 ob q1 mem c)) (\<lambda>(ob', q2, mem2, op). loop ob' q2 mem2 (given @ [op])))) = Some r"
      and r: "r = Ok y" and ok: "lanes_ok ob"
    let ?goal = "lanes_ok (fst y) \<and> given_bytes given k @ seq_bytes (outbox_seq ob k) = given_bytes (snd (snd (snd y))) k @ seq_bytes (outbox_seq (fst y) k)"
    show ?goal
    proof (cases "pop_front ob")
      case None
      then show ?thesis using body r ok by auto
    next
      case (Some pr)
      then obtain p0 ob0 where pf: "pop_front ob = Some (p0, ob0)" by (cases pr) simp
      then obtain q1 oc where p: "pop q mem = Ok (q1, oc)" using body r by (cases "pop q mem") auto
      show ?thesis
      proof (cases oc)
        case None
        then show ?thesis using body r pf p ok by auto
      next
        case (Some c)
        then obtain ob2 q2 mem2 op where fl: "rx_fill p0 ob0 ob q1 mem c = Ok (ob2, q2, mem2, op)" and l: "loop ob2 q2 mem2 (given @ [op]) = Some (Ok y)"
          using body r pf p by auto
        have "?P ob2 (given @ [op]) y" using IH [OF l] by blast
        then show ?thesis using rx_fill_bytes [OF ok pf fl] by simp
      qed
    qed
  qed
  then show "lanes_ok ob'" "given_bytes given k @ seq_bytes (outbox_seq ob k) = given_bytes given' k @ seq_bytes (outbox_seq ob' k)"
    using assms(2) by simp_all
qed

section \<open>Everything else\<close>

text \<open>The other operations queue control packets at most: no connection's bytes change.\<close>

definition still :: "vsock_inner \<Rightarrow> vsock_inner \<Rightarrow> bool" where
  "still i i' \<longleftrightarrow> pending_bytes i' = pending_bytes i \<and> (lanes_ok (vi_outbox i) \<longrightarrow> lanes_ok (vi_outbox i'))"

named_theorems still_intros "operations that change no queued byte"

lemma still_refl [simp]: "still i i"
  by (simp add: still_def)

lemma still_trans: "still i i1 \<Longrightarrow> still i1 i2 \<Longrightarrow> still i i2"
  by (simp add: still_def)

lemma still_outbox: "vi_outbox i' = vi_outbox i \<Longrightarrow> still i i'"
  by (simp add: still_def pending_bytes_def fun_eq_iff)

lemma still_queue: "pk_op p \<noteq> Rw \<Longrightarrow> still i i' \<Longrightarrow> still i (queue_packet i' p)"
  by (simp add: still_def pending_bytes_def queue_packet_def obq.bytes_enq obq.invars data_of_def fun_eq_iff)

lemma still_queued: "pk_op p \<noteq> Rw \<Longrightarrow> vi_outbox i' = vi_outbox i \<Longrightarrow> still i (queue_packet i' p)"
  by (rule still_queue [OF _ still_outbox])

lemma outbox_queue [simp]: "vi_outbox (queue_packet i p) = push_back (vi_outbox i) p"
  by (simp add: queue_packet_def)

lemma still_pushed: "vi_outbox i' = push_back (vi_outbox i) p \<Longrightarrow> pk_op p \<noteq> Rw \<Longrightarrow> still i i'"
  by (simp add: still_def pending_bytes_def obq.bytes_enq obq.invars data_of_def fun_eq_iff)

lemma control_op [simp]: "pk_op (packet_control opc a b) = opc"
  by (simp add: packet_control_def)

lemma outbox_fields [simp]:
  "vi_outbox (discard i cs) = vi_outbox i" "vi_outbox (retire i c) = vi_outbox i" "vi_outbox (fst (remove_conn i key)) = vi_outbox i"
  "vi_outbox (fst (insert_conn now i key port st)) = vi_outbox i" "vi_outbox (finish_head now h i) = vi_outbox i"
proof -
  show d: "vi_outbox (discard i cs) = vi_outbox i" for i cs by (simp add: discard_def)
  show r: "vi_outbox (retire i c) = vi_outbox i" for i c by (simp add: retire_def d)
  show "vi_outbox (fst (remove_conn i key)) = vi_outbox i" for i by (simp add: remove_conn_def Let_def r split: option.split)
  show "vi_outbox (fst (insert_conn now i key port st)) = vi_outbox i"
    by (simp add: insert_conn_def budget_open_def Let_def r split: option.split)
  show "vi_outbox (finish_head now h i) = vi_outbox i" by (simp add: finish_head_def Let_def split: option.split prod.split)
qed

lemma still_remove: "still i i' \<Longrightarrow> still i (fst (remove_conn i' key))"
  by (erule still_trans) (simp add: still_outbox)

lemma still_finish_shutdown: "still i (finish_shutdown i key)"
  by (auto simp: finish_shutdown_def Let_def intro!: still_remove still_queue split: option.split)

text \<open>A packet that shuts a connection's receiving side drops what is queued for it.\<close>

definition shuts_receive :: "vsock_inner \<Rightarrow> packet \<Rightarrow> bool" where
  "shuts_receive i p \<longleftrightarrow> pk_op p = Shutdown \<and>
     (\<exists>c. vi_conns i (dst_port p, src_port p) = Some c \<and> (cn_receive_closed c \<or> pk_flags p AND SHUTDOWN_RCV \<noteq> 0))"

lemma still_handle:
  assumes "\<not> shuts_receive i p"
  shows "still i (handle now i p)"
proof -
  let ?i = "handle_observed i p" and ?key = "(dst_port p, src_port p)"
  have o: "still i ?i" by (auto intro!: still_outbox simp: handle_observed_def Let_def split: option.split)
  have "still ?i (handle_shutdown ?i p)" if "pk_op p = Shutdown"
  proof (cases "vi_conns ?i ?key")
    case (Some c)
    then have "\<not> (cn_receive_closed c \<or> pk_flags p AND SHUTDOWN_RCV \<noteq> 0)"
      using assms that by (auto simp: shuts_receive_def handle_observed_def Let_def split: option.splits)
    then show ?thesis using Some
      by (auto intro!: still_trans [OF still_outbox still_finish_shutdown] simp: handle_shutdown_def Let_def)
  qed (simp add: handle_shutdown_def Let_def)
  moreover have "still ?i (handle_request now ?i p)"
    by (auto simp: still_queued still_outbox handle_request_def Let_def case_prod_unfold)
  ultimately have "still ?i (handle now i p)"
    by (cases "pk_op p") (auto intro!: still_remove simp: still_queued still_outbox handle_def Let_def split: option.split)
  then show ?thesis by (rule still_trans [OF o])
qed

lemma still_guest_rw: "still i (fst (handle_guest_rw copy_all rd now i p h spans))"
  by (auto simp: still_queued still_outbox handle_guest_rw_def Let_def case_prod_unfold split: option.split)

lemma still_acknowledge: "still i (fst (acknowledge eager now i key m))"
  by (auto intro!: still_trans [OF still_outbox still_finish_shutdown]
      simp: still_queued still_outbox acknowledge_def Let_def case_prod_unfold split: option.split)

lemma still_ack: "vi_outbox j = vi_outbox i \<Longrightarrow> still i (fst (acknowledge eager now j key m))"
  by (rule still_trans [OF still_outbox still_acknowledge])

lemma still_fold: "(\<And>x i. still i (f x i)) \<Longrightarrow> still i (fold f xs i)"
proof (induction xs arbitrary: i)
  case (Cons x xs)
  show ?case using still_trans [OF Cons.prems Cons.IH [OF Cons.prems]] by simp
qed simp

lemma still_sweep: "still i (fst (sweep now ks i))"
proof -
  have rst: "pk_op (rst_packet key) \<noteq> Rw" for key by (simp add: rst_packet_def)
  have "still j (end_conn k st j)" for j k st
    by (rule still_pushed [where p = "rst_packet k"]) (simp_all add: end_conn_def Let_def rst)
  then have e: "still j (fold (\<lambda>p. end_conn (fst p) (cn_state (snd p))) xs j)" for j xs by (intro still_fold)
  have "still j (cut_window k b j)" for j k b
    by (auto simp: still_queued still_outbox cut_window_def Let_def case_prod_unfold split: option.split)
  then have c: "still j (fold (\<lambda>p. cut_window (fst p) (0 < buffered (snd p))) xs j)" for j xs by (intro still_fold)
  have "still j (fst (watchdog now ks j))" for j
  proof -
    have "still j ((fst (remove_conn (call_socket ShutBoth c (queue_packet (j\<lparr>vi_ring_full_since := t\<rparr>) (rst_packet key))) key))
        \<lparr>vi_warden := w, vi_ring_full_since := None\<rparr>)" for t key c w
      by (rule still_pushed [where p = "rst_packet key"]) (simp_all add: rst)
    then show ?thesis by (auto intro!: still_outbox simp: watchdog_def Let_def split: option.split)
  qed
  then have "still i (fst (watchdog now ks (fold (\<lambda>p. cut_window (fst p) (0 < buffered (snd p))) xs
      (fold (\<lambda>p. end_conn (fst p) (cn_state (snd p))) ys i))))" for xs ys
    by (rule still_trans [OF still_trans [OF e c]])
  then show ?thesis by (simp add: sweep_def Let_def case_prod_unfold)
qed

lemma still_host: "host_step w w' \<Longrightarrow> still (fst w) (fst w')"
proof (induction rule: host_step.induct)
  case (read i fl eager rd now key n)
  show ?case
    by (auto simp: still_ack try_read_outbound_def Let_def case_prod_unfold split: option.split)
next
  case (read_pass i fl eager rd now key n out)
  show ?case
    by (auto simp: still_ack still_outbox read_exact_pass_def Let_def case_prod_unfold split: option.split)
next
  case (abandoned i fl key)
  show ?case by (auto simp: still_queued still_outbox abandon_def rst_packet_def Let_def case_prod_unfold)
next
  case (shut i fl now key)
  show ?case
    by (auto intro!: still_trans [OF still_queued still_outbox] simp: vs_shutdown_def Let_def split: option.split)
qed (auto simp: still_queued still_outbox still_acknowledge still_sweep vs_open_def vs_listen_def vs_attach_def try_take_outbound_def
    take_pass_def vs_complete_def shutdown_write_def vs_label_def take_touched_def Let_def case_prod_unfold split: option.splits if_splits)

section \<open>The stream to the guest\<close>

text \<open>
  One connection while the guest listens to it: \<open>acc\<close> are the bytes the host's threads have been told were taken, \<open>got\<close> the
  bytes written to the guest's buffers. Everything else may happen in between: packets of the guest, payloads,
  completions, other connections, the warden.
\<close>

inductive stream_life :: "conn_key \<Rightarrow> vsock_inner \<Rightarrow> bytes \<Rightarrow> bytes \<Rightarrow> bool" for k where
  start: "vi_outbox i = outbox_default \<Longrightarrow> stream_life k i [] []"
| send: "stream_life k i acc got \<Longrightarrow> send_step key data i n i' \<Longrightarrow>
    stream_life k i' (if key = k then acc @ take n data else acc) got"
| deliver: "stream_life k i acc got \<Longrightarrow> rx_loop (vi_outbox i) q mem [] = Some (Ok (ob, q', mem', given)) \<Longrightarrow>
    stream_life k (i\<lparr>vi_outbox := ob\<rparr>) acc (got @ given_bytes given k)"
| host: "stream_life k i acc got \<Longrightarrow> host_step (i, fl) (i', fl') \<Longrightarrow> stream_life k i' acc got"
| packet: "stream_life k i acc got \<Longrightarrow> \<not> (shuts_receive i p \<and> (dst_port p, src_port p) = k) \<Longrightarrow> stream_life k (handle now i p) acc got"
| payload: "stream_life k i acc got \<Longrightarrow> stream_life k (fst (handle_guest_rw copy_all rd now i p h spans)) acc got"
| returned: "stream_life k i acc got \<Longrightarrow> stream_life k (fst (finish_done now i)) acc got"

text \<open>Dropping what is queued for one connection leaves the others alone.\<close>

lemma retain_other:
  assumes "k \<noteq> key"
  shows "outbox_seq (outbox_retain (\<lambda>q. \<not> (src_port q = fst key \<and> dst_port q = snd key \<and> pk_op q = Rw)) ob) k = outbox_seq ob k"
proof -
  have "filter (\<lambda>p. key_of p = k) (filter (\<lambda>q. \<not> (src_port q = fst key \<and> dst_port q = snd key \<and> pk_op q = Rw)) ps) =
      filter (\<lambda>p. key_of p = k) ps" for ps
    using assms by (induction ps) (auto simp: key_of_def)
  then show ?thesis by (simp add: outbox_seq_def outbox_retain_def)
qed

lemma handle_other:
  assumes "k \<noteq> (dst_port p, src_port p)"
  shows "pending_bytes (handle now i p) k = pending_bytes i k" "lanes_ok (vi_outbox i) \<Longrightarrow> lanes_ok (vi_outbox (handle now i p))"
proof -
  let ?key = "(dst_port p, src_port p)"
  have "\<exists>j. still j (handle now i p) \<and> vi_outbox j = outbox_retain (\<lambda>q. \<not> (src_port q = fst ?key \<and> dst_port q = snd ?key \<and> pk_op q = Rw)) (vi_outbox i)"
    if sh: "shuts_receive i p"
  proof -
    let ?i = "handle_observed i p"
    have o: "vi_outbox ?i = vi_outbox i" by (auto simp: handle_observed_def Let_def split: option.split)
    obtain c where c: "vi_conns ?i ?key = Some c" "cn_receive_closed c \<or> pk_flags p AND SHUTDOWN_RCV \<noteq> 0" and op: "pk_op p = Shutdown"
      using sh by (auto simp: shuts_receive_def handle_observed_def Let_def)
    let ?c = "c\<lparr>cn_guest_done := cn_guest_done c \<or> pk_flags p AND SHUTDOWN_SEND \<noteq> 0,
        cn_receive_closed := cn_receive_closed c \<or> pk_flags p AND SHUTDOWN_RCV \<noteq> 0\<rparr>"
    let ?j0 = "call_socket ShutRead ?c (put_conn ?i ?key ?c)"
    let ?j = "?j0\<lparr>vi_outbox := outbox_retain (\<lambda>q. \<not> (src_port q = fst ?key \<and> dst_port q = snd ?key \<and> pk_op q = Rw)) (vi_outbox ?j0)\<rparr>"
    have "handle now i p = finish_shutdown ?j ?key" using c op by (simp add: handle_def handle_shutdown_def Let_def)
    then show ?thesis using still_finish_shutdown [of ?j ?key] o by (intro exI [where x = ?j]) simp
  qed
  then obtain j where j: "shuts_receive i p \<Longrightarrow> still j (handle now i p)"
    "shuts_receive i p \<Longrightarrow> vi_outbox j = outbox_retain (\<lambda>q. \<not> (src_port q = fst ?key \<and> dst_port q = snd ?key \<and> pk_op q = Rw)) (vi_outbox i)"
    by blast
  have ret: "lanes_ok (outbox_retain f ob)" if "lanes_ok ob" for f ob using that by (simp add: lanes_ok_def outbox_retain_def)
  show "pending_bytes (handle now i p) k = pending_bytes i k"
  proof (cases "shuts_receive i p")
    case True
    from j(1) [OF True] have "pending_bytes (handle now i p) k = pending_bytes j k" by (simp add: still_def)
    then show ?thesis by (simp only: pending_bytes_def j(2) [OF True] retain_other [OF assms])
  next
    case False
    then show ?thesis using still_handle [OF False, of now] by (simp add: still_def)
  qed
  show "lanes_ok (vi_outbox (handle now i p))" if "lanes_ok (vi_outbox i)"
    using that j ret still_handle [of i p now] by (cases "shuts_receive i p") (simp_all add: still_def)
qed

lemma stream_life_inv: "stream_life k i acc got \<Longrightarrow> lanes_ok (vi_outbox i) \<and> acc = got @ pending_bytes i k"
proof (induction rule: stream_life.induct)
  case (start i)
  then show ?case by (simp add: lanes_ok_def pending_bytes_def outbox_seq_def outbox_default_def)
next
  case (send i acc got key data n i')
  obtain w f ps where "sends key w f i data n ps i'" using send_step_sends [OF send(2)] by blast
  from sends_pending [OF this] send.IH show ?case by auto
next
  case (deliver i acc got q mem ob q' mem' given)
  then show ?case using rx_loop_bytes [OF deliver(2)] by (simp add: pending_bytes_def)
next
  case (host i acc got fl i' fl')
  then show ?case using still_host [OF host(2)] by (simp add: still_def)
next
  case (packet i acc got p now)
  show ?case
  proof (cases "k = (dst_port p, src_port p)")
    case True
    then have "still i (handle now i p)" using packet(2) by (intro still_handle) simp
    then show ?thesis using packet.IH by (simp add: still_def)
  next
    case False
    then show ?thesis using packet.IH handle_other [OF False, where i = i and now = now] by simp
  qed
next
  case (payload i acc got copy_all rd now p h spans)
  then show ?case using still_guest_rw [of i copy_all rd now p h spans] by (simp add: still_def)
next
  case (returned i acc got now)
  have "vi_outbox (fold (finish_head now) hs j) = vi_outbox j" for hs j by (induction hs arbitrary: j) simp_all
  then have "vi_outbox (fst (finish_done now i)) = vi_outbox i" by (simp add: finish_done_def)
  then show ?case using returned.IH by (simp add: pending_bytes_def)
qed


text \<open>C35: Sending takes what credit and the outbox allow, no more and no less. On an open connection, \<^verbatim>\<open>try_send\<close> queues a
  beginning of the data, in packets of at most the largest payload, none empty, that carry the connection's window
  and count; it never exceeds the guest's credit nor the room of its lane, and leaves data over only when one
  of them is used up; the credit advances by exactly what was queued, no other connection changes, and the
  transport is woken exactly when there is something to deliver.\<close>

theorem try_send_exact:
  assumes c: "vi_conns i key = Some c" "cn_state c = Established" "\<not> cn_receive_closed c"
  shows "\<exists>n ps i'. try_send i key data = (i', Inr n, if n = 0 then [] else [Wake]) \<and>
    n \<le> length data \<and> concat (map payload ps) = take n data \<and>
    (\<forall>p \<in> set ps. \<exists>b. p = rw_packet key (cn_window c) (cr_fwd_cnt (cn_credit c)) b \<and> b \<noteq> [] \<and> length b \<le> MAX_PAYLOAD) \<and>
    n \<le> unat (credit_available (cn_credit c)) \<and> length ps \<le> outbox_room (vi_outbox i) key \<and>
    (n < length data \<longrightarrow> n = unat (credit_available (cn_credit c)) \<or> length ps = outbox_room (vi_outbox i) key) \<and>
    vi_outbox i' = fold (\<lambda>p ob. push_back ob p) ps (vi_outbox i) \<and>
    vi_conns i' = (vi_conns i)(key \<mapsto> c\<lparr>cn_credit := credit_sent (cn_credit c) (of_nat n)\<rparr>)"
proof -
  let ?w = "cn_window c" and ?f = "cr_fwd_cnt (cn_credit c)" and ?a = "unat (credit_available (cn_credit c))"
  obtain i' left where l: "send_loop key ?w ?f i ?a (outbox_room (vi_outbox i) key) data = (i', left)" by fastforce
  from send_loop_sends [OF l] c(1) obtain n ps where s: "left = drop n data" "sends key ?w ?f i data n ps i'" "n \<le> ?a"
    "length ps \<le> outbox_room (vi_outbox i) key" "\<forall>p \<in> set ps. payload p \<noteq> []"
    "n < length data \<longrightarrow> n = ?a \<or> length ps = outbox_room (vi_outbox i) key" by auto
  have n: "n \<le> length data" using s(2) by (simp add: sends_def)
  then have "try_send i key data = (i', Inr n, if n = 0 then [] else [Wake])"
    using c l s(1) by (auto simp: try_send_def)
  moreover have "\<forall>p \<in> set ps. \<exists>b. p = rw_packet key ?w ?f b \<and> b \<noteq> [] \<and> length b \<le> MAX_PAYLOAD"
    using s(2,5) by (fastforce simp: sends_def)
  ultimately show ?thesis
    using s n c(1) by (intro exI [where x = n] exI [where x = ps] exI [where x = i']) (simp add: sends_def)
qed

section \<open>The properties at work\<close>

lemma send_loop_nil: "send_loop key w f i allowed room [] = (i, [])"
  by (cases room) simp_all

lemma demo_room: "outbox_room (vi_outbox demo_table) (7000, 40000) = 1023"
  by (simp add: outbox_room_def demo_table_def handle_def handle_observed_def handle_request_def vs_listen_def vsock_start_def vsock_new_def
      Let_def packet_control_def insert_conn_def budget_open_def put_conn_def queue_packet_def conn_new_def is_control_def CONTROL_PORTS_def
      push_back_def outbox_default_def OUTBOX_LIMIT_def)

lemma demo_send: "\<exists>i'. try_send demo_table (7000, 40000) [1, 2, 3] = (i', Inr 3, [Wake])"
proof -
  have "unat (credit_available (credit_observe credit_new 65536 0)) = 65536"
    by (simp add: credit_available_def credit_observe_def credit_new_def saturating_sub_def)
  moreover have "\<exists>i'. send_loop key w f i 65536 (Suc r) [1, 2, 3] = (i', [])" for key w f i r
    by (simp add: send_loop_nil MAX_PAYLOAD_def Let_def)
  from this [where r = 1022] have "\<exists>i'. send_loop key w f i 65536 1023 [1, 2, 3] = (i', [])" for key w f i by simp
  then obtain i' where "send_loop (7000, 40000) MIN_WINDOW (cr_fwd_cnt (credit_observe credit_new 65536 0)) demo_table 65536 1023 [1, 2, 3] = (i', [])"
    by blast
  ultimately show ?thesis by (simp add: try_send_def demo_table_fields conn_new_def demo_room)
qed


theorem try_send_exact_witness:
  "\<exists>n i'. try_send demo_table (7000, 40000) [1, 2, 3] = (i', Inr n, if n = 0 then [] else [Wake]) \<and> n = 3 \<and>
     (\<exists>ps. concat (map payload ps) = [1, 2, 3] \<and> vi_outbox i' = fold (\<lambda>p ob. push_back ob p) ps (vi_outbox demo_table))"
proof -
  let ?k = "(7000, 40000) :: conn_key" and ?c = "(conn_new 0 40000 Established MIN_WINDOW 1)\<lparr>cn_credit := credit_observe credit_new 65536 0\<rparr>"
  have c: "vi_conns demo_table ?k = Some ?c" "cn_state ?c = Established" "\<not> cn_receive_closed ?c"
    by (simp_all add: demo_table_fields conn_new_def)
  obtain i3 where s: "try_send demo_table ?k [1, 2, 3] = (i3, Inr 3, [Wake])" using demo_send by blast
  from try_send_exact [OF c, of "[1, 2, 3]"] s show ?thesis by auto
qed

end
