(* ===== verification/Vsock_Warden.thy ===== *)
theory Vsock_Warden
  imports Vsock_Stream
begin

text \<open>
  The warden of virtio-vsock, \<^verbatim>\<open>VsockShared::sweep\<close>: what nobody else will end is ended, what nobody uses is taken back.
\<close>

text \<open>A packet waits in the outbox.\<close>

definition waits_in :: "packet \<Rightarrow> outbox \<Rightarrow> bool" where
  "waits_in p ob \<longleftrightarrow> p \<in> set (ob_control ob) \<or> p \<in> set (ob_bulk ob)"

lemma waits_push [simp]: "waits_in p (push_back ob q) \<longleftrightarrow> p = q \<or> waits_in p ob"
  by (auto simp: waits_in_def push_back_def)

section \<open>One connection ended\<close>

lemma remove_conns: "vi_conns (fst (remove_conn i key)) = (vi_conns i)(key := None)"
  by (auto simp: remove_conn_def Let_def retire_def fun_eq_iff split: option.split)

lemma discard_done: "vi_done (discard i cs) = vi_done i @ heads_of cs"
  using arg_cong [OF ledger_discard [of i cs "[]"], of lg_done] by simp

lemma remove_done:
  "vi_done (fst (remove_conn i key)) = vi_done i @ (case vi_conns i key of None \<Rightarrow> [] | Some c \<Rightarrow> heads_of (cn_outbound c))"
  by (auto simp: remove_conn_def Let_def retire_def discard_done split: option.split)

lemma end_conn_fields:
  "vi_conns (end_conn key st i) = (vi_conns i)(key := None)"
  "vi_done (end_conn key st i) = vi_done i @ (case vi_conns i key of None \<Rightarrow> [] | Some c \<Rightarrow> heads_of (cn_outbound c))"
  "vi_outbox (end_conn key st i) = push_back (vi_outbox i) (rst_packet key)"
  by (simp_all add: end_conn_def Let_def remove_conns remove_done)

lemma remove_held: "vi_held (fst (remove_conn i key)) = vi_held i" "vi_tx_ring (fst (remove_conn i key)) = vi_tx_ring i"
  by (auto simp: remove_conn_def Let_def retire_def discard_def split: option.split)

lemma end_conn_held: "vi_held (end_conn key st i) = vi_held i" "vi_tx_ring (end_conn key st i) = vi_tx_ring i"
  by (simp_all add: end_conn_def Let_def remove_held)

abbreviation end_all :: "(conn_key \<times> conn) list \<Rightarrow> vsock_inner \<Rightarrow> vsock_inner" where
  "end_all \<equiv> fold (\<lambda>(k, c). end_conn k (cn_state c))"

lemma end_all_conns: "vi_conns (end_all xs i) k = (if k \<in> fst ` set xs then None else vi_conns i k)"
  by (induction xs arbitrary: i) (auto simp: end_conn_fields case_prod_unfold)

lemma end_all_grows:
  "x \<in> set (vi_done i) \<Longrightarrow> x \<in> set (vi_done (end_all xs i))" "waits_in p (vi_outbox i) \<Longrightarrow> waits_in p (vi_outbox (end_all xs i))"
  by (induction xs arbitrary: i) (simp_all add: end_conn_fields case_prod_unfold)

lemma end_all_held: "vi_held (end_all xs i) = vi_held i" "vi_tx_ring (end_all xs i) = vi_tx_ring i"
  by (induction xs arbitrary: i) (simp_all add: end_conn_held case_prod_unfold)

lemma end_all_each:
  assumes "(k, c) \<in> set xs" "vi_conns i k = Some c" "distinct (map fst xs)"
  shows "waits_in (rst_packet k) (vi_outbox (end_all xs i))" "set (heads_of (cn_outbound c)) \<subseteq> set (vi_done (end_all xs i))"
proof -
  obtain xs1 xs2 where xs: "xs = xs1 @ (k, c) # xs2" using assms(1) by (metis split_list)
  let ?j = "end_all xs1 i"
  have j: "vi_conns ?j k = Some c" using assms(2,3) by (auto simp: end_all_conns xs)
  have r: "end_all xs i = end_all xs2 (end_conn k (cn_state c) ?j)" by (simp add: xs)
  show "waits_in (rst_packet k) (vi_outbox (end_all xs i))"
    unfolding r by (rule end_all_grows(2)) (simp add: end_conn_fields)
  have "set (heads_of (cn_outbound c)) \<subseteq> set (vi_done (end_conn k (cn_state c) ?j))" by (simp add: end_conn_fields j)
  then show "set (heads_of (cn_outbound c)) \<subseteq> set (vi_done (end_all xs i))" unfolding r using end_all_grows(1) by blast
qed

section \<open>Windows cut\<close>

abbreviation cut_all :: "(conn_key \<times> conn) list \<Rightarrow> vsock_inner \<Rightarrow> vsock_inner" where
  "cut_all \<equiv> fold (\<lambda>(k, c). cut_window k (0 < buffered c))"

lemma cut_window_fields:
  "vi_conns (cut_window k s i) = (case vi_conns i k of None \<Rightarrow> vi_conns i | Some c \<Rightarrow> (vi_conns i)(k \<mapsto> c\<lparr>cn_window := min (cn_window c) MIN_WINDOW\<rparr>))"
  "vi_done (cut_window k s i) = vi_done i" "vi_held (cut_window k s i) = vi_held i" "vi_tx_ring (cut_window k s i) = vi_tx_ring i"
  "waits_in p (vi_outbox i) \<Longrightarrow> waits_in p (vi_outbox (cut_window k s i))"
  by (auto simp: cut_window_def Let_def budget_shrink_def split: option.split)

lemma cut_all_conns:
  "distinct (map fst xs) \<Longrightarrow> vi_conns (cut_all xs i) k =
     (if k \<in> fst ` set xs then map_option (\<lambda>c. c\<lparr>cn_window := min (cn_window c) MIN_WINDOW\<rparr>) (vi_conns i k) else vi_conns i k)"
  by (induction xs arbitrary: i) (auto simp: cut_window_fields case_prod_unfold split: option.split)

lemma cut_all_fields:
  "vi_done (cut_all xs i) = vi_done i" "vi_held (cut_all xs i) = vi_held i" "vi_tx_ring (cut_all xs i) = vi_tx_ring i"
  "waits_in p (vi_outbox i) \<Longrightarrow> waits_in p (vi_outbox (cut_all xs i))"
  by (induction xs arbitrary: i) (simp_all add: cut_window_fields case_prod_unfold)

section \<open>The watchdog\<close>

lemma watchdog_fields:
  "vi_conns i k = None \<Longrightarrow> vi_conns (fst (watchdog now ks i)) k = None" "set (vi_done i) \<subseteq> set (vi_done (fst (watchdog now ks i)))"
  "waits_in p (vi_outbox i) \<Longrightarrow> waits_in p (vi_outbox (fst (watchdog now ks i)))"
  by (auto simp: watchdog_def Let_def remove_conns remove_done split: option.split prod.split)

lemma watchdog_quiet: "vi_held i < fst (tx_limits i) \<Longrightarrow> vi_conns (fst (watchdog now ks i)) = vi_conns i"
  by (simp add: watchdog_def)

section \<open>A sweep\<close>

text \<open>The connections a sweep finds, in the order it walks the table.\<close>

definition found_conns :: "conn_key list \<Rightarrow> vsock_inner \<Rightarrow> (conn_key \<times> conn) list" where
  "found_conns ks i = List.map_filter (\<lambda>k. map_option (Pair k) (vi_conns i k)) ks"

lemma found_iff: "(k, c) \<in> set (found_conns ks i) \<longleftrightarrow> k \<in> set ks \<and> vi_conns i k = Some c"
  by (induction ks) (auto simp: found_conns_def List.map_filter_simps split: option.split)

lemma found_distinct: "distinct ks \<Longrightarrow> distinct (map fst (filter P (found_conns ks i)))"
proof -
  assume d: "distinct ks"
  have "map fst (found_conns ks i) = filter (\<lambda>k. vi_conns i k \<noteq> None) ks"
    by (induction ks) (auto simp: found_conns_def List.map_filter_simps)
  then have "distinct (map fst (found_conns ks i))" using d by simp
  then show ?thesis by (simp add: distinct_map_filter)
qed

lemma sweep_state:
  "fst (sweep now ks i) = fst (watchdog now ks
     (cut_all (filter (\<lambda>(k, c). sweep_cut now c) (found_conns ks i)) (end_all (filter (\<lambda>(k, c). sweep_ended now c) (found_conns ks i)) i)))"
  by (simp add: sweep_def found_conns_def Let_def case_prod_unfold)

text \<open>What a sweep makes of one connection.\<close>

lemma sweep_conn:
  assumes ks: "distinct ks" "set ks = dom (vi_conns i)" and c: "vi_conns i key = Some c"
  shows "(sweep_ended now c \<longrightarrow>
      vi_conns (fst (sweep now ks i)) key = None \<and> set (heads_of (cn_outbound c)) \<subseteq> set (vi_done (fst (sweep now ks i))) \<and>
      waits_in (rst_packet key) (vi_outbox (fst (sweep now ks i)))) \<and>
    (\<not> sweep_ended now c \<and> vi_held i < fst (tx_limits i) \<longrightarrow>
      vi_conns (fst (sweep now ks i)) key = Some (if sweep_cut now c then c\<lparr>cn_window := MIN_WINDOW\<rparr> else c))"
proof -
  let ?ended = "filter (\<lambda>(k, c). sweep_ended now c) (found_conns ks i)" and ?cut = "filter (\<lambda>(k, c). sweep_cut now c) (found_conns ks i)"
  let ?i1 = "end_all ?ended i" and ?i2 = "cut_all ?cut (end_all ?ended i)"
  have f: "(key, c') \<in> set (found_conns ks i) \<longleftrightarrow> c' = c" for c' using ks c by (auto simp: found_iff)
  have "key \<in> fst ` set (filter (\<lambda>(k, c). P c) xs) \<longleftrightarrow> (\<exists>c. (key, c) \<in> set xs \<and> P c)" for P :: "conn \<Rightarrow> bool" and xs
    by force
  then have e: "key \<in> fst ` set ?ended \<longleftrightarrow> sweep_ended now c" and u: "key \<in> fst ` set ?cut \<longleftrightarrow> sweep_cut now c"
    using f by simp_all
  have d: "distinct (map fst ?ended)" "distinct (map fst ?cut)" using found_distinct [OF ks(1)] by blast+
  show ?thesis
  proof (intro conjI impI)
    assume s: "sweep_ended now c"
    then have m: "(key, c) \<in> set ?ended" using f by simp
    have "vi_conns ?i2 key = None" using s e by (simp add: cut_all_conns [OF d(2)] end_all_conns)
    then show "vi_conns (fst (sweep now ks i)) key = None" unfolding sweep_state by (rule watchdog_fields)
    show "set (heads_of (cn_outbound c)) \<subseteq> set (vi_done (fst (sweep now ks i)))"
      unfolding sweep_state using end_all_each(2) [OF m c d(1)] watchdog_fields(2) [of ?i2] by (simp add: cut_all_fields) blast
    show "waits_in (rst_packet key) (vi_outbox (fst (sweep now ks i)))"
      unfolding sweep_state by (intro watchdog_fields(3) cut_all_fields(4) end_all_each(1) [OF m c d(1)])
  next
    assume s: "\<not> sweep_ended now c \<and> vi_held i < fst (tx_limits i)"
    then have "vi_held ?i2 < fst (tx_limits ?i2)" by (simp add: cut_all_fields end_all_held limits_ring)
    then have "vi_conns (fst (sweep now ks i)) = vi_conns ?i2" unfolding sweep_state by (rule watchdog_quiet)
    moreover have "vi_conns ?i2 key = Some (if sweep_cut now c then c\<lparr>cn_window := min (cn_window c) MIN_WINDOW\<rparr> else c)"
      using s e u c by (simp add: cut_all_conns [OF d(2)] end_all_conns)
    moreover have "sweep_cut now c \<Longrightarrow> min (cn_window c) MIN_WINDOW = MIN_WINDOW" by (auto simp: sweep_cut_def)
    ultimately show "vi_conns (fst (sweep now ks i)) key = Some (if sweep_cut now c then c\<lparr>cn_window := MIN_WINDOW\<rparr> else c)" by simp
  qed
qed

text \<open>C36: The warden ends what nobody else will. After a sweep no connection the host closed is older than eight seconds and none it
  opened has waited longer than thirty for its answer: each such is out of the table, its queued chains are on their
  way back to the guest and a reset waits for it in the outbox, whatever the guest does or fails to
  do. While the ring is below its limit nothing else is ended: every other connection keeps its state, and only
  its window is cut to the least when its peer has stopped taking bytes for two seconds or was idle for ten.\<close>

theorem stale_connections_ended:
  assumes ks: "distinct ks" "set ks = dom (vi_conns i)" and c: "vi_conns i key = Some c"
  shows "(cn_state c = Closed \<and> 8000 \<le> now - cn_since c \<or> cn_state c = Connecting \<and> 30000 \<le> now - cn_since c \<longrightarrow>
      vi_conns (fst (sweep now ks i)) key = None \<and> set (heads_of (cn_outbound c)) \<subseteq> set (vi_done (fst (sweep now ks i))) \<and>
      waits_in (rst_packet key) (vi_outbox (fst (sweep now ks i)))) \<and>
    (cn_state c = Closed \<and> now - cn_since c < 8000 \<or> cn_state c = Connecting \<and> now - cn_since c < 30000 \<longrightarrow>
      vi_held i < fst (tx_limits i) \<longrightarrow> vi_conns (fst (sweep now ks i)) key = Some c) \<and>
    (cn_state c = Established \<longrightarrow> vi_held i < fst (tx_limits i) \<longrightarrow>
      vi_conns (fst (sweep now ks i)) key =
        Some (if 65536 < cn_window c \<and> (if cn_received c \<noteq> cr_fwd_cnt (cn_credit c) then 2000 else 10000) \<le> now - cn_drained c
              then c\<lparr>cn_window := 65536\<rparr> else c))"
  using sweep_conn [OF assms, of now]
  by (auto simp: sweep_ended_def sweep_cut_def CLOSE_TIMEOUT_def CONNECT_TIMEOUT_def STALL_AFTER_def IDLE_AFTER_def MIN_WINDOW_def
      buffered_def word_gt_0 split: if_splits)

text \<open>A connection the host opened at time 0, never answered.\<close>

lemma demo_opened:
  "\<exists>c. vi_conns (fst (vs_open 0 (vsock_start 0 256) 2375 7)) (1073741824, 2375) = Some c \<and> cn_state c = Connecting \<and> cn_since c = 0"
  "dom (vi_conns (fst (vs_open 0 (vsock_start 0 256) 2375 7))) = {(1073741824, 2375)}"
  by (simp_all add: vs_open_def vsock_start_def vsock_new_def Let_def insert_conn_def budget_open_def put_conn_def queue_packet_def
      conn_new_def FIRST_EPHEMERAL_PORT_def)

theorem stale_connections_ended_witness:
  "vi_conns (fst (sweep 30000 [(1073741824, 2375)] (fst (vs_open 0 (vsock_start 0 256) 2375 7)))) (1073741824, 2375) = None \<and>
   waits_in (rst_packet (1073741824, 2375)) (vi_outbox (fst (sweep 30000 [(1073741824, 2375)] (fst (vs_open 0 (vsock_start 0 256) 2375 7)))))"
proof -
  obtain c where c: "vi_conns (fst (vs_open 0 (vsock_start 0 256) 2375 7)) (1073741824, 2375) = Some c"
    and s: "cn_state c = Connecting" "cn_since c = 0" using demo_opened(1) by blast
  show ?thesis using s stale_connections_ended [OF _ _ c, of "[(1073741824, 2375)]" 30000] demo_opened(2) by simp
qed

section \<open>A ring at its limit\<close>

text \<open>Three connections whose peers have stopped reading, each within its share of a ring of four: together they
  are at the ring's limit, so after five seconds the watchdog resets one although nothing is amiss. The same three shares fill
  three quarters of a ring of any size.\<close>

definition demo_request :: "u32 \<Rightarrow> packet" where
  "demo_request port = (packet_control Request port 7000)\<lparr>buf_alloc := 65536\<rparr>"

definition demo_three :: vsock_inner where
  "demo_three = handle 0 (handle 0 (handle 0 (vs_listen (vsock_start 0 4) 7000) (demo_request 1)) (demo_request 2)) (demo_request 3)"

definition demo_payload :: "u32 \<Rightarrow> vsock_inner \<Rightarrow> vsock_inner" where
  "demo_payload port i = fst (handle_guest_rw False (\<lambda>_. None) 0 i (packet_control Rw port 7000) (ucast port) [(4096, 10)])"

definition demo_full :: vsock_inner where
  "demo_full = demo_payload 3 (demo_payload 2 (demo_payload 1 demo_three))"

lemma demo_three_fields:
  "vi_holders demo_three = Map.empty" "vi_held demo_three = 0" "vi_tx_ring demo_three = 4" "vi_done demo_three = []" "vi_next_id demo_three = 3"
  "vi_ring_full_since demo_three = None" "vi_last_return demo_three = 0" "wc_resets (vi_warden demo_three) = 0"
  "vi_conns demo_three = [(7000, 1) \<mapsto> (conn_new 0 1 Established MIN_WINDOW 1)\<lparr>cn_credit := credit_observe credit_new 65536 0\<rparr>,
     (7000, 2) \<mapsto> (conn_new 0 2 Established MIN_WINDOW 2)\<lparr>cn_credit := credit_observe credit_new 65536 0\<rparr>,
     (7000, 3) \<mapsto> (conn_new 0 3 Established MIN_WINDOW 3)\<lparr>cn_credit := credit_observe credit_new 65536 0\<rparr>]"
  by (simp_all add: demo_three_def demo_request_def handle_def handle_observed_def handle_request_def vs_listen_def vsock_start_def vsock_new_def
      Let_def packet_control_def insert_conn_def budget_open_def put_conn_def queue_packet_def conn_new_def warden_default_def)

lemma demo_payload_fields:
  assumes "vi_conns i (7000, port) = Some c" "cn_state c = Established" "cn_held c = 0" "cn_window c = MIN_WINDOW" "vi_held i < 3" "vi_tx_ring i = 4"
  shows "\<exists>c'. vi_conns (demo_payload port i) = (vi_conns i)((7000, port) \<mapsto> c') \<and> cn_state c' = Established \<and> cn_held c' = 1 \<and>
      cn_window c' = MIN_WINDOW"
    "vi_held (demo_payload port i) = Suc (vi_held i)" "vi_tx_ring (demo_payload port i) = 4"
    "vi_holders (demo_payload port i) = (vi_holders i)(ucast port \<mapsto> ((7000, port), cn_id c))"
    "vi_ring_full_since (demo_payload port i) = vi_ring_full_since i" "vi_last_return (demo_payload port i) = vi_last_return i"
    "vi_warden (demo_payload port i) = vi_warden i"
  using assms by (auto simp: demo_payload_def handle_guest_rw_def Let_def limits_ring ring_share_def ring_limit_def packet_control_def
      touch_def put_conn_def)

lemma demo_full_fields:
  "vi_held demo_full = 3" "vi_tx_ring demo_full = 4" "vi_ring_full_since demo_full = None" "vi_last_return demo_full = 0"
  "wc_resets (vi_warden demo_full) = 0"
  "\<exists>c1 c2 c3. vi_conns demo_full = [(7000, 1) \<mapsto> c1, (7000, 2) \<mapsto> c2, (7000, 3) \<mapsto> c3] \<and>
     (\<forall>c \<in> {c1, c2, c3}. cn_state c = Established \<and> cn_held c = 1 \<and> cn_window c = MIN_WINDOW)"
proof -
  have c: "\<exists>c. vi_conns demo_three (7000, n) = Some c \<and> cn_state c = Established \<and> cn_held c = 0 \<and> cn_window c = MIN_WINDOW" if "n \<in> {1, 2, 3}" for n
    using that by (auto simp: demo_three_fields conn_new_def)
  let ?i1 = "demo_payload 1 demo_three" and ?i2 = "demo_payload 2 (demo_payload 1 demo_three)"
  obtain d1 where "vi_conns demo_three (7000, 1) = Some d1" "cn_state d1 = Established" "cn_held d1 = 0" "cn_window d1 = MIN_WINDOW" using c [of 1] by auto
  note p1 = demo_payload_fields [OF this]
  obtain c1 where c1: "vi_conns ?i1 = (vi_conns demo_three)((7000, 1) \<mapsto> c1)" "cn_state c1 = Established" "cn_held c1 = 1" "cn_window c1 = MIN_WINDOW"
    using p1(1) by (auto simp: demo_three_fields)
  have f1: "vi_held ?i1 = 1" "vi_tx_ring ?i1 = 4" "vi_ring_full_since ?i1 = None" "vi_last_return ?i1 = 0" "vi_warden ?i1 = vi_warden demo_three"
    using p1 by (simp_all add: demo_three_fields)
  obtain d2 where "vi_conns ?i1 (7000, 2) = Some d2" "cn_state d2 = Established" "cn_held d2 = 0" "cn_window d2 = MIN_WINDOW" using c [of 2] c1(1) by auto
  note p2 = demo_payload_fields [OF this]
  obtain c2 where c2: "vi_conns ?i2 = (vi_conns ?i1)((7000, 2) \<mapsto> c2)" "cn_state c2 = Established" "cn_held c2 = 1" "cn_window c2 = MIN_WINDOW"
    using p2(1) by (auto simp: f1)
  have f2: "vi_held ?i2 = 2" "vi_tx_ring ?i2 = 4" "vi_ring_full_since ?i2 = None" "vi_last_return ?i2 = 0" "vi_warden ?i2 = vi_warden demo_three"
    using p2 by (simp_all add: f1)
  obtain d3 where "vi_conns ?i2 (7000, 3) = Some d3" "cn_state d3 = Established" "cn_held d3 = 0" "cn_window d3 = MIN_WINDOW" using c [of 3] c1(1) c2(1) by auto
  note p3 = demo_payload_fields [OF this]
  obtain c3 where c3: "vi_conns demo_full = (vi_conns ?i2)((7000, 3) \<mapsto> c3)" "cn_state c3 = Established" "cn_held c3 = 1" "cn_window c3 = MIN_WINDOW"
    using p3(1) by (auto simp: f2 demo_full_def)
  show "vi_held demo_full = 3" "vi_tx_ring demo_full = 4" "vi_ring_full_since demo_full = None" "vi_last_return demo_full = 0"
    "wc_resets (vi_warden demo_full) = 0"
    using p3 by (simp_all add: f2 demo_full_def demo_three_fields)
  have "vi_conns demo_full = [(7000, 1) \<mapsto> c1, (7000, 2) \<mapsto> c2, (7000, 3) \<mapsto> c3]"
    by (simp add: c1(1) c2(1) c3(1) demo_three_fields fun_eq_iff)
  then show "\<exists>c1 c2 c3. vi_conns demo_full = [(7000, 1) \<mapsto> c1, (7000, 2) \<mapsto> c2, (7000, 3) \<mapsto> c3] \<and>
     (\<forall>c \<in> {c1, c2, c3}. cn_state c = Established \<and> cn_held c = 1 \<and> cn_window c = MIN_WINDOW)"
    using c1 c2 c3 by (intro exI [where x = c1] exI [where x = c2] exI [where x = c3]) simp
qed

lemma demo_payload_step: "vi_holders i (ucast port) = None \<Longrightarrow> vsock_step (i, fl) (demo_payload port i, fl)"
  unfolding demo_payload_def by (rule vsock_step.payload)

lemma demo_full_run: "vsock_step\<^sup>*\<^sup>* (vsock_start 0 4, []) (demo_full, [])"
proof -
  note go = rtranclp.rtrancl_into_rtrancl [of vsock_step]
  let ?i0 = "vs_listen (vsock_start 0 4) 7000"
  have r: "vsock_step\<^sup>*\<^sup>* (vsock_start 0 4, []) (?i0, [])" by (rule r_into_rtranclp) (rule vsock_step.host [OF host_step.listened])
  have s: "vsock_step (i, []) (handle 0 i (demo_request n), [])" if "vi_next_id i \<noteq> - 1" for i n using that by (rule vsock_step.packet)
  have n: "vi_next_id ?i0 = 0" "vi_next_id (handle 0 ?i0 (demo_request 1)) = 1" "vi_next_id (handle 0 (handle 0 ?i0 (demo_request 1)) (demo_request 2)) = 2"
    by (simp_all add: demo_request_def handle_def handle_observed_def handle_request_def vs_listen_def vsock_start_def vsock_new_def
      Let_def packet_control_def insert_conn_def budget_open_def put_conn_def queue_packet_def conn_new_def)
  have three: "vsock_step\<^sup>*\<^sup>* (vsock_start 0 4, []) (demo_three, [])"
    unfolding demo_three_def by (rule go [OF go [OF go [OF r s] s] s]) (simp_all add: n)
  have h: "vi_holders (demo_payload n i) m = None" if "vi_holders i m = None" "m \<noteq> ucast n" for i n m
    using that by (simp add: demo_payload_def handle_guest_rw_def Let_def case_prod_unfold split: option.split)
  show ?thesis
    unfolding demo_full_def
    by (rule go [OF go [OF go [OF three demo_payload_step] demo_payload_step] demo_payload_step]) (simp_all add: h demo_three_fields)
qed

lemma watchdog_reachable:
  "vsock_step\<^sup>*\<^sup>* (vsock_start 0 4, []) (demo_full, []) \<and> vi_held demo_full = fst (tx_limits demo_full) \<and>
   (let ks = [(7000, 1), (7000, 2), (7000, 3)]; i = fst (sweep 0 ks demo_full) in wc_resets (vi_warden (fst (sweep 5000 ks i))) = 1)"
proof -
  let ?ks = "[(7000, 1), (7000, 2), (7000, 3)] :: conn_key list"
  obtain c1 c2 c3 where c: "vi_conns demo_full = [(7000, 1) \<mapsto> c1, (7000, 2) \<mapsto> c2, (7000, 3) \<mapsto> c3]"
    and ok: "\<forall>c \<in> {c1, c2, c3}. cn_state c = Established \<and> cn_held c = 1 \<and> cn_window c = MIN_WINDOW"
    using demo_full_fields(6) by blast
  have f: "found_conns ?ks i = [((7000, 1), c1), ((7000, 2), c2), ((7000, 3), c3)]" if "vi_conns i = vi_conns demo_full" for i
    by (simp add: found_conns_def that c List.map_filter_simps)
  have n: "sweep_ended t x = False" "sweep_cut t x = False" if "x \<in> {c1, c2, c3}" for t x
    using ok that by (auto simp: sweep_ended_def sweep_cut_def)
  have s: "fst (sweep t ?ks i) = fst (watchdog t ?ks i)" if "vi_conns i = vi_conns demo_full" for t i
    by (simp add: sweep_state f [OF that] n)
  have l: "fst (tx_limits demo_full) = 3" by (simp add: limits_ring ring_limit_def demo_full_fields)
  let ?i = "demo_full\<lparr>vi_ring_full_since := Some 0\<rparr>"
  have "fst (sweep 0 ?ks demo_full) = ?i" by (simp add: s watchdog_def l demo_full_fields Let_def WATCHDOG_def)
  moreover have "wc_resets (vi_warden (fst (sweep 5000 ?ks ?i))) = 1"
  proof -
    have "\<exists>k c. worst_holder None (found_conns ?ks ?i) = Some (k, c)" using ok by (simp add: f)
    then obtain k c' where w: "worst_holder None (List.map_filter (\<lambda>k. map_option (Pair k) (vi_conns ?i k)) ?ks) = Some (k, c')"
      by (auto simp: found_conns_def)
    have "vi_warden (fst (remove_conn j key)) = vi_warden j" "vi_warden (call_socket g x j) = vi_warden j" "vi_warden (queue_packet j p) = vi_warden j" for j key g x p
      by (auto simp: remove_conn_def Let_def retire_def discard_def touch_def call_socket_def queue_packet_def split: option.split)
    then show ?thesis
      using w by (simp add: s watchdog_def l [simplified limits_ring] limits_ring demo_full_fields Let_def WATCHDOG_def warden_note_def ring_limit_def)
  qed
  ultimately show ?thesis using demo_full_run by (simp add: l demo_full_fields Let_def)
qed

end
