(* ===== verification/Spec2Isabelle.thy ===== *)
theory Spec2Isabelle
  imports Guest_Release Guest_Memory_Access Virtio_Transport Virtqueue_Walk Virtqueue_Completion Virtqueue_Events Guest_Layout Vsock_Packet Vsock_Credit Virtio_Mem_Blocks
    Virtio_Balloon Vcpu_Traps Virtio_Block_Order Memory_Policy_Run Memory_Balloon Vsock_Custody Vsock_Warden
begin

text \<open>
  \<^bold>\<open>Verification of lighter.\<close> lighter runs Linux guests on a hypervisor; the code under
  \<^verbatim>\<open>crates/lighter-vmm\<close> is the virtual machine monitor. A guest's memory access that misses its RAM
  traps; the fault is decoded and the bus hands it to the device whose window holds the address
  (\<^verbatim>\<open>bus.rs\<close>, \<^verbatim>\<open>layout.rs\<close>). Most devices sit behind the virtio-mmio transport (\<^verbatim>\<open>virtio/mmio.rs\<close>), which
  configures virtqueues (\<^verbatim>\<open>virtio/queue.rs\<close>) in guest memory (\<^verbatim>\<open>memory.rs\<close>), calls the device
  (\<^verbatim>\<open>virtio/mod.rs\<close>) and raises its interrupt line. The guest is not trusted: everything read
  from its memory may change between two reads.

  \<^bold>\<open>Conventions\<close> (\<^verbatim>\<open>Lighter_Prelude\<close>). Machine integers are words of their width. A fallible function
  returns \<open>('e, 'a) result\<close>: \<open>Ok\<close>, \<open>Err\<close>, or \<open>Panic\<close> for an abort of the process. A loop that may run for ever
  returns \<open>('e, 'a) run\<close>, whose \<open>None\<close> is not returning; its theorems say when it returns. Code outside the
  repository is a parameter: the host's memory calls (\<open>host\<close>), the hypervisor framework's calls (\<open>hv\<close>), the
  entropy pool, the GIC's sizes, the clock (\<open>clk\<close>), the environment, and the answers to
  system calls on the disk image (\<open>io\<close>), and what the guest and other threads do to shared state while a device works (\<open>guest\<close>).

  \<^bold>\<open>Guest memory\<close> (\<^verbatim>\<open>memory.rs\<close>). \<^verbatim>\<open>Guest_Memory\<close> holds the regions and every operation on them; a region
  is ready, deferred (a prefix published step by step) or filled chunk by chunk on demand.
  \<^verbatim>\<open>Byte_Store\<close> states the contract of a byte-addressed store as a locale and \<^verbatim>\<open>Guest_Memory_View\<close> interprets
  it on the regions, with the well-formedness invariant (\<open>wf_memory\<close>). \<^verbatim>\<open>Guest_Memory_Growth\<close>: adding or
  preparing RAM keeps the invariant and every byte. \<^verbatim>\<open>Guest_Memory_Access\<close>: reads return and writes change
  exactly the bytes asked for. \<^verbatim>\<open>Guest_Release\<close>: reporting free pages discards the whole host pages of the
  reported spans and nothing else.

  \<^bold>\<open>Virtqueues\<close> (\<^verbatim>\<open>virtio/queue.rs\<close>). \<^verbatim>\<open>Virtqueue\<close> models both ring layouts. \<^verbatim>\<open>Virtqueue_Walk\<close>: the descriptor walk
  ends whatever the guest writes, and is exact on well-formed chains. \<^verbatim>\<open>Virtqueue_Rings\<close>: chains are taken in
  order and each is returned at most once. \<^verbatim>\<open>Virtqueue_Completion\<close>: what a completion writes.
  \<^verbatim>\<open>Virtqueue_Events\<close>: the event index wakes the driver when it asked, once.

  \<^bold>\<open>Bus and interrupt line\<close> (\<^verbatim>\<open>bus.rs\<close>). \<^verbatim>\<open>Mmio_Fault\<close>: decoding a trap. \<^verbatim>\<open>Mmio_Bus\<close>: dispatch by window, and the two
  interrupt registers served without the device's lock, as a contract (\<open>lockfree_device\<close>).
  \<^verbatim>\<open>Interrupt_Line\<close>: the line's \<^verbatim>\<open>sync\<close> as a step relation of any number of threads. \<^verbatim>\<open>Guest_Layout\<close>: the address map.

  \<^bold>\<open>Transport and devices\<close>. \<^verbatim>\<open>Virtio_Device\<close> states what the transport needs of a device as a locale;
  \<^verbatim>\<open>Virtio_Mmio\<close> models the registers and the service loop, \<^verbatim>\<open>Virtio_Mmio_Laws\<close> proves its invariant for every
  device of that locale. \<^verbatim>\<open>Virtio_Drain\<close> is the loop shared by the devices that empty a queue (pop, handle, push,
  until nothing is left), with what it keeps. Three small devices use it and interpret the device locale:
  \<^verbatim>\<open>Virtio_Rng\<close> (\<^verbatim>\<open>virtio/rng.rs\<close>), \<^verbatim>\<open>Virtio_Balloon\<close> (\<^verbatim>\<open>virtio/balloon.rs\<close>: inflated frames are joined into runs and
  released) and \<^verbatim>\<open>Virtio_Mem\<close> (\<^verbatim>\<open>virtio/mem.rs\<close>: hotplug of blocks), whose accounting and answers are the subject of
  \<^verbatim>\<open>Virtio_Mem_Blocks\<close>. \<^verbatim>\<open>Virtio_Transport\<close> composes transport and device and interprets the bus's contract on
  the transport.

  \<^bold>\<open>Block device\<close> (\<^verbatim>\<open>virtio/disk.rs\<close>, \<^verbatim>\<open>virtio/block.rs\<close>). \<^verbatim>\<open>Disk_Image\<close>: the host file, its vectored reads and
  writes, which resume where an attempt stopped, discarding and zeroing; each loop returns unless the host
  interrupts it for ever. \<^verbatim>\<open>Virtio_Block\<close>: parsing, performing, holding requests back while the host disk is full, and the
  device, which interprets the device locale, retries included. \<^verbatim>\<open>Virtio_Block_Order\<close>: the life of the device as a step relation with a log;
  requests take effect in the order they arrived although reads pass waiting writes, the entry points are
  runs of these steps, and what is held is bounded by the rings.

  \<^bold>\<open>Vsock\<close> (\<^verbatim>\<open>virtio/vsock\<close>). \<^verbatim>\<open>Vsock_Packet\<close>: the packet header, its parser and its printer, which are
  inverse. \<^verbatim>\<open>Vsock_Credit\<close>: the credit windows of a stream in wrapping 32-bit counters; neither side
  overruns the other's buffer. \<^verbatim>\<open>Vsock_Table\<close>: the connections, the two lanes of the outbox, the transmit chains held for payloads,
  and the packets of the guest. \<^verbatim>\<open>Vsock_Host\<close>: what the host's threads do to the table, and the warden. \<^verbatim>\<open>Vsock_Device\<close>: the
  rings and the device, which interprets the device locale. \<^verbatim>\<open>Vsock_Ledger\<close> is the abstract machine of what connections share, the
  chains of the ring and the window budget, with its invariants; \<^verbatim>\<open>Vsock_Life\<close> has every operation of the table, in any order, as a step
  relation and shows that it refines the ledger. \<^verbatim>\<open>Vsock_Custody\<close>: across rings and table, no buffer of the guest is forgotten,
  whatever it submits. \<^verbatim>\<open>Vsock_Stream\<close> sees the outbox through the contract of a packet queue (\<open>packet_queue\<close>) and shows
  that a stream reaches the guest exact. \<^verbatim>\<open>Vsock_Warden\<close>: what a sweep ends and takes back. The lock of the source makes each
  operation one step; an operation that waits is given as one pass of its loop.

  \<^bold>\<open>Memory policy\<close> (\<^verbatim>\<open>memory_policy.rs\<close>, \<^verbatim>\<open>mempressure.rs\<close>). \<^verbatim>\<open>Memory_Ramp\<close>: the balloon's ramp as arithmetic, what holds it, and
  the host's sample. \<^verbatim>\<open>Memory_Range\<close>: how a line from the guest sizes its range. \<^verbatim>\<open>Memory_Policy\<close>: the policy's
  state over the balloon's and the range's transports, and all that moves it. \<^verbatim>\<open>Memory_Policy_Laws\<close> shows what
  one decision may do; \<^verbatim>\<open>Memory_Policy_Run\<close> has runs of the whole policy beside the guest as a step relation, in which the
  host's pressure stops or paces growth; \<^verbatim>\<open>Memory_Balloon\<close> shows what is asked of the balloon: a short guest
  is not squeezed, a level's cap is reached, a balloon asked for comes back. Each reading of a clock is a
  value of a parameter, and the mutexes of the source make each operation one step.

  \<^bold>\<open>Virtual processors\<close>. \<^verbatim>\<open>Psci_Smp\<close> (\<^verbatim>\<open>psci.rs\<close>, \<^verbatim>\<open>smp.rs\<close>): the power state of the cores as a step relation of the
  threads that run them; a core the guest turns on starts at the entry point asked for. \<^verbatim>\<open>Sysreg_Trap\<close>
  (\<^verbatim>\<open>sysreg.rs\<close>): decoding a trapped system register access. \<^verbatim>\<open>Vcpu_Run\<close> (\<^verbatim>\<open>vcpu.rs\<close>): the exit handler, from
  the syndrome to the register written back, and the retry of a demand fault; \<^verbatim>\<open>Vcpu_Traps\<close> shows what the
  guest observes of each trap.

  \<^bold>\<open>Fuel and bounds.\<close> No definition uses fuel. The walk's own counter, 2 * 256 + 1, bounds it. The service
  loop, the loops that empty a queue and the transfers of the disk image are partial functions; the run of a core recurses over the exits the
  framework reports.

  \<^bold>\<open>Not modelled.\<close> Host I/O (files, sockets, kqueue), FFI to Apple frameworks, generated bindings, the guest
  agent and third-party code; the threads that move bytes between a host socket and a vsock connection (\<^verbatim>\<open>pump\<close>) and the policy's lines to the agent over one, the file-system,
  network, GPU, media and USB devices; in the modelled files, debug output, counters, the unmapping when memory is dropped, the blocking waits of \<^verbatim>\<open>virtio/mem.rs\<close>
  (\<^verbatim>\<open>wait_for_backing\<close>, \<^verbatim>\<open>plug_all\<close>), and in \<^verbatim>\<open>vcpu.rs\<close> \<^verbatim>\<open>RunContext::stop\<close> and the check of total store order.
\<close>

end
